(* ===== verification/Prelude.thy ===== *)
theory Prelude
  imports Main "HOL-Library.Sublist" "HOL-Library.AList"
begin

text \<open>
  Shared vocabulary of the development: the collections of simplification rules that the
  component theories extend, the result type of fallible Go functions, and generic facts on
  lists that several components use.

  A Go function returning \<open>(T, error)\<close> is a HOL function returning \<open>'e + 'a\<close>, with \<open>Inl\<close>
  for the non-nil error and \<open>Inr\<close> for the value; the value that accompanies a non-nil error
  is not modelled because no caller in the program reads it.
\<close>

named_theorems gostr \<open>unfolding rules for the Go string primitives\<close>
named_theorems result_simps \<open>simplification rules for fallible results\<close>

type_synonym ('e, 'a) result = "'e + 'a"

section \<open>Fallible results\<close>

definition bind_result :: "('e, 'a) result \<Rightarrow> ('a \<Rightarrow> ('e, 'b) result) \<Rightarrow> ('e, 'b) result" where
  "bind_result r f = (case r of Inl e \<Rightarrow> Inl e | Inr a \<Rightarrow> f a)"

lemma bind_result_Inl [simp, result_simps]: "bind_result (Inl e) f = Inl e"
  by (simp add: bind_result_def)

lemma bind_result_Inr [simp, result_simps]: "bind_result (Inr a) f = f a"
  by (simp add: bind_result_def)

lemma bind_result_eq_Inr [result_simps]:
  "bind_result r f = Inr b \<longleftrightarrow> (\<exists>a. r = Inr a \<and> f a = Inr b)"
  by (cases r) auto

definition is_ok :: "('e, 'a) result \<Rightarrow> bool" where
  "is_ok r = (case r of Inl _ \<Rightarrow> False | Inr _ \<Rightarrow> True)"

lemma is_ok_simps [simp, result_simps]: "\<not> is_ok (Inl e)" "is_ok (Inr a)"
  by (simp_all add: is_ok_def)

lemma is_ok_iff: "is_ok r \<longleftrightarrow> (\<exists>a. r = Inr a)"
  by (cases r) auto

section \<open>Lists\<close>

text \<open>Go's \<open>appendUnique\<close> idiom: append a value unless the slice already holds it.\<close>

definition append_new :: "'a \<Rightarrow> 'a list \<Rightarrow> 'a list" where
  "append_new x xs = (if x \<in> set xs then xs else xs @ [x])"

lemma set_append_new [simp]: "set (append_new x xs) = insert x (set xs)"
  by (auto simp: append_new_def)

lemma distinct_append_new [simp]: "distinct (append_new x xs) = distinct xs"
  by (auto simp: append_new_def)

lemma takeWhile_all_not: "x \<notin> set xs \<Longrightarrow> takeWhile (\<lambda>y. y \<noteq> x) xs = xs"
  by (induction xs) auto

lemma takeWhile_not_mem: "x \<notin> set (takeWhile (\<lambda>y. y \<noteq> x) xs)"
  by (auto dest: set_takeWhileD)

lemma set_takeWhile_subset: "set (takeWhile P xs) \<subseteq> set xs"
  by (auto dest: set_takeWhileD)

lemma set_dropWhile_subset: "set (dropWhile P xs) \<subseteq> set xs"
  by (auto dest: set_dropWhileD)

lemma delete_update_fresh: "k \<notin> set (map fst xs) \<Longrightarrow> AList.delete k (AList.update k v xs) = xs"
  by (induction xs) auto

text \<open>A separator that occurs in neither tail determines the split.\<close>

lemma last_separator:
  assumes "xs @ [c] @ ys = xs' @ [c] @ ys'" "c \<notin> set ys" "c \<notin> set ys'"
  shows "xs = xs' \<and> ys = ys'"
proof -
  have "takeWhile (\<lambda>y. y \<noteq> c) (rev (xs @ [c] @ ys)) = rev ys" if "c \<notin> set ys" for xs ys :: "'a list"
    using that by (simp add: takeWhile_append takeWhile_all_not)
  then have "rev ys = rev ys'" using assms by metis
  then show ?thesis using assms(1) by simp
qed

end
