(* ===== verification/Go_Strings.thy ===== *)
theory Go_Strings
  imports Prelude
begin

text \<open>
  The parts of Go's \<open>strings\<close>, \<open>strconv\<close> and \<open>unicode/utf8\<close> packages that the program uses,
  on byte strings: a Go \<open>string\<close> is a list of bytes, and \<open>char\<close> is a byte. Indexing, cutting,
  searching and replacing are exact. \<open>strings.ToLower\<close>, \<open>strings.EqualFold\<close> and
  \<open>strings.TrimSpace\<close> are modelled on the ASCII range: a byte above 127 is left as it is,
  where Go consults the Unicode tables. Ranging over a string decodes UTF-8 as Go does, with
  U+FFFD of width one for every invalid byte.
\<close>

section \<open>Searching and cutting\<close>

definition has_prefix :: "string \<Rightarrow> string \<Rightarrow> bool" where
  "has_prefix s p = prefix p s"

definition has_suffix :: "string \<Rightarrow> string \<Rightarrow> bool" where
  "has_suffix s p = suffix p s"

definition str_contains :: "string \<Rightarrow> string \<Rightarrow> bool" where
  "str_contains s p = sublist p s"

definition trim_prefix :: "string \<Rightarrow> string \<Rightarrow> string" where
  "trim_prefix s p = (if prefix p s then drop (length p) s else s)"

definition trim_suffix :: "string \<Rightarrow> string \<Rightarrow> string" where
  "trim_suffix s p = (if suffix p s then take (length s - length p) s else s)"

fun index_char :: "char \<Rightarrow> string \<Rightarrow> nat option" where
  "index_char c [] = None"
| "index_char c (x # xs) = (if x = c then Some 0 else map_option Suc (index_char c xs))"

fun last_index_char :: "char \<Rightarrow> string \<Rightarrow> nat option" where
  "last_index_char c [] = None"
| "last_index_char c (x # xs) =
     (case last_index_char c xs of
        Some i \<Rightarrow> Some (Suc i)
      | None \<Rightarrow> (if x = c then Some 0 else None))"

definition contains_any_char :: "string \<Rightarrow> string \<Rightarrow> bool" where
  "contains_any_char s cutset = list_ex (\<lambda>c. c \<in> set cutset) s"

lemma index_char_None: "index_char c s = None \<longleftrightarrow> c \<notin> set s"
  by (induction s) auto

lemma last_index_char_None: "last_index_char c s = None \<longleftrightarrow> c \<notin> set s"
  by (induction s) (auto split: option.splits)

lemma index_char_absent [simp]: "c \<notin> set s \<Longrightarrow> index_char c s = None"
  by (simp add: index_char_None)

lemma last_index_char_absent [simp]: "c \<notin> set s \<Longrightarrow> last_index_char c s = None"
  by (simp add: last_index_char_None)

lemma index_char_Some:
  "index_char c s = Some i \<Longrightarrow> s = take i s @ c # drop (Suc i) s \<and> c \<notin> set (take i s)"
  by (induction s arbitrary: i) (auto split: if_splits)

lemma index_char_take: "index_char c s = Some i \<Longrightarrow> take i s = takeWhile (\<lambda>x. x \<noteq> c) s"
  by (induction s arbitrary: i) (auto split: if_splits)

lemma last_index_char_Some:
  "last_index_char c s = Some i \<Longrightarrow> s = take i s @ c # drop (Suc i) s \<and> c \<notin> set (drop (Suc i) s)"
proof (induction s arbitrary: i)
  case Nil
  then show ?case by simp
next
  case (Cons x xs)
  then show ?case
    by (cases "last_index_char c xs") (auto simp: last_index_char_None split: if_splits)
qed

lemma last_index_char_append:
  "c \<notin> set b \<Longrightarrow> last_index_char c (a @ c # b) = Some (length a)"
proof (induction a)
  case Nil
  then show ?case by simp
next
  case (Cons x a)
  then show ?case by simp
qed

lemma last_index_char_less: "last_index_char c s = Some i \<Longrightarrow> i < length s"
  by (induction s arbitrary: i) (auto split: option.splits if_splits)

text \<open>The em dash that some messages carry, as its three bytes.\<close>

definition em_dash :: string where
  "em_dash = map char_of [226::nat, 128, 148]"

text \<open>The line feed and the double quote, which an inner string literal cannot hold.\<close>

definition newline :: char where
  "newline = char_of (10::nat)"

definition double_quote :: char where
  "double_quote = char_of (34::nat)"

section \<open>Trimming and case\<close>

definition trim_left :: "string \<Rightarrow> string \<Rightarrow> string" where
  "trim_left s cutset = dropWhile (\<lambda>c. c \<in> set cutset) s"

definition trim_right :: "string \<Rightarrow> string \<Rightarrow> string" where
  "trim_right s cutset = rev (dropWhile (\<lambda>c. c \<in> set cutset) (rev s))"

definition trim :: "string \<Rightarrow> string \<Rightarrow> string" where
  "trim s cutset = trim_right (trim_left s cutset) cutset"

definition ascii_space :: string where
  "ascii_space = map char_of [9::nat, 10, 11, 12, 13, 32]"

definition trim_space :: "string \<Rightarrow> string" where
  "trim_space s = trim s ascii_space"

definition lower_char :: "char \<Rightarrow> char" where
  "lower_char c = (let n = of_char c :: nat in if 65 \<le> n \<and> n \<le> 90 then char_of (n + 32) else c)"

definition to_lower :: "string \<Rightarrow> string" where
  "to_lower s = map lower_char s"

definition equal_fold :: "string \<Rightarrow> string \<Rightarrow> bool" where
  "equal_fold a b = (to_lower a = to_lower b)"

lemma set_trim_subset: "set (trim s cs) \<subseteq> set s"
  by (auto simp: trim_def trim_left_def trim_right_def dest!: set_dropWhileD)

lemma trim_left_hd: "trim_left s cs \<noteq> [] \<Longrightarrow> hd (trim_left s cs) \<notin> set cs"
  unfolding trim_left_def using hd_dropWhile[of "\<lambda>c. c \<in> set cs" s] by simp

lemma trim_right_last: "trim_right s cs \<noteq> [] \<Longrightarrow> last (trim_right s cs) \<notin> set cs"
  unfolding trim_right_def using hd_dropWhile[of "\<lambda>c. c \<in> set cs" "rev s"] by (simp add: last_rev)

lemma trim_right_prefix: "prefix (trim_right s cs) s"
  unfolding trim_right_def
  by (metis suffix_dropWhile suffix_to_prefix rev_rev_ident)

lemma trim_ends:
  assumes "trim s cs \<noteq> []"
  shows "hd (trim s cs) \<notin> set cs" and "last (trim s cs) \<notin> set cs"
proof -
  let ?l = "trim_left s cs"
  have pre: "prefix (trim s cs) ?l" by (simp add: trim_def trim_right_prefix)
  with assms have "?l \<noteq> []" and "hd (trim s cs) = hd ?l"
    by (auto simp: prefix_def)
  then show "hd (trim s cs) \<notin> set cs" using trim_left_hd by simp
  show "last (trim s cs) \<notin> set cs" using assms by (simp add: trim_def trim_right_last)
qed

lemma trim_id:
  assumes "s \<noteq> []" and "hd s \<notin> set cs" and "last s \<notin> set cs"
  shows "trim s cs = s"
proof -
  have "trim_left s cs = s"
    using assms by (cases s) (auto simp: trim_left_def)
  moreover have "dropWhile (\<lambda>c. c \<in> set cs) (rev s) = rev s"
    using assms by (cases "rev s") (auto simp: hd_rev[symmetric])
  ultimately show ?thesis by (simp add: trim_def trim_right_def)
qed

lemma trim_Nil [simp]: "trim [] cs = []"
  by (simp add: trim_def trim_left_def trim_right_def)

lemma trim_idem [simp]: "trim (trim s cs) cs = trim s cs"
  by (cases "trim s cs = []") (auto simp: trim_id trim_ends)

lemma trim_space_idem [simp]: "trim_space (trim_space s) = trim_space s"
  by (simp add: trim_space_def)

lemma lower_char_idem [simp]: "lower_char (lower_char c) = lower_char c"
  by (auto simp: lower_char_def Let_def)

lemma to_lower_idem [simp]: "to_lower (to_lower s) = to_lower s"
  by (simp add: to_lower_def)

lemma to_lower_append [simp]: "to_lower (a @ b) = to_lower a @ to_lower b"
  by (simp add: to_lower_def)

section \<open>Splitting, joining, replacing\<close>

fun split_on :: "char \<Rightarrow> string \<Rightarrow> string list" where
  "split_on c [] = [[]]"
| "split_on c (x # xs) =
     (if x = c then [] # split_on c xs
      else (case split_on c xs of [] \<Rightarrow> [[x]] | y # ys \<Rightarrow> (x # y) # ys))"

fun join :: "string list \<Rightarrow> string \<Rightarrow> string" where
  "join [] sep = []"
| "join [x] sep = x"
| "join (x # y # ys) sep = x @ sep @ join (y # ys) sep"

text \<open>\<open>strings.ReplaceAll\<close> for a non-empty pattern; for an empty one Go inserts the
  replacement around every character, which no caller in the program can reach.\<close>

function replace_all :: "string \<Rightarrow> string \<Rightarrow> string \<Rightarrow> string" where
  "replace_all s old new =
     (if old = [] \<or> s = [] then s
      else if prefix old s then new @ replace_all (drop (length old) s) old new
      else hd s # replace_all (tl s) old new)"
  by pat_completeness auto
termination
  by (relation "measure (\<lambda>(s, _, _). length s)") auto

declare replace_all.simps [simp del]

lemma split_on_not_Nil [simp]: "split_on c s \<noteq> []"
  by (induction s) (auto split: list.splits)

lemma join_Cons: "xs \<noteq> [] \<Longrightarrow> join (x # xs) sep = x @ sep @ join xs sep"
  by (cases xs) auto

lemma join_split_on [simp]: "join (split_on c s) [c] = s"
proof (induction s)
  case Nil
  then show ?case by simp
next
  case (Cons x xs)
  obtain y ys where yy: "split_on c xs = y # ys" by (cases "split_on c xs") auto
  show ?case
  proof (cases "x = c")
    case True
    with Cons yy show ?thesis by (simp add: join_Cons)
  next
    case False
    with Cons yy show ?thesis by (cases ys) auto
  qed
qed

lemma split_on_no_sep: "x \<in> set (split_on c s) \<Longrightarrow> c \<notin> set x"
proof (induction s arbitrary: x)
  case Nil
  then show ?case by simp
next
  case (Cons a s)
  obtain y ys where "split_on c s = y # ys" by (cases "split_on c s") auto
  with Cons show ?case by (auto split: if_splits)
qed

lemma split_on_append:
  "split_on c (a @ c # b) = split_on c a @ split_on c b"
proof (induction a)
  case Nil
  then show ?case by simp
next
  case (Cons x a)
  then show ?case by (cases "split_on c a") auto
qed

lemma split_on_id: "c \<notin> set s \<Longrightarrow> split_on c s = [s]"
  by (induction s) auto

lemma split_on_join:
  assumes "xs \<noteq> []" and "\<And>x. x \<in> set xs \<Longrightarrow> c \<notin> set x"
  shows "split_on c (join xs [c]) = xs"
  using assms
proof (induction xs)
  case Nil
  then show ?case by simp
next
  case (Cons x xs)
  then show ?case
    by (cases xs) (auto simp: split_on_id split_on_append)
qed

lemma split_on_inj: "split_on c a = split_on c b \<Longrightarrow> a = b"
  by (metis join_split_on)

lemma join_append:
  "xs \<noteq> [] \<Longrightarrow> ys \<noteq> [] \<Longrightarrow> join (xs @ ys) sep = join xs sep @ sep @ join ys sep"
proof (induction xs)
  case Nil
  then show ?case by simp
next
  case (Cons x xs)
  then show ?case by (cases "xs = []") (auto simp: join_Cons)
qed

text \<open>\<open>strings.Cut\<close> at a single byte, and \<open>%d\<close> formatting.\<close>

definition cut_at :: "char \<Rightarrow> string \<Rightarrow> (string \<times> string) option" where
  "cut_at c s = (case index_char c s of
     None \<Rightarrow> None
   | Some i \<Rightarrow> Some (take i s, drop (Suc i) s))"

fun show_nat :: "nat \<Rightarrow> string" where
  "show_nat n = (if n < 10 then [char_of (48 + n)]
                 else show_nat (n div 10) @ [char_of (48 + n mod 10)])"

declare show_nat.simps [simp del]

definition show_int :: "int \<Rightarrow> string" where
  "show_int i = (if i < 0 then CHR ''-'' # show_nat (nat (- i)) else show_nat (nat i))"

section \<open>Ranging over a string: UTF-8 decoding\<close>

definition is_cont :: "nat \<Rightarrow> bool" where
  "is_cont b = (128 \<le> b \<and> b \<le> 191)"

definition rune_error :: nat where
  "rune_error = 65533"

text \<open>Decode the first rune of \<open>b # bs\<close>: its value and how many bytes of \<open>bs\<close> it takes.
  The accepted range of the second byte depends on the first, as in \<open>utf8.acceptRanges\<close>.\<close>

definition second_ok :: "nat \<Rightarrow> nat \<Rightarrow> bool" where
  "second_ok b b1 =
     (if b = 224 then 160 \<le> b1 \<and> b1 \<le> 191
      else if b = 237 then 128 \<le> b1 \<and> b1 \<le> 159
      else if b = 240 then 144 \<le> b1 \<and> b1 \<le> 191
      else if b = 244 then 128 \<le> b1 \<and> b1 \<le> 143
      else is_cont b1)"

definition decode_rune :: "nat \<Rightarrow> nat list \<Rightarrow> nat \<times> nat" where
  "decode_rune b bs =
     (if b < 128 then (b, 0)
      else if b < 194 \<or> 244 < b then (rune_error, 0)
      else if b < 224 then
        (case bs of
           b1 # _ \<Rightarrow> if is_cont b1 then ((b - 192) * 64 + (b1 - 128), 1) else (rune_error, 0)
         | _ \<Rightarrow> (rune_error, 0))
      else if b < 240 then
        (case bs of
           b1 # b2 # _ \<Rightarrow>
             if second_ok b b1 \<and> is_cont b2
             then ((b - 224) * 4096 + (b1 - 128) * 64 + (b2 - 128), 2) else (rune_error, 0)
         | _ \<Rightarrow> (rune_error, 0))
      else
        (case bs of
           b1 # b2 # b3 # _ \<Rightarrow>
             if second_ok b b1 \<and> is_cont b2 \<and> is_cont b3
             then ((b - 240) * 262144 + (b1 - 128) * 4096 + (b2 - 128) * 64 + (b3 - 128), 3)
             else (rune_error, 0)
         | _ \<Rightarrow> (rune_error, 0)))"

function runes_of_bytes :: "nat list \<Rightarrow> nat list" where
  "runes_of_bytes [] = []"
| "runes_of_bytes (b # bs) =
     fst (decode_rune b bs) # runes_of_bytes (drop (snd (decode_rune b bs)) bs)"
  by pat_completeness auto
termination
  by (relation "measure length") auto

definition runes :: "string \<Rightarrow> nat list" where
  "runes s = runes_of_bytes (map of_char s)"

definition is_ascii :: "string \<Rightarrow> bool" where
  "is_ascii s = list_all (\<lambda>c. (of_char c :: nat) < 128) s"

lemma runes_Nil [simp]: "runes [] = []"
  by (simp add: runes_def)

lemma runes_ascii: "is_ascii s \<Longrightarrow> runes s = map of_char s"
  by (induction s) (auto simp: runes_def is_ascii_def decode_rune_def)

lemma runes_eq_Nil [simp]: "runes s = [] \<longleftrightarrow> s = []"
  by (cases s) (auto simp: runes_def)

section \<open>Occurrences survive replacement only through the replacement\<close>

text \<open>A window that contains none of two bracket characters lies in one of the pieces that the
  brackets delimit. This is what makes redaction by a bracketed marker sound.\<close>

lemma sublist_no_char_split:
  assumes "sublist w (a @ c # b)" and "c \<notin> set w"
  shows "sublist w a \<or> sublist w b"
proof -
  from assms(1) obtain p q where eq: "a @ c # b = p @ w @ q" by (auto simp: sublist_def)
  show ?thesis
  proof (cases "length (p @ w) \<le> length a")
    case True
    then have "p @ w = take (length (p @ w)) a"
      using eq by (metis append.assoc append_eq_append_conv_if append_take_drop_id)
    then have "a = p @ w @ drop (length (p @ w)) a" by (metis append.assoc append_take_drop_id)
    then show ?thesis by (auto simp: sublist_def)
  next
    case False
    have "length a < length p \<or> length p \<le> length a" by arith
    then show ?thesis
    proof
      assume lt: "length a < length p"
      from eq lt obtain p' where "p = a @ c # p'"
        by (auto simp: append_eq_append_conv2 Cons_eq_append_conv)
      with eq show ?thesis by (auto simp: sublist_def)
    next
      assume le: "length p \<le> length a"
      have "(a @ c # b) ! length a = c" by simp
      moreover have "(p @ w @ q) ! length a = w ! (length a - length p)"
        using False le by (auto simp: nth_append)
      ultimately have "c = w ! (length a - length p)" using eq by simp
      moreover have "length a - length p < length w" using False le by auto
      ultimately have "c \<in> set w" by (metis nth_mem)
      with assms(2) show ?thesis by simp
    qed
  qed
qed

lemma replace_all_shape:
  assumes w: "w \<noteq> []" "CHR ''['' \<notin> set w" "CHR '']'' \<notin> set w" "\<not> sublist w m"
  shows "\<exists>a tail. replace_all s w (CHR ''['' # m @ '']'') = a @ tail \<and> prefix a s \<and> \<not> sublist w a \<and>
    (tail = [] \<or> (\<exists>rest. tail = CHR ''['' # m @ CHR '']'' # rest \<and> \<not> sublist w rest)) \<and>
    \<not> sublist w (a @ tail)"
proof (induction s rule: measure_induct_rule[of length])
  case (less s)
  have done_if: "\<not> sublist w (a @ CHR ''['' # m @ CHR '']'' # rest)"
    if "\<not> sublist w a" "\<not> sublist w rest" for a rest
    using that w sublist_no_char_split[of w a "CHR ''[''" "m @ CHR '']'' # rest"]
      sublist_no_char_split[of w m "CHR '']''" rest] by blast
  show ?case
  proof (cases "s = []")
    case True
    then show ?thesis using w(1) by (simp add: replace_all.simps)
  next
    case ne: False
    show ?thesis
    proof (cases "prefix w s")
      case True
      obtain a tail where at: "replace_all (drop (length w) s) w (CHR ''['' # m @ '']'') = a @ tail"
        "\<not> sublist w (a @ tail)"
        using less.IH[of "drop (length w) s"] w(1) ne by auto
      have "replace_all s w (CHR ''['' # m @ '']'') = [] @ CHR ''['' # m @ CHR '']'' # (a @ tail)"
        using True ne w(1) at(1) by (simp add: replace_all.simps[of s])
      moreover have "\<not> sublist w ([] @ CHR ''['' # m @ CHR '']'' # (a @ tail))"
        by (rule done_if) (use w(1) at(2) in auto)
      ultimately show ?thesis using w(1) at(2)
        by (intro exI[of _ "[]"] exI[of _ "CHR ''['' # m @ CHR '']'' # (a @ tail)"]) auto
    next
      case False
      obtain x t where s: "s = x # t" using ne by (cases s) auto
      obtain a tail where at: "replace_all t w (CHR ''['' # m @ '']'') = a @ tail" "prefix a t" "\<not> sublist w a"
        "tail = [] \<or> (\<exists>rest. tail = CHR ''['' # m @ CHR '']'' # rest \<and> \<not> sublist w rest)"
        using less.IH[of t] s by auto
      have pre: "prefix (x # a) s" using at(2) s by simp
      have "\<not> prefix w (x # a)" using False pre prefix_order.order_trans by blast
      then have na: "\<not> sublist w (x # a)" using at(3) by (simp add: sublist_Cons_right)
      have "\<not> sublist w ((x # a) @ tail)"
        using at(4)
      proof (elim disjE exE conjE)
        fix rest
        assume "tail = CHR ''['' # m @ CHR '']'' # rest" "\<not> sublist w rest"
        then show ?thesis using done_if[OF na, of rest] by simp
      qed (use na in simp)
      moreover have "replace_all s w (CHR ''['' # m @ '']'') = (x # a) @ tail"
        using False s w(1) at(1) by (simp add: replace_all.simps[of "x # t"])
      ultimately show ?thesis using pre na at(4) by blast
    qed
  qed
qed

lemma replace_all_removes:
  assumes "w \<noteq> []" "CHR ''['' \<notin> set w" "CHR '']'' \<notin> set w" "\<not> sublist w m"
  shows "\<not> sublist w (replace_all s w (CHR ''['' # m @ '']''))"
  using replace_all_shape[OF assms, of s] by metis

lemma replace_all_absent: "\<not> sublist w s \<Longrightarrow> replace_all s w new = s"
proof (induction s rule: measure_induct_rule[of length])
  case (less s)
  show ?case
  proof (cases s)
    case Nil
    then show ?thesis by (simp add: replace_all.simps)
  next
    case (Cons x t)
    then have "\<not> prefix w s" "\<not> sublist w t" using less.prems by (auto simp: sublist_Cons_right)
    then show ?thesis using less.IH[of t] Cons by (simp add: replace_all.simps[of "x # t"])
  qed
qed

lemma bracketed_absent:
  assumes w: "w \<noteq> []" "CHR ''['' \<notin> set w" "CHR '']'' \<notin> set w" "\<not> sublist w m" and a: "\<not> sublist w a"
    and t: "tail = [] \<or> (\<exists>rest. tail = CHR ''['' # m @ CHR '']'' # rest \<and> \<not> sublist w rest)"
  shows "\<not> sublist w (a @ tail)"
  using t
proof (elim disjE exE conjE)
  fix rest
  assume r: "tail = CHR ''['' # m @ CHR '']'' # rest" "\<not> sublist w rest"
  have "\<not> sublist w (m @ CHR '']'' # rest)" using sublist_no_char_split[OF _ w(3)] w(4) r(2) by blast
  then show ?thesis using sublist_no_char_split[OF _ w(2)] a r(1) by blast
qed (use a in simp)

text \<open>Replacing something else by the bracketed marker brings no new occurrence of \<open>w\<close>.\<close>

lemma replace_all_keeps_absent:
  assumes w: "w \<noteq> []" "CHR ''['' \<notin> set w" "CHR '']'' \<notin> set w" "\<not> sublist w m" and "\<not> sublist w s"
  shows "\<not> sublist w (replace_all s old (CHR ''['' # m @ '']''))"
proof -
  have shape: "\<exists>a tail. replace_all s old (CHR ''['' # m @ '']'') = a @ tail \<and> prefix a s \<and>
      (tail = [] \<or> (\<exists>rest. tail = CHR ''['' # m @ CHR '']'' # rest \<and> \<not> sublist w rest))"
    using \<open>\<not> sublist w s\<close>
  proof (induction s rule: measure_induct_rule[of length])
    case (less s)
    consider "old = [] \<or> s = []" | "old \<noteq> []" "s \<noteq> []" "prefix old s" | "old \<noteq> []" "s \<noteq> []" "\<not> prefix old s" by blast
    then show ?case
    proof cases
      case 1
      then show ?thesis by (intro exI[of _ s] exI[of _ "[]"]) (simp add: replace_all.simps)
    next
      case 2
      let ?t = "drop (length old) s"
      have t: "\<not> sublist w ?t" using less.prems suffix_drop suffix_imp_sublist sublist_order.order_trans by blast
      obtain a tail where at: "replace_all ?t old (CHR ''['' # m @ '']'') = a @ tail" "prefix a ?t"
          "tail = [] \<or> (\<exists>rest. tail = CHR ''['' # m @ CHR '']'' # rest \<and> \<not> sublist w rest)"
        using less.IH[OF _ t] 2 by auto
      have a: "\<not> sublist w a" using at(2) t prefix_imp_sublist sublist_order.order_trans by blast
      have "\<not> sublist w (a @ tail)" using at(3) by (rule bracketed_absent[OF w a])
      moreover have "replace_all s old (CHR ''['' # m @ '']'') = [] @ CHR ''['' # m @ CHR '']'' # (a @ tail)"
        using 2 at(1) by (simp add: replace_all.simps[of s])
      ultimately show ?thesis by (intro exI[of _ "[]"] exI[of _ "CHR ''['' # m @ CHR '']'' # (a @ tail)"]) simp
    next
      case 3
      obtain x t where s: "s = x # t" using 3 by (cases s) auto
      have t: "\<not> sublist w t" using less.prems s by (simp add: sublist_Cons_right)
      obtain a tail where at: "replace_all t old (CHR ''['' # m @ '']'') = a @ tail" "prefix a t"
          "tail = [] \<or> (\<exists>rest. tail = CHR ''['' # m @ CHR '']'' # rest \<and> \<not> sublist w rest)"
        using less.IH[OF _ t] s by auto
      have "replace_all s old (CHR ''['' # m @ '']'') = (x # a) @ tail"
        using 3 s at(1) by (simp add: replace_all.simps[of "x # t"])
      then show ?thesis using at(2,3) s by (intro exI[of _ "x # a"] exI[of _ tail]) simp
    qed
  qed
  then obtain a tail where at: "replace_all s old (CHR ''['' # m @ '']'') = a @ tail" "prefix a s"
      "tail = [] \<or> (\<exists>rest. tail = CHR ''['' # m @ CHR '']'' # rest \<and> \<not> sublist w rest)" by blast
  have a: "\<not> sublist w a" using at(2) assms(5) prefix_imp_sublist sublist_order.order_trans by blast
  show ?thesis
    unfolding at(1) using at(3) by (rule bracketed_absent[OF w a])
qed

end
