(* ===== verification/Go_Paths.thy ===== *)
theory Go_Paths
  imports Go_Strings
begin

text \<open>
  The part of \<open>path\<close> and \<open>path/filepath\<close> the program uses, on slash-separated paths: the lexical
  \<open>Clean\<close> as a pass over the segments with a stack, \<open>Join\<close>, \<open>Base\<close>, \<open>Dir\<close> and \<open>IsAbs\<close>. The
  lemmas describe a cleaned path by its segments, which is what containment arguments rest on.
\<close>

section \<open>Definitions\<close>

fun clean_segs :: "bool \<Rightarrow> string list \<Rightarrow> string list \<Rightarrow> string list" where
  "clean_segs rooted [] st = rev st"
| "clean_segs rooted (s # ss) st =
     (if s = [] \<or> s = ''.'' then clean_segs rooted ss st
      else if s = ''..'' then
        (case st of
           [] \<Rightarrow> clean_segs rooted ss (if rooted then [] else [''..''])
         | t # ts \<Rightarrow> clean_segs rooted ss (if t = ''..'' then s # st else ts))
      else clean_segs rooted ss (s # st))"

definition rooted :: "string \<Rightarrow> bool" where
  "rooted p = has_prefix p ''/''"

definition path_segs :: "string \<Rightarrow> string list" where
  "path_segs p = clean_segs (rooted p) (split_on CHR ''/'' p) []"

definition render_path :: "bool \<Rightarrow> string list \<Rightarrow> string" where
  "render_path r segs =
     (if r then CHR ''/'' # join segs ''/''
      else if segs = [] then ''.'' else join segs ''/'')"

definition path_clean :: "string \<Rightarrow> string" where
  "path_clean p = render_path (rooted p) (path_segs p)"

definition path_join :: "string list \<Rightarrow> string" where
  "path_join es = (case dropWhile (\<lambda>e. e = []) es of
     [] \<Rightarrow> []
   | fs \<Rightarrow> path_clean (join fs ''/''))"

definition path_base :: "string \<Rightarrow> string" where
  "path_base p =
     (if p = [] then ''.''
      else let q = trim_right p ''/'' in
        if q = [] then ''/''
        else case last_index_char CHR ''/'' q of Some i \<Rightarrow> drop (Suc i) q | None \<Rightarrow> q)"

definition path_dir :: "string \<Rightarrow> string" where
  "path_dir p = (case last_index_char CHR ''/'' p of
     Some i \<Rightarrow> path_clean (take (Suc i) p)
   | None \<Rightarrow> ''.'')"

text \<open>\<open>Rel\<close> for two absolute paths: up to the common ancestor, then down.\<close>

fun strip_common :: "string list \<Rightarrow> string list \<Rightarrow> string list \<times> string list" where
  "strip_common (a # as) (b # bs) = (if a = b then strip_common as bs else (a # as, b # bs))"
| "strip_common as bs = (as, bs)"

definition path_rel :: "string \<Rightarrow> string \<Rightarrow> string" where
  "path_rel base targ =
     (case strip_common (path_segs base) (path_segs targ) of
        (up, down) \<Rightarrow> render_path False (replicate (length up) ''..'' @ down))"

definition escapes_upwards :: "string \<Rightarrow> bool" where
  "escapes_upwards rel = (rel = ''..'' \<or> has_prefix rel ''../'')"

section \<open>The segments of a cleaned path\<close>

definition normal_seg :: "string \<Rightarrow> bool" where
  "normal_seg s = (s \<noteq> [] \<and> s \<noteq> ''.'' \<and> s \<noteq> ''..'' \<and> CHR ''/'' \<notin> set s)"

lemma normal_seg_simps [simp]:
  "\<not> normal_seg []" "\<not> normal_seg ''.''" "\<not> normal_seg ''..''"
  by (simp_all add: normal_seg_def)

lemma clean_segs_normal [simp]:
  "\<forall>s\<in>set ss. normal_seg s \<Longrightarrow> clean_segs r ss st = rev st @ ss"
  by (induction ss arbitrary: st) (auto simp: normal_seg_def)

lemma clean_segs_append:
  "clean_segs r (as @ bs) st = clean_segs r bs (rev (clean_segs r as st))"
  by (induction r as st rule: clean_segs.induct) (auto split: list.splits)

text \<open>A cleaned path is a run of parent references, empty when it is rooted, and then names.\<close>

definition ups_form :: "bool \<Rightarrow> string list \<Rightarrow> bool" where
  "ups_form r xs = (\<exists>n ns. xs = replicate n ''..'' @ ns \<and> (\<forall>s\<in>set ns. normal_seg s) \<and> (r \<longrightarrow> n = 0))"

lemma ups_form_Nil [simp]: "ups_form r []"
  unfolding ups_form_def by (intro exI[of _ 0] exI[of _ "[]"]) simp

lemma ups_form_snoc:
  assumes "ups_form r xs" "normal_seg s"
  shows "ups_form r (xs @ [s])"
proof -
  obtain n ns where "xs = replicate n ''..'' @ ns" "\<forall>s\<in>set ns. normal_seg s" "r \<longrightarrow> n = 0"
    using assms(1) unfolding ups_form_def by blast
  then show ?thesis
    unfolding ups_form_def using assms(2) by (intro exI[of _ n] exI[of _ "ns @ [s]"]) auto
qed

lemma ups_form_up:
  assumes "ups_form r xs" "xs = [] \<or> last xs = ''..''" "\<not> r"
  shows "ups_form r (xs @ [''..''])"
proof -
  obtain n ns where n: "xs = replicate n ''..'' @ ns" "\<forall>s\<in>set ns. normal_seg s"
    using assms(1) unfolding ups_form_def by blast
  have "ns = []"
    using n assms(2) by (cases ns rule: rev_cases) auto
  then show ?thesis
    unfolding ups_form_def using n assms(3)
    by (intro exI[of _ "Suc n"] exI[of _ "[]"]) (simp add: replicate_append_same)
qed

lemma ups_form_butlast:
  assumes "ups_form r xs"
  shows "ups_form r (butlast xs)"
proof -
  obtain n ns where n: "xs = replicate n ''..'' @ ns" "\<forall>s\<in>set ns. normal_seg s" "r \<longrightarrow> n = 0"
    using assms(1) unfolding ups_form_def by blast
  show ?thesis
  proof (cases "ns = []")
    case True
    then show ?thesis unfolding ups_form_def using n
      by (intro exI[of _ "n - 1"] exI[of _ "[]"]) (cases n, auto simp: replicate_append_same[symmetric] butlast_append)
  next
    case False
    then show ?thesis unfolding ups_form_def using n
      by (intro exI[of _ n] exI[of _ "butlast ns"]) (auto simp: butlast_append dest: in_set_butlastD)
  qed
qed

lemma ups_form_rooted: "ups_form True xs \<Longrightarrow> \<forall>s\<in>set xs. normal_seg s"
  unfolding ups_form_def by auto

lemma clean_segs_form:
  "\<forall>s\<in>set ss. CHR ''/'' \<notin> set s \<Longrightarrow> ups_form r (rev st) \<Longrightarrow> ups_form r (clean_segs r ss st)"
proof (induction ss arbitrary: st)
  case Nil
  then show ?case by simp
next
  case (Cons s ss)
  consider "s = [] \<or> s = ''.''" | "s = ''..''" | "s \<noteq> []" "s \<noteq> ''.''" "s \<noteq> ''..''" by blast
  then show ?case
  proof cases
    case 1
    then show ?thesis using Cons by auto
  next
    case 2
    show ?thesis
    proof (cases st)
      case Nil
      then show ?thesis using Cons 2 ups_form_up[of r "[]"] by (cases r) auto
    next
      case (Cons t ts)
      have "ups_form r (rev ts)" using Cons.prems(2) ups_form_butlast[of r "rev st"] Cons by simp
      moreover have "ups_form r (rev (s # st))" if "t = ''..''"
      proof -
        have "\<not> r" using ups_form_rooted[of "rev st"] Cons.prems(2) Cons that by (cases r) auto
        then show ?thesis using ups_form_up[of r "rev st"] Cons.prems(2) Cons 2 that by simp
      qed
      ultimately show ?thesis using Cons.IH Cons.prems(1) 2 Cons by auto
    qed
  next
    case 3
    then have "normal_seg s" using Cons.prems(1) by (simp add: normal_seg_def)
    then have "ups_form r (rev (s # st))" using ups_form_snoc[OF Cons.prems(2)] by simp
    then show ?thesis using Cons.IH Cons.prems(1) 3 by auto
  qed
qed

lemma path_segs_form: "ups_form (rooted p) (path_segs p)"
  unfolding path_segs_def by (rule clean_segs_form) (auto dest: split_on_no_sep)

lemma path_segs_rooted: "rooted p \<Longrightarrow> \<forall>s\<in>set (path_segs p). normal_seg s"
  using path_segs_form[of p] ups_form_rooted by simp

lemma path_segs_cases: "s \<in> set (path_segs p) \<Longrightarrow> s = ''..'' \<or> normal_seg s"
  using path_segs_form[of p] unfolding ups_form_def by auto

lemma path_segs_no_slash: "s \<in> set (path_segs p) \<Longrightarrow> CHR ''/'' \<notin> set s"
  by (drule path_segs_cases) (elim disjE, simp_all add: normal_seg_def)

lemma path_segs_nonempty: "s \<in> set (path_segs p) \<Longrightarrow> s \<noteq> []"
  by (drule path_segs_cases) (elim disjE, simp_all add: normal_seg_def)

text \<open>A path leads upwards when its first segment is a parent reference.\<close>

definition leads_up :: "string \<Rightarrow> bool" where
  "leads_up p = (path_segs p \<noteq> [] \<and> hd (path_segs p) = ''..'')"

lemma path_segs_normal: "\<not> leads_up p \<Longrightarrow> \<forall>s\<in>set (path_segs p). normal_seg s"
proof -
  assume "\<not> leads_up p"
  moreover obtain n ns where n: "path_segs p = replicate n ''..'' @ ns" "\<forall>s\<in>set ns. normal_seg s"
    using path_segs_form[of p] unfolding ups_form_def by blast
  ultimately have "n = 0" by (cases n) (auto simp: leads_up_def)
  then show ?thesis using n by simp
qed

section \<open>Cleaning and joining\<close>

lemma rooted_Cons [simp]: "rooted (c # p) \<longleftrightarrow> c = CHR ''/''"
  by (auto simp: rooted_def has_prefix_def)

lemma rooted_Nil [simp]: "\<not> rooted []"
  by (simp add: rooted_def has_prefix_def)

lemma rooted_append [simp]: "p \<noteq> [] \<Longrightarrow> rooted (p @ q) \<longleftrightarrow> rooted p"
  by (cases p) simp_all

lemma rooted_obtain: "rooted p \<Longrightarrow> \<exists>q. p = CHR ''/'' # q"
  by (cases p) auto

lemma split_on_join_segs:
  "segs \<noteq> [] \<Longrightarrow> (\<And>s. s \<in> set segs \<Longrightarrow> CHR ''/'' \<notin> set s) \<Longrightarrow> split_on CHR ''/'' (join segs ''/'') = segs"
  by (rule split_on_join)

lemma path_segs_render:
  assumes "\<forall>s\<in>set segs. normal_seg s"
  shows "path_segs (render_path True segs) = segs"
proof (cases "segs = []")
  case True
  then show ?thesis by (simp add: path_segs_def render_path_def)
next
  case False
  have "split_on CHR ''/'' (CHR ''/'' # join segs ''/'') = [] # segs"
    using split_on_append[of "CHR ''/''" "[]" "join segs ''/''"]
      split_on_join_segs[OF False] assms by (simp add: normal_seg_def)
  then show ?thesis using assms by (simp add: path_segs_def render_path_def)
qed

lemma path_clean_rooted: "rooted p \<Longrightarrow> path_clean p = render_path True (path_segs p)"
  by (simp add: path_clean_def)

lemma rooted_render [simp]: "rooted (render_path True segs)"
  by (simp add: render_path_def)

lemma rooted_path_clean: "rooted p \<Longrightarrow> rooted (path_clean p)"
  by (simp add: path_clean_rooted)

lemma path_segs_path_clean: "rooted p \<Longrightarrow> path_segs (path_clean p) = path_segs p"
  by (simp add: path_clean_rooted path_segs_render path_segs_rooted)

lemma path_clean_idem: "rooted p \<Longrightarrow> path_clean (path_clean p) = path_clean p"
  by (simp add: path_clean_rooted path_segs_render path_segs_rooted)

text \<open>A cleaned absolute path is determined by its segments.\<close>

definition abs_clean :: "string \<Rightarrow> bool" where
  "abs_clean p = (rooted p \<and> path_clean p = p)"

lemma abs_clean_render: "abs_clean p \<Longrightarrow> p = render_path True (path_segs p)"
  unfolding abs_clean_def by (metis path_clean_rooted)

lemma abs_clean_path_clean: "rooted p \<Longrightarrow> abs_clean (path_clean p)"
  by (simp add: abs_clean_def rooted_path_clean path_clean_idem)

lemma abs_clean_inj: "abs_clean p \<Longrightarrow> abs_clean q \<Longrightarrow> path_segs p = path_segs q \<Longrightarrow> p = q"
  by (metis abs_clean_render)

lemma abs_clean_segs: "abs_clean p \<Longrightarrow> \<forall>s\<in>set (path_segs p). normal_seg s"
  unfolding abs_clean_def using path_segs_rooted by blast

lemma abs_clean_render_path: "\<forall>s\<in>set segs. normal_seg s \<Longrightarrow> abs_clean (render_path True segs)"
  by (simp add: abs_clean_def path_clean_rooted path_segs_render)

lemma render_path_inj:
  "\<forall>s\<in>set a. normal_seg s \<Longrightarrow> \<forall>s\<in>set b. normal_seg s \<Longrightarrow>
     render_path True a = render_path True b \<longleftrightarrow> a = b"
  by (metis path_segs_render)

lemma path_segs_append:
  assumes "rooted p"
  shows "path_segs (p @ CHR ''/'' # q) = clean_segs True (split_on CHR ''/'' q) (rev (path_segs p))"
proof -
  have "p \<noteq> []" using assms by auto
  then show ?thesis
    using assms by (simp add: path_segs_def split_on_append clean_segs_append)
qed

lemma clean_segs_join:
  assumes "\<forall>s\<in>set segs. normal_seg s"
  shows "clean_segs r (split_on CHR ''/'' (join segs ''/'')) st = rev st @ segs"
proof (cases "segs = []")
  case False
  then show ?thesis using split_on_join_segs[OF False] assms by (simp add: normal_seg_def)
qed simp

lemma path_join_two:
  assumes "rooted root"
  shows "path_join [root, p] = path_clean (root @ CHR ''/'' # p)"
  using assms by (auto simp: path_join_def)

lemma path_join_root_segs:
  assumes "abs_clean root" "\<forall>s\<in>set segs. normal_seg s"
  shows "path_join [root, join segs ''/''] = render_path True (path_segs root @ segs)"
proof -
  have r: "rooted root" using assms(1) by (simp add: abs_clean_def)
  then have "root \<noteq> []" by auto
  with r assms(2) show ?thesis
    by (simp add: path_join_two path_clean_rooted path_segs_append clean_segs_join)
qed

text \<open>Joining plain names only puts separators between them.\<close>

lemma path_join_names:
  assumes "normal_seg a" "normal_seg b"
  shows "path_join [a, b] = join [a, b] ''/''"
proof -
  have ne: "a \<noteq> []" "b \<noteq> []" "\<not> rooted a" using assms by (auto simp: normal_seg_def intro: list.exhaust[of a])
  have "split_on CHR ''/'' (join [a, b] ''/'') = [a, b]"
    by (rule split_on_join_segs) (use assms in \<open>auto simp: normal_seg_def\<close>)
  moreover have "\<not> rooted (join [a, b] ''/'')" using ne by simp
  moreover have "clean_segs False [a, b] [] = [a, b]"
    using assms by (subst clean_segs_normal) simp_all
  ultimately have "path_clean (join [a, b] ''/'') = join [a, b] ''/''"
    by (simp add: path_clean_def path_segs_def render_path_def del: clean_segs.simps)
  then show ?thesis using ne by (simp add: path_join_def)
qed

lemma leads_up_prefix:
  "leads_up p \<Longrightarrow> path_clean p = ''..'' \<or> has_prefix (path_clean p) ''../''"
proof -
  assume up: "leads_up p"
  then have "\<not> rooted p" using path_segs_rooted[of p] unfolding leads_up_def by (cases "path_segs p") auto
  then obtain rest where "path_clean p = join (''..'' # rest) ''/''"
    using up unfolding leads_up_def path_clean_def render_path_def by (cases "path_segs p") auto
  then show ?thesis by (cases rest) (auto simp: has_prefix_def)
qed

lemma join_normal_no_up:
  assumes "\<forall>s\<in>set segs. normal_seg s"
  shows "join segs ''/'' \<noteq> ''..'' \<and> \<not> has_prefix (join segs ''/'') ''../''"
proof (cases "segs = []")
  case True
  then show ?thesis by (simp add: has_prefix_def)
next
  case False
  have sp: "split_on CHR ''/'' (join segs ''/'') = segs"
    using split_on_join_segs[OF False] assms by (simp add: normal_seg_def)
  have "\<not> has_prefix (join segs ''/'') ''../''"
  proof
    assume "has_prefix (join segs ''/'') ''../''"
    then obtain q where "join segs ''/'' = ''..'' @ CHR ''/'' # q" by (auto simp: has_prefix_def prefix_def)
    then have "segs = split_on CHR ''/'' ''..'' @ split_on CHR ''/'' q"
      using sp split_on_append[of "CHR ''/''" "''..''" q] by simp
    then show False using assms by simp
  qed
  moreover have "join segs ''/'' \<noteq> ''..''"
  proof
    assume "join segs ''/'' = ''..''"
    then have "segs = [''..'']" using sp by simp
    then show False using assms by simp
  qed
  ultimately show ?thesis by blast
qed

lemma not_rooted_join:
  assumes "\<forall>s\<in>set segs. s \<noteq> [] \<and> CHR ''/'' \<notin> set s"
  shows "\<not> rooted (join segs ''/'')"
proof (cases segs)
  case (Cons x xs)
  then have x: "x \<noteq> []" "\<not> rooted x" using assms by (auto intro: list.exhaust[of x])
  then show ?thesis using Cons by (cases xs) auto
qed simp

lemma rooted_path_clean_iff [simp]: "rooted (path_clean p) = rooted p"
proof (cases "rooted p")
  case False
  then have "path_clean p = ''.'' \<or> path_clean p = join (path_segs p) ''/''"
    by (simp add: path_clean_def render_path_def)
  moreover have "\<not> rooted (join (path_segs p) ''/'')"
    by (rule not_rooted_join) (auto dest: path_segs_nonempty path_segs_no_slash)
  ultimately show ?thesis using False by auto
qed (simp add: rooted_path_clean)

section \<open>Relative paths\<close>

lemma strip_common_prefix: "fst (strip_common a b) = [] \<longleftrightarrow> prefix a b"
  by (induction a b rule: strip_common.induct) auto

lemma set_snd_strip_common: "set (snd (strip_common a b)) \<subseteq> set b"
  by (induction a b rule: strip_common.induct) auto

lemma snd_strip_common_prefix: "prefix a b \<Longrightarrow> strip_common a b = ([], drop (length a) b)"
  by (induction a b rule: strip_common.induct) auto

lemma escapes_upwards_join:
  "escapes_upwards (join (''..'' # xs) ''/'')"
  by (cases xs) (auto simp: escapes_upwards_def has_prefix_def)

text \<open>A relative path leads upwards exactly when the target lies outside the base.\<close>

lemma escapes_path_rel:
  assumes "rooted targ"
  shows "escapes_upwards (path_rel base targ) \<longleftrightarrow> \<not> prefix (path_segs base) (path_segs targ)"
proof (cases "strip_common (path_segs base) (path_segs targ)")
  case (Pair up down)
  have normal: "\<forall>s\<in>set down. normal_seg s"
    using set_snd_strip_common[of "path_segs base" "path_segs targ"] path_segs_rooted[OF assms] Pair by auto
  show ?thesis
  proof (cases up)
    case Nil
    have "\<not> escapes_upwards (render_path False down)"
      using join_normal_no_up[OF normal] by (auto simp: escapes_upwards_def render_path_def has_prefix_def)
    then show ?thesis
      using Nil Pair strip_common_prefix[of "path_segs base" "path_segs targ"] by (simp add: path_rel_def)
  next
    case (Cons u us)
    then have "escapes_upwards (path_rel base targ)"
      using escapes_upwards_join[of "replicate (length us) ''..'' @ down"] Pair
      by (simp add: path_rel_def render_path_def)
    then show ?thesis
      using Cons Pair strip_common_prefix[of "path_segs base" "path_segs targ"] by simp
  qed
qed

end
