(* ===== verification/Go_Sort.thy ===== *)
theory Go_Sort
  imports Prelude "HOL-Library.Multiset"
begin

text \<open>
  Go's byte-wise string order, \<open>sort.Slice\<close> with a less function, \<open>sort.Strings\<close>, and the
  set-then-sort idiom (\<open>uniqueSorted\<close>) that several packages use to turn a map's keys into a slice.
\<close>

text \<open>Byte-wise string order, which Go's \<open><\<close> on strings is.\<close>

fun str_less :: "string \<Rightarrow> string \<Rightarrow> bool" where
  "str_less _ [] = False"
| "str_less [] (_ # _) = True"
| "str_less (x # xs) (y # ys) =
     ((of_char x :: nat) < of_char y \<or> (x = y \<and> str_less xs ys))"

text \<open>\<open>sort.Slice\<close> with a less function. Go's sort is not stable, which makes no difference where
  the order is total on the elements; the model inserts each element in turn.\<close>

fun insert_by :: "('a \<Rightarrow> 'a \<Rightarrow> bool) \<Rightarrow> 'a \<Rightarrow> 'a list \<Rightarrow> 'a list" where
  "insert_by lt x [] = [x]"
| "insert_by lt x (y # ys) = (if lt y x then y # insert_by lt x ys else x # y # ys)"

fun sort_by :: "('a \<Rightarrow> 'a \<Rightarrow> bool) \<Rightarrow> 'a list \<Rightarrow> 'a list" where
  "sort_by lt [] = []"
| "sort_by lt (x # xs) = insert_by lt x (sort_by lt xs)"

section \<open>Lemmas\<close>

lemma set_insert_by [simp]: "set (insert_by lt x xs) = insert x (set xs)"
  by (induction xs) auto

lemma set_sort_by [simp]: "set (sort_by lt xs) = set xs"
  by (induction xs) auto

lemma length_insert_by [simp]: "length (insert_by lt x xs) = Suc (length xs)"
  by (induction xs) auto

lemma length_sort_by [simp]: "length (sort_by lt xs) = length xs"
  by (induction xs) auto

text \<open>A less function that is a strict weak order sorts: no element is less than an earlier one.\<close>

definition weak_order :: "('a \<Rightarrow> 'a \<Rightarrow> bool) \<Rightarrow> bool" where
  "weak_order lt = ((\<forall>x y. lt x y \<longrightarrow> \<not> lt y x) \<and>
     (\<forall>x y z. \<not> lt y x \<longrightarrow> \<not> lt z y \<longrightarrow> \<not> lt z x))"

lemma weak_order_asym: "weak_order lt \<Longrightarrow> lt x y \<Longrightarrow> \<not> lt y x"
  unfolding weak_order_def by blast

lemma weak_order_chain: "weak_order lt \<Longrightarrow> \<not> lt y x \<Longrightarrow> \<not> lt z y \<Longrightarrow> \<not> lt z x"
  unfolding weak_order_def by blast

lemma weak_order_flip: "weak_order lt \<Longrightarrow> weak_order (\<lambda>a b. lt b a)"
  unfolding weak_order_def by blast

lemma weak_order_first:
  assumes w: "weak_order lt"
  shows "weak_order (\<lambda>a b. if r a \<noteq> r b then r a else lt a b)"
proof -
  have "\<not> (if r z \<noteq> r x then r z else lt z x)"
    if "\<not> (if r y \<noteq> r x then r y else lt y x)" "\<not> (if r z \<noteq> r y then r z else lt z y)" for x y z
    using that weak_order_chain[OF w, of y x z] by (cases "r x"; cases "r y"; cases "r z") simp_all
  moreover have "\<not> (if r y \<noteq> r x then r y else lt y x)"
    if "if r x \<noteq> r y then r x else lt x y" for x y
    using that weak_order_asym[OF w, of x y] by (cases "r x"; cases "r y") simp_all
  ultimately show ?thesis unfolding weak_order_def by blast
qed

definition ordered_by :: "('a \<Rightarrow> 'a \<Rightarrow> bool) \<Rightarrow> 'a list \<Rightarrow> bool" where
  "ordered_by lt xs = sorted_wrt (\<lambda>x y. \<not> lt y x) xs"

lemma ordered_by_simps [simp]:
  "ordered_by lt []"
  "ordered_by lt (x # xs) \<longleftrightarrow> (\<forall>y\<in>set xs. \<not> lt y x) \<and> ordered_by lt xs"
  by (simp_all add: ordered_by_def)

lemma ordered_insert_by:
  assumes w: "weak_order lt"
  shows "ordered_by lt xs \<Longrightarrow> ordered_by lt (insert_by lt x xs)"
proof (induction xs)
  case Nil
  then show ?case by simp
next
  case (Cons y ys)
  show ?case
  proof (cases "lt y x")
    case True
    then have "\<not> lt x y" by (rule weak_order_asym[OF w])
    with True Cons.IH Cons.prems show ?thesis by simp
  next
    case False
    have "\<not> lt z x" if "z \<in> set ys" for z
      using weak_order_chain[OF w False] Cons.prems that by simp
    with False Cons.prems show ?thesis by simp
  qed
qed

lemma ordered_sort_by: "weak_order lt \<Longrightarrow> ordered_by lt (sort_by lt xs)"
  by (induction xs) (simp_all add: ordered_insert_by)

lemma str_less_irrefl [simp]: "\<not> str_less s s"
  by (induction s) auto

lemma str_less_asym: "str_less a b \<Longrightarrow> \<not> str_less b a"
  by (induction a b rule: str_less.induct) auto

lemma str_less_linear: "str_less a b \<or> a = b \<or> str_less b a"
proof (induction a b rule: str_less.induct)
  case (3 x xs y ys)
  have "(of_char x :: nat) < of_char y \<or> x = y \<or> (of_char y :: nat) < of_char x"
    by (metis linorder_neqE_nat of_char_eq_iff)
  with 3 show ?case by auto
qed (auto simp: neq_Nil_conv intro: str_less.elims)

lemma str_less_trans: "str_less a b \<Longrightarrow> str_less b c \<Longrightarrow> str_less a c"
proof (induction a b arbitrary: c rule: str_less.induct)
  case (3 x xs y ys)
  then show ?case by (cases c) auto
next
  case (2 v va)
  then show ?case by (cases c) auto
qed simp

lemma weak_order_str_less: "weak_order (\<lambda>a b. str_less (f a) (f b))"
  unfolding weak_order_def by (metis str_less_asym str_less_linear str_less_trans)

lemma weak_order_then:
  assumes w: "weak_order lt"
  shows "weak_order (\<lambda>a b. if f a = f b then lt a b else str_less (f a) (f b))"
proof -
  let ?lt = "\<lambda>a b. if f a = f b then lt a b else str_less (f a) (f b)"
  have "\<not> ?lt y x" if "?lt x y" for x y
    using that weak_order_asym[OF w, of x y] str_less_asym[of "f x" "f y"] by (cases "f x = f y") auto
  moreover have "\<not> ?lt z x" if a: "\<not> ?lt y x" "\<not> ?lt z y" for x y z
  proof (cases "f x = f y"; cases "f y = f z")
    assume "f x = f y" "f y = f z"
    then show ?thesis using a weak_order_chain[OF w, of y x z] by simp
  next
    assume "f x \<noteq> f y" "f y \<noteq> f z"
    then have "str_less (f x) (f y)" "str_less (f y) (f z)"
      using a str_less_linear[of "f x" "f y"] str_less_linear[of "f y" "f z"] by auto
    then have "str_less (f x) (f z)" by (rule str_less_trans)
    then show ?thesis using str_less_asym[of "f x" "f z"] by auto
  next
    assume "f x = f y" "f y \<noteq> f z"
    then show ?thesis using a by simp
  next
    assume "f x \<noteq> f y" "f y = f z"
    then show ?thesis using a by simp
  qed
  ultimately show ?thesis unfolding weak_order_def by blast
qed

lemma mset_insert_by [simp]: "mset (insert_by lt x xs) = add_mset x (mset xs)"
  by (induction xs) auto

lemma mset_sort_by [simp]: "mset (sort_by lt xs) = mset xs"
  by (induction xs) auto

lemma distinct_sort_by:
  assumes "distinct (map f xs)"
  shows "distinct (map f (sort_by lt xs))"
proof -
  have "mset (map f (sort_by lt xs)) = mset (map f xs)" by simp
  then show ?thesis using assms by (metis mset_eq_imp_distinct_iff)
qed

text \<open>
  Go iterates over a map in an unspecified order. Where the code sorts what it collected with an
  order that separates the collected values, the outcome does not depend on that order.
\<close>

definition separates :: "('a \<Rightarrow> 'a \<Rightarrow> bool) \<Rightarrow> 'a set \<Rightarrow> bool" where
  "separates lt A = (\<forall>x\<in>A. \<forall>y\<in>A. \<not> lt x y \<longrightarrow> \<not> lt y x \<longrightarrow> x = y)"

lemma separates_subset: "separates lt A \<Longrightarrow> B \<subseteq> A \<Longrightarrow> separates lt B"
  unfolding separates_def by blast

lemma ordered_by_unique:
  assumes "ordered_by lt xs" "ordered_by lt ys" "mset xs = mset ys" "separates lt (set xs)"
  shows "xs = ys"
  using assms
proof (induction xs arbitrary: ys)
  case Nil
  then show ?case by simp
next
  case (Cons x xs)
  then obtain y zs where ys: "ys = y # zs" by (cases ys) auto
  have sets: "set (x # xs) = set ys" using Cons.prems(3) by (metis set_mset_mset)
  have "x = y"
  proof (rule ccontr)
    assume "x \<noteq> y"
    with sets ys have "y \<in> set xs" "x \<in> set zs" by auto
    with Cons.prems(1,2) ys have "\<not> lt y x" "\<not> lt x y" by auto
    with Cons.prems(4) \<open>y \<in> set xs\<close> \<open>x \<noteq> y\<close> show False
      unfolding separates_def by (meson list.set_intros)
  qed
  moreover have "xs = zs"
  proof (rule Cons.IH)
    show "ordered_by lt xs" "ordered_by lt zs" using Cons.prems(1,2) ys by simp_all
    show "mset xs = mset zs" using Cons.prems(3) ys \<open>x = y\<close> by simp
    show "separates lt (set xs)" by (rule separates_subset[OF Cons.prems(4)]) auto
  qed
  ultimately show ?case using ys by simp
qed

lemma sort_by_perm:
  assumes "weak_order lt" "mset xs = mset ys" "separates lt (set xs)"
  shows "sort_by lt xs = sort_by lt ys"
  by (rule ordered_by_unique) (use assms in \<open>simp_all add: ordered_sort_by\<close>)

section \<open>Sorting strings\<close>

definition sort_strings :: "string list \<Rightarrow> string list" where
  "sort_strings xs = sort_by str_less xs"

definition unique_sorted :: "string list \<Rightarrow> string list" where
  "unique_sorted xs = sort_strings (remdups (filter (\<lambda>v. v \<noteq> []) xs))"

lemma separates_str_less [simp]: "separates str_less A"
  unfolding separates_def using str_less_linear by blast

lemma set_sort_strings [simp]: "set (sort_strings xs) = set xs"
  by (simp add: sort_strings_def)

lemma sort_strings_Nil [simp]: "sort_strings xs = [] \<longleftrightarrow> xs = []"
  by (metis set_empty set_sort_strings)

lemma ordered_sort_strings: "ordered_by str_less (sort_strings xs)"
  unfolding sort_strings_def by (rule ordered_sort_by) (rule weak_order_str_less[where f = "\<lambda>x. x"])

lemma distinct_sort_strings: "distinct xs \<Longrightarrow> distinct (sort_strings xs)"
  unfolding sort_strings_def using distinct_sort_by[of "\<lambda>x. x" xs str_less] by simp

lemma set_unique_sorted [simp]: "set (unique_sorted xs) = set xs - {[]}"
  by (auto simp: unique_sorted_def)

lemma distinct_unique_sorted [simp]: "distinct (unique_sorted xs)"
  by (simp add: unique_sorted_def distinct_sort_strings)

lemma unique_sorted_set_cong:
  assumes "set xs = set ys"
  shows "unique_sorted xs = unique_sorted ys"
proof -
  have "mset (remdups (filter (\<lambda>v. v \<noteq> []) xs)) = mset (remdups (filter (\<lambda>v. v \<noteq> []) ys))"
    using assms by (simp add: set_eq_iff_mset_remdups_eq[symmetric])
  then show ?thesis
    unfolding unique_sorted_def sort_strings_def
    by (intro sort_by_perm weak_order_str_less[where f = "\<lambda>x. x"]) simp_all
qed

lemma ordered_unique_sorted: "ordered_by str_less (unique_sorted xs)"
  by (simp add: unique_sorted_def ordered_sort_strings)

end
