(* ===== verification/Go_Files.thy ===== *)
theory Go_Files
  imports Go_Paths Go_Sort
begin

text \<open>
  The file system as the program meets it through Go's \<open>os\<close> package: directories, symbolic links and
  regular files with their data behind an inode, so that hard links share what is written. A path is
  the list of its segments from the root. Resolution follows at most forty symbolic links, as Linux does.
  Permissions and full disks are not part of this model; where they matter they are inputs of the caller.
\<close>

section \<open>Nodes and resolution\<close>

datatype file_node = Directory | Regular nat | Symlink string

record file_system =
  fs_nodes :: "(string list \<times> file_node) list"
  fs_data :: "(nat \<times> string) list"
  fs_next :: nat

datatype fs_error = Not_Exist | Not_Directory | Is_Directory | Already_Exists | Too_Many_Links | Not_Permitted | Not_Empty

definition node_at :: "file_system \<Rightarrow> string list \<Rightarrow> file_node option" where
  "node_at fs p = (if p = [] then Some Directory else map_of (fs_nodes fs) p)"

definition data_of :: "file_system \<Rightarrow> nat \<Rightarrow> string" where
  "data_of fs i = (case map_of (fs_data fs) i of None \<Rightarrow> [] | Some c \<Rightarrow> c)"

definition max_links :: nat where
  "max_links = 40"

function walk :: "nat \<Rightarrow> file_system \<Rightarrow> bool \<Rightarrow> string list \<Rightarrow> string list \<Rightarrow> (fs_error, string list) result" where
  "walk links fs follow base [] = Inr base"
| "walk links fs follow base (s # rest) =
     (if s = [] \<or> s = ''.'' then walk links fs follow base rest
      else if s = ''..'' then walk links fs follow (butlast base) rest
      else case node_at fs (base @ [s]) of
             None \<Rightarrow> if rest = [] then Inr (base @ [s]) else Inl Not_Exist
           | Some Directory \<Rightarrow> walk links fs follow (base @ [s]) rest
           | Some (Regular i) \<Rightarrow> if rest = [] then Inr (base @ [s]) else Inl Not_Directory
           | Some (Symlink t) \<Rightarrow>
               if rest = [] \<and> \<not> follow then Inr (base @ [s])
               else if links = 0 then Inl Too_Many_Links
               else walk (links - 1) fs follow (if has_prefix t ''/'' then [] else base) (split_on CHR ''/'' t @ rest))"
  by pat_completeness auto
termination
  by (relation "measures [\<lambda>(links, fs, follow, base, todo). links, \<lambda>(links, fs, follow, base, todo). length todo]") auto

definition resolve :: "file_system \<Rightarrow> bool \<Rightarrow> string list \<Rightarrow> (fs_error, string list) result" where
  "resolve fs follow p = walk max_links fs follow [] p"

definition stat_node :: "file_system \<Rightarrow> bool \<Rightarrow> string list \<Rightarrow> (fs_error, file_node) result" where
  "stat_node fs follow p =
     bind_result (resolve fs follow p) (\<lambda>q. case node_at fs q of None \<Rightarrow> Inl Not_Exist | Some n \<Rightarrow> Inr n)"

section \<open>Operations\<close>

definition put_node :: "string list \<Rightarrow> file_node \<Rightarrow> file_system \<Rightarrow> file_system" where
  "put_node p n fs = fs\<lparr>fs_nodes := AList.update p n (fs_nodes fs)\<rparr>"

text \<open>\<open>os.Mkdir\<close>, \<open>os.Symlink\<close> and \<open>os.Link\<close> make a name that does not exist yet.\<close>

definition make_node :: "string list \<Rightarrow> file_node \<Rightarrow> file_system \<Rightarrow> fs_error option \<times> file_system" where
  "make_node p n fs =
     (case resolve fs False p of
        Inl e \<Rightarrow> (Some e, fs)
      | Inr q \<Rightarrow> (case node_at fs q of None \<Rightarrow> (None, put_node q n fs) | Some _ \<Rightarrow> (Some Already_Exists, fs)))"

text \<open>\<open>os.MkdirAll\<close> on a path given from its last segment upwards.\<close>

fun mkdir_up :: "string list \<Rightarrow> file_system \<Rightarrow> fs_error option \<times> file_system" where
  "mkdir_up [] fs = (None, fs)"
| "mkdir_up (s # up) fs =
     (let p = rev (s # up) in
      case stat_node fs True p of
        Inr Directory \<Rightarrow> (None, fs)
      | Inr _ \<Rightarrow> (Some Not_Directory, fs)
      | Inl _ \<Rightarrow>
          (case mkdir_up up fs of
             (Some e, fs1) \<Rightarrow> (Some e, fs1)
           | (None, fs1) \<Rightarrow>
               (case make_node p Directory fs1 of
                  (None, fs2) \<Rightarrow> (None, fs2)
                | (Some e, fs2) \<Rightarrow> (if stat_node fs2 False p = Inr Directory then None else Some e, fs2))))"

definition mkdir_all :: "string list \<Rightarrow> file_system \<Rightarrow> fs_error option \<times> file_system" where
  "mkdir_all p fs = mkdir_up (rev p) fs"

text \<open>Opening with create and truncate, then writing the content.\<close>

definition write_over :: "string list \<Rightarrow> string \<Rightarrow> file_system \<Rightarrow> fs_error option \<times> file_system" where
  "write_over p content fs =
     (case resolve fs True p of
        Inl e \<Rightarrow> (Some e, fs)
      | Inr q \<Rightarrow>
          (case node_at fs q of
             None \<Rightarrow> (None, (put_node q (Regular (fs_next fs)) fs)
                      \<lparr>fs_data := AList.update (fs_next fs) content (fs_data fs), fs_next := Suc (fs_next fs)\<rparr>)
           | Some (Regular i) \<Rightarrow> (None, fs\<lparr>fs_data := AList.update i content (fs_data fs)\<rparr>)
           | Some Directory \<Rightarrow> (Some Is_Directory, fs)
           | Some (Symlink t) \<Rightarrow> (Some Too_Many_Links, fs)))"

text \<open>\<open>os.Remove\<close>: the name itself, and a directory only when it is empty.\<close>

definition remove_name :: "string list \<Rightarrow> file_system \<Rightarrow> fs_error option \<times> file_system" where
  "remove_name p fs =
     (case resolve fs False p of
        Inl e \<Rightarrow> (Some e, fs)
      | Inr q \<Rightarrow>
          (case node_at fs q of
             None \<Rightarrow> (Some Not_Exist, fs)
           | Some Directory \<Rightarrow>
               if list_ex (\<lambda>(r, n). strict_prefix q r) (fs_nodes fs) \<or> q = [] then (Some Not_Empty, fs)
               else (None, fs\<lparr>fs_nodes := AList.delete q (fs_nodes fs)\<rparr>)
           | Some _ \<Rightarrow> (None, fs\<lparr>fs_nodes := AList.delete q (fs_nodes fs)\<rparr>)))"

definition hard_link :: "string list \<Rightarrow> string list \<Rightarrow> file_system \<Rightarrow> fs_error option \<times> file_system" where
  "hard_link old new fs =
     (case stat_node fs False old of
        Inl e \<Rightarrow> (Some e, fs)
      | Inr Directory \<Rightarrow> (Some Not_Permitted, fs)
      | Inr n \<Rightarrow> make_node new n fs)"

text \<open>
  The entries strictly below a directory in the order \<open>filepath.Walk\<close> visits them: by name within a
  directory, depth first, symbolic links not followed.
\<close>

fun segs_less :: "string list \<Rightarrow> string list \<Rightarrow> bool" where
  "segs_less [] ys = (ys \<noteq> [])"
| "segs_less (x # xs) [] = False"
| "segs_less (x # xs) (y # ys) = (str_less x y \<or> (x = y \<and> segs_less xs ys))"

definition walk_entries :: "string list \<Rightarrow> file_system \<Rightarrow> (string list \<times> file_node) list" where
  "walk_entries root fs = sort_by (\<lambda>a b. segs_less (fst a) (fst b)) (filter (\<lambda>(p, n). strict_prefix root p) (fs_nodes fs))"

section \<open>Staying below a directory\<close>

text \<open>
  A directory is closed when the way to it and everything below it is free of symbolic links, and no
  file below it shares its data with a name outside.
\<close>

definition closed_dir :: "string list \<Rightarrow> file_system \<Rightarrow> bool" where
  "closed_dir root fs \<longleftrightarrow>
     (\<forall>p. prefix p root \<longrightarrow> node_at fs p = Some Directory) \<and>
     (\<forall>p t. prefix root p \<longrightarrow> node_at fs p \<noteq> Some (Symlink t)) \<and>
     (\<forall>p q i. prefix root p \<and> \<not> prefix root q \<and> node_at fs p = Some (Regular i) \<longrightarrow> node_at fs q \<noteq> Some (Regular i)) \<and>
     (\<forall>p i. node_at fs p = Some (Regular i) \<longrightarrow> i < fs_next fs)"

definition read_at :: "file_system \<Rightarrow> string list \<Rightarrow> string option" where
  "read_at fs p = (case node_at fs p of Some (Regular i) \<Rightarrow> Some (data_of fs i) | _ \<Rightarrow> None)"

definition same_outside :: "string list \<Rightarrow> file_system \<Rightarrow> file_system \<Rightarrow> bool" where
  "same_outside root fs fs' \<longleftrightarrow> (\<forall>p. \<not> prefix root p \<longrightarrow> node_at fs' p = node_at fs p \<and> read_at fs' p = read_at fs p)"

definition keeps_outside :: "string list \<Rightarrow> file_system \<Rightarrow> file_system \<Rightarrow> bool" where
  "keeps_outside root fs fs' \<longleftrightarrow> closed_dir root fs' \<and> same_outside root fs fs'"

lemma keeps_refl [simp]: "closed_dir root fs \<Longrightarrow> keeps_outside root fs fs"
  by (simp add: keeps_outside_def same_outside_def)

lemma keeps_trans: "keeps_outside root a b \<Longrightarrow> keeps_outside root b c \<Longrightarrow> keeps_outside root a c"
  by (simp add: keeps_outside_def same_outside_def)

lemma keeps_closed: "keeps_outside root a b \<Longrightarrow> closed_dir root b"
  by (simp add: keeps_outside_def)

lemma walk_through:
  assumes "\<forall>p. prefix p (base @ xs) \<longrightarrow> node_at fs p = Some Directory" "\<forall>s\<in>set xs. normal_seg s"
  shows "walk links fs follow base (xs @ r) = walk links fs follow (base @ xs) r"
  using assms
proof (induction xs arbitrary: base)
  case (Cons x xs)
  have "node_at fs (base @ [x]) = Some Directory" using Cons.prems(1) by (simp add: prefix_def)
  moreover have "x \<noteq> []" "x \<noteq> ''.''" "x \<noteq> ''..''" using Cons.prems(2) by (auto simp: normal_seg_def)
  ultimately show ?case using Cons.IH[of "base @ [x]"] Cons.prems by simp
qed simp

lemma walk_below:
  assumes "\<forall>p t. prefix base p \<longrightarrow> node_at fs p \<noteq> Some (Symlink t)" "\<forall>s\<in>set r. normal_seg s"
    "walk links fs follow base r = Inr q"
  shows "q = base @ r"
  using assms
proof (induction r arbitrary: base)
  case (Cons x r)
  have n: "x \<noteq> []" "x \<noteq> ''.''" "x \<noteq> ''..''" using Cons.prems(2) by (auto simp: normal_seg_def)
  have below: "\<forall>p t. prefix (base @ [x]) p \<longrightarrow> node_at fs p \<noteq> Some (Symlink t)"
    using Cons.prems(1) by (metis append_prefixD)
  show ?case
  proof (cases "node_at fs (base @ [x])")
    case (Some m)
    then show ?thesis using Cons.IH[OF below] Cons.prems n by (cases m) (auto split: if_splits)
  qed (use Cons.prems n in \<open>auto split: if_splits\<close>)
qed simp

text \<open>Below a closed directory a path resolves to itself, if it resolves at all.\<close>

lemma resolve_below:
  assumes "closed_dir root fs" "\<forall>s\<in>set (root @ r). normal_seg s" "resolve fs follow (root @ r) = Inr q"
  shows "q = root @ r"
proof -
  have "walk max_links fs follow [] (root @ r) = walk max_links fs follow root r"
    using walk_through[of "[]" root] assms(1,2) by (simp add: closed_dir_def)
  then show ?thesis using walk_below[of root fs r] assms by (simp add: resolve_def closed_dir_def)
qed

lemma node_at_put: "p \<noteq> [] \<Longrightarrow> node_at (put_node p n fs) q = (if q = p then Some n else node_at fs q)"
  by (auto simp: node_at_def put_node_def update_conv')

lemma node_at_delete: "p \<noteq> [] \<Longrightarrow> node_at (fs\<lparr>fs_nodes := AList.delete p (fs_nodes fs)\<rparr>) q = (if q = p then None else node_at fs q)"
  by (auto simp: node_at_def delete_conv')

lemma node_at_data [simp]: "node_at (fs\<lparr>fs_data := d\<rparr>) q = node_at fs q" "node_at (fs\<lparr>fs_data := d, fs_next := n\<rparr>) q = node_at fs q"
  by (simp_all add: node_at_def)

lemma closed_dir_data [simp]: "closed_dir root (fs\<lparr>fs_data := d\<rparr>) = closed_dir root fs"
proof -
  have "fs_next (fs\<lparr>fs_data := d\<rparr>) = fs_next fs" by simp
  then show ?thesis by (simp only: closed_dir_def node_at_data)
qed

lemma fs_next_put [simp]: "fs_next (put_node p n fs) = fs_next fs"
  by (simp add: put_node_def)

lemma read_at_cong: "node_at fs' p = node_at fs p \<Longrightarrow> fs_data fs' = fs_data fs \<Longrightarrow> read_at fs' p = read_at fs p"
  by (simp add: read_at_def data_of_def split: option.splits file_node.splits)

lemma closed_apart:
  "closed_dir root fs \<Longrightarrow> prefix root p \<Longrightarrow> \<not> prefix root q \<Longrightarrow> node_at fs p = Some (Regular i) \<Longrightarrow> node_at fs q \<noteq> Some (Regular i)"
  unfolding closed_dir_def by blast

lemma closed_not_root: "closed_dir root fs \<Longrightarrow> prefix root q \<Longrightarrow> node_at fs q \<noteq> Some Directory \<Longrightarrow> strict_prefix root q \<and> q \<noteq> []"
  by (auto simp: closed_dir_def strict_prefix_def node_at_def)

lemma put_keeps:
  assumes c: "closed_dir root fs" and q: "prefix root q" "node_at fs q = None"
    and n: "n = Directory \<or> (\<exists>i p. n = Regular i \<and> prefix root p \<and> node_at fs p = Some (Regular i))"
  shows "keeps_outside root fs (put_node q n fs)"
proof -
  have ne: "q \<noteq> []" "strict_prefix root q" using closed_not_root[OF c q(1)] q(2) by auto
  have up: "\<not> prefix q root" using ne(2) by (meson prefix_order.less_le_not_le)
  have "closed_dir root (put_node q n fs)"
    unfolding closed_dir_def
  proof (intro conjI allI impI)
    fix p assume "prefix p root"
    then show "node_at (put_node q n fs) p = Some Directory" using c up ne(1) by (auto simp: node_at_put closed_dir_def)
  next
    fix p t assume "prefix root p"
    then show "node_at (put_node q n fs) p \<noteq> Some (Symlink t)" using c n ne(1) by (auto simp: node_at_put closed_dir_def)
  next
    fix p p' i assume a: "prefix root p \<and> \<not> prefix root p' \<and> node_at (put_node q n fs) p = Some (Regular i)"
    then have "p' \<noteq> q" using q(1) by auto
    moreover obtain p0 where "prefix root p0" "node_at fs p0 = Some (Regular i)"
      using a n ne(1) by (auto simp: node_at_put split: if_splits)
    ultimately show "node_at (put_node q n fs) p' \<noteq> Some (Regular i)"
      using c a ne(1) by (auto simp: node_at_put closed_dir_def)
  next
    fix p i assume "node_at (put_node q n fs) p = Some (Regular i)"
    then show "i < fs_next (put_node q n fs)" using c n ne(1) by (auto simp: node_at_put closed_dir_def split: if_splits)
  qed
  moreover have "same_outside root fs (put_node q n fs)"
    unfolding same_outside_def
  proof (intro allI impI)
    fix p assume "\<not> prefix root p"
    then have "node_at (put_node q n fs) p = node_at fs p" using q(1) ne(1) by (auto simp: node_at_put)
    then show "node_at (put_node q n fs) p = node_at fs p \<and> read_at (put_node q n fs) p = read_at fs p"
      using read_at_cong[of "put_node q n fs" p fs] by (simp add: put_node_def)
  qed
  ultimately show ?thesis by (simp add: keeps_outside_def)
qed

lemma make_node_keeps:
  assumes "closed_dir root fs" "\<forall>s\<in>set (root @ r). normal_seg s"
    "n = Directory \<or> (\<exists>i p. n = Regular i \<and> prefix root p \<and> node_at fs p = Some (Regular i))"
  shows "keeps_outside root fs (snd (make_node (root @ r) n fs))"
proof (cases "resolve fs False (root @ r)")
  case (Inr q)
  then have q: "q = root @ r" by (rule resolve_below[OF assms(1,2)])
  show ?thesis
  proof (cases "node_at fs q")
    case None
    then show ?thesis using put_keeps[OF assms(1) _ None assms(3)] Inr q by (simp add: make_node_def)
  qed (use assms(1) Inr in \<open>simp add: make_node_def\<close>)
qed (use assms(1) in \<open>simp add: make_node_def\<close>)

lemma stat_below:
  assumes "closed_dir root fs" "\<forall>s\<in>set (root @ r). normal_seg s" "stat_node fs follow (root @ r) = Inr n"
  shows "node_at fs (root @ r) = Some n"
  using assms resolve_below[OF assms(1,2)]
  by (auto simp: stat_node_def bind_result_def split: sum.splits option.splits)

lemma stat_up:
  assumes "closed_dir root fs" "\<forall>s\<in>set root. normal_seg s" "prefix p root"
  shows "stat_node fs True p = Inr Directory"
proof -
  have n: "\<forall>s\<in>set p. normal_seg s" using assms(2,3) by (auto simp: prefix_def)
  have d: "\<forall>q. prefix q p \<longrightarrow> node_at fs q = Some Directory"
    using assms(1,3) unfolding closed_dir_def by (meson prefix_order.trans)
  have "walk max_links fs True [] (p @ []) = walk max_links fs True p []"
    using walk_through[of "[]" p fs max_links True "[]"] n d by simp
  then show ?thesis using d by (simp add: stat_node_def resolve_def)
qed

lemma mkdir_all_keeps:
  assumes "closed_dir root fs" "\<forall>s\<in>set (root @ r). normal_seg s"
  shows "keeps_outside root fs (snd (mkdir_all (root @ r) fs))"
  using assms(2)
proof (induction r rule: rev_induct)
  case Nil
  have "stat_node fs True root = Inr Directory" using stat_up[OF assms(1)] Nil by simp
  then show ?case using assms(1) by (cases "rev root") (auto simp: mkdir_all_def Let_def)
next
  case (snoc x r)
  let ?p = "root @ r @ [x]"
  have ih: "keeps_outside root fs (snd (mkdir_up (rev r @ rev root) fs))" using snoc by (simp add: mkdir_all_def)
  obtain e fs1 where up: "mkdir_up (rev r @ rev root) fs = (e, fs1)" by (cases "mkdir_up (rev r @ rev root) fs")
  have k: "keeps_outside root fs fs1" using ih up by simp
  have mk: "keeps_outside root fs1 (snd (make_node ?p Directory fs1))"
    using make_node_keeps[OF keeps_closed[OF k], of "r @ [x]" Directory] snoc.prems by simp
  have step: "mkdir_all ?p fs =
      (case stat_node fs True ?p of
        Inr Directory \<Rightarrow> (None, fs)
      | Inr _ \<Rightarrow> (Some Not_Directory, fs)
      | Inl _ \<Rightarrow>
          (case (e, fs1) of
             (Some e, fs1) \<Rightarrow> (Some e, fs1)
           | (None, fs1) \<Rightarrow>
               (case make_node ?p Directory fs1 of
                  (None, fs2) \<Rightarrow> (None, fs2)
                | (Some e, fs2) \<Rightarrow> (if stat_node fs2 False ?p = Inr Directory then None else Some e, fs2))))"
    using up by (simp add: mkdir_all_def Let_def split: sum.split file_node.split)
  show ?case
    unfolding append.assoc step using assms(1) k mk keeps_trans[OF k mk]
    by (auto split: sum.splits option.splits prod.splits file_node.splits)
qed

lemma write_over_keeps:
  assumes "closed_dir root fs" "\<forall>s\<in>set (root @ r). normal_seg s"
  shows "keeps_outside root fs (snd (write_over (root @ r) content fs))"
proof (cases "resolve fs True (root @ r)")
  case (Inl e)
  then show ?thesis using assms(1) by (simp add: write_over_def)
next
  case (Inr q)
  have q: "q = root @ r" by (rule resolve_below[OF assms Inr])
  show ?thesis
  proof (cases "node_at fs q")
    case None
    let ?fs = "(put_node q (Regular (fs_next fs)) fs)\<lparr>fs_data := AList.update (fs_next fs) content (fs_data fs), fs_next := Suc (fs_next fs)\<rparr>"
    have ne: "q \<noteq> []" "strict_prefix root q" using closed_not_root[OF assms(1), of q] None q by auto
    have up: "\<not> prefix q root" using ne(2) by (meson prefix_order.less_le_not_le)
    have at: "node_at ?fs p = (if p = q then Some (Regular (fs_next fs)) else node_at fs p)" for p
      by (simp add: node_at_put[OF ne(1)])
    have fresh: "node_at fs p = Some (Regular i) \<Longrightarrow> i < fs_next fs" for p i using assms(1) by (simp add: closed_dir_def)
    have "closed_dir root ?fs"
      unfolding closed_dir_def
    proof (intro conjI allI impI)
      fix p assume "prefix p root"
      then show "node_at ?fs p = Some Directory" using assms(1) up unfolding at by (auto simp: closed_dir_def)
    next
      fix p t assume "prefix root p"
      then show "node_at ?fs p \<noteq> Some (Symlink t)" using assms(1) unfolding at by (auto simp: closed_dir_def)
    next
      fix p p' i assume a: "prefix root p \<and> \<not> prefix root p' \<and> node_at ?fs p = Some (Regular i)"
      then have "p' \<noteq> q" using q by auto
      then show "node_at ?fs p' \<noteq> Some (Regular i)"
        using a assms(1) fresh[of p' i] unfolding at by (auto simp: closed_dir_def split: if_splits)
    next
      fix p i assume "node_at ?fs p = Some (Regular i)"
      then show "i < fs_next ?fs" using fresh[of p i] unfolding at by (auto split: if_splits)
    qed
    moreover have "same_outside root fs ?fs"
      unfolding same_outside_def
    proof (intro allI impI)
      fix p assume "\<not> prefix root p"
      then have "p \<noteq> q" using q by auto
      then have "node_at ?fs p = node_at fs p" using at by simp
      moreover have "read_at ?fs p = read_at fs p"
        using calculation fresh[of p] by (auto simp: read_at_def data_of_def update_conv' split: option.splits file_node.splits)
      ultimately show "node_at ?fs p = node_at fs p \<and> read_at ?fs p = read_at fs p" by blast
    qed
    ultimately show ?thesis using Inr None by (simp add: write_over_def keeps_outside_def)
  next
    case (Some n)
    show ?thesis
    proof (cases n)
      case (Regular i)
      let ?fs = "fs\<lparr>fs_data := AList.update i content (fs_data fs)\<rparr>"
      have "closed_dir root ?fs" using assms(1) by simp
      moreover have "read_at ?fs p = read_at fs p" if "\<not> prefix root p" for p
      proof -
        have "node_at fs p \<noteq> Some (Regular i)" using closed_apart[OF assms(1), of q p i] that Some Regular q by simp
        then show ?thesis by (auto simp: read_at_def data_of_def update_conv' split: option.splits file_node.splits)
      qed
      ultimately show ?thesis using Inr Some Regular by (simp add: write_over_def keeps_outside_def same_outside_def)
    qed (use assms(1) Inr Some in \<open>simp_all add: write_over_def\<close>)
  qed
qed

lemma delete_keeps:
  assumes "closed_dir root fs" "prefix root q" "q \<noteq> root"
  shows "keeps_outside root fs (fs\<lparr>fs_nodes := AList.delete q (fs_nodes fs)\<rparr>)"
proof -
  have ne: "q \<noteq> []" "\<not> prefix q root" using assms(2,3) prefix_order.antisym[of q root] by auto
  let ?fs = "fs\<lparr>fs_nodes := AList.delete q (fs_nodes fs)\<rparr>"
  have at: "node_at ?fs p = (if p = q then None else node_at fs p)" for p by (rule node_at_delete[OF ne(1)])
  have "closed_dir root ?fs"
    unfolding closed_dir_def
  proof (intro conjI allI impI)
    fix p assume "prefix p root"
    then show "node_at ?fs p = Some Directory" using assms(1) ne(2) unfolding at by (auto simp: closed_dir_def)
  next
    fix p t assume "prefix root p"
    then show "node_at ?fs p \<noteq> Some (Symlink t)" using assms(1) unfolding at by (auto simp: closed_dir_def)
  next
    fix p p' i assume "prefix root p \<and> \<not> prefix root p' \<and> node_at ?fs p = Some (Regular i)"
    then show "node_at ?fs p' \<noteq> Some (Regular i)" using assms(1) unfolding at by (auto simp: closed_dir_def split: if_splits)
  next
    fix p i assume "node_at ?fs p = Some (Regular i)"
    then show "i < fs_next ?fs" using assms(1) unfolding at by (auto simp: closed_dir_def split: if_splits)
  qed
  moreover have "same_outside root fs ?fs"
    unfolding same_outside_def
  proof (intro allI impI)
    fix p assume "\<not> prefix root p"
    then have "node_at ?fs p = node_at fs p" using assms(2) unfolding at by auto
    then show "node_at ?fs p = node_at fs p \<and> read_at ?fs p = read_at fs p" using read_at_cong[of ?fs p fs] by simp
  qed
  ultimately show ?thesis by (simp add: keeps_outside_def)
qed

lemma remove_name_keeps:
  assumes "closed_dir root fs" "\<forall>s\<in>set (root @ r). normal_seg s" "r \<noteq> []"
  shows "keeps_outside root fs (snd (remove_name (root @ r) fs))"
  using assms(1,3) delete_keeps[OF assms(1), of "root @ r"] resolve_below[OF assms(1,2)]
  by (auto simp: remove_name_def split: sum.splits option.splits file_node.splits)

lemma hard_link_keeps:
  assumes "closed_dir root fs" "\<forall>s\<in>set (root @ old). normal_seg s" "\<forall>s\<in>set (root @ new). normal_seg s"
  shows "keeps_outside root fs (snd (hard_link (root @ old) (root @ new) fs))"
proof (cases "stat_node fs False (root @ old)")
  case (Inr n)
  have at: "node_at fs (root @ old) = Some n" by (rule stat_below[OF assms(1,2) Inr])
  show ?thesis
  proof (cases n)
    case (Regular i)
    have "\<exists>i p. n = Regular i \<and> prefix root p \<and> node_at fs p = Some (Regular i)"
      using Regular at by (intro exI[of _ i] exI[of _ "root @ old"]) simp
    then have "keeps_outside root fs (snd (make_node (root @ new) n fs))" using make_node_keeps[OF assms(1,3)] by blast
    then show ?thesis using Inr Regular by (simp add: hard_link_def)
  next
    case (Symlink t)
    then show ?thesis using at assms(1) by (auto simp: closed_dir_def)
  qed (use Inr assms(1) in \<open>simp add: hard_link_def\<close>)
qed (use assms(1) in \<open>simp add: hard_link_def\<close>)

lemmas keeps_operations = mkdir_all_keeps write_over_keeps remove_name_keeps hard_link_keeps

end
