(* ===== verification/Go_Numbers.thy ===== *)
theory Go_Numbers
  imports Go_Strings
begin

text \<open>
  The parts of Go's \<open>strconv\<close> the program uses, and the wrap-around of its 64-bit integers: a Go
  \<open>int\<close> or \<open>int64\<close> is an \<open>int\<close> between \<open>-2^63\<close> and \<open>2^63 - 1\<close>, and a sum that may leave that range is
  written with \<open>wrap64\<close>.
\<close>

section \<open>Reading numbers\<close>

definition wrap64 :: "int \<Rightarrow> int" where
  "wrap64 n = (n + 2 ^ 63) mod 2 ^ 64 - 2 ^ 63"

definition is_digit :: "char \<Rightarrow> bool" where
  "is_digit c = (48 \<le> (of_char c :: nat) \<and> (of_char c :: nat) \<le> 57)"

fun digits_value :: "int \<Rightarrow> string \<Rightarrow> int" where
  "digits_value acc [] = acc"
| "digits_value acc (c # cs) = digits_value (acc * 10 + (of_char c - 48)) cs"

definition parse_digits :: "string \<Rightarrow> int option" where
  "parse_digits s = (if s \<noteq> [] \<and> list_all is_digit s then Some (digits_value 0 s) else None)"

text \<open>\<open>strconv.Atoi\<close> on a 64-bit machine: an optional sign, digits, and a value in range.\<close>

definition atoi :: "string \<Rightarrow> int option" where
  "atoi s =
     (let n = (if has_prefix s ''-'' then map_option uminus (parse_digits (tl s))
               else if has_prefix s ''+'' then parse_digits (tl s)
               else parse_digits s)
      in case n of
           None \<Rightarrow> None
         | Some v \<Rightarrow> if - (2 ^ 63) \<le> v \<and> v < 2 ^ 63 then Some v else None)"

text \<open>The value \<open>strconv.Atoi\<close> hands back beside its error, for a run of digits: the largest integer.\<close>

definition atoi_clamped :: "string \<Rightarrow> int" where
  "atoi_clamped s = (if s \<noteq> [] \<and> list_all is_digit s then min (digits_value 0 s) (2 ^ 63 - 1) else 0)"

lemma wrap64_id: "- (2 ^ 63) \<le> n \<Longrightarrow> n < 2 ^ 63 \<Longrightarrow> wrap64 n = n"
  by (simp add: wrap64_def)

lemma digits_value_append: "digits_value acc (a @ b) = digits_value (digits_value acc a) b"
  by (induction a arbitrary: acc) auto

lemma digit_char:
  fixes d :: nat
  assumes "d < 10"
  shows "is_digit (char_of (48 + d))" "(of_char (char_of (48 + d) :: char) :: int) = 48 + int d"
proof -
  have n: "(of_char (char_of (48 + d) :: char) :: nat) = 48 + d" using assms by simp
  then show "is_digit (char_of (48 + d))" using assms by (simp only: is_digit_def) simp
  have "(of_char (char_of (48 + d) :: char) :: int) = int (of_char (char_of (48 + d) :: char) :: nat)"
    by (simp only: of_nat_of_char)
  then show "(of_char (char_of (48 + d) :: char) :: int) = 48 + int d" unfolding n by simp
qed

lemma show_nat_digits: "show_nat n \<noteq> [] \<and> list_all is_digit (show_nat n) \<and> digits_value 0 (show_nat n) = int n"
proof (induction n rule: less_induct)
  case (less n)
  show ?case
  proof (cases "n < 10")
    case True
    then show ?thesis using digit_char[of n] by (simp add: show_nat.simps[of n])
  next
    case False
    then have "n div 10 < n" by simp
    from less[OF this] have ih: "show_nat (n div 10) \<noteq> []" "list_all is_digit (show_nat (n div 10))"
        "digits_value 0 (show_nat (n div 10)) = int (n div 10)" by auto
    have "int n = int (n div 10) * 10 + int (n mod 10)" by (simp add: zdiv_int zmod_int)
    then show ?thesis using ih digit_char[of "n mod 10"] False
      by (simp add: show_nat.simps[of n] digits_value_append)
  qed
qed

lemma parse_show_int: "0 \<le> n \<Longrightarrow> parse_digits (show_int n) = Some n"
  using show_nat_digits[of "nat n"] by (simp add: show_int_def parse_digits_def)

text \<open>The number of bits of a value, \<open>bits.Len\<close>.\<close>

fun bit_length :: "nat \<Rightarrow> nat" where
  "bit_length n = (if n = 0 then 0 else Suc (bit_length (n div 2)))"

declare bit_length.simps [simp del]

lemma bit_length_le: "n < 2 ^ k \<Longrightarrow> bit_length n \<le> k"
proof (induction k arbitrary: n)
  case (Suc k)
  then have "bit_length (n div 2) \<le> k" by simp
  then show ?case by (subst bit_length.simps) simp
qed (simp add: bit_length.simps)

end
