(* ===== verification/Volume_Staging.thy ===== *)
theory Volume_Staging
  imports Go_Files Go_Numbers
begin

text \<open>
  Staging a volume or a host directory (\<open>internal/storage/staging.go\<close>) and re-taking the SQLite databases
  in it (\<open>internal/storage/sqlite.go\<close>). The members of an archive, the answers of the Docker daemon and
  the failures of permissions are inputs; the state is the file system and the log of what was asked
  of the daemon. File modes and times are set but not modelled; durations are left out.
\<close>

section \<open>Data\<close>

record ownership_entry =
  oe_path :: string
  oe_uid :: int
  oe_gid :: int
  oe_mode :: nat

record sqlite_capture =
  sc_path :: string
  sc_method :: string
  sc_bytes :: int

record stage_result =
  sr_files :: int
  sr_bytes :: int
  sr_ownership :: "ownership_entry list"
  sr_preserved :: bool
  sr_sqlite :: "sqlite_capture list"
  sr_warnings :: "string list"

datatype tar_type = Tar_Dir | Tar_Regular | Tar_Symlink | Tar_Hardlink | Tar_Other

record tar_header =
  th_name :: string
  th_type :: tar_type
  th_link :: string
  th_uid :: int
  th_gid :: int
  th_mode :: int

text \<open>What the tar reader delivers: a member with the data read of it and the failure that cut it short, or a failure.\<close>

datatype tar_event = Tar_Member tar_header string "string option" | Tar_Damaged string

datatype extract_error =
  Refused_Entry string
| Read_Tar string
| Entry_Failed string fs_error
| Entry_Os_Failed string string

record extract_world =
  zw_cwd :: string
  zw_lchown_fault :: "nat \<Rightarrow> bool"
  zw_meta_fault :: "nat \<Rightarrow> string option"
  zw_dir_fault :: "string \<Rightarrow> string option"

record extract_state =
  et_fs :: file_system
  et_result :: stage_result
  et_dirs :: "string list"

section \<open>Extracting\<close>

definition safe_join :: "string \<Rightarrow> string \<Rightarrow> (extract_error, string) result" where
  "safe_join root name =
     (let relative = trim_prefix (path_clean name) ''/'' in
      if relative = ''..'' \<or> has_prefix relative ''../'' then Inl (Refused_Entry name)
      else (let target = path_join [root, relative] in
            if target \<noteq> root \<and> \<not> has_prefix target (root @ ''/'') then Inl (Refused_Entry name) else Inr target))"

definition relative_to :: "string \<Rightarrow> string \<Rightarrow> string" where
  "relative_to root p = path_rel root p"

definition parent_segs :: "string \<Rightarrow> string list" where
  "parent_segs p = path_segs (path_dir p)"

datatype placed = Placed int | Skipped | Not_Placed extract_error

definition write_file :: "string \<Rightarrow> tar_header \<Rightarrow> string \<Rightarrow> string option \<Rightarrow> string option \<Rightarrow> file_system \<Rightarrow> placed \<times> file_system" where
  "write_file target h content fault meta fs =
     (case mkdir_all (parent_segs target) fs of
        (Some e, fs1) \<Rightarrow> (Not_Placed (Entry_Failed (th_name h) e), fs1)
      | (None, fs1) \<Rightarrow>
          (case write_over (path_segs target) content fs1 of
             (Some e, fs2) \<Rightarrow> (Not_Placed (Entry_Failed (th_name h) e), fs2)
           | (None, fs2) \<Rightarrow>
               (case fault of
                  Some e \<Rightarrow> (Not_Placed (Entry_Os_Failed (th_name h) e), fs2)
                | None \<Rightarrow>
                    (case meta of
                       Some e \<Rightarrow> (Not_Placed (Entry_Os_Failed (th_name h) e), fs2)
                     | None \<Rightarrow> (Placed (int (length content)), fs2)))))"

definition place_symlink :: "string \<Rightarrow> tar_header \<Rightarrow> file_system \<Rightarrow> placed \<times> file_system" where
  "place_symlink target h fs =
     (case mkdir_all (parent_segs target) fs of
        (Some e, fs1) \<Rightarrow> (Not_Placed (Entry_Failed (th_name h) e), fs1)
      | (None, fs1) \<Rightarrow>
          (let fs2 = snd (remove_name (path_segs target) fs1) in
           if th_link h = [] then (Not_Placed (Entry_Failed (th_name h) Not_Exist), fs2)
           else case make_node (path_segs target) (Symlink (th_link h)) fs2 of
                  (Some e, fs3) \<Rightarrow> (Not_Placed (Entry_Failed (th_name h) e), fs3)
                | (None, fs3) \<Rightarrow> (Placed 0, fs3)))"

definition place_hardlink :: "string \<Rightarrow> string \<Rightarrow> tar_header \<Rightarrow> file_system \<Rightarrow> placed \<times> file_system" where
  "place_hardlink root target h fs =
     (case safe_join root (th_link h) of
        Inl e \<Rightarrow> (Not_Placed e, fs)
      | Inr source \<Rightarrow>
          (case mkdir_all (parent_segs target) fs of
             (Some e, fs1) \<Rightarrow> (Not_Placed (Entry_Failed (th_name h) e), fs1)
           | (None, fs1) \<Rightarrow>
               (case hard_link (path_segs source) (path_segs target) (snd (remove_name (path_segs target) fs1)) of
                  (Some e, fs2) \<Rightarrow> (Not_Placed (Entry_Failed (th_name h) e), fs2)
                | (None, fs2) \<Rightarrow> (Placed 0, fs2))))"

definition place_entry :: "extract_world \<Rightarrow> nat \<Rightarrow> string \<Rightarrow> string \<Rightarrow> tar_header \<Rightarrow> string \<Rightarrow> string option \<Rightarrow> file_system
    \<Rightarrow> placed \<times> file_system" where
  "place_entry w i root target h content fault fs =
     (case th_type h of
        Tar_Dir \<Rightarrow>
          (case mkdir_all (path_segs target) fs of
             (Some e, fs1) \<Rightarrow> (Not_Placed (Entry_Failed (th_name h) e), fs1) | (None, fs1) \<Rightarrow> (Placed 0, fs1))
      | Tar_Regular \<Rightarrow> write_file target h content fault (zw_meta_fault w i) fs
      | Tar_Symlink \<Rightarrow> place_symlink target h fs
      | Tar_Hardlink \<Rightarrow> place_hardlink root target h fs
      | Tar_Other \<Rightarrow> (Skipped, fs))"

definition ownership_warning :: string where
  "ownership_warning = ''the staged copy uses Back-Orbit'' @ char_of (39::nat) # ''s UID/GID because the original file ownership cannot be applied by the unprivileged container; original UID/GID values are recorded in the snapshot manifest and must be reapplied during restore''"

definition own_entry :: "string \<Rightarrow> string \<Rightarrow> tar_header \<Rightarrow> ownership_entry" where
  "own_entry root target h =
     \<lparr>oe_path = relative_to root target, oe_uid = th_uid h, oe_gid = th_gid h, oe_mode = nat (th_mode h mod 2 ^ 32)\<rparr>"

definition count_placed :: "extract_world \<Rightarrow> nat \<Rightarrow> int \<Rightarrow> stage_result \<Rightarrow> stage_result" where
  "count_placed w i n r =
     (let r1 = r\<lparr>sr_files := sr_files r + 1, sr_bytes := wrap64 (sr_bytes r + n)\<rparr> in
      if zw_lchown_fault w i \<and> sr_preserved r1
      then r1\<lparr>sr_preserved := False, sr_warnings := sr_warnings r1 @ [ownership_warning]\<rparr> else r1)"

definition extract_entry :: "extract_world \<Rightarrow> string \<Rightarrow> nat \<Rightarrow> tar_header \<Rightarrow> string \<Rightarrow> string option \<Rightarrow> extract_state
    \<Rightarrow> extract_error option \<times> extract_state" where
  "extract_entry w root i h content fault st =
     (case safe_join root (th_name h) of
        Inl e \<Rightarrow> (Some e, st)
      | Inr target \<Rightarrow>
          if target = root then (None, st)
          else
            (let r = et_result st; r1 = r\<lparr>sr_ownership := sr_ownership r @ [own_entry root target h]\<rparr>;
                 (p, fs1) = place_entry w i root target h content fault (et_fs st)
             in case p of
                  Not_Placed e \<Rightarrow> (Some e, st\<lparr>et_fs := fs1, et_result := r1\<rparr>)
                | Skipped \<Rightarrow> (None, st\<lparr>et_fs := fs1,
                    et_result := r1\<lparr>sr_warnings := sr_warnings r1 @ [''skipped '' @ th_name h @ '': unsupported entry type'']\<rparr>\<rparr>)
                | Placed n \<Rightarrow> (None, st\<lparr>et_fs := fs1, et_result := count_placed w i n r1,
                    et_dirs := et_dirs st @ (if th_type h = Tar_Dir then [target] else [])\<rparr>)))"

fun extract_entries :: "extract_world \<Rightarrow> string \<Rightarrow> nat \<Rightarrow> tar_event list \<Rightarrow> extract_state \<Rightarrow> extract_error option \<times> extract_state" where
  "extract_entries w root i [] st = (None, st)"
| "extract_entries w root i (Tar_Damaged e # es) st = (Some (Read_Tar e), st)"
| "extract_entries w root i (Tar_Member h content fault # es) st =
     (case extract_entry w root i h content fault st of
        (Some e, st1) \<Rightarrow> (Some e, st1)
      | (None, st1) \<Rightarrow> extract_entries w root (Suc i) es st1)"

definition abs_path :: "string \<Rightarrow> string \<Rightarrow> string" where
  "abs_path cwd p = (if rooted p then path_clean p else path_join [cwd, p])"

definition empty_result :: stage_result where
  "empty_result = \<lparr>sr_files = 0, sr_bytes = 0, sr_ownership = [], sr_preserved = True, sr_sqlite = [], sr_warnings = []\<rparr>"

definition dir_warnings :: "extract_world \<Rightarrow> string \<Rightarrow> string list \<Rightarrow> string list" where
  "dir_warnings w root dirs =
     concat (map (\<lambda>d. case zw_dir_fault w d of None \<Rightarrow> []
       | Some e \<Rightarrow> [''could not set permissions on '' @ relative_to root d @ '': '' @ e]) (rev dirs))"

definition extract_tar :: "extract_world \<Rightarrow> string \<Rightarrow> tar_event list \<Rightarrow> file_system
    \<Rightarrow> (extract_error, stage_result) result \<times> file_system" where
  "extract_tar w dest events fs =
     (let root = abs_path (zw_cwd w) dest;
          (err, st) = extract_entries w root 0 events \<lparr>et_fs = fs, et_result = empty_result, et_dirs = []\<rparr>
      in case err of
           Some e \<Rightarrow> (Inl e, et_fs st)
         | None \<Rightarrow> (let r = et_result st
                   in (Inr (r\<lparr>sr_warnings := sr_warnings r @ dir_warnings w root (et_dirs st)\<rparr>), et_fs st)))"

section \<open>Where an entry goes\<close>

lemma path_clean_not_rooted: "\<not> rooted p \<Longrightarrow> path_clean p = render_path False (path_segs p)"
  by (simp add: path_clean_def)

lemma join_eq_Nil: "\<forall>s\<in>set segs. s \<noteq> [] \<Longrightarrow> join segs sep = [] \<longleftrightarrow> segs = []"
  by (cases "(segs, sep)" rule: join.cases) auto

text \<open>An accepted name lies at or below the root, at the segments it names; a refused one leads upwards.\<close>

lemma safe_join_below:
  assumes "abs_clean root"
  shows "safe_join root name =
    (if leads_up name \<or> path_segs root = [] \<and> path_segs name \<noteq> [] then Inl (Refused_Entry name)
     else Inr (render_path True (path_segs root @ path_segs name)))"
proof -
  have root: "root = render_path True (path_segs root)" by (rule abs_clean_render[OF assms])
  show ?thesis
  proof (cases "leads_up name")
    case True
    then have "\<not> rooted name" using path_segs_rooted[of name] by (cases "path_segs name") (auto simp: leads_up_def)
    then have "trim_prefix (path_clean name) ''/'' = path_clean name"
      using rooted_path_clean_iff[of name] by (simp add: trim_prefix_def rooted_def has_prefix_def)
    then show ?thesis using leads_up_prefix[OF True] True by (auto simp: safe_join_def Let_def)
  next
    case False
    let ?segs = "path_segs name"
    have n: "\<forall>s\<in>set ?segs. normal_seg s" by (rule path_segs_normal[OF False])
    have rel: "trim_prefix (path_clean name) ''/'' = (if \<not> rooted name \<and> ?segs = [] then ''.'' else join ?segs ''/'')"
    proof (cases "rooted name")
      case True
      then show ?thesis by (simp add: path_clean_rooted render_path_def trim_prefix_def)
    next
      case nr: False
      have "\<not> rooted (path_clean name)" using nr by simp
      then show ?thesis using nr by (simp add: path_clean_not_rooted render_path_def trim_prefix_def rooted_def has_prefix_def)
    qed
    have up: "join ?segs ''/'' \<noteq> ''..'' \<and> \<not> has_prefix (join ?segs ''/'') ''../''" by (rule join_normal_no_up[OF n])
    have joined: "path_join [root, trim_prefix (path_clean name) ''/''] = render_path True (path_segs root @ ?segs)"
    proof (cases "\<not> rooted name \<and> ?segs = []")
      case True
      have r: "rooted root" using assms by (simp add: abs_clean_def)
      have "path_segs (root @ ''/.'') = path_segs root" using path_segs_append[OF r, of "''.''"] by simp
      moreover have "root \<noteq> []" using r by auto
      ultimately show ?thesis using True rel r by (simp add: path_join_two path_clean_rooted)
    next
      case False
      then show ?thesis using rel path_join_root_segs[OF assms n] by auto
    qed
    have pre: "render_path True (path_segs root @ ?segs) = root \<or> has_prefix (render_path True (path_segs root @ ?segs)) (root @ ''/'')
        \<longleftrightarrow> \<not> (path_segs root = [] \<and> ?segs \<noteq> [])"
    proof (cases "path_segs root = []")
      case True
      then have "root = ''/''" using root by (simp add: render_path_def)
      have nr: "\<not> rooted (join ?segs ''/'')" by (rule not_rooted_join) (use n in \<open>auto simp: normal_seg_def\<close>)
      have "join ?segs ''/'' = [] \<longleftrightarrow> ?segs = []" by (rule join_eq_Nil) (use n in \<open>auto simp: normal_seg_def\<close>)
      then show ?thesis using True nr \<open>root = ''/''\<close> by (auto simp: render_path_def has_prefix_def rooted_def)
    next
      case rs: False
      show ?thesis
      proof (cases "?segs = []")
        case False
        have "render_path True (path_segs root @ ?segs) = root @ ''/'' @ join ?segs ''/''"
          using rs False by (subst (2) root) (simp add: render_path_def join_append)
        then show ?thesis using rs by (simp add: has_prefix_def)
      qed (use root rs in simp)
    qed
    show ?thesis using False rel up joined pre by (auto simp: safe_join_def Let_def has_prefix_def)
  qed
qed

lemma parent_segs_render:
  assumes "\<forall>s\<in>set (xs @ [x]). normal_seg s"
  shows "parent_segs (render_path True (xs @ [x])) = xs"
proof -
  let ?a = "if xs = [] then [] else render_path True xs"
  have split: "render_path True (xs @ [x]) = ?a @ CHR ''/'' # x"
    by (simp add: render_path_def join_append)
  have x: "CHR ''/'' \<notin> set x" using assms by (simp add: normal_seg_def)
  have "path_dir (render_path True (xs @ [x])) = path_clean (?a @ ''/'')"
    unfolding path_dir_def split last_index_char_append[OF x] by simp
  moreover have "path_segs (?a @ ''/'') = xs"
  proof (cases "xs = []")
    case False
    then show ?thesis using path_segs_append[of "render_path True xs" "[]"] path_segs_render[of xs] assms by simp
  qed (simp add: path_segs_def)
  moreover have "rooted (?a @ ''/'')" by (cases "xs = []") (auto simp: render_path_def)
  ultimately show ?thesis unfolding parent_segs_def by (simp add: path_segs_path_clean)
qed

section \<open>Extraction stays below its directory\<close>

text \<open>Where an accepted entry other than the root itself lands: at names strictly below the root.\<close>

definition lands_at :: "string \<Rightarrow> string \<Rightarrow> string list \<Rightarrow> bool" where
  "lands_at root target below =
     (abs_clean root \<and> target = render_path True (path_segs root @ below) \<and> list_all normal_seg below \<and> below \<noteq> [])"

lemma lands_at_normal: "lands_at root target below \<Longrightarrow> \<forall>s\<in>set (path_segs root @ below). normal_seg s"
  using abs_clean_segs[of root] by (auto simp: lands_at_def list_all_iff)

lemma lands_at_segs: "lands_at root target below \<Longrightarrow> path_segs target = path_segs root @ below"
  using lands_at_normal[of root target below] by (simp add: lands_at_def path_segs_render)

lemma lands_at_parent: "lands_at root target below \<Longrightarrow> parent_segs target = path_segs root @ butlast below"
proof -
  assume l: "lands_at root target below"
  have eq: "path_segs root @ below = (path_segs root @ butlast below) @ [last below]" using l by (simp add: lands_at_def)
  have "target = render_path True ((path_segs root @ butlast below) @ [last below])"
    using l eq unfolding lands_at_def by simp
  moreover have "parent_segs (render_path True ((path_segs root @ butlast below) @ [last below])) = path_segs root @ butlast below"
    by (rule parent_segs_render) (use lands_at_normal[OF l] in \<open>simp only: eq[symmetric]\<close>)
  ultimately show ?thesis by simp
qed

lemma safe_join_lands:
  assumes "abs_clean root" "safe_join root name = Inr target"
  shows "target = root \<or> (\<exists>below. lands_at root target below)"
proof (cases "path_segs name = []")
  case True
  then show ?thesis using assms abs_clean_render[OF assms(1)] by (auto simp: safe_join_below split: if_splits)
next
  case False
  then show ?thesis
    using assms path_segs_normal[of name] by (auto simp: safe_join_below lands_at_def list_all_iff split: if_splits)
qed

lemma landing_operations:
  assumes l: "lands_at root target below" and c: "closed_dir (path_segs root) fs"
  shows "keeps_outside (path_segs root) fs (snd (mkdir_all (parent_segs target) fs))"
    "keeps_outside (path_segs root) fs (snd (mkdir_all (path_segs target) fs))"
    "keeps_outside (path_segs root) fs (snd (write_over (path_segs target) content fs))"
    "keeps_outside (path_segs root) fs (snd (remove_name (path_segs target) fs))"
proof -
  note n = lands_at_normal[OF l]
  have up: "\<forall>s\<in>set (path_segs root @ butlast below). normal_seg s" using n by (auto dest: in_set_butlastD)
  show "keeps_outside (path_segs root) fs (snd (mkdir_all (parent_segs target) fs))"
    unfolding lands_at_parent[OF l] by (rule mkdir_all_keeps[OF c up])
  show "keeps_outside (path_segs root) fs (snd (mkdir_all (path_segs target) fs))"
    unfolding lands_at_segs[OF l] by (rule mkdir_all_keeps[OF c n])
  show "keeps_outside (path_segs root) fs (snd (write_over (path_segs target) content fs))"
    unfolding lands_at_segs[OF l] by (rule write_over_keeps[OF c n])
  show "keeps_outside (path_segs root) fs (snd (remove_name (path_segs target) fs))"
    unfolding lands_at_segs[OF l] by (rule remove_name_keeps[OF c n]) (use l in \<open>simp add: lands_at_def\<close>)
qed

lemma landing_link:
  assumes l: "lands_at root target below" and c: "closed_dir (path_segs root) fs" and s: "safe_join root name = Inr source"
  shows "keeps_outside (path_segs root) fs (snd (hard_link (path_segs source) (path_segs target) fs))"
proof -
  have root: "abs_clean root" using l by (simp add: lands_at_def)
  have up: "\<not> leads_up name" and src: "source = render_path True (path_segs root @ path_segs name)"
    using s unfolding safe_join_below[OF root] by (auto split: if_splits)
  then have n: "\<forall>s\<in>set (path_segs root @ path_segs name). normal_seg s"
    using path_segs_normal abs_clean_segs[OF root] by auto
  then have "path_segs source = path_segs root @ path_segs name" unfolding src by (rule path_segs_render)
  then show ?thesis unfolding lands_at_segs[OF l] using hard_link_keeps[OF c n lands_at_normal[OF l]] by simp
qed

lemma write_file_keeps:
  assumes l: "lands_at root target below" and c: "closed_dir (path_segs root) fs"
  shows "keeps_outside (path_segs root) fs (snd (write_file target h content fault meta fs))"
proof -
  obtain e fs1 where m: "mkdir_all (parent_segs target) fs = (e, fs1)" by fastforce
  have k1: "keeps_outside (path_segs root) fs fs1" using landing_operations(1)[OF l c] m by simp
  obtain e2 fs2 where w: "write_over (path_segs target) content fs1 = (e2, fs2)" by fastforce
  have k2: "keeps_outside (path_segs root) fs fs2"
    using keeps_trans[OF k1] landing_operations(3)[OF l keeps_closed[OF k1], of content] w by simp
  show ?thesis using k1 k2 m w by (simp add: write_file_def split: option.split)
qed

lemma place_hardlink_keeps:
  assumes l: "lands_at root target below" and c: "closed_dir (path_segs root) fs"
  shows "keeps_outside (path_segs root) fs (snd (place_hardlink root target h fs))"
proof (cases "safe_join root (th_link h)")
  case (Inr source)
  obtain e fs1 where m: "mkdir_all (parent_segs target) fs = (e, fs1)" by fastforce
  have k1: "keeps_outside (path_segs root) fs fs1" using landing_operations(1)[OF l c] m by simp
  let ?fs2 = "snd (remove_name (path_segs target) fs1)"
  have k2: "keeps_outside (path_segs root) fs ?fs2"
    using keeps_trans[OF k1] landing_operations(4)[OF l keeps_closed[OF k1]] by simp
  obtain e3 fs3 where h: "hard_link (path_segs source) (path_segs target) ?fs2 = (e3, fs3)" by fastforce
  have "keeps_outside (path_segs root) fs fs3" using keeps_trans[OF k2] landing_link[OF l keeps_closed[OF k2] Inr] h by simp
  then show ?thesis using k1 m h Inr by (simp add: place_hardlink_def split: option.split)
qed (use c in \<open>simp add: place_hardlink_def\<close>)

lemma place_entry_keeps:
  assumes l: "lands_at root target below" and c: "closed_dir (path_segs root) fs" and t: "th_type h \<noteq> Tar_Symlink"
  shows "keeps_outside (path_segs root) fs (snd (place_entry w i root target h content fault fs))"
  using t c landing_operations(2)[OF l c] write_file_keeps[OF l c] place_hardlink_keeps[OF l c]
  by (cases "th_type h") (auto simp: place_entry_def split: prod.splits option.splits)

fun plain_member :: "tar_event \<Rightarrow> bool" where
  "plain_member (Tar_Member h content fault) = (th_type h \<noteq> Tar_Symlink)"
| "plain_member (Tar_Damaged e) = True"

lemma extract_entry_keeps:
  assumes "abs_clean root" "closed_dir (path_segs root) (et_fs st)" "th_type h \<noteq> Tar_Symlink"
  shows "keeps_outside (path_segs root) (et_fs st) (et_fs (snd (extract_entry w root i h content fault st)))"
proof (cases "safe_join root (th_name h)")
  case (Inr target)
  show ?thesis
  proof (cases "target = root")
    case False
    obtain below where l: "lands_at root target below" using safe_join_lands[OF assms(1) Inr] False by blast
    obtain p fs1 where p: "place_entry w i root target h content fault (et_fs st) = (p, fs1)" by fastforce
    have "keeps_outside (path_segs root) (et_fs st) fs1"
      using place_entry_keeps[OF l assms(2,3), of w i content fault] p by simp
    then show ?thesis using Inr False p by (simp add: extract_entry_def Let_def split: placed.split)
  qed (use Inr assms(2) in \<open>simp add: extract_entry_def\<close>)
qed (use assms(2) in \<open>simp add: extract_entry_def\<close>)

lemma extract_entries_keeps:
  assumes "abs_clean root" "closed_dir (path_segs root) (et_fs st)" "list_all plain_member events"
  shows "keeps_outside (path_segs root) (et_fs st) (et_fs (snd (extract_entries w root i events st)))"
  using assms(2,3)
proof (induction events arbitrary: i st)
  case (Cons ev es)
  show ?case
  proof (cases ev)
    case (Tar_Member h content fault)
    obtain e st1 where s: "extract_entry w root i h content fault st = (e, st1)" by fastforce
    have k: "keeps_outside (path_segs root) (et_fs st) (et_fs st1)"
      using extract_entry_keeps[OF assms(1) Cons.prems(1), of h w i content fault] Cons.prems(2) Tar_Member s by simp
    have "keeps_outside (path_segs root) (et_fs st1) (et_fs (snd (extract_entries w root (Suc i) es st1)))"
      using Cons.IH[OF keeps_closed[OF k]] Cons.prems(2) by simp
    then show ?thesis using k s Tar_Member keeps_trans[OF k] by (simp split: option.split)
  qed (use Cons.prems in simp)
qed simp

section \<open>Helper containers\<close>

definition mount_path :: string where
  "mount_path = ''/back-orbit-source''"

record helper_request =
  hq_image :: string
  hq_source :: string
  hq_mount :: string
  hq_writable :: bool
  hq_command :: "string list"
  hq_purpose :: string

datatype helper_call =
  Asked_Self_Image
| Created string helper_request
| Not_Created helper_request
| Read_Archive string string
| Ran string
| Removed string
| Listed

type_synonym helper_log = "helper_call list"

record helper_daemon =
  hd_self_image :: "(string, string) result"
  hd_create :: "helper_log \<Rightarrow> helper_request \<Rightarrow> (string, string) result"
  hd_archive :: "helper_log \<Rightarrow> string \<Rightarrow> string \<Rightarrow> (string, tar_event list) result"
  hd_run :: "helper_log \<Rightarrow> string \<Rightarrow> (string, int \<times> string) result"
  hd_remove_fault :: "helper_log \<Rightarrow> string \<Rightarrow> bool"
  hd_helpers :: "(string, string list) result"

record stage_world =
  zs_daemon :: helper_daemon
  zs_helper_image :: string
  zs_extract :: extract_world
  zs_mkdir_fault :: "string option"
  zs_scan_fault :: "string option"
  zs_recount_fault :: "string option"
  zs_write_fault :: "string \<Rightarrow> string option"
  zs_sidecar_fault :: "string \<Rightarrow> string option"

datatype stage_error =
  No_Volume_Name
| No_Bind_Path
| Bind_Not_Absolute string
| Staging_Dir_Failed string
| No_Helper_Image string
| Helper_Not_Created string string
| Source_Unreadable string string
| Extract_Failed string extract_error
| Scan_Failed string
| Recount_Failed string

definition create_helper :: "helper_daemon \<Rightarrow> helper_request \<Rightarrow> helper_log \<Rightarrow> (string, string) result \<times> helper_log" where
  "create_helper d rq log =
     (case hd_create d log rq of
        Inl e \<Rightarrow> (Inl e, log @ [Not_Created rq])
      | Inr i \<Rightarrow> (Inr i, log @ [Created i rq]))"

definition resolve_helper_image :: "stage_world \<Rightarrow> helper_log \<Rightarrow> (string, string) result \<times> helper_log" where
  "resolve_helper_image w log =
     (if zs_helper_image w \<noteq> [] then (Inr (zs_helper_image w), log)
      else (hd_self_image (zs_daemon w), log @ [Asked_Self_Image]))"

section \<open>SQLite\<close>

definition sqlite_header :: string where
  "sqlite_header = ''SQLite format 3'' @ [char_of (0::nat)]"

definition capture_path :: string where
  "capture_path = ''/tmp/back-orbit-capture''"

definition sidecars :: "string list" where
  "sidecars = [''-wal'', ''-shm'', ''-journal'']"

definition has_sqlite_magic :: "string \<Rightarrow> bool" where
  "has_sqlite_magic content = (length sqlite_header \<le> length content \<and> take (length sqlite_header) content = sqlite_header)"

definition is_database :: "file_system \<Rightarrow> string list \<times> file_node \<Rightarrow> bool" where
  "is_database fs = (\<lambda>(p, n). case n of
     Regular i \<Rightarrow> \<not> list_ex (has_suffix (render_path True p)) sidecars \<and> has_sqlite_magic (data_of fs i)
   | _ \<Rightarrow> False)"

definition find_databases :: "string \<Rightarrow> file_system \<Rightarrow> string list" where
  "find_databases root fs = map (\<lambda>(p, n). path_rel root (render_path True p)) (filter (is_database fs) (walk_entries (path_segs root) fs))"

definition sqlite_warning :: "string \<Rightarrow> string \<Rightarrow> string" where
  "sqlite_warning relative e = relative @ '' is a SQLite database that could not be captured consistently ('' @ e @
     ''); the plain file copy in this snapshot may be missing recent transactions or be unusable if the application was writing during the backup''"

definition container_paths :: "string list \<Rightarrow> string list" where
  "container_paths relatives = map (\<lambda>r. mount_path @ ''/'' @ r) relatives"

definition capture_script :: string where
  "capture_script = ''mkdir -p '' @ capture_path @ newline # ''i=0'' @ newline # ''for db in '' @ double_quote # ''$@'' @ double_quote # ''; do'' @
     newline # ''  sqlite3 '' @ double_quote # ''$db'' @ double_quote # '' '' @ double_quote # ''.backup '' @ char_of (39::nat) # capture_path @
     ''/$i'' @ char_of (39::nat) # double_quote # '' || echo '' @ double_quote # ''back-orbit: failed $db'' @ double_quote # '' >&2'' @
     newline # ''  i=$((i+1))'' @ newline # ''done''"

definition capture_request :: "string \<Rightarrow> string \<Rightarrow> string list \<Rightarrow> helper_request" where
  "capture_request img source databases =
     \<lparr>hq_image = img, hq_source = source, hq_mount = mount_path, hq_writable = True,
      hq_command = [''/bin/sh'', ''-c'', capture_script, ''sh''] @ container_paths databases, hq_purpose = ''capture-sqlite''\<rparr>"

text \<open>The captured copies by their file name; a later member of the same name replaces an earlier one.\<close>

fun read_capture :: "tar_event list \<Rightarrow> (string \<times> string) list \<Rightarrow> (string, (string \<times> string) list) result" where
  "read_capture [] found = Inr found"
| "read_capture (Tar_Damaged e # es) found = Inl (''storage: read the captured copies: '' @ e)"
| "read_capture (Tar_Member h content fault # es) found =
     (if th_type h \<noteq> Tar_Regular then read_capture es found
      else case fault of
             Some e \<Rightarrow> Inl (''storage: read captured '' @ th_name h @ '': '' @ e)
           | None \<Rightarrow> read_capture es (AList.update (path_base (th_name h)) content found))"

definition run_capture :: "stage_world \<Rightarrow> string \<Rightarrow> string \<Rightarrow> string list \<Rightarrow> helper_log
    \<Rightarrow> (string, (string \<times> string) list) result \<times> helper_log" where
  "run_capture w img source databases log =
     (let (made, log1) = create_helper (zs_daemon w) (capture_request img source databases) log in
      case made of
        Inl e \<Rightarrow> (Inl (''create helper: '' @ e), log1)
      | Inr c \<Rightarrow>
          (let ran = hd_run (zs_daemon w) log1 c; log2 = log1 @ [Ran c] in
           case ran of
             Inl e \<Rightarrow> (Inl (''run sqlite3: '' @ e), log2 @ [Removed c])
           | Inr (code, output) \<Rightarrow>
               if code \<noteq> 0 then (Inl (''sqlite3 exited '' @ show_int code @ '': '' @ trim_space output), log2 @ [Removed c])
               else (let archive = hd_archive (zs_daemon w) log2 c capture_path; log3 = log2 @ [Read_Archive c capture_path] in
                     case archive of
                       Inl e \<Rightarrow> (Inl (''read the captured copies: '' @ e), log3 @ [Removed c])
                     | Inr events \<Rightarrow> (read_capture events [], log3 @ [Removed c]))))"

definition capture_method :: string where
  "capture_method = ''sqlite3 online backup (consistent, includes the write-ahead log)''"

text \<open>Removing a sidecar: no warning when there is none.\<close>

fun remove_sidecars :: "stage_world \<Rightarrow> string \<Rightarrow> string \<Rightarrow> string list \<Rightarrow> string list \<Rightarrow> file_system \<Rightarrow> string list \<times> file_system" where
  "remove_sidecars w target relative [] warnings fs = (warnings, fs)"
| "remove_sidecars w target relative (s # ss) warnings fs =
     (case zs_sidecar_fault w (target @ s) of
        Some e \<Rightarrow> remove_sidecars w target relative ss (warnings @ [sqlite_warning relative e]) fs
      | None \<Rightarrow>
          (let (e, fs1) = remove_name (path_segs (target @ s)) fs in
           if e = None \<or> e = Some Not_Exist then remove_sidecars w target relative ss warnings fs1
           else remove_sidecars w target relative ss (warnings @ [sqlite_warning relative ''remove'']) fs1))"

definition write_capture :: "stage_world \<Rightarrow> string \<Rightarrow> string \<Rightarrow> file_system \<Rightarrow> string option \<times> file_system" where
  "write_capture w target copy fs =
     (case zs_write_fault w target of
        Some t \<Rightarrow> (Some t, fs)
      | None \<Rightarrow> (case write_over (path_segs target) copy fs of (None, fs1) \<Rightarrow> (None, fs1) | (Some _, fs1) \<Rightarrow> (Some ''open'', fs1)))"

fun place_captures :: "stage_world \<Rightarrow> string \<Rightarrow> nat \<Rightarrow> string list \<Rightarrow> (string \<times> string) list
    \<Rightarrow> sqlite_capture list \<times> string list \<times> file_system \<Rightarrow> sqlite_capture list \<times> string list \<times> file_system" where
  "place_captures w dest i [] captured acc = acc"
| "place_captures w dest i (relative # rest) captured (captures, warnings, fs) =
     (case map_of captured (show_nat i) of
        None \<Rightarrow> place_captures w dest (Suc i) rest captured
          (captures, warnings @ [sqlite_warning relative ''sqlite3 produced no output for it''], fs)
      | Some copy \<Rightarrow>
          if copy = [] then place_captures w dest (Suc i) rest captured
            (captures, warnings @ [sqlite_warning relative ''sqlite3 produced no output for it''], fs)
          else
            (let target = path_join [dest, relative];
                 (e, fs1) = write_capture w target copy fs
             in case e of
                  Some t \<Rightarrow> place_captures w dest (Suc i) rest captured (captures, warnings @ [sqlite_warning relative t], fs1)
                | None \<Rightarrow>
                    (let (warnings1, fs2) = remove_sidecars w target relative sidecars warnings fs1 in
                     place_captures w dest (Suc i) rest captured
                       (captures @ [\<lparr>sc_path = relative, sc_method = capture_method, sc_bytes = int (length copy)\<rparr>], warnings1, fs2))))"

definition capture_databases :: "stage_world \<Rightarrow> string \<Rightarrow> string \<Rightarrow> file_system \<Rightarrow> helper_log
    \<Rightarrow> (stage_error, sqlite_capture list \<times> string list) result \<times> file_system \<times> helper_log" where
  "capture_databases w source dest fs log =
     (case zs_scan_fault w of
        Some e \<Rightarrow> (Inl (Scan_Failed e), fs, log)
      | None \<Rightarrow>
          (let databases = find_databases dest fs in
           if databases = [] then (Inr ([], []), fs, log)
           else
             (let (resolved, log1) = resolve_helper_image w log in
              case resolved of
                Inl e \<Rightarrow> (Inl (No_Helper_Image e), fs, log1)
              | Inr img \<Rightarrow>
                  (let (captured, log2) = run_capture w img source databases log1 in
                   case captured of
                     Inl e \<Rightarrow> (Inr ([], map (\<lambda>r. sqlite_warning r e) databases), fs, log2)
                   | Inr found \<Rightarrow>
                       (let (captures, warnings, fs1) = place_captures w dest 0 databases found ([], [], fs)
                        in (Inr (captures, warnings), fs1, log2))))))"

section \<open>Staging a source\<close>

definition recount_tree :: "string \<Rightarrow> file_system \<Rightarrow> stage_result \<Rightarrow> stage_result" where
  "recount_tree root fs r =
     (let entries = walk_entries (path_segs root) fs in
      r\<lparr>sr_files := int (length entries),
        sr_bytes := fold (\<lambda>(p, n) b. case n of Regular i \<Rightarrow> wrap64 (b + int (length (data_of fs i))) | _ \<Rightarrow> b) entries 0\<rparr>)"

definition stage_from :: "stage_world \<Rightarrow> string \<Rightarrow> string \<Rightarrow> string \<Rightarrow> file_system \<Rightarrow> helper_log
    \<Rightarrow> (stage_error, stage_result) result \<times> file_system \<times> helper_log" where
  "stage_from w c source dest fs log =
     (let archive = hd_archive (zs_daemon w) log c (mount_path @ ''/.''); log1 = log @ [Read_Archive c (mount_path @ ''/.'')] in
      case archive of
        Inl e \<Rightarrow> (Inl (Source_Unreadable source e), fs, log1)
      | Inr events \<Rightarrow>
          (let (extracted, fs1) = extract_tar (zs_extract w) dest events fs in
           case extracted of
             Inl e \<Rightarrow> (Inl (Extract_Failed source e), fs1, log1)
           | Inr r \<Rightarrow>
               (let (captured, fs2, log2) = capture_databases w source dest fs1 log1 in
                case captured of
                  Inl e \<Rightarrow> (Inl e, fs2, log2)
                | Inr (captures, warnings) \<Rightarrow>
                    (let r1 = r\<lparr>sr_sqlite := captures, sr_warnings := sr_warnings r @ warnings\<rparr> in
                     if captures = [] then (Inr r1, fs2, log2)
                     else case zs_recount_fault w of
                            Some e \<Rightarrow> (Inl (Recount_Failed e), fs2, log2)
                          | None \<Rightarrow> (Inr (recount_tree dest fs2 r1), fs2, log2)))))"

definition stage_source :: "stage_world \<Rightarrow> string \<Rightarrow> string \<Rightarrow> string \<Rightarrow> file_system \<Rightarrow> helper_log
    \<Rightarrow> (stage_error, stage_result) result \<times> file_system \<times> helper_log" where
  "stage_source w source dest purpose fs log =
     (let (made, fs1) = (case zs_mkdir_fault w of Some e \<Rightarrow> (Some e, fs)
            | None \<Rightarrow> (case mkdir_all (path_segs (abs_path (zw_cwd (zs_extract w)) dest)) fs of
                 (None, fs1) \<Rightarrow> (None, fs1) | (Some _, fs1) \<Rightarrow> (Some ''mkdir'', fs1)))
      in case made of
           Some e \<Rightarrow> (Inl (Staging_Dir_Failed e), fs1, log)
         | None \<Rightarrow>
             (let (resolved, log1) = resolve_helper_image w log in
              case resolved of
                Inl e \<Rightarrow> (Inl (No_Helper_Image e), fs1, log1)
              | Inr img \<Rightarrow>
                  (let (created, log2) = create_helper (zs_daemon w)
                         \<lparr>hq_image = img, hq_source = source, hq_mount = mount_path, hq_writable = False, hq_command = [],
                          hq_purpose = purpose\<rparr> log1
                   in case created of
                        Inl e \<Rightarrow> (Inl (Helper_Not_Created source e), fs1, log2)
                      | Inr c \<Rightarrow> (let (r, fs2, log3) = stage_from w c source dest fs1 log2 in (r, fs2, log3 @ [Removed c])))))"

definition stage_volume :: "stage_world \<Rightarrow> string \<Rightarrow> string \<Rightarrow> file_system \<Rightarrow> helper_log
    \<Rightarrow> (stage_error, stage_result) result \<times> file_system \<times> helper_log" where
  "stage_volume w name dest fs log =
     (if name = [] then (Inl No_Volume_Name, fs, log) else stage_source w name dest (''stage-volume:'' @ name) fs log)"

definition stage_bind_mount :: "stage_world \<Rightarrow> string \<Rightarrow> string \<Rightarrow> file_system \<Rightarrow> helper_log
    \<Rightarrow> (stage_error, stage_result) result \<times> file_system \<times> helper_log" where
  "stage_bind_mount w host dest fs log =
     (if host = [] then (Inl No_Bind_Path, fs, log)
      else if \<not> has_prefix host ''/'' then (Inl (Bind_Not_Absolute host), fs, log)
      else stage_source w host dest (''stage-bind:'' @ host) fs log)"

fun sweep_ids :: "helper_daemon \<Rightarrow> string list \<Rightarrow> nat \<Rightarrow> helper_log \<Rightarrow> nat \<times> helper_log" where
  "sweep_ids d [] n log = (n, log)"
| "sweep_ids d (i # is) n log = sweep_ids d is (if hd_remove_fault d log i then n else Suc n) (log @ [Removed i])"

definition sweep_orphans :: "helper_daemon \<Rightarrow> helper_log \<Rightarrow> (string, nat) result \<times> helper_log" where
  "sweep_orphans d log =
     (case hd_helpers d of
        Inl e \<Rightarrow> (Inl e, log @ [Listed])
      | Inr is \<Rightarrow> (let (n, log1) = sweep_ids d is 0 (log @ [Listed]) in (Inr n, log1)))"

section \<open>The containers of a staging run\<close>

text \<open>
  What the new part of the log must look like: helpers of this source only, read-only but for the
  SQLite capture, which alone is run, and every one removed.
\<close>

definition helpers_kept_in_check :: "string \<Rightarrow> helper_log \<Rightarrow> bool" where
  "helpers_kept_in_check source new =
     ((\<forall>i rq. Created i rq \<in> set new \<longrightarrow> Removed i \<in> set new \<and> hq_source rq = source \<and> hq_mount rq = mount_path \<and>
         (hq_writable rq \<longrightarrow> hq_purpose rq = ''capture-sqlite'' \<and> take 4 (hq_command rq) = [''/bin/sh'', ''-c'', capture_script, ''sh''])) \<and>
      (\<forall>i. Ran i \<in> set new \<longrightarrow> (\<exists>rq. Created i rq \<in> set new \<and> hq_writable rq)))"

lemma helpers_append: "helpers_kept_in_check source a \<Longrightarrow> helpers_kept_in_check source b \<Longrightarrow> helpers_kept_in_check source (a @ b)"
  by (auto simp: helpers_kept_in_check_def)

lemma helpers_none: "(\<And>i rq. Created i rq \<notin> set xs) \<Longrightarrow> (\<And>i. Ran i \<notin> set xs) \<Longrightarrow> helpers_kept_in_check source xs"
  by (simp add: helpers_kept_in_check_def)

lemma resolve_helper_image_log: "\<exists>new. snd (resolve_helper_image w log) = log @ new \<and> helpers_kept_in_check source new"
  by (auto simp: resolve_helper_image_def helpers_kept_in_check_def)

lemma run_capture_log: "\<exists>new. snd (run_capture w img source dbs log) = log @ new \<and> helpers_kept_in_check source new"
  by (auto simp: run_capture_def create_helper_def Let_def helpers_kept_in_check_def capture_request_def
      split: sum.split)

lemma capture_databases_log:
  "\<exists>new. snd (snd (capture_databases w source dest fs log)) = log @ new \<and> helpers_kept_in_check source new"
proof (cases "zs_scan_fault w = None \<and> find_databases dest fs \<noteq> []")
  case True
  obtain resolved log1 where r: "resolve_helper_image w log = (resolved, log1)" by fastforce
  obtain n1 where n1: "log1 = log @ n1" "helpers_kept_in_check source n1" using resolve_helper_image_log[of w log source] r by auto
  show ?thesis
  proof (cases resolved)
    case (Inr img)
    obtain n2 where n2: "snd (run_capture w img source (find_databases dest fs) log1) = log1 @ n2" "helpers_kept_in_check source n2"
      using run_capture_log[of w img source "find_databases dest fs" log1] by auto
    have "snd (snd (capture_databases w source dest fs log)) = log @ (n1 @ n2)"
      using True r Inr n1(1) n2(1) by (auto simp: capture_databases_def Let_def split: sum.split prod.split)
    then show ?thesis using helpers_append[OF n1(2) n2(2)] by blast
  qed (use True r n1 in \<open>auto simp: capture_databases_def\<close>)
next
  case False
  then have "snd (snd (capture_databases w source dest fs log)) = log @ []"
    by (auto simp: capture_databases_def split: option.split)
  then show ?thesis using helpers_none[of "[]" source] by (metis empty_iff empty_set)
qed

lemma stage_from_log: "\<exists>new. snd (snd (stage_from w c source dest fs log)) = log @ new \<and> helpers_kept_in_check source new"
proof -
  let ?log1 = "log @ [Read_Archive c (mount_path @ ''/.'')]"
  have one: "helpers_kept_in_check source [Read_Archive c (mount_path @ ''/.'')]" by (rule helpers_none) simp_all
  have cap: "\<exists>new. snd (snd (capture_databases w source dest fs1 ?log1)) = ?log1 @ new \<and> helpers_kept_in_check source new" for fs1
    by (rule capture_databases_log)
  show ?thesis
  proof (cases "\<exists>events r fs1. hd_archive (zs_daemon w) log c (mount_path @ ''/.'') = Inr events \<and>
      extract_tar (zs_extract w) dest events fs = (Inr r, fs1)")
    case True
    then obtain events r fs1 where e: "hd_archive (zs_daemon w) log c (mount_path @ ''/.'') = Inr events"
        "extract_tar (zs_extract w) dest events fs = (Inr r, fs1)" by blast
    obtain new where n: "snd (snd (capture_databases w source dest fs1 ?log1)) = ?log1 @ new" "helpers_kept_in_check source new"
      using cap by blast
    have "snd (snd (stage_from w c source dest fs log)) = log @ ([Read_Archive c (mount_path @ ''/.'')] @ new)"
      using e n(1) by (auto simp: stage_from_def Let_def split: sum.split prod.split option.split)
    then show ?thesis using helpers_append[OF one n(2)] by blast
  next
    case False
    then have "snd (snd (stage_from w c source dest fs log)) = log @ [Read_Archive c (mount_path @ ''/.'')]"
      by (auto simp: stage_from_def Let_def split: sum.split prod.split)
    then show ?thesis using one by blast
  qed
qed

lemma stage_helpers: "\<exists>new. snd (snd (stage_source w source dest purpose fs log)) = log @ new \<and> helpers_kept_in_check source new"
proof -
  obtain made fs1 where m: "(case zs_mkdir_fault w of Some e \<Rightarrow> (Some e, fs)
      | None \<Rightarrow> (case mkdir_all (path_segs (abs_path (zw_cwd (zs_extract w)) dest)) fs of
           (None, fs1) \<Rightarrow> (None, fs1) | (Some _, fs1) \<Rightarrow> (Some ''mkdir'', fs1))) = (made, fs1)" by fastforce
  obtain resolved log1 where r: "resolve_helper_image w log = (resolved, log1)" by fastforce
  obtain n1 where n1: "log1 = log @ n1" "helpers_kept_in_check source n1" using resolve_helper_image_log[of w log source] r by auto
  have none: "helpers_kept_in_check source []" by (rule helpers_none) simp_all
  show ?thesis
  proof (cases "made = None")
    case made: True
    show ?thesis
    proof (cases resolved)
      case (Inr img)
      let ?rq = "\<lparr>hq_image = img, hq_source = source, hq_mount = mount_path, hq_writable = False, hq_command = [], hq_purpose = purpose\<rparr>"
      show ?thesis
      proof (cases "hd_create (zs_daemon w) log1 ?rq")
        case (Inl e)
        have "helpers_kept_in_check source [Not_Created ?rq]" by (rule helpers_none) simp_all
        then have "helpers_kept_in_check source (n1 @ [Not_Created ?rq])" by (rule helpers_append[OF n1(2)])
        moreover have "snd (snd (stage_source w source dest purpose fs log)) = log @ (n1 @ [Not_Created ?rq])"
          using made m r n1(1) Inr Inl by (simp add: stage_source_def create_helper_def)
        ultimately show ?thesis by blast
      next
        case (Inr c)
        let ?log2 = "log1 @ [Created c ?rq]"
        obtain n3 where n3: "snd (snd (stage_from w c source dest fs1 ?log2)) = ?log2 @ n3" "helpers_kept_in_check source n3"
          using stage_from_log[of w c source dest fs1 ?log2] by blast
        have "snd (snd (stage_source w source dest purpose fs log)) = log @ (n1 @ (Created c ?rq # n3 @ [Removed c]))"
          using made m r n1(1) \<open>resolved = Inr img\<close> Inr n3(1) by (simp add: stage_source_def create_helper_def case_prod_beta)
        moreover have "helpers_kept_in_check source (Created c ?rq # n3 @ [Removed c])"
          using n3(2) by (auto simp: helpers_kept_in_check_def)
        ultimately show ?thesis using helpers_append[OF n1(2)] by blast
      qed
    next
      case (Inl e)
      then have "snd (snd (stage_source w source dest purpose fs log)) = log @ n1" using made m r n1(1) by (simp add: stage_source_def)
      then show ?thesis using n1(2) by blast
    qed
  next
    case False
    then have "snd (snd (stage_source w source dest purpose fs log)) = log @ []" using m by (auto simp: stage_source_def)
    then show ?thesis using none by blast
  qed
qed

section \<open>Every database is accounted for\<close>

definition warned :: "string \<Rightarrow> string list \<Rightarrow> bool" where
  "warned relative ws = list_ex (\<lambda>m. has_prefix m (relative @ '' is a SQLite database'')) ws"

lemma warned_self [simp]: "warned r (ws @ [sqlite_warning r e])" "warned r (sqlite_warning r e # ws)"
  by (simp_all add: warned_def sqlite_warning_def has_prefix_def)

lemma warned_mem: "sqlite_warning r e \<in> set ws \<Longrightarrow> warned r ws"
proof -
  assume "sqlite_warning r e \<in> set ws"
  then obtain a b where "ws = a @ sqlite_warning r e # b" by (auto dest: split_list)
  then show ?thesis using warned_self(2)[of r e b] by (simp add: warned_def)
qed

lemma warned_append: "warned r a \<Longrightarrow> warned r (a @ b)"
  by (simp add: warned_def)

lemma remove_sidecars_warnings: "\<exists>more_ws. fst (remove_sidecars w target r ss ws fs) = ws @ more_ws"
proof (induction ss arbitrary: ws fs)
  case (Cons s ss)
  have grow: "\<exists>ws'. fst (remove_sidecars w target r ss (ws @ x) fs') = ws @ ws'" for x fs'
    using Cons.IH[of "ws @ x" fs'] by auto
  show ?case using grow[of "[]"] grow by (auto simp: Let_def split: option.split prod.split)
qed simp

text \<open>One database: a warning, or a capture of it.\<close>

lemma place_captures_step:
  assumes "place_captures w dest i (r # rs) captured (cs, ws, fs) = res"
  obtains (warning) e fs1 where "place_captures w dest (Suc i) rs captured (cs, ws @ [sqlite_warning r e], fs1) = res"
  | (capture) c w1 fs1 where "sc_path c = r" "0 < sc_bytes c" "place_captures w dest (Suc i) rs captured (cs @ [c], ws @ w1, fs1) = res"
proof (cases "map_of captured (show_nat i)")
  case None
  then show thesis using assms warning by simp
next
  case (Some copy)
  show thesis
  proof (cases "copy = []")
    case True
    then show thesis using assms Some warning by simp
  next
    case False
    let ?target = "path_join [dest, r]"
    obtain e fs1 where e: "write_capture w ?target copy fs = (e, fs1)" by fastforce
    obtain ws1 fs2 where side: "remove_sidecars w ?target r sidecars ws fs1 = (ws1, fs2)" by fastforce
    obtain w1 where w1: "ws1 = ws @ w1" using remove_sidecars_warnings[of w ?target r sidecars ws fs1] side by auto
    show thesis
    proof (cases e)
      case None
      then show thesis
        using assms Some False e side w1 capture[of "\<lparr>sc_path = r, sc_method = capture_method, sc_bytes = int (length copy)\<rparr>" w1 fs2] by simp
    next
      case (Some t)
      then show thesis using assms \<open>map_of captured (show_nat i) = Some copy\<close> False e warning by simp
    qed
  qed
qed

lemma place_captures_grow:
  "place_captures w dest i rs captured (cs, ws, fs) = (cs', ws', fs') \<Longrightarrow>
     \<exists>c2 w2. cs' = cs @ c2 \<and> ws' = ws @ w2 \<and> (\<forall>c\<in>set c2. sc_path c \<in> set rs \<and> 0 < sc_bytes c)"
proof (induction rs arbitrary: i cs ws fs)
  case (Cons r rs)
  from Cons.prems show ?case
  proof (cases rule: place_captures_step)
    case (warning e fs1)
    then show ?thesis using Cons.IH[OF warning] by auto
  next
    case (capture c w1 fs1)
    then show ?thesis using Cons.IH[OF capture(3)] by auto
  qed
qed simp

lemma place_captures_complete:
  "place_captures w dest i rs captured (cs, ws, fs) = (cs', ws', fs') \<Longrightarrow> r \<in> set rs \<Longrightarrow>
     (\<exists>c\<in>set cs'. sc_path c = r) \<or> warned r ws'"
proof (induction rs arbitrary: i cs ws fs)
  case (Cons r1 rs)
  from Cons.prems(1) show ?case
  proof (cases rule: place_captures_step)
    case (warning e fs1)
    show ?thesis
    proof (cases "r = r1")
      case True
      obtain w2 where "ws' = (ws @ [sqlite_warning r1 e]) @ w2" using place_captures_grow[OF warning] by blast
      then show ?thesis using True warned_append[OF warned_self(1)] by metis
    qed (use Cons.IH[OF warning] Cons.prems(2) in simp)
  next
    case (capture c w1 fs1)
    show ?thesis
    proof (cases "r = r1")
      case True
      obtain c2 where "cs' = (cs @ [c]) @ c2" using place_captures_grow[OF capture(3)] by blast
      then show ?thesis using True capture(1) by auto
    qed (use Cons.IH[OF capture(3)] Cons.prems(2) in simp)
  qed
qed simp

text \<open>What makes a regular file a SQLite database, written out from the format: its first sixteen bytes.\<close>

definition sqlite_by_content :: "file_system \<Rightarrow> nat \<Rightarrow> bool" where
  "sqlite_by_content fs i \<longleftrightarrow> (\<exists>rest. data_of fs i = ''SQLite format 3'' @ CHR 0x00 # rest)"

lemma has_sqlite_magic_content: "has_sqlite_magic (data_of fs i) \<longleftrightarrow> sqlite_by_content fs i"
proof -
  have "has_sqlite_magic t \<longleftrightarrow> (\<exists>rest. t = sqlite_header @ rest)" for t
    unfolding has_sqlite_magic_def by (metis append_eq_conv_conj append_take_drop_id le_add1 length_append)
  moreover have "char_of (0::nat) = CHR 0x00" by code_simp
  ultimately show ?thesis by (simp add: sqlite_by_content_def sqlite_header_def)
qed

lemma found_databases:
  "r \<in> set (find_databases dest fs) \<longleftrightarrow>
     (\<exists>p i. r = path_rel dest (render_path True p) \<and> (p, Regular i) \<in> set (fs_nodes fs) \<and>
        strict_prefix (path_segs dest) p \<and> sqlite_by_content fs i \<and> \<not> has_suffix (render_path True p) ''-wal'' \<and>
        \<not> has_suffix (render_path True p) ''-shm'' \<and> \<not> has_suffix (render_path True p) ''-journal'')"
proof -
  have "is_database fs (p, n) \<longleftrightarrow> (\<exists>i. n = Regular i \<and> sqlite_by_content fs i \<and> \<not> has_suffix (render_path True p) ''-wal'' \<and>
        \<not> has_suffix (render_path True p) ''-shm'' \<and> \<not> has_suffix (render_path True p) ''-journal'')" for p n
    by (cases n) (auto simp: is_database_def has_sqlite_magic_content sidecars_def)
  then have "r \<in> set (find_databases dest fs) \<longleftrightarrow>
     (\<exists>p n. (p, n) \<in> set (fs_nodes fs) \<and> strict_prefix (path_segs dest) p \<and> r = path_rel dest (render_path True p) \<and>
        (\<exists>i. n = Regular i \<and> sqlite_by_content fs i \<and> \<not> has_suffix (render_path True p) ''-wal'' \<and>
        \<not> has_suffix (render_path True p) ''-shm'' \<and> \<not> has_suffix (render_path True p) ''-journal''))"
    unfolding find_databases_def walk_entries_def set_map set_filter set_sort_by image_iff by fastforce
  then show ?thesis by blast
qed

lemma captured_or_warned:
  assumes "capture_databases w source dest fs log = (Inr (captures, warnings), fs', log')"
  shows "(\<forall>r\<in>set (find_databases dest fs). (\<exists>c\<in>set captures. sc_path c = r) \<or> warned r warnings) \<and>
    (\<forall>c\<in>set captures. sc_path c \<in> set (find_databases dest fs) \<and> 0 < sc_bytes c)"
proof (cases "find_databases dest fs = []")
  case True
  then show ?thesis using assms by (auto simp: capture_databases_def split: option.splits)
next
  case False
  obtain resolved log1 where r: "resolve_helper_image w log = (resolved, log1)" by fastforce
  obtain img where img: "resolved = Inr img" using assms False r by (cases resolved) (auto simp: capture_databases_def split: option.splits)
  obtain captured log2 where c: "run_capture w img source (find_databases dest fs) log1 = (captured, log2)" by fastforce
  show ?thesis
  proof (cases captured)
    case (Inl e)
    then have "captures = []" "warnings = map (\<lambda>r. sqlite_warning r e) (find_databases dest fs)"
      using assms False r img c by (auto simp: capture_databases_def split: option.splits)
    then show ?thesis using warned_mem[of _ e] by auto
  next
    case (Inr found)
    then have p: "place_captures w dest 0 (find_databases dest fs) found ([], [], fs) = (captures, warnings, fs')"
      using assms False r img c by (auto simp: capture_databases_def split: option.splits prod.splits)
    show ?thesis using place_captures_complete[OF p] place_captures_grow[OF p] by auto
  qed
qed

section \<open>Properties\<close>

text \<open>
  C18. An archive without symbolic links is unpacked below its directory and nowhere else: whatever names
  its members and hard links carry, however it ends, every file outside the staging directory keeps
  its node and its content, and the directory stays closed, so the next archive is confined as well.
\<close>

theorem extraction_confined:
  assumes "extract_tar w dest events fs = (r, fs')" "root = abs_path (zw_cwd w) dest" "rooted (zw_cwd w)"
    "closed_dir (path_segs root) fs" "list_all plain_member events"
  shows "closed_dir (path_segs root) fs' \<and> same_outside (path_segs root) fs fs'"
proof -
  have root: "abs_clean root"
  proof -
    have "zw_cwd w \<noteq> []" using assms(3) by auto
    then show ?thesis using assms(2,3) by (auto simp: abs_path_def path_join_two abs_clean_path_clean)
  qed
  let ?st = "\<lparr>et_fs = fs, et_result = empty_result, et_dirs = []\<rparr>"
  have "keeps_outside (path_segs root) fs (et_fs (snd (extract_entries w root 0 events ?st)))"
    using extract_entries_keeps[OF root _ assms(5), of ?st w 0] assms(4) by simp
  moreover have "fs' = et_fs (snd (extract_entries w root 0 events ?st))"
    using assms(1,2) by (auto simp: extract_tar_def Let_def split: prod.splits option.splits)
  ultimately show ?thesis by (simp add: keeps_outside_def)
qed

text \<open>
  C19. The containers of a staging run are inert and short-lived: whatever the daemon answers and
  wherever the run stops, every container it created is removed again; all of them mount this source
  and nothing else; only the SQLite capture mounts it for writing, with a fixed script, and no other
  container is ever run.
\<close>

theorem staging_containers_confined:
  "\<exists>new. snd (snd (stage_source w source dest purpose fs log)) = log @ new \<and>
     (\<forall>i rq. Created i rq \<in> set new \<longrightarrow> Removed i \<in> set new \<and> hq_source rq = source \<and> hq_mount rq = mount_path \<and>
        (hq_writable rq \<longrightarrow> hq_purpose rq = ''capture-sqlite'' \<and>
           take 4 (hq_command rq) = [''/bin/sh'', ''-c'', capture_script, ''sh''])) \<and>
     (\<forall>i. Ran i \<in> set new \<longrightarrow> (\<exists>rq. Created i rq \<in> set new \<and> hq_writable rq))"
  using stage_helpers[of w source dest purpose fs log] by (simp add: helpers_kept_in_check_def)


section \<open>A volume with a database\<close>

definition member :: "tar_type \<Rightarrow> string \<Rightarrow> string \<Rightarrow> string \<Rightarrow> tar_event" where
  "member t name link content =
     Tar_Member \<lparr>th_name = name, th_type = t, th_link = link, th_uid = 1000, th_gid = 1000, th_mode = 420\<rparr> content None"

definition sample_disk_tree :: file_system where
  "sample_disk_tree = \<lparr>fs_nodes = [([''stage''], Directory), ([''etc''], Directory), ([''etc'', ''passwd''], Regular 0)],
     fs_data = [(0, ''root'')], fs_next = 1\<rparr>"

definition sample_volume :: "tar_event list" where
  "sample_volume = [member Tar_Dir ''./data'' [] [], member Tar_Regular ''./data/app.db'' [] (sqlite_header @ ''old''),
     member Tar_Hardlink ''./copy'' ''./data/app.db'' []]"

definition sample_extract :: extract_world where
  "sample_extract = \<lparr>zw_cwd = ''/'', zw_lchown_fault = \<lambda>i. True, zw_meta_fault = \<lambda>i. None, zw_dir_fault = \<lambda>d. None\<rparr>"

definition sample_helpers :: helper_daemon where
  "sample_helpers =
     \<lparr>hd_self_image = Inr ''back-orbit'',
      hd_create = \<lambda>log rq. Inr (if hq_writable rq then ''h2'' else ''h1''),
      hd_archive = \<lambda>log c p. Inr (if c = ''h1'' then sample_volume else [member Tar_Regular ''back-orbit-capture/0'' [] (sqlite_header @ ''new'')]),
      hd_run = \<lambda>log c. Inr (0, []), hd_remove_fault = \<lambda>log c. False, hd_helpers = Inr []\<rparr>"

definition sample_stage_world :: stage_world where
  "sample_stage_world = \<lparr>zs_daemon = sample_helpers, zs_helper_image = [], zs_extract = sample_extract, zs_mkdir_fault = None,
     zs_scan_fault = None, zs_recount_fault = None, zs_write_fault = \<lambda>p. None, zs_sidecar_fault = \<lambda>p. None\<rparr>"

lemma sample_closed: "closed_dir [''stage''] sample_disk_tree"
  unfolding closed_dir_def
  by (auto simp: sample_disk_tree_def node_at_def prefix_Cons split: if_splits)

theorem extraction_confined_witness:
  "same_outside [''stage''] sample_disk_tree (snd (extract_tar sample_extract ''/stage'' sample_volume sample_disk_tree)) \<and>
   is_ok (fst (extract_tar sample_extract ''/stage'' sample_volume sample_disk_tree))"
proof -
  let ?r = "extract_tar sample_extract ''/stage'' sample_volume sample_disk_tree"
  have r: "?r = (fst ?r, snd ?r)" by simp
  have root: "path_segs (abs_path (zw_cwd sample_extract) ''/stage'') = [''stage'']" by code_simp
  have cwd: "rooted (zw_cwd sample_extract)" by code_simp
  have plain: "list_all plain_member sample_volume" by code_simp
  have "is_ok (fst ?r)" by code_simp
  then show ?thesis
    using extraction_confined[OF r refl cwd _ plain] sample_closed by (simp add: root)
qed

theorem staging_containers_confined_witness:
  "\<exists>rq. Created ''h1'' rq \<in> set (snd (snd (stage_source sample_stage_world ''shop_data'' ''/stage'' ''stage-volume:shop_data'' sample_disk_tree []))) \<and>
     Removed ''h1'' \<in> set (snd (snd (stage_source sample_stage_world ''shop_data'' ''/stage'' ''stage-volume:shop_data'' sample_disk_tree [])))"
proof -
  let ?log = "snd (snd (stage_source sample_stage_world ''shop_data'' ''/stage'' ''stage-volume:shop_data'' sample_disk_tree []))"
  have "\<exists>rq. Created ''h1'' rq \<in> set ?log"
  proof -
    have "list_ex (\<lambda>x. case x of Created i rq \<Rightarrow> i = ''h1'' | _ \<Rightarrow> False) ?log" by code_simp
    then obtain x where x: "x \<in> set ?log" "case x of Created i rq \<Rightarrow> i = ''h1'' | _ \<Rightarrow> False" by (auto simp: list_ex_iff)
    from x show ?thesis by (cases x rule: helper_call.exhaust) auto
  qed
  then show ?thesis
    using staging_containers_confined[of sample_stage_world "''shop_data''" "''/stage''" "''stage-volume:shop_data''" sample_disk_tree "[]"]
    by auto
qed


text \<open>
  A symbolic link in the archive is created as it is, and the members behind it are written through it:
  a volume can overwrite files the process may write anywhere.
\<close>

lemma extraction_follows_a_link_out:
  "read_at (snd (extract_tar sample_extract ''/stage'' [member Tar_Symlink ''link'' ''/etc'' [], member Tar_Regular ''link/passwd'' [] ''intruder'']
     sample_disk_tree)) [''etc'', ''passwd''] = Some ''intruder''"
  by code_simp

text \<open>A database whose own name ends like a sidecar is taken for one and stays a plain copy without a warning.\<close>

lemma sidecar_named_database_ignored:
  "find_databases ''/stage'' (snd (extract_tar sample_extract ''/stage'' [member Tar_Regular ''sales-journal'' [] (sqlite_header @ ''data'')]
     sample_disk_tree)) = []"
  by code_simp

end
