(* ===== verification/Path_Segment.thy ===== *)
theory Path_Segment
  imports Go_Paths
begin

text \<open>
  Names out of Docker labels become directory and file names in two places
  (\<open>pathSegment\<close> in \<open>internal/backuprun/runner.go\<close> and in \<open>internal/dbdump/postgres.go\<close>). The locale
  \<open>path_sanitizer\<close> states what the callers need of such a function; both functions are shown to
  provide it. Neither is injective, which the last lemmas show on names Docker accepts.
\<close>

section \<open>What a caller relies on\<close>

locale path_sanitizer =
  fixes seg :: "string \<Rightarrow> string"
  assumes seg_normal: "normal_seg (seg s)"
begin

lemma join_segs:
  assumes "abs_clean root"
  shows "path_segs (path_join [root, seg s]) = path_segs root @ [seg s]"
proof -
  have "\<forall>x\<in>set [seg s]. normal_seg x" by (simp add: seg_normal)
  from path_join_root_segs[OF assms this]
  have "path_join [root, seg s] = render_path True (path_segs root @ [seg s])" by simp
  moreover have "\<forall>x\<in>set (path_segs root @ [seg s]). normal_seg x"
    using abs_clean_segs[OF assms] by (auto simp: seg_normal)
  ultimately show ?thesis by (simp only: path_segs_render)
qed

lemma join_clean:
  assumes "abs_clean root"
  shows "abs_clean (path_join [root, seg s])"
proof -
  have "\<forall>x\<in>set [seg s]. normal_seg x" by (simp add: seg_normal)
  from path_join_root_segs[OF assms this]
  have "path_join [root, seg s] = render_path True (path_segs root @ [seg s])" by simp
  moreover have "\<forall>x\<in>set (path_segs root @ [seg s]). normal_seg x"
    using abs_clean_segs[OF assms] by (auto simp: seg_normal)
  ultimately show ?thesis by (simp only: abs_clean_render_path)
qed

lemma join_inside:
  assumes "abs_clean root"
  shows "strict_prefix (path_segs root) (path_segs (path_join [root, seg s]))"
  by (simp add: join_segs[OF assms] strict_prefix_def)

lemma join_sibling:
  assumes "abs_clean root"
  shows "path_join [root, seg a] = path_join [root, seg b] \<longleftrightarrow> seg a = seg b"
proof
  assume "path_join [root, seg a] = path_join [root, seg b]"
  then have "path_segs root @ [seg a] = path_segs root @ [seg b]"
    using join_segs[OF assms, of a] join_segs[OF assms, of b] by (simp only:)
  then show "seg a = seg b" by simp
qed simp

end

section \<open>The two functions\<close>

definition word_rune :: "nat \<Rightarrow> bool" where
  "word_rune r = ((97 \<le> r \<and> r \<le> 122) \<or> (65 \<le> r \<and> r \<le> 90) \<or> (48 \<le> r \<and> r \<le> 57) \<or> r = 45 \<or> r = 95)"

definition safe_char :: "(nat \<Rightarrow> bool) \<Rightarrow> nat \<Rightarrow> char" where
  "safe_char ok r = (if ok r then char_of r else CHR ''-'')"

definition path_segment :: "string \<Rightarrow> string" where
  "path_segment name =
     (let segment = trim (map (safe_char (\<lambda>r. word_rune r \<or> r = 46)) (runes name)) ''.-'' in
      if segment = [] then ''unnamed''
      else if length segment > 96 then take 96 segment else segment)"

definition dump_segment :: "string \<Rightarrow> string" where
  "dump_segment name =
     (let segment = trim (map (safe_char word_rune) (runes name)) ''-.'' in
      if segment = [] then ''database'' else segment)"

lemma safe_char_no_slash:
  assumes "\<And>r. ok r \<Longrightarrow> word_rune r \<or> r = 46"
  shows "safe_char ok r \<noteq> CHR ''/''"
proof
  assume h: "safe_char ok r = CHR ''/''"
  then have ok: "ok r" by (simp add: safe_char_def split: if_splits)
  then have "r < 256" using assms by (fastforce simp: word_rune_def)
  moreover have "char_of r = CHR ''/''" using h ok by (simp add: safe_char_def)
  ultimately have "r = of_char CHR ''/''" by (metis char_of_eq_iff take_bit_nat_eq_self_iff power2_eq_square
      of_char_of mod_less take_bit_eq_mod)
  then have "r = 47" by simp
  then show False using assms[OF ok] by (simp add: word_rune_def)
qed

lemma trimmed_normal:
  assumes "CHR ''/'' \<notin> set s" "trim s cs \<noteq> []" "CHR ''.'' \<in> set cs" "0 < n"
  shows "normal_seg (take n (trim s cs))"
proof -
  have hd: "hd (trim s cs) \<noteq> CHR ''.''" using trim_ends(1)[OF assms(2)] assms(3) by auto
  obtain c t where ct: "take n (trim s cs) = c # t" "c = hd (trim s cs)"
    using assms(2,4) by (cases n; cases "trim s cs") auto
  have "CHR ''/'' \<notin> set (take n (trim s cs))"
    using assms(1) set_trim_subset[of s cs] by (auto dest: in_set_takeD)
  then show ?thesis using ct hd by (auto simp: normal_seg_def)
qed

lemma path_segment_normal: "normal_seg (path_segment name)"
proof -
  let ?s = "map (safe_char (\<lambda>r. word_rune r \<or> r = 46)) (runes name)"
  have ns: "CHR ''/'' \<notin> set ?s" using safe_char_no_slash[of "\<lambda>r. word_rune r \<or> r = 46"] by fastforce
  show ?thesis
  proof (cases "trim ?s ''.-'' = []")
    case True
    then show ?thesis by (simp add: path_segment_def normal_seg_def)
  next
    case False
    from trimmed_normal[OF ns False, of 96] trimmed_normal[OF ns False, of "length (trim ?s ''.-'')"]
    show ?thesis using False by (simp add: path_segment_def Let_def)
  qed
qed

lemma dump_segment_normal: "normal_seg (dump_segment name)"
proof -
  let ?s = "map (safe_char word_rune) (runes name)"
  have ns: "CHR ''/'' \<notin> set ?s" using safe_char_no_slash[of word_rune] by fastforce
  show ?thesis
  proof (cases "trim ?s ''-.'' = []")
    case True
    then show ?thesis by (simp add: dump_segment_def normal_seg_def)
  next
    case False
    from trimmed_normal[OF ns False, of "length (trim ?s ''-.'')"]
    show ?thesis using False by (simp add: dump_segment_def Let_def)
  qed
qed

interpretation run_seg: path_sanitizer path_segment
  by unfold_locales (rule path_segment_normal)

interpretation dump_seg: path_sanitizer dump_segment
  by unfold_locales (rule dump_segment_normal)

lemma path_segment_length: "length (path_segment name) \<le> 96"
  by (simp add: path_segment_def Let_def)

text \<open>Different names can share a segment, including names Docker and Compose accept.\<close>

lemma path_segment_collisions:
  "path_segment ''/srv/app/data'' = path_segment ''/srv/app-data''"
  "path_segment ''shop'' = path_segment ''shop-''"
  "dump_segment ''db.1'' = dump_segment ''db-1''"
  by code_simp+

section \<open>Properties\<close>

text \<open>
  Whatever a project or volume is called, its staging directory is one fresh name directly below
  the staging root: non-empty, at most 96 bytes, without separators, never the root itself, its
  parent or anything deeper.
\<close>

theorem path_segment_confined:
  assumes "abs_clean root"
  shows "path_segs (path_join [root, path_segment name]) = path_segs root @ [path_segment name] \<and>
    normal_seg (path_segment name) \<and> length (path_segment name) \<le> 96"
  using run_seg.join_segs[OF assms] path_segment_normal path_segment_length by blast

theorem path_segment_confined_witness:
  "path_segs (path_join [''/data/staging'', path_segment ''../../etc'']) = [''data'', ''staging'', ''etc'']"
proof -
  have root: "abs_clean ''/data/staging''" unfolding abs_clean_def by code_simp
  have "path_segment ''../../etc'' = ''etc''" "path_segs ''/data/staging'' = [''data'', ''staging'']" by code_simp+
  then show ?thesis using path_segment_confined[OF root, of "''../../etc''"] by simp
qed

end
