(* ===== verification/Db_Dump.thy ===== *)
theory Db_Dump
  imports Path_Segment "HOL-Library.AList"
begin

text \<open>
  The database exporters (\<open>internal/dbdump\<close>: \<open>postgres.go\<close>, \<open>mysql.go\<close>, \<open>mongodb.go\<close>). A dump runs
  inside the database's own container; the reply of every command is an input that may depend on
  everything asked before. The state keeps the files written to the staging tree and the log of
  the requests, so the lemmas can speak of what was left behind and of what was asked.
\<close>

section \<open>Data\<close>

record exec_request =
  rq_cmd :: "string list"
  rq_env :: "string list"
  rq_stdin :: "string option"

text \<open>What a command wrote to its output, an error of the transport, the exit code and its error output.\<close>

record exec_reply =
  rp_stdout :: string
  rp_error :: "string option"
  rp_code :: int
  rp_stderr :: string

record dump_world =
  dw_exec :: "exec_request list \<Rightarrow> exec_request \<Rightarrow> exec_reply"
  dw_mkdir_fault :: "string option"
  dw_open_fault :: "string option"
  dw_sync_fault :: "string option"
  dw_stat_fault :: "string option"
  dw_remove_fault :: "string option"

record dump_state =
  dst_files :: "(string \<times> string) list"
  dst_log :: "exec_request list"

record dump_target =
  dt_technology :: string
  dt_service :: string
  dt_container :: string
  dt_user :: string
  dt_password :: string

record dump_file =
  df_technology :: string
  df_service :: string
  df_path :: string
  df_command :: string
  df_user :: string
  df_bytes :: nat

datatype ident_error = Ident_Empty | Ident_Dash | Ident_Char nat

datatype dump_error =
  No_Container string
| Refused_User string ident_error
| Refused_Database string ident_error
| Mkdir_Failed string
| Create_Failed string
| Run_Failed string string
| Exited string int string
| Flush_Failed string
| Measure_Failed string
| Empty_Dump string
| Not_Mysql_Family string
| No_User_Databases string
| No_Dump_Tool "string list" string
| List_Failed string
| No_Exporter string
| Env_Failed string

text \<open>The text of an error; the escapes of \<open>%q\<close> inside quoted names are left out.\<close>

definition in_quotes :: "string \<Rightarrow> string" where
  "in_quotes s = char_of (34::nat) # s @ [char_of (34::nat)]"

fun ident_text :: "ident_error \<Rightarrow> string" where
  "ident_text Ident_Empty = ''it is empty''"
| "ident_text Ident_Dash = ''it starts with a dash and would be read as an option''"
| "ident_text (Ident_Char r) = ''it contains '' @ [char_of (39::nat), char_of r, char_of (39::nat)]"

fun error_text :: "dump_error \<Rightarrow> string" where
  "error_text (No_Container s) = ''dbdump: no running container for service '' @ in_quotes s"
| "error_text (Refused_User u e) = ''dbdump: refusing database user '' @ in_quotes u @ '': '' @ ident_text e"
| "error_text (Refused_Database d e) = ''dbdump: refusing database name '' @ in_quotes d @ '': '' @ ident_text e"
| "error_text (Mkdir_Failed e) = ''dbdump: create dump directory: '' @ e"
| "error_text (Create_Failed e) = ''dbdump: create dump file: '' @ e"
| "error_text (Run_Failed tool e) = ''dbdump: run '' @ tool @ '': '' @ e"
| "error_text (Exited tool code err) = ''dbdump: '' @ tool @ '' exited '' @ show_int code @ '': '' @ err"
| "error_text (Flush_Failed e) = ''dbdump: flush dump: '' @ e"
| "error_text (Measure_Failed e) = ''dbdump: measure dump: '' @ e"
| "error_text (Empty_Dump tool) = ''dbdump: '' @ tool @ '' produced an empty '' @
     (if tool = ''mongodump'' then ''archive'' else ''dump'')"
| "error_text (Not_Mysql_Family engine) = ''dbdump: '' @ in_quotes engine @ '' is not a MySQL-family engine''"
| "error_text (No_User_Databases engine) = ''dbdump: '' @ engine @ '' holds no user databases to export''"
| "error_text (No_Dump_Tool tried e) =
     ''dbdump: no dump tool found in the container (tried '' @ join tried '', '' @ ''): '' @ e"
| "error_text (List_Failed e) = e"
| "error_text (No_Exporter technology) = ''no exporter for '' @ technology"
| "error_text (Env_Failed e) = e"

section \<open>Helpers\<close>

definition ident_rune :: "nat \<Rightarrow> bool" where
  "ident_rune r = (word_rune r \<or> r = 46)"

definition valid_identifier :: "string \<Rightarrow> ident_error option" where
  "valid_identifier name =
     (if name = [] then Some Ident_Empty
      else if has_prefix name ''-'' then Some Ident_Dash
      else map_option Ident_Char (List.find (\<lambda>r. \<not> ident_rune r) (runes name)))"

definition redact_secret :: "string \<Rightarrow> string \<Rightarrow> string" where
  "redact_secret txt secret = (if secret = [] then txt else replace_all txt secret ''[redacted]'')"

fun redact_password :: "string \<Rightarrow> string list \<Rightarrow> string" where
  "redact_password txt [] = txt"
| "redact_password txt (entry # env) =
     redact_password
       (case cut_at CHR ''='' entry of
          Some (_, v) \<Rightarrow> if v \<noteq> [] then replace_all txt v ''[redacted]'' else txt
        | None \<Rightarrow> txt) env"

fun first_non_empty :: "string list \<Rightarrow> string" where
  "first_non_empty [] = []"
| "first_non_empty (v # vs) = (if trim_space v \<noteq> [] then trim_space v else first_non_empty vs)"

definition missing_tool_text :: "string \<Rightarrow> bool" where
  "missing_tool_text e =
     (let t = to_lower e in
      str_contains t ''executable file not found'' \<or> str_contains t ''no such file or directory'' \<or>
      str_contains t ''exited 127'')"

definition apostrophe :: char where
  "apostrophe = char_of (39::nat)"

definition quote_yaml :: "string \<Rightarrow> string" where
  "quote_yaml v = apostrophe # concat (map (\<lambda>c. if c = apostrophe then [c, c] else [c]) v) @ [apostrophe]"

fun without_config_flag :: "string list \<Rightarrow> string list" where
  "without_config_flag [] = []"
| "without_config_flag [c] = (if c = ''--config'' then [] else [c])"
| "without_config_flag (c # d # cs) =
     (if c = ''--config'' then without_config_flag cs else c # without_config_flag (d # cs))"

definition dump_directory :: string where
  "dump_directory = ''back-orbit-dumps''"

section \<open>Running one export\<close>

definition exec_in :: "dump_world \<Rightarrow> exec_request \<Rightarrow> dump_state \<Rightarrow> exec_reply \<times> dump_state" where
  "exec_in w rq st = (dw_exec w (dst_log st) rq, st\<lparr>dst_log := dst_log st @ [rq]\<rparr>)"

text \<open>The error of the removal is dropped, and the file stays when there was one.\<close>

definition remove_failed_dump :: "dump_world \<Rightarrow> string \<Rightarrow> dump_state \<Rightarrow> dump_state" where
  "remove_failed_dump w path st =
     (case dw_remove_fault w of
        Some e \<Rightarrow> st
      | None \<Rightarrow> st\<lparr>dst_files := AList.delete path (dst_files st)\<rparr>)"

text \<open>The part the three exporters share: open the file, run the tool into it, refuse what is empty.\<close>

definition run_export :: "dump_world \<Rightarrow> exec_request \<Rightarrow> string \<Rightarrow> (string \<Rightarrow> string) \<Rightarrow> string \<Rightarrow> dump_state
    \<Rightarrow> (dump_error, nat) result \<times> dump_state" where
  "run_export w rq tool redact absolute st =
     (case dw_open_fault w of
        Some e \<Rightarrow> (Inl (Create_Failed e), st)
      | None \<Rightarrow>
          (let (reply, st1) = exec_in w rq (st\<lparr>dst_files := AList.update absolute [] (dst_files st)\<rparr>);
               st2 = st1\<lparr>dst_files := AList.update absolute (rp_stdout reply) (dst_files st1)\<rparr>
           in case rp_error reply of
                Some e \<Rightarrow> (Inl (Run_Failed tool e), remove_failed_dump w absolute st2)
              | None \<Rightarrow>
                  if rp_code reply \<noteq> 0
                  then (Inl (Exited tool (rp_code reply) (redact (trim_space (rp_stderr reply)))),
                        remove_failed_dump w absolute st2)
                  else case dw_sync_fault w of
                    Some e \<Rightarrow> (Inl (Flush_Failed e), st2)
                  | None \<Rightarrow>
                      (case dw_stat_fault w of
                         Some e \<Rightarrow> (Inl (Measure_Failed e), st2)
                       | None \<Rightarrow>
                           if rp_stdout reply = []
                           then (Inl (Empty_Dump tool), remove_failed_dump w absolute st2)
                           else (Inr (length (rp_stdout reply)), st2))))"

definition dump_path :: "string \<Rightarrow> string \<Rightarrow> string" where
  "dump_path service ending = path_join [dump_directory, dump_segment service @ ending]"

section \<open>PostgreSQL\<close>

definition user_or :: "string \<Rightarrow> string \<Rightarrow> string" where
  "user_or configured fallback = (if trim_space configured = [] then fallback else trim_space configured)"

definition postgres_command :: "string \<Rightarrow> string list" where
  "postgres_command user = [''pg_dumpall'', ''--clean'', ''--if-exists'', ''--username'', user]"

definition postgres_dump :: "dump_world \<Rightarrow> dump_target \<Rightarrow> string \<Rightarrow> dump_state
    \<Rightarrow> (dump_error, dump_file) result \<times> dump_state" where
  "postgres_dump w t staging st =
     (if dt_container t = [] then (Inl (No_Container (dt_service t)), st)
      else
        let user = user_or (dt_user t) ''postgres'' in
        case valid_identifier user of
          Some e \<Rightarrow> (Inl (Refused_User (dt_user t) e), st)
        | None \<Rightarrow>
            (case dw_mkdir_fault w of
               Some e \<Rightarrow> (Inl (Mkdir_Failed e), st)
             | None \<Rightarrow>
                 (let relative = dump_path (dt_service t) ''-postgresql.sql'';
                      absolute = path_join [staging, relative]
                  in case run_export w \<lparr>rq_cmd = postgres_command user, rq_env = [], rq_stdin = None\<rparr> ''pg_dumpall''
                            id absolute st of
                       (Inl e, st') \<Rightarrow> (Inl e, st')
                     | (Inr bytes, st') \<Rightarrow>
                         (Inr \<lparr>df_technology = ''postgresql'', df_service = dt_service t, df_path = relative,
                               df_command = join (postgres_command user) '' '', df_user = user, df_bytes = bytes\<rparr>,
                          st'))))"

section \<open>MySQL and MariaDB\<close>

definition mysql_dump_tools :: "string \<Rightarrow> string list option" where
  "mysql_dump_tools engine =
     (if engine = ''mysql'' then Some [''mysqldump'', ''mariadb-dump'']
      else if engine = ''mariadb'' then Some [''mariadb-dump'', ''mysqldump'']
      else None)"

definition mysql_clients :: "string \<Rightarrow> string list" where
  "mysql_clients engine =
     (if engine = ''mysql'' then [''mysql'', ''mariadb'']
      else if engine = ''mariadb'' then [''mariadb'', ''mysql''] else [])"

definition system_schemas :: "string list" where
  "system_schemas = [''information_schema'', ''performance_schema'', ''mysql'', ''sys'']"

fun user_databases :: "string list \<Rightarrow> (dump_error, string list) result" where
  "user_databases [] = Inr []"
| "user_databases (line # lines) =
     (let name = trim_space line in
      if name = [] \<or> name \<in> set system_schemas then user_databases lines
      else case valid_identifier name of
        Some e \<Rightarrow> Inl (Refused_Database name e)
      | None \<Rightarrow> bind_result (user_databases lines) (\<lambda>ds. Inr (name # ds)))"

definition list_command :: "dump_target \<Rightarrow> string \<Rightarrow> string list" where
  "list_command t tool = [tool, ''-N'', ''-B'', ''--user'', first_non_empty [dt_user t, ''root''], ''-e'', ''SHOW DATABASES'']"

fun list_mysql_databases :: "dump_world \<Rightarrow> dump_target \<Rightarrow> string list \<Rightarrow> string list \<Rightarrow> string \<Rightarrow> dump_state
    \<Rightarrow> (dump_error, string list) result \<times> dump_state" where
  "list_mysql_databases w t env [] last_err st =
     (Inl (List_Failed (''dbdump: could not list databases: '' @ last_err)), st)"
| "list_mysql_databases w t env (tool # tools) last_err st =
     (let (reply, st1) = exec_in w \<lparr>rq_cmd = list_command t tool, rq_env = env, rq_stdin = None\<rparr> st
      in case rp_error reply of
           Some e \<Rightarrow>
             if missing_tool_text e then list_mysql_databases w t env tools e st1
             else (Inl (List_Failed (''dbdump: list databases: '' @ e)), st1)
         | None \<Rightarrow>
             if rp_code reply \<noteq> 0 then
               (let e = Exited tool (rp_code reply) (redact_password (trim_space (rp_stderr reply)) env) in
                if rp_code reply = 127 then list_mysql_databases w t env tools (error_text e) st1
                else (Inl e, st1))
             else (user_databases (split_on (char_of (10::nat)) (rp_stdout reply)), st1))"

definition mysql_command :: "string \<Rightarrow> string \<Rightarrow> string list \<Rightarrow> string list" where
  "mysql_command tool user databases =
     [tool, ''--databases'', ''--add-drop-database'', ''--single-transaction'', ''--routines'', ''--triggers'',
      ''--events'', ''--user'', user] @ databases"

fun try_dump_tools :: "dump_world \<Rightarrow> dump_target \<Rightarrow> string list \<Rightarrow> string \<Rightarrow> string list \<Rightarrow> string \<Rightarrow> string
    \<Rightarrow> string list \<Rightarrow> string \<Rightarrow> string list \<Rightarrow> dump_state \<Rightarrow> (dump_error, dump_file) result \<times> dump_state" where
  "try_dump_tools w t env user databases absolute relative tried last_err [] st =
     (Inl (No_Dump_Tool tried last_err), st)"
| "try_dump_tools w t env user databases absolute relative tried last_err (tool # tools) st =
     (let command = mysql_command tool user databases in
      case run_export w \<lparr>rq_cmd = command, rq_env = env, rq_stdin = None\<rparr> tool
             (\<lambda>s. redact_password s env) absolute st of
        (Inr bytes, st1) \<Rightarrow>
          (Inr \<lparr>df_technology = dt_technology t, df_service = dt_service t, df_path = relative,
                df_command = join command '' '', df_user = first_non_empty [dt_user t, ''root''],
                df_bytes = bytes\<rparr>, st1)
      | (Inl e, st1) \<Rightarrow>
          if \<not> missing_tool_text (error_text e) then (Inl e, st1)
          else try_dump_tools w t env user databases absolute relative tried (error_text e) tools st1)"

definition password_env :: "string \<Rightarrow> string list" where
  "password_env password = (if password \<noteq> [] then [''MYSQL_PWD='' @ password] else [])"

text \<open>Enumerate the databases, then dump them with the first tool the image has.\<close>

definition dump_user_databases :: "dump_world \<Rightarrow> dump_target \<Rightarrow> string list \<Rightarrow> string \<Rightarrow> string list \<Rightarrow> string \<Rightarrow> string
    \<Rightarrow> dump_state \<Rightarrow> (dump_error, dump_file) result \<times> dump_state" where
  "dump_user_databases w t env user tools absolute relative st =
     (case list_mysql_databases w t env (mysql_clients (dt_technology t)) [] st of
        (Inl e, st1) \<Rightarrow> (Inl e, st1)
      | (Inr databases, st1) \<Rightarrow>
          if databases = [] then (Inl (No_User_Databases (dt_technology t)), st1)
          else try_dump_tools w t env user databases absolute relative tools [] tools st1)"

definition mysql_dump :: "dump_world \<Rightarrow> dump_target \<Rightarrow> string \<Rightarrow> dump_state
    \<Rightarrow> (dump_error, dump_file) result \<times> dump_state" where
  "mysql_dump w t staging st =
     (if dt_container t = [] then (Inl (No_Container (dt_service t)), st)
      else case mysql_dump_tools (dt_technology t) of
        None \<Rightarrow> (Inl (Not_Mysql_Family (dt_technology t)), st)
      | Some tools \<Rightarrow>
          (case valid_identifier (user_or (dt_user t) ''root'') of
             Some e \<Rightarrow> (Inl (Refused_User (dt_user t) e), st)
           | None \<Rightarrow>
               (case dw_mkdir_fault w of
                  Some e \<Rightarrow> (Inl (Mkdir_Failed e), st)
                | None \<Rightarrow>
                    (let relative = dump_path (dt_service t) (''-'' @ dt_technology t @ ''.sql'') in
                     dump_user_databases w t (password_env (dt_password t)) (user_or (dt_user t) ''root'') tools
                       (path_join [staging, relative]) relative st))))"

section \<open>MongoDB\<close>

definition mongo_auth :: "string \<Rightarrow> string \<Rightarrow> string list \<times> string option" where
  "mongo_auth user password =
     (if user = [] then ([], None)
      else if password = [] then ([''--username'', user, ''--authenticationDatabase'', ''admin''], None)
      else ([''--username'', user, ''--authenticationDatabase'', ''admin'', ''--config'', ''/dev/stdin''],
            Some (''password: '' @ quote_yaml password @ [char_of (10::nat)])))"

definition mongodb_dump :: "dump_world \<Rightarrow> dump_target \<Rightarrow> string \<Rightarrow> dump_state
    \<Rightarrow> (dump_error, dump_file) result \<times> dump_state" where
  "mongodb_dump w t staging st =
     (if dt_container t = [] then (Inl (No_Container (dt_service t)), st)
      else
        let relative = dump_path (dt_service t) ''-mongodb.archive'';
            absolute = path_join [staging, relative];
            user = trim_space (dt_user t)
        in case dw_mkdir_fault w of
             Some e \<Rightarrow> (Inl (Mkdir_Failed e), st)
           | None \<Rightarrow>
               (case (if user \<noteq> [] then valid_identifier user else None) of
                  Some e \<Rightarrow> (Inl (Refused_User (dt_user t) e), st)
                | None \<Rightarrow>
                    (let (flags, input) = mongo_auth user (dt_password t);
                         command = [''mongodump'', ''--archive''] @ flags
                     in case run_export w \<lparr>rq_cmd = command, rq_env = [], rq_stdin = input\<rparr> ''mongodump''
                               (\<lambda>s. redact_secret s (dt_password t)) absolute st of
                          (Inl e, st') \<Rightarrow> (Inl e, st')
                        | (Inr bytes, st') \<Rightarrow>
                            (Inr \<lparr>df_technology = ''mongodb'', df_service = dt_service t, df_path = relative,
                                  df_command = join (without_config_flag command) '' '', df_user = user,
                                  df_bytes = bytes\<rparr>, st'))))"

text \<open>The dispatch of the backup runner over the engines it can export.\<close>

definition export_database :: "dump_world \<Rightarrow> dump_target \<Rightarrow> string \<Rightarrow> dump_state
    \<Rightarrow> (dump_error, dump_file) result \<times> dump_state" where
  "export_database w t staging st =
     (if dt_technology t = ''postgresql'' then postgres_dump w t staging st
      else if dt_technology t = ''mysql'' \<or> dt_technology t = ''mariadb'' then mysql_dump w t staging st
      else if dt_technology t = ''mongodb'' then mongodb_dump w t staging st
      else (Inl (No_Exporter (dt_technology t)), st))"

section \<open>What one export leaves behind\<close>

text \<open>The staging tree as a map from paths to contents.\<close>

definition staged :: "dump_state \<Rightarrow> string \<Rightarrow> string option" where
  "staged st = map_of (dst_files st)"

lemma staged_log [simp]: "staged (st\<lparr>dst_log := l\<rparr>) = staged st"
  by (simp add: staged_def)

lemma staged_update [simp]: "staged (st\<lparr>dst_files := AList.update p c fs\<rparr>) = (map_of fs)(p \<mapsto> c)"
  by (simp add: staged_def update_conv')

lemma staged_remove:
  "staged (remove_failed_dump w p st) = (if dw_remove_fault w = None then (staged st)(p := None) else staged st)"
  by (simp add: staged_def remove_failed_dump_def delete_conv' split: option.split)

lemma exec_in_files [simp]: "dst_files (snd (exec_in w rq st)) = dst_files st"
  by (simp add: exec_in_def)

text \<open>
  The steps whose failure leaves the output of a tool where it is: flushing the file, measuring it, and
  removing it.
\<close>

definition leaves_output :: "dump_world \<Rightarrow> bool" where
  "leaves_output w \<longleftrightarrow> dw_sync_fault w \<noteq> None \<or> dw_stat_fault w \<noteq> None \<or> dw_remove_fault w \<noteq> None"

text \<open>What a failed export may have done to the tree: nothing, or the file at its path is gone or left over.\<close>

definition failed_at :: "dump_world \<Rightarrow> string \<Rightarrow> (string \<Rightarrow> string option) \<Rightarrow> (string \<Rightarrow> string option) \<Rightarrow> bool" where
  "failed_at w p m m' \<longleftrightarrow> m' = m \<or> m' = m(p := None) \<or> (leaves_output w \<and> (\<exists>c. m' = m(p \<mapsto> c)))"

lemma failed_at_refl [simp, intro]: "failed_at w p m m"
  by (simp add: failed_at_def)

lemma failed_at_upd: "failed_at w p m m' \<Longrightarrow> m'(p \<mapsto> c) = m(p \<mapsto> c)"
  by (auto simp: failed_at_def)

lemma failed_at_other: "failed_at w p m m' \<Longrightarrow> q \<noteq> p \<Longrightarrow> m' q = m q"
  by (auto simp: failed_at_def)

lemma failed_at_trans: "failed_at w p k n \<Longrightarrow> failed_at w p n m \<Longrightarrow> failed_at w p k m"
  unfolding failed_at_def by (elim disjE conjE exE) (simp_all, blast+)

text \<open>
  The command whose output an export is: the last one that was run, with one of the tools of the engine, and
  it ended with exit code 0.
\<close>

definition written_by :: "dump_world \<Rightarrow> string set \<Rightarrow> string \<Rightarrow> exec_request list \<Rightarrow> exec_request list \<Rightarrow> bool" where
  "written_by w tools content log log' \<longleftrightarrow>
     (\<exists>before rq. log' = log @ before @ [rq] \<and> hd (rq_cmd rq) \<in> tools \<and>
        dw_exec w (log @ before) rq = \<lparr>rp_stdout = content, rp_error = None, rp_code = 0,
          rp_stderr = rp_stderr (dw_exec w (log @ before) rq)\<rparr>)"

definition dump_tools :: "string \<Rightarrow> string set" where
  "dump_tools technology =
     (if technology = ''postgresql'' then {''pg_dumpall''}
      else if technology = ''mongodb'' then {''mongodump''} else {''mysqldump'', ''mariadb-dump''})"

lemma written_by_later: "log1 = log @ asked \<Longrightarrow> written_by w ts c log1 log' \<Longrightarrow> written_by w ts c log log'"
  unfolding written_by_def by (metis append.assoc)

lemma run_export_ok:
  assumes "run_export w rq tool rd p st = (Inr n, st')"
  shows "\<exists>c. c \<noteq> [] \<and> n = length c \<and> staged st' = (staged st)(p \<mapsto> c) \<and>
    written_by w {hd (rq_cmd rq)} c (dst_log st) (dst_log st')"
proof -
  let ?reply = "dw_exec w (dst_log st) rq"
  have "rp_error ?reply = None" "rp_code ?reply = 0" "rp_stdout ?reply \<noteq> []" "n = length (rp_stdout ?reply)"
      "staged st' = (staged st)(p \<mapsto> rp_stdout ?reply)" "dst_log st' = dst_log st @ [rq]"
    using assms
    by (auto simp: run_export_def exec_in_def Let_def staged_def update_conv' split: option.splits if_splits)
  moreover from this have "written_by w {hd (rq_cmd rq)} (rp_stdout ?reply) (dst_log st) (dst_log st')"
    unfolding written_by_def by (intro exI[of _ "[]"] exI[of _ rq]) simp
  ultimately show ?thesis by blast
qed

lemma run_export_fail:
  assumes "run_export w rq tool rd p st = (Inl e, st')"
  shows "failed_at w p (staged st) (staged st')"
  using assms
  by (auto simp: run_export_def exec_in_def Let_def remove_failed_dump_def staged_def update_conv' delete_conv'
      failed_at_def leaves_output_def split: option.splits if_splits)

lemma run_export_log:
  assumes "run_export w rq tool rd p st = (r, st')"
  shows "dst_log st' = dst_log st \<or> dst_log st' = dst_log st @ [rq]"
  using assms
  by (auto simp: run_export_def exec_in_def Let_def remove_failed_dump_def split: option.splits if_splits)

lemma run_export_grows: "run_export w rq tool rd p st = (r, st') \<Longrightarrow> \<exists>asked. dst_log st' = dst_log st @ asked"
  using run_export_log[of w rq tool rd p st r st'] by auto

lemma list_mysql_databases_grows:
  assumes "list_mysql_databases w t env tools e st = (r, st')"
  shows "\<exists>asked. dst_log st' = dst_log st @ asked"
  using assms
proof (induction tools arbitrary: e st)
  case (Cons tool tools)
  let ?rq = "\<lparr>rq_cmd = list_command t tool, rq_env = env, rq_stdin = None\<rparr>"
  obtain reply st1 where ex: "exec_in w ?rq st = (reply, st1)" by fastforce
  then have log: "dst_log st1 = dst_log st @ [?rq]" by (auto simp: exec_in_def)
  have "st' = st1 \<or> (\<exists>e'. list_mysql_databases w t env tools e' st1 = (r, st'))"
    using Cons.prems ex by (fastforce simp: Let_def split: option.splits if_splits)
  then obtain asked where "dst_log st' = dst_log st1 @ asked" using Cons.IH by auto
  then show ?case using log by simp
qed simp

lemma list_mysql_databases_files:
  "staged (snd (list_mysql_databases w t env tools e st)) = staged st"
  by (induction tools arbitrary: e st) (auto simp: exec_in_def Let_def split: option.splits)

lemma try_dump_tools_ok:
  assumes "try_dump_tools w t env user dbs p rel tried le tools st = (Inr f, st')"
  shows "\<exists>c. c \<noteq> [] \<and> df_bytes f = length c \<and> df_path f = rel \<and> staged st' = (staged st)(p \<mapsto> c) \<and>
    written_by w (set tools) c (dst_log st) (dst_log st')"
  using assms
proof (induction tools arbitrary: st le)
  case (Cons tool tools)
  let ?rq = "\<lparr>rq_cmd = mysql_command tool user dbs, rq_env = env, rq_stdin = None\<rparr>"
  let ?r = "run_export w ?rq tool (\<lambda>s. redact_password s env) p st"
  obtain r st1 where r: "?r = (r, st1)" by (cases ?r)
  show ?case
  proof (cases r)
    case (Inr n)
    then have "df_bytes f = n" "df_path f = rel" "st' = st1" using Cons.prems r by (auto simp: Let_def)
    moreover obtain c where "c \<noteq> []" "n = length c" "staged st1 = (staged st)(p \<mapsto> c)"
        "written_by w {hd (rq_cmd ?rq)} c (dst_log st) (dst_log st1)"
      using run_export_ok[OF r[unfolded Inr]] by blast
    ultimately show ?thesis by (intro exI[of _ c]) (auto simp: written_by_def mysql_command_def)
  next
    case (Inl e)
    then have "try_dump_tools w t env user dbs p rel tried (error_text e) tools st1 = (Inr f, st')"
      using Cons.prems r by (auto simp: Let_def split: if_splits)
    from Cons.IH[OF this] obtain c where c:
      "c \<noteq> []" "df_bytes f = length c" "df_path f = rel" "staged st' = (staged st1)(p \<mapsto> c)"
      "written_by w (set tools) c (dst_log st1) (dst_log st')" by blast
    moreover have "(staged st1)(p \<mapsto> c) = (staged st)(p \<mapsto> c)"
      using run_export_fail[OF r[unfolded Inl]] by (rule failed_at_upd)
    moreover have "written_by w (set (tool # tools)) c (dst_log st) (dst_log st')"
    proof -
      obtain asked where "dst_log st1 = dst_log st @ asked" using run_export_grows[OF r] by blast
      from written_by_later[OF this c(5)] show ?thesis by (auto simp: written_by_def)
    qed
    ultimately show ?thesis by (intro exI[of _ c]) simp
  qed
qed simp

lemma try_dump_tools_fail:
  assumes "try_dump_tools w t env user dbs p rel tried le tools st = (Inl e, st')"
  shows "failed_at w p (staged st) (staged st')"
  using assms
proof (induction tools arbitrary: st le)
  case (Cons tool tools)
  let ?r = "run_export w \<lparr>rq_cmd = mysql_command tool user dbs, rq_env = env, rq_stdin = None\<rparr> tool
              (\<lambda>s. redact_password s env) p st"
  obtain r st1 where r: "?r = (r, st1)" by (cases ?r)
  show ?case
  proof (cases r)
    case (Inr n)
    then show ?thesis using Cons.prems r by (auto simp: Let_def)
  next
    case (Inl e1)
    then have "st' = st1 \<or> try_dump_tools w t env user dbs p rel tried (error_text e1) tools st1 = (Inl e, st')"
      using Cons.prems r by (auto simp: Let_def split: if_splits)
    then have "failed_at w p (staged st1) (staged st')" using Cons.IH[of "error_text e1" st1] by auto
    then show ?thesis by (rule failed_at_trans[OF run_export_fail[OF r[unfolded Inl]]])
  qed
qed simp

text \<open>The file a target's dump goes to.\<close>

definition dump_ending :: "dump_target \<Rightarrow> string" where
  "dump_ending t =
     (if dt_technology t = ''postgresql'' then ''-postgresql.sql''
      else if dt_technology t = ''mongodb'' then ''-mongodb.archive''
      else ''-'' @ dt_technology t @ ''.sql'')"

definition dump_file_path :: "dump_target \<Rightarrow> string" where
  "dump_file_path t = dump_path (dt_service t) (dump_ending t)"

definition export_outcome :: "dump_world \<Rightarrow> dump_target \<Rightarrow> string \<Rightarrow> dump_state \<Rightarrow> (dump_error, dump_file) result \<Rightarrow> dump_state \<Rightarrow> bool" where
  "export_outcome w t staging st r st' =
     (let p = path_join [staging, dump_file_path t] in
      case r of
        Inr f \<Rightarrow> df_path f = dump_file_path t \<and>
          (\<exists>c. c \<noteq> [] \<and> df_bytes f = length c \<and> staged st' = (staged st)(p \<mapsto> c) \<and>
             written_by w (dump_tools (dt_technology t)) c (dst_log st) (dst_log st'))
      | Inl _ \<Rightarrow> failed_at w p (staged st) (staged st'))"

lemma export_outcome_Inr:
  "df_path f = dump_file_path t \<Longrightarrow>
   \<exists>c. c \<noteq> [] \<and> df_bytes f = length c \<and> staged st' = (staged st)(path_join [staging, dump_file_path t] \<mapsto> c) \<and>
     written_by w (dump_tools (dt_technology t)) c (dst_log st) (dst_log st') \<Longrightarrow>
   export_outcome w t staging st (Inr f) st'"
  by (simp add: export_outcome_def Let_def)

lemma export_outcome_Inl:
  "failed_at w (path_join [staging, dump_file_path t]) (staged st) (staged st') \<Longrightarrow>
   export_outcome w t staging st (Inl e) st'"
  by (simp add: export_outcome_def Let_def)

lemma export_outcome_same [intro]: "export_outcome w t staging st (Inl e) st"
  by (simp add: export_outcome_Inl)

lemma run_export_outcome:
  assumes "run_export w rq tool rd (path_join [staging, dump_file_path t]) st = (r, st1)"
    "hd (rq_cmd rq) \<in> dump_tools (dt_technology t)"
    "\<And>e. r = Inl e \<Longrightarrow> r' = Inl e"
    "\<And>n. r = Inr n \<Longrightarrow> \<exists>f. r' = Inr f \<and> df_path f = dump_file_path t \<and> df_bytes f = n"
  shows "export_outcome w t staging st r' st1"
proof (cases r)
  case (Inl e)
  show ?thesis
    unfolding assms(3)[OF Inl]
    by (rule export_outcome_Inl) (use run_export_fail assms(1) Inl in blast)
next
  case (Inr n)
  obtain f where f: "r' = Inr f" "df_path f = dump_file_path t" "df_bytes f = n" using assms(4)[OF Inr] by blast
  obtain c where c: "c \<noteq> []" "n = length c" "staged st1 = (staged st)(path_join [staging, dump_file_path t] \<mapsto> c)"
      "written_by w {hd (rq_cmd rq)} c (dst_log st) (dst_log st1)"
    using run_export_ok[OF assms(1)[unfolded Inr]] by blast
  have "written_by w (dump_tools (dt_technology t)) c (dst_log st) (dst_log st1)"
    using c(4) assms(2) by (auto simp: written_by_def)
  then show ?thesis unfolding f(1) by (intro export_outcome_Inr) (use f c in auto)
qed

lemma postgres_dump_outcome:
  assumes "postgres_dump w t staging st = (r, st')" "dt_technology t = ''postgresql''"
  shows "export_outcome w t staging st r st'"
proof -
  let ?user = "user_or (dt_user t) ''postgres''"
  let ?rel = "dump_file_path t"
  have rel: "dump_path (dt_service t) ''-postgresql.sql'' = ?rel"
    using assms(2) by (simp add: dump_file_path_def dump_ending_def)
  obtain r1 st1 where run: "run_export w \<lparr>rq_cmd = postgres_command ?user, rq_env = [], rq_stdin = None\<rparr>
      ''pg_dumpall'' id (path_join [staging, ?rel]) st = (r1, st1)" by fastforce
  consider (early) e where "r = Inl e" "st' = st"
    | (ran) "st' = st1" "\<And>e. r1 = Inl e \<Longrightarrow> r = Inl e"
        "\<And>n. r1 = Inr n \<Longrightarrow> \<exists>f. r = Inr f \<and> df_path f = ?rel \<and> df_bytes f = n"
    using assms(1) run by (fastforce simp: postgres_dump_def Let_def rel split: option.splits sum.splits if_splits)
  then show ?thesis
  proof cases
    case early
    then show ?thesis by (simp add: export_outcome_same)
  next
    case ran
    show ?thesis unfolding ran(1)
      by (rule run_export_outcome[OF run _ ran(2,3)])
        (simp add: assms(2) dump_tools_def postgres_command_def)
  qed
qed

lemma mongodb_dump_outcome:
  assumes "mongodb_dump w t staging st = (r, st')" "dt_technology t = ''mongodb''"
  shows "export_outcome w t staging st r st'"
proof -
  let ?rel = "dump_file_path t"
  have rel: "dump_path (dt_service t) ''-mongodb.archive'' = ?rel"
    using assms(2) by (simp add: dump_file_path_def dump_ending_def)
  obtain flags inp where auth: "mongo_auth (trim_space (dt_user t)) (dt_password t) = (flags, inp)" by fastforce
  obtain r1 st1 where run: "run_export w \<lparr>rq_cmd = [''mongodump'', ''--archive''] @ flags, rq_env = [], rq_stdin = inp\<rparr>
      ''mongodump'' (\<lambda>s. redact_secret s (dt_password t)) (path_join [staging, ?rel]) st = (r1, st1)" by fastforce
  consider (early) e where "r = Inl e" "st' = st"
    | (ran) "st' = st1" "\<And>e. r1 = Inl e \<Longrightarrow> r = Inl e"
        "\<And>n. r1 = Inr n \<Longrightarrow> \<exists>f. r = Inr f \<and> df_path f = ?rel \<and> df_bytes f = n"
    using assms(1) run by (fastforce simp: mongodb_dump_def Let_def rel auth split: option.splits sum.splits if_splits)
  then show ?thesis
  proof cases
    case early
    then show ?thesis by (simp add: export_outcome_same)
  next
    case ran
    show ?thesis unfolding ran(1)
      by (rule run_export_outcome[OF run _ ran(2,3)])
        (simp add: assms(2) dump_tools_def postgres_command_def)
  qed
qed

lemma dump_user_databases_cases:
  assumes "dump_user_databases w t env user tools p rel st = (r, st')"
  obtains (listing) e where "r = Inl e" "staged st' = staged st"
    | (dumping) dbs st1 where "staged st1 = staged st" "list_mysql_databases w t env (mysql_clients (dt_technology t)) [] st = (Inr dbs, st1)"
        "dbs \<noteq> []" "try_dump_tools w t env user dbs p rel tools [] tools st1 = (r, st')"
proof -
  obtain l st1 where list: "list_mysql_databases w t env (mysql_clients (dt_technology t)) [] st = (l, st1)"
    by fastforce
  have same: "staged st1 = staged st"
    using list_mysql_databases_files[of w t env "mysql_clients (dt_technology t)" "[]" st] by (simp add: list)
  show thesis
  proof (cases l)
    case (Inl e)
    then show thesis using assms list same by (intro listing[of e]) (auto simp: dump_user_databases_def)
  next
    case (Inr dbs)
    show thesis
    proof (cases "dbs = []")
      case True
      then show thesis using assms list same Inr
        by (intro listing[of "No_User_Databases (dt_technology t)"]) (auto simp: dump_user_databases_def)
    next
      case False
      then show thesis using assms list same Inr by (intro dumping[of st1 dbs]) (auto simp: dump_user_databases_def)
    qed
  qed
qed

lemma mysql_dump_cases:
  assumes "mysql_dump w t staging st = (r, st')"
  obtains (early) e where "r = Inl e" "st' = st"
    | (ran) tools rel where "mysql_dump_tools (dt_technology t) = Some tools"
        "rel = dump_path (dt_service t) (''-'' @ dt_technology t @ ''.sql'')"
        "valid_identifier (user_or (dt_user t) ''root'') = None"
        "dump_user_databases w t (password_env (dt_password t)) (user_or (dt_user t) ''root'') tools
           (path_join [staging, rel]) rel st = (r, st')"
  using assms by (auto simp: mysql_dump_def Let_def split: option.splits if_splits)

lemma mysql_dump_outcome:
  assumes "mysql_dump w t staging st = (r, st')" "dt_technology t = ''mysql'' \<or> dt_technology t = ''mariadb''"
  shows "export_outcome w t staging st r st'"
  using assms(1)
proof (cases rule: mysql_dump_cases)
  case early
  then show ?thesis by (simp add: export_outcome_same)
next
  case (ran tools rel)
  have rel: "rel = dump_file_path t"
    using assms(2) ran(2) by (auto simp: dump_file_path_def dump_ending_def)
  from ran(4) show ?thesis
  proof (cases rule: dump_user_databases_cases)
    case listing
    then show ?thesis by (simp add: export_outcome_Inl)
  next
    case (dumping dbs st1)
    show ?thesis
    proof (cases r)
      case (Inl e)
      show ?thesis unfolding Inl
        by (rule export_outcome_Inl)
          (use try_dump_tools_fail[OF dumping(4)[unfolded Inl]] dumping(1) rel in simp)
    next
      case (Inr f)
      obtain c where "c \<noteq> []" "df_bytes f = length c" "df_path f = rel"
          "staged st' = (staged st1)(path_join [staging, rel] \<mapsto> c)"
          "written_by w (set tools) c (dst_log st1) (dst_log st')"
        using try_dump_tools_ok[OF dumping(4)[unfolded Inr]] by blast
      moreover obtain asked where "dst_log st1 = dst_log st @ asked"
        using list_mysql_databases_grows[OF dumping(2)] by blast
      moreover have "set tools = dump_tools (dt_technology t)"
        using ran(1) assms(2) by (auto simp: mysql_dump_tools_def dump_tools_def)
      ultimately show ?thesis unfolding Inr
        using written_by_later[of "dst_log st1" "dst_log st" asked w "set tools" c "dst_log st'"]
        by (intro export_outcome_Inr) (auto simp: dumping(1) rel)
    qed
  qed
qed

lemma export_database_outcome:
  assumes "export_database w t staging st = (r, st')"
  shows "export_outcome w t staging st r st'"
  using assms postgres_dump_outcome[of w t staging st r st'] mysql_dump_outcome[of w t staging st r st']
    mongodb_dump_outcome[of w t staging st r st']
  unfolding export_database_def by (fastforce split: if_splits)

lemma export_all_or_nothing_core:
  assumes "export_database w t staging st = (r, st')"
  shows "case r of
      Inr f \<Rightarrow> df_path f = dump_file_path t \<and>
        (\<exists>c. c \<noteq> [] \<and> df_bytes f = length c \<and> staged st' = (staged st)(path_join [staging, df_path f] \<mapsto> c) \<and>
           written_by w (dump_tools (dt_technology t)) c (dst_log st) (dst_log st'))
    | Inl e \<Rightarrow> failed_at w (path_join [staging, dump_file_path t]) (staged st) (staged st')"
  using export_database_outcome[OF assms]
  by (auto simp: export_outcome_def Let_def split: sum.splits option.splits)

lemma try_dump_tools_names:
  "try_dump_tools w t env user dbs p rel tried le tools st = (Inr f, st') \<Longrightarrow>
   df_technology f = dt_technology t \<and> df_service f = dt_service t"
  by (induction tools arbitrary: st le) (auto simp: Let_def split: prod.splits sum.splits if_splits)

lemma export_database_names:
  assumes "export_database w t staging st = (Inr f, st')"
  shows "df_technology f = dt_technology t \<and> df_service f = dt_service t"
proof -
  have "df_technology f = dt_technology t \<and> df_service f = dt_service t"
    if "mysql_dump w t staging st = (Inr f, st')"
    using that
  proof (cases rule: mysql_dump_cases)
    case (ran tools rel)
    from ran(4) show ?thesis
      by (cases rule: dump_user_databases_cases) (auto dest: try_dump_tools_names)
  qed simp
  moreover have "df_technology f = ''postgresql'' \<and> df_service f = dt_service t"
    if "postgres_dump w t staging st = (Inr f, st')"
    using that by (auto simp: postgres_dump_def Let_def split: option.splits prod.splits sum.splits if_splits)
  moreover have "df_technology f = ''mongodb'' \<and> df_service f = dt_service t"
    if "mongodb_dump w t staging st = (Inr f, st')"
    using that by (auto simp: mongodb_dump_def Let_def split: option.splits prod.splits sum.splits if_splits)
  ultimately show ?thesis using assms by (auto simp: export_database_def split: if_splits)
qed

section \<open>What one export cannot touch\<close>

lemma run_export_other:
  "run_export w rq tool rd p st = (r, st') \<Longrightarrow> q \<noteq> p \<Longrightarrow> staged st' q = staged st q"
  by (auto simp: run_export_def exec_in_def Let_def staged_def update_conv' delete_conv' remove_failed_dump_def
      split: option.splits if_splits)

lemma try_dump_tools_other:
  assumes "try_dump_tools w t env user dbs p rel tried le tools st = (r, st')" "q \<noteq> p"
  shows "staged st' q = staged st q"
  using assms(1)
proof (induction tools arbitrary: st le)
  case (Cons tool tools)
  obtain r1 st1 where run: "run_export w \<lparr>rq_cmd = mysql_command tool user dbs, rq_env = env, rq_stdin = None\<rparr> tool
      (\<lambda>s. redact_password s env) p st = (r1, st1)" by fastforce
  have "st' = st1 \<or> (\<exists>e. try_dump_tools w t env user dbs p rel tried e tools st1 = (r, st'))"
    using Cons.prems run by (auto simp: Let_def split: sum.splits if_splits)
  then show ?case using Cons.IH run_export_other[OF run assms(2)] by auto
qed simp

lemma export_database_other:
  assumes "export_database w t staging st = (r, st')" "q \<noteq> path_join [staging, dump_file_path t]"
  shows "staged st' q = staged st q"
proof -
  consider (pg) "dt_technology t = ''postgresql''" "postgres_dump w t staging st = (r, st')"
    | (my) "dt_technology t = ''mysql'' \<or> dt_technology t = ''mariadb''" "mysql_dump w t staging st = (r, st')"
    | (mo) "dt_technology t = ''mongodb''" "mongodb_dump w t staging st = (r, st')"
    | (none) "st' = st"
    using assms(1) by (auto simp: export_database_def split: if_splits)
  then show ?thesis
  proof cases
    case pg
    have rel: "dump_path (dt_service t) ''-postgresql.sql'' = dump_file_path t"
      using pg(1) by (simp add: dump_file_path_def dump_ending_def)
    show ?thesis using pg(2) run_export_other[OF _ assms(2)]
      by (fastforce simp: postgres_dump_def Let_def rel split: option.splits prod.splits sum.splits if_splits)
  next
    case my
    from my(2) show ?thesis
    proof (cases rule: mysql_dump_cases)
      case (ran tools rel)
      have rel: "rel = dump_file_path t" using my(1) ran(2) by (auto simp: dump_file_path_def dump_ending_def)
      from ran(4) show ?thesis
      proof (cases rule: dump_user_databases_cases)
        case (dumping dbs st1)
        then show ?thesis using try_dump_tools_other[OF dumping(4)] assms(2) rel by simp
      qed simp
    qed simp
  next
    case mo
    have rel: "dump_path (dt_service t) ''-mongodb.archive'' = dump_file_path t"
      using mo(1) by (simp add: dump_file_path_def dump_ending_def)
    show ?thesis using mo(2) run_export_other[OF _ assms(2)]
      by (fastforce simp: mongodb_dump_def Let_def rel split: option.splits prod.splits sum.splits if_splits)
  qed simp
qed

text \<open>A dump lies below the staging directory it is written to.\<close>

lemma dump_file_path_segs:
  assumes "abs_clean staging" "dt_technology t \<in> set [''postgresql'', ''mysql'', ''mariadb'', ''mongodb'']"
  shows "path_segs (path_join [staging, dump_file_path t]) =
    path_segs staging @ [dump_directory, dump_segment (dt_service t) @ dump_ending t]"
proof -
  let ?name = "dump_segment (dt_service t) @ dump_ending t"
  have ending: "dump_ending t \<noteq> []" "CHR ''/'' \<notin> set (dump_ending t)" "length (dump_ending t) > 2"
    using assms(2) by (auto simp: dump_ending_def)
  have "normal_seg ?name"
    using dump_segment_normal[of "dt_service t"] ending
    by (auto simp: normal_seg_def dest: arg_cong[where f = length])
  moreover have d: "normal_seg dump_directory" by (simp add: dump_directory_def normal_seg_def)
  ultimately have n: "\<forall>s\<in>set [dump_directory, ?name]. normal_seg s" by simp
  have "dump_file_path t = join [dump_directory, ?name] ''/''"
    unfolding dump_file_path_def dump_path_def by (rule path_join_names) (use n in simp_all)
  then have "path_join [staging, dump_file_path t] = render_path True (path_segs staging @ [dump_directory, ?name])"
    using path_join_root_segs[OF assms(1) n] by simp
  moreover have "\<forall>s\<in>set (path_segs staging @ [dump_directory, ?name]). normal_seg s"
    using abs_clean_segs[OF assms(1)] n by auto
  ultimately show ?thesis by (simp only: path_segs_render)
qed

section \<open>What is asked of the server\<close>

lemma user_databases_sound:
  "user_databases ls = Inr ds \<Longrightarrow> list_all (\<lambda>d. d \<notin> set system_schemas \<and> valid_identifier d = None) ds"
proof (induction ls arbitrary: ds)
  case (Cons l ls)
  show ?case
  proof (cases "trim_space l = [] \<or> trim_space l \<in> set system_schemas")
    case True
    then show ?thesis using Cons by (simp add: Let_def)
  next
    case False
    then obtain ds' where "valid_identifier (trim_space l) = None" "user_databases ls = Inr ds'" "ds = trim_space l # ds'"
      using Cons.prems by (auto simp: Let_def bind_result_eq_Inr split: option.splits if_splits)
    then show ?thesis using Cons.IH[of ds'] False by simp
  qed
qed simp

definition names_only_user_databases :: "exec_request \<Rightarrow> bool" where
  "names_only_user_databases rq =
     (if rq_cmd rq ! 1 = ''--databases''
      then drop 9 (rq_cmd rq) \<noteq> [] \<and>
        list_all (\<lambda>d. d \<notin> set system_schemas \<and> valid_identifier d = None) (drop 9 (rq_cmd rq))
      else rq_cmd rq ! 6 = ''SHOW DATABASES'')"

lemma mysql_command_safe:
  "dbs \<noteq> [] \<Longrightarrow> list_all (\<lambda>d. d \<notin> set system_schemas \<and> valid_identifier d = None) dbs \<Longrightarrow>
   names_only_user_databases \<lparr>rq_cmd = mysql_command tool user dbs, rq_env = env, rq_stdin = i\<rparr>"
  by (simp add: names_only_user_databases_def mysql_command_def)

lemma list_mysql_databases_log:
  assumes "list_mysql_databases w t env tools e st = (r, st')"
  shows "\<exists>asked. dst_log st' = dst_log st @ asked \<and> list_all names_only_user_databases asked"
  using assms
proof (induction tools arbitrary: e st)
  case (Cons tool tools)
  let ?rq = "\<lparr>rq_cmd = list_command t tool, rq_env = env, rq_stdin = None\<rparr>"
  have ok: "names_only_user_databases ?rq" by (simp add: names_only_user_databases_def list_command_def)
  obtain reply st1 where ex: "exec_in w ?rq st = (reply, st1)" by fastforce
  then have log: "dst_log st1 = dst_log st @ [?rq]" by (auto simp: exec_in_def)
  have "st' = st1 \<or> (\<exists>e'. list_mysql_databases w t env tools e' st1 = (r, st'))"
    using Cons.prems ex by (fastforce simp: Let_def split: option.splits if_splits)
  then show ?case
  proof (elim disjE exE)
    fix e' assume "list_mysql_databases w t env tools e' st1 = (r, st')"
    from Cons.IH[OF this] show ?thesis using log ok by fastforce
  qed (use log ok in auto)
qed auto

lemma list_mysql_databases_result:
  assumes "list_mysql_databases w t env tools e st = (Inr dbs, st')"
  shows "list_all (\<lambda>d. d \<notin> set system_schemas \<and> valid_identifier d = None) dbs"
  using assms
proof (induction tools arbitrary: e st)
  case (Cons tool tools)
  let ?rq = "\<lparr>rq_cmd = list_command t tool, rq_env = env, rq_stdin = None\<rparr>"
  obtain reply st1 where ex: "exec_in w ?rq st = (reply, st1)" by fastforce
  have "user_databases (split_on (char_of (10::nat)) (rp_stdout reply)) = Inr dbs \<or>
      (\<exists>e'. list_mysql_databases w t env tools e' st1 = (Inr dbs, st'))"
    using Cons.prems ex by (fastforce simp: Let_def split: option.splits if_splits)
  then show ?case using Cons.IH user_databases_sound by blast
qed simp

lemma try_dump_tools_log:
  assumes "try_dump_tools w t env user dbs p rel tried le tools st = (r, st')" "dbs \<noteq> []"
    "list_all (\<lambda>d. d \<notin> set system_schemas \<and> valid_identifier d = None) dbs"
  shows "\<exists>asked. dst_log st' = dst_log st @ asked \<and> list_all names_only_user_databases asked"
  using assms(1)
proof (induction tools arbitrary: st le)
  case (Cons tool tools)
  let ?rq = "\<lparr>rq_cmd = mysql_command tool user dbs, rq_env = env, rq_stdin = None\<rparr>"
  have ok: "names_only_user_databases ?rq" by (rule mysql_command_safe[OF assms(2,3)])
  obtain r1 st1 where run: "run_export w ?rq tool (\<lambda>s. redact_password s env) p st = (r1, st1)" by fastforce
  have log: "\<exists>asked. dst_log st1 = dst_log st @ asked \<and> list_all names_only_user_databases asked"
    using run_export_log[OF run] ok by auto
  have "st' = st1 \<or> (\<exists>e. try_dump_tools w t env user dbs p rel tried e tools st1 = (r, st'))"
    using Cons.prems run by (auto simp: Let_def split: sum.splits if_splits)
  then show ?case
  proof (elim disjE exE)
    fix e assume "try_dump_tools w t env user dbs p rel tried e tools st1 = (r, st')"
    from Cons.IH[OF this] log show ?thesis by fastforce
  qed (use log in simp)
qed simp

section \<open>Where the password goes\<close>

text \<open>
  Two runs are compared: they agree on the files and on every command line, and may differ in the
  environment and the input of the commands.
\<close>

definition same_argv :: "dump_state \<Rightarrow> dump_state \<Rightarrow> bool" where
  "same_argv a b = (dst_files a = dst_files b \<and> map rq_cmd (dst_log a) = map rq_cmd (dst_log b))"

text \<open>A server whose answers depend on the command lines alone.\<close>

definition answers_argv :: "dump_world \<Rightarrow> bool" where
  "answers_argv w =
     (\<forall>h h' rq rq'. map rq_cmd h = map rq_cmd h' \<and> rq_cmd rq = rq_cmd rq' \<longrightarrow> dw_exec w h rq = dw_exec w h' rq')"

definition never_echoes :: "dump_world \<Rightarrow> string \<Rightarrow> bool" where
  "never_echoes w secret = (\<forall>h rq. \<not> sublist secret (rp_stderr (dw_exec w h rq)))"

lemma answers_argv_reply:
  "answers_argv w \<Longrightarrow> same_argv a b \<Longrightarrow> rq_cmd rq = rq_cmd rq' \<Longrightarrow>
   dw_exec w (dst_log b) rq' = dw_exec w (dst_log a) rq"
  unfolding answers_argv_def same_argv_def by metis

lemma exec_in_same_argv:
  assumes "answers_argv w" "same_argv a b" "rq_cmd rq = rq_cmd rq'"
  shows "fst (exec_in w rq a) = fst (exec_in w rq' b) \<and> same_argv (snd (exec_in w rq a)) (snd (exec_in w rq' b))"
  using assms(2,3) by (auto simp: exec_in_def answers_argv_reply[OF assms] same_argv_def)

lemma sublist_trim_space: "sublist (trim_space s) s"
proof -
  have "prefix (trim_space s) (trim_left s ascii_space)"
    unfolding trim_space_def trim_def by (rule trim_right_prefix)
  moreover have "suffix (trim_left s ascii_space) s"
    unfolding trim_left_def by (rule suffix_dropWhile)
  ultimately show ?thesis by (meson prefix_imp_sublist suffix_imp_sublist sublist_order.order_trans)
qed

lemma redact_secret_silent:
  "\<not> sublist p s \<Longrightarrow> redact_secret (trim_space s) p = trim_space s"
  using sublist_trim_space[of s] sublist_order.order_trans[of p "trim_space s" s]
  by (auto simp: redact_secret_def intro!: replace_all_absent)

lemma redact_password_env:
  "redact_password s (password_env p) = redact_secret s p"
  by (simp add: password_env_def redact_secret_def cut_at_def)

lemma run_export_same_argv:
  assumes "answers_argv w" "same_argv a b" "rq_cmd rq = rq_cmd rq'"
    "\<And>h. rd (trim_space (rp_stderr (dw_exec w h rq))) = rd' (trim_space (rp_stderr (dw_exec w h rq)))"
  shows "fst (run_export w rq tool rd p a) = fst (run_export w rq' tool rd' p b) \<and>
    same_argv (snd (run_export w rq tool rd p a)) (snd (run_export w rq' tool rd' p b))"
proof -
  note reply = answers_argv_reply[OF assms(1,2,3)]
  show ?thesis using assms(2,3,4)
    by (auto simp: run_export_def exec_in_def Let_def same_argv_def reply remove_failed_dump_def split: option.splits)
qed

definition same_outcome :: "'r \<times> dump_state \<Rightarrow> 'r \<times> dump_state \<Rightarrow> bool" where
  "same_outcome x y = (fst x = fst y \<and> same_argv (snd x) (snd y))"

lemma same_outcomeI [intro]: "same_argv a b \<Longrightarrow> same_outcome (r, a) (r, b)"
  by (simp add: same_outcome_def)

lemma same_outcomeE:
  assumes "same_outcome x y"
  obtains r a b where "x = (r, a)" "y = (r, b)" "same_argv a b"
  using assms by (cases x; cases y) (auto simp: same_outcome_def)

lemma list_command_password [simp]: "list_command (t\<lparr>dt_password := pw\<rparr>) tool = list_command t tool"
  by (simp add: list_command_def)

lemma list_mysql_databases_same:
  assumes "answers_argv w" "never_echoes w p" "never_echoes w q" "same_argv a b"
  shows "same_outcome (list_mysql_databases w t (password_env p) tools e a)
                      (list_mysql_databases w (t\<lparr>dt_password := pw\<rparr>) (password_env q) tools e b)"
  using assms(4)
proof (induction tools arbitrary: e a b)
  case (Cons tool tools)
  let ?rq = "\<lambda>env. \<lparr>rq_cmd = list_command t tool, rq_env = env, rq_stdin = None\<rparr>"
  obtain reply a1 where ea: "exec_in w (?rq (password_env p)) a = (reply, a1)" by fastforce
  obtain reply' b1 where eb: "exec_in w (?rq (password_env q)) b = (reply', b1)" by fastforce
  have r: "reply' = reply" and ab: "same_argv a1 b1"
    using exec_in_same_argv[OF assms(1) Cons.prems, of "?rq (password_env p)" "?rq (password_env q)"]
    by (simp_all add: ea eb)
  have rd: "redact_password (trim_space (rp_stderr reply)) (password_env x) = trim_space (rp_stderr reply)"
    if "never_echoes w x" for x
    unfolding redact_password_env using that ea
    by (intro redact_secret_silent) (auto simp: never_echoes_def exec_in_def)
  note IH = Cons.IH[OF ab]
  show ?case
    by (cases "rp_error reply")
      (simp_all add: ea eb r Let_def rd[OF assms(2)] rd[OF assms(3)] IH same_outcomeI[OF ab])
qed (simp add: same_outcome_def)

lemma run_export_same:
  assumes "answers_argv w" "never_echoes w p" "never_echoes w q" "same_argv a b" "rq_cmd rq = rq_cmd rq'"
  shows "same_outcome (run_export w rq tool (\<lambda>s. redact_secret s p) path a)
                      (run_export w rq' tool (\<lambda>s. redact_secret s q) path b)"
  unfolding same_outcome_def
proof (rule run_export_same_argv[OF assms(1,4,5)])
  fix h
  show "redact_secret (trim_space (rp_stderr (dw_exec w h rq))) p = redact_secret (trim_space (rp_stderr (dw_exec w h rq))) q"
    using assms(2,3) by (simp add: redact_secret_silent never_echoes_def)
qed

lemma try_dump_tools_same:
  assumes "answers_argv w" "never_echoes w p" "never_echoes w q" "same_argv a b"
  shows "same_outcome (try_dump_tools w t (password_env p) user dbs path rel tried le tools a)
                      (try_dump_tools w (t\<lparr>dt_password := pw\<rparr>) (password_env q) user dbs path rel tried le tools b)"
  using assms(4)
proof (induction tools arbitrary: le a b)
  case (Cons tool tools)
  let ?rq = "\<lambda>env. \<lparr>rq_cmd = mysql_command tool user dbs, rq_env = env, rq_stdin = None\<rparr>"
  obtain r a1 b1 where
    ra: "run_export w (?rq (password_env p)) tool (\<lambda>s. redact_secret s p) path a = (r, a1)" and
    rb: "run_export w (?rq (password_env q)) tool (\<lambda>s. redact_secret s q) path b = (r, b1)" and
    ab: "same_argv a1 b1"
    using run_export_same[OF assms(1-3) Cons.prems, of "?rq (password_env p)" "?rq (password_env q)" tool path]
    by (auto elim: same_outcomeE)
  note IH = Cons.IH[OF ab]
  show ?case
    by (cases r) (simp_all add: redact_password_env ra rb Let_def IH same_outcomeI[OF ab])
qed (simp add: same_outcome_def)

lemma mysql_dump_same:
  assumes "answers_argv w" "never_echoes w p" "never_echoes w q" "same_argv a b" "dt_password t = p"
  shows "same_outcome (mysql_dump w t staging a) (mysql_dump w (t\<lparr>dt_password := q\<rparr>) staging b)"
proof -
  have core: "same_outcome
      (dump_user_databases w t (password_env p) user tools path rel a)
      (dump_user_databases w (t\<lparr>dt_password := q\<rparr>) (password_env q) user tools path rel b)" for user tools path rel
  proof -
    obtain r a1 b1 where
      l: "list_mysql_databases w t (password_env p) (mysql_clients (dt_technology t)) [] a = (r, a1)"
        "list_mysql_databases w (t\<lparr>dt_password := q\<rparr>) (password_env q) (mysql_clients (dt_technology t)) [] b = (r, b1)"
        "same_argv a1 b1"
      using list_mysql_databases_same[OF assms(1-4), of t "mysql_clients (dt_technology t)" "[]" q]
      by (auto elim: same_outcomeE)
    note dumps = try_dump_tools_same[OF assms(1-3) l(3)]
    show ?thesis
      by (cases r) (simp_all add: dump_user_databases_def l(1,2) dumps same_outcomeI[OF l(3)])
  qed
  show ?thesis
    unfolding mysql_dump_def
    by (simp add: assms(5) Let_def core same_outcomeI[OF assms(4)] split: option.split)
qed

lemma mongodb_dump_same:
  assumes "answers_argv w" "never_echoes w p" "never_echoes w q" "same_argv a b" "dt_password t = p"
    "p \<noteq> []" "q \<noteq> []"
  shows "same_outcome (mongodb_dump w t staging a) (mongodb_dump w (t\<lparr>dt_password := q\<rparr>) staging b)"
proof -
  let ?user = "trim_space (dt_user t)"
  let ?path = "path_join [staging, dump_path (dt_service t) ''-mongodb.archive'']"
  obtain flags i j where auth: "mongo_auth ?user p = (flags, i)" "mongo_auth ?user q = (flags, j)"
    using assms(6,7) by (cases "?user = []") (simp_all add: mongo_auth_def)
  let ?rq = "\<lambda>inp. \<lparr>rq_cmd = [''mongodump'', ''--archive''] @ flags, rq_env = [], rq_stdin = inp\<rparr>"
  obtain r a1 b1 where
    run: "run_export w (?rq i) ''mongodump'' (\<lambda>s. redact_secret s p) ?path a = (r, a1)"
      "run_export w (?rq j) ''mongodump'' (\<lambda>s. redact_secret s q) ?path b = (r, b1)" "same_argv a1 b1"
    using run_export_same[OF assms(1-4), of "?rq i" "?rq j" "''mongodump''" ?path] by (auto elim: same_outcomeE)
  show ?thesis
    unfolding mongodb_dump_def using auth run
    by (cases r; cases "?user = []") (simp_all add: assms(5) Let_def same_outcomeI[OF assms(4)] same_outcomeI[OF run(3)]
        split: option.split)
qed

lemma postgres_dump_same:
  assumes "answers_argv w" "same_argv a b"
  shows "same_outcome (postgres_dump w t staging a) (postgres_dump w (t\<lparr>dt_password := q\<rparr>) staging b)"
proof -
  let ?rq = "\<lparr>rq_cmd = postgres_command (user_or (dt_user t) ''postgres''), rq_env = [], rq_stdin = None\<rparr>"
  let ?path = "path_join [staging, dump_path (dt_service t) ''-postgresql.sql'']"
  have "same_outcome (run_export w ?rq ''pg_dumpall'' id ?path a) (run_export w ?rq ''pg_dumpall'' id ?path b)"
    unfolding same_outcome_def by (rule run_export_same_argv[OF assms]) simp_all
  then obtain r a1 b1 where run: "run_export w ?rq ''pg_dumpall'' id ?path a = (r, a1)"
      "run_export w ?rq ''pg_dumpall'' id ?path b = (r, b1)" "same_argv a1 b1" by (auto elim: same_outcomeE)
  show ?thesis
    unfolding postgres_dump_def using run
    by (cases r) (simp_all add: Let_def same_outcomeI[OF assms(2)] same_outcomeI[OF run(3)] split: option.split)
qed

section \<open>The password document\<close>

text \<open>
  How YAML 1.2 reads a single-quoted scalar after its opening quote: a doubled quote is a quote, a
  single one ends the scalar. The result is the value and what follows.
\<close>

fun read_single_quoted :: "string \<Rightarrow> (string \<times> string) option" where
  "read_single_quoted [] = None"
| "read_single_quoted [c] = (if c = apostrophe then Some ([], []) else None)"
| "read_single_quoted (c # d # s) =
     (if c \<noteq> apostrophe then map_option (apfst (\<lambda>v. c # v)) (read_single_quoted (d # s))
      else if d = apostrophe then map_option (apfst (\<lambda>v. c # v)) (read_single_quoted s)
      else Some ([], d # s))"

lemma read_single_quoted_end:
  "rest = [] \<or> hd rest \<noteq> apostrophe \<Longrightarrow> read_single_quoted (apostrophe # rest) = Some ([], rest)"
  by (cases rest) auto

lemma read_single_quoted_body:
  assumes "rest = [] \<or> hd rest \<noteq> apostrophe"
  shows "read_single_quoted (concat (map (\<lambda>c. if c = apostrophe then [c, c] else [c]) v) @ apostrophe # rest) = Some (v, rest)"
proof (induction v)
  case (Cons c v)
  let ?t = "concat (map (\<lambda>c. if c = apostrophe then [c, c] else [c]) v) @ apostrophe # rest"
  obtain d s where t: "?t = d # s" by (cases ?t) auto
  show ?case
  proof (cases "c = apostrophe")
    case True
    then show ?thesis using Cons by simp
  next
    case False
    then have "concat (map (\<lambda>c. if c = apostrophe then [c, c] else [c]) (c # v)) @ apostrophe # rest = c # d # s"
      using t by simp
    then show ?thesis using Cons False t by simp
  qed
qed (simp add: read_single_quoted_end assms)

lemma read_quote_yaml:
  "rest = [] \<or> hd rest \<noteq> apostrophe \<Longrightarrow> read_single_quoted (tl (quote_yaml v) @ rest) = Some (v, rest)"
  using read_single_quoted_body[of rest v] by (simp add: quote_yaml_def)

section \<open>Properties\<close>

text \<open>
  C4. A dump is all or nothing, and what is not is named. A successful export leaves, at the reported path
  and with the reported size, the complete output of a tool of the engine that ended with exit code 0, which
  is not empty, and touches no other file. A failed export touches at most the file at that path: it is
  as before or gone, except that the output stays there when flushing, measuring or removing the file
  failed, in which case the file is reported as failed and still lies in the staging tree.
\<close>

theorem export_all_or_nothing:
  assumes "export_database w t staging st = (r, st')"
  shows "case r of
      Inr f \<Rightarrow> df_path f = dump_file_path t \<and>
        (\<exists>c. c \<noteq> [] \<and> df_bytes f = length c \<and> staged st' = (staged st)(path_join [staging, df_path f] \<mapsto> c) \<and>
           written_by w (dump_tools (dt_technology t)) c (dst_log st) (dst_log st'))
    | Inl e \<Rightarrow>
        staged st' = staged st \<or> staged st' = (staged st)(path_join [staging, dump_file_path t] := None) \<or>
        ((dw_sync_fault w \<noteq> None \<or> dw_stat_fault w \<noteq> None \<or> dw_remove_fault w \<noteq> None) \<and>
         (\<exists>c. staged st' = (staged st)(path_join [staging, dump_file_path t] \<mapsto> c)))"
  using export_all_or_nothing_core[OF assms] by (simp only: failed_at_def leaves_output_def)

definition quiet_world :: "string \<Rightarrow> dump_world" where
  "quiet_world out = \<lparr>dw_exec = \<lambda>h rq. \<lparr>rp_stdout = (if last (rq_cmd rq) = ''SHOW DATABASES'' then ''shop'' else out),
     rp_error = None, rp_code = 0, rp_stderr = []\<rparr>,
     dw_mkdir_fault = None, dw_open_fault = None, dw_sync_fault = None, dw_stat_fault = None,
     dw_remove_fault = None\<rparr>"

definition sample_target :: "string \<Rightarrow> dump_target" where
  "sample_target engine = \<lparr>dt_technology = engine, dt_service = ''db'', dt_container = ''c1'', dt_user = ''app'',
     dt_password = ''hunter2''\<rparr>"

definition no_dumps :: dump_state where
  "no_dumps = \<lparr>dst_files = [], dst_log = []\<rparr>"

lemma sample_postgres:
  "export_database (quiet_world ''SQL'') (sample_target ''postgresql'') ''/stage'' no_dumps =
   (Inr \<lparr>df_technology = ''postgresql'', df_service = ''db'', df_path = ''back-orbit-dumps/db-postgresql.sql'',
      df_command = ''pg_dumpall --clean --if-exists --username app'', df_user = ''app'', df_bytes = 3\<rparr>,
    \<lparr>dst_files = [(''/stage/back-orbit-dumps/db-postgresql.sql'', ''SQL'')],
     dst_log = [\<lparr>rq_cmd = postgres_command ''app'', rq_env = [], rq_stdin = None\<rparr>]\<rparr>)"
  by code_simp

theorem export_all_or_nothing_witness:
  "\<exists>c. c \<noteq> [] \<and> 3 = length c \<and> [''/stage/back-orbit-dumps/db-postgresql.sql'' \<mapsto> ''SQL''] =
     Map.empty(path_join [''/stage'', ''back-orbit-dumps/db-postgresql.sql''] \<mapsto> c) \<and>
   written_by (quiet_world ''SQL'') {''pg_dumpall''} c [] [\<lparr>rq_cmd = postgres_command ''app'', rq_env = [], rq_stdin = None\<rparr>]"
proof -
  note all = export_all_or_nothing[OF sample_postgres, unfolded sum.case, THEN conjunct2]
  show ?thesis using all by (simp add: staged_def no_dumps_def dump_tools_def sample_target_def)
qed

text \<open>
  A MySQL or MariaDB dump never carries a system schema: whatever the server lists, every command
  of the export either lists the databases or dumps a non-empty list of names, each a plain
  identifier and none of them a system schema.
\<close>

theorem mysql_dump_user_databases_only:
  assumes "mysql_dump w t staging st = (r, st')"
  shows "\<exists>asked. dst_log st' = dst_log st @ asked \<and> list_all names_only_user_databases asked"
  using assms
proof (cases rule: mysql_dump_cases)
  case (ran tools rel)
  let ?env = "password_env (dt_password t)"
  obtain l st1 where list: "list_mysql_databases w t ?env (mysql_clients (dt_technology t)) [] st = (l, st1)" by fastforce
  obtain asked1 where a1: "dst_log st1 = dst_log st @ asked1" "list_all names_only_user_databases asked1"
    using list_mysql_databases_log[OF list] by blast
  show ?thesis
  proof (cases "\<exists>dbs. l = Inr dbs \<and> dbs \<noteq> []")
    case True
    then obtain dbs where dbs: "l = Inr dbs" "dbs \<noteq> []" by blast
    then have "try_dump_tools w t ?env (user_or (dt_user t) ''root'') dbs (path_join [staging, rel]) rel tools [] tools st1 = (r, st')"
      using ran(4) list by (simp add: dump_user_databases_def)
    from try_dump_tools_log[OF this dbs(2) list_mysql_databases_result[OF list[unfolded dbs(1)]]] a1
    show ?thesis by fastforce
  next
    case False
    then have "st' = st1" using ran(4) list by (auto simp: dump_user_databases_def split: sum.splits if_splits)
    then show ?thesis using a1 by blast
  qed
qed simp

theorem mysql_dump_user_databases_only_witness:
  "\<exists>asked. dst_log (snd (mysql_dump (quiet_world ''SQL'') (sample_target ''mysql'') ''/stage'' no_dumps)) = asked \<and>
     list_all names_only_user_databases asked \<and> length asked = 2"
proof -
  obtain r st' where run: "mysql_dump (quiet_world ''SQL'') (sample_target ''mysql'') ''/stage'' no_dumps = (r, st')" by fastforce
  have "length (dst_log (snd (mysql_dump (quiet_world ''SQL'') (sample_target ''mysql'') ''/stage'' no_dumps))) = 2"
    by code_simp
  then show ?thesis using mysql_dump_user_databases_only[OF run] run by (simp add: no_dumps_def)
qed

text \<open>
  C14. A database password never reaches a command line: two exports that differ only in the password
  ask for the same command lines, report the same result and write the same files, for every engine,
  as long as the server's answers do not depend on the environment and its error output does not
  echo either password.
\<close>

theorem password_not_on_command_line:
  assumes "answers_argv w" "never_echoes w p" "never_echoes w q" "p \<noteq> []" "q \<noteq> []" "dt_password t = p"
  shows "same_outcome (export_database w t staging st) (export_database w (t\<lparr>dt_password := q\<rparr>) staging st)"
proof -
  have refl: "same_argv st st" by (simp add: same_argv_def)
  show ?thesis
    using postgres_dump_same[OF assms(1) refl] mysql_dump_same[OF assms(1-3) refl assms(6)]
      mongodb_dump_same[OF assms(1-3) refl assms(6,4,5)]
    by (simp add: export_database_def same_outcomeI[OF refl])
qed

theorem password_not_on_command_line_witness:
  "same_outcome (export_database (quiet_world ''SQL'') (sample_target ''mongodb'') ''/stage'' no_dumps)
     (export_database (quiet_world ''SQL'') (sample_target ''mongodb''\<lparr>dt_password := ''p:w''\<rparr>) ''/stage'' no_dumps)"
  by (rule password_not_on_command_line[where p = "''hunter2''"])
    (auto simp: answers_argv_def never_echoes_def quiet_world_def sample_target_def)

text \<open>
  The password cannot change the shape of the document it is handed over in: reading the quoted
  value back as YAML does gives the password and leaves the rest of the document.
\<close>

theorem password_document_roundtrip:
  assumes "user \<noteq> []" "password \<noteq> []"
  shows "\<exists>doc. snd (mongo_auth user password) = Some doc \<and> take 11 doc = ''password: '' @ [apostrophe] \<and>
    read_single_quoted (drop 11 doc) = Some (password, [char_of (10::nat)])"
proof -
  have "drop 11 (''password: '' @ quote_yaml password @ [char_of (10::nat)]) = tl (quote_yaml password) @ [char_of (10::nat)]"
    by (simp add: quote_yaml_def)
  moreover have "take 11 (''password: '' @ quote_yaml password @ [char_of (10::nat)]) = ''password: '' @ [apostrophe]"
    by (simp add: quote_yaml_def)
  moreover have "hd [char_of (10::nat)] \<noteq> apostrophe" by (simp add: apostrophe_def)
  ultimately show ?thesis using assms read_quote_yaml[of "[char_of (10::nat)]" password] by (simp add: mongo_auth_def)
qed

theorem password_document_roundtrip_witness:
  "\<exists>doc. snd (mongo_auth ''root'' [apostrophe, CHR '':'']) = Some doc \<and> take 11 doc = ''password: '' @ [apostrophe] \<and>
    read_single_quoted (drop 11 doc) = Some ([apostrophe, CHR '':''], [char_of (10::nat)])"
  by (rule password_document_roundtrip) simp_all

text \<open>
  A dump whose file cannot be flushed is reported as failed and still lies in the staging tree, where
  it becomes part of the snapshot.
\<close>

lemma unflushed_dump_left_behind:
  "export_database ((quiet_world ''SQL'')\<lparr>dw_sync_fault := Some ''EIO''\<rparr>) (sample_target ''postgresql'') ''/stage'' no_dumps =
   (Inl (Flush_Failed ''EIO''),
    \<lparr>dst_files = [(''/stage/back-orbit-dumps/db-postgresql.sql'', ''SQL'')],
     dst_log = [\<lparr>rq_cmd = postgres_command ''app'', rq_env = [], rq_stdin = None\<rparr>]\<rparr>)"
  by code_simp

end
