(* ===== verification/Db_Load.thy ===== *)
theory Db_Load
  imports Db_Dump Go_Numbers
begin

text \<open>
  Putting a dump back (\<open>internal/dbdump/load.go\<close>) and the restore check of a fresh dump in a
  throwaway server (\<open>internal/dbdump/verify.go\<close>). Every call to the Docker daemon is logged; what it
  answers is an input that may depend on all calls before it. The clock shows only as the list of
  rounds the readiness loop gets before its deadline.
\<close>

section \<open>Calls and replies\<close>

datatype container_call =
  Call_Exec string exec_request
| Call_Put string string string string
| Call_Create string "string list" string
| Call_Start string
| Call_Remove string

record daemon =
  dm_exec :: "container_call list \<Rightarrow> container_call \<Rightarrow> exec_reply"
  dm_fault :: "container_call list \<Rightarrow> container_call \<Rightarrow> string option"
  dm_new_id :: string

type_synonym calls = "container_call list"

record dump_on_disk =
  dd_stat_fault :: "string option"
  dd_open_fault :: "string option"
  dd_content :: string

record load_result =
  lr_technology :: string
  lr_service :: string
  lr_bytes :: nat
  lr_objects :: int
  lr_output :: string

datatype load_error =
  Target_Not_Running string
| Dump_Unreadable string
| Dump_Is_Empty
| Restore_Unsupported string
| Load_User string ident_error
| Load_Transport string string
| Load_Exited string int string
| Result_Unchecked string
| Nothing_Restored string
| Upload_Failed string

definition run_in :: "daemon \<Rightarrow> string \<Rightarrow> exec_request \<Rightarrow> calls \<Rightarrow> exec_reply \<times> calls" where
  "run_in d c rq log = (dm_exec d log (Call_Exec c rq), log @ [Call_Exec c rq])"

definition no_input :: "string list \<Rightarrow> exec_request" where
  "no_input cmd = \<lparr>rq_cmd = cmd, rq_env = [], rq_stdin = None\<rparr>"

section \<open>Counting what came back\<close>

definition table_query :: "string \<Rightarrow> string \<Rightarrow> string list" where
  "table_query user database = [''psql'', ''-U'', user, ''-d'', database, ''-t'', ''-A'', ''-c'',
     ''select count(*) from pg_tables where schemaname not in ('' @ [apostrophe] @ ''pg_catalog'' @ [apostrophe] @
     '','' @ [apostrophe] @ ''information_schema'' @ [apostrophe] @ '')'']"

definition database_query :: "string \<Rightarrow> string list" where
  "database_query user = [''psql'', ''-U'', user, ''-d'', ''postgres'', ''-t'', ''-A'', ''-c'',
     ''select datname from pg_database where datistemplate = false'']"

fun count_databases :: "daemon \<Rightarrow> string \<Rightarrow> string \<Rightarrow> string list \<Rightarrow> int \<Rightarrow> calls \<Rightarrow> int \<times> calls" where
  "count_databases d c user [] tables log = (tables, log)"
| "count_databases d c user (line # lines) tables log =
     (let database = trim_space line in
      if database = [] then count_databases d c user lines tables log
      else
        (let (reply, log1) = run_in d c (no_input (table_query user database)) log in
         if rp_error reply \<noteq> None \<or> rp_code reply \<noteq> 0 then count_databases d c user lines tables log1
         else case atoi (trim_space (rp_stdout reply)) of
             Some n \<Rightarrow> count_databases d c user lines (wrap64 (tables + n)) log1
           | None \<Rightarrow> count_databases d c user lines tables log1))"

definition count_postgres_tables_as :: "daemon \<Rightarrow> string \<Rightarrow> string \<Rightarrow> string \<Rightarrow> calls \<Rightarrow> (string, int) result \<times> calls" where
  "count_postgres_tables_as d c user password log =
     (let (reply, log1) = run_in d c (no_input (database_query user)) log in
      case rp_error reply of
        Some e \<Rightarrow> (Inl (''list restored databases: '' @ e), log1)
      | None \<Rightarrow>
          if rp_code reply \<noteq> 0
          then (Inl (''listing restored databases failed: '' @ redact_secret (trim_space (rp_stderr reply)) password), log1)
          else (let (tables, log2) = count_databases d c user (split_on newline (rp_stdout reply)) 0 log1
                in (Inr tables, log2)))"

definition count_single_number :: "daemon \<Rightarrow> string \<Rightarrow> string \<Rightarrow> string list \<Rightarrow> calls \<Rightarrow> (string, int) result \<times> calls" where
  "count_single_number d c password cmd log =
     (let (reply, log1) = run_in d c (no_input cmd) log in
      case rp_error reply of
        Some e \<Rightarrow> (Inl (''count restored objects: '' @ e), log1)
      | None \<Rightarrow>
          if rp_code reply \<noteq> 0
          then (Inl (''counting restored objects failed: '' @ redact_secret (trim_space (rp_stderr reply)) password), log1)
          else (case atoi (trim_space (rp_stdout reply)) of
                  None \<Rightarrow> (Inl (''could not read the object count from '' @ trim_space (rp_stdout reply)), log1)
                | Some n \<Rightarrow> (Inr n, log1)))"

section \<open>Loading\<close>

text \<open>Pipe the dump into the client's standard input.\<close>

definition load_streamed :: "daemon \<Rightarrow> dump_target \<Rightarrow> dump_on_disk \<Rightarrow> string list \<Rightarrow> string list \<Rightarrow> calls
    \<Rightarrow> (load_error, string) result \<times> calls" where
  "load_streamed d t dump command env log =
     (case dd_open_fault dump of
        Some e \<Rightarrow> (Inl (Dump_Unreadable e), log)
      | None \<Rightarrow>
          (let (reply, log1) = run_in d (dt_container t) \<lparr>rq_cmd = command, rq_env = env, rq_stdin = Some (dd_content dump)\<rparr> log;
               said = redact_secret (trim_space (rp_stderr reply)) (dt_password t)
           in case rp_error reply of
                Some e \<Rightarrow> (Inl (Load_Transport (hd command) e), log1)
              | None \<Rightarrow>
                  if rp_code reply \<noteq> 0 then (Inl (Load_Exited (hd command) (rp_code reply) said), log1)
                  else (Inr said, log1)))"

definition unavoidable_postgres_errors :: "string list" where
  "unavoidable_postgres_errors =
     [''cannot drop the currently open database'', ''current user cannot be dropped'',
      ''cannot be dropped because some objects depend on it'', ''is being accessed by other users'',
      ''already exists'']"

definition keep_unexpected :: "string \<Rightarrow> string list \<Rightarrow> string" where
  "keep_unexpected out known =
     join (filter (\<lambda>line. trim_space line \<noteq> [] \<and> \<not> list_ex (str_contains line) known) (split_on newline out)) [newline]"

definition first_lines :: "string \<Rightarrow> nat \<Rightarrow> string" where
  "first_lines txt n = join (take n (split_on newline (trim_space txt))) [newline]"

definition psql_command :: "string \<Rightarrow> string list" where
  "psql_command user = [''psql'', ''-v'', ''ON_ERROR_STOP=0'', ''-U'', user, ''-d'', ''postgres'']"

definition load_postgres :: "daemon \<Rightarrow> dump_target \<Rightarrow> dump_on_disk \<Rightarrow> calls
    \<Rightarrow> (load_error, int \<times> string) result \<times> calls" where
  "load_postgres d t dump log =
     (let user = user_or (dt_user t) ''postgres'' in
      case valid_identifier user of
        Some e \<Rightarrow> (Inl (Load_User (dt_user t) e), log)
      | None \<Rightarrow>
          (case load_streamed d t dump (psql_command user) [] log of
             (Inl e, log1) \<Rightarrow> (Inl e, log1)
           | (Inr out, log1) \<Rightarrow>
               (case count_postgres_tables_as d (dt_container t) user (dt_password t) log1 of
                  (Inl e, log2) \<Rightarrow> (Inl (Result_Unchecked e), log2)
                | (Inr objects, log2) \<Rightarrow>
                    if objects = 0 then (Inl (Nothing_Restored (first_lines out 5)), log2)
                    else (Inr (objects, keep_unexpected out unavoidable_postgres_errors), log2))))"

definition mongo_restore_path :: string where
  "mongo_restore_path = ''/tmp/back-orbit-restore.archive''"

definition mongo_cleanup :: "dump_target \<Rightarrow> container_call" where
  "mongo_cleanup t = Call_Exec (dt_container t) (no_input [''rm'', ''-f'', mongo_restore_path])"

definition mongorestore_command :: "string list" where
  "mongorestore_command = [''mongorestore'', ''--archive='' @ mongo_restore_path, ''--drop'',
     ''--nsExclude'', ''admin.*'', ''--nsExclude'', ''config.*'']"

text \<open>What happens between the upload and the clean-up.\<close>

definition replay_mongo :: "daemon \<Rightarrow> dump_target \<Rightarrow> calls \<Rightarrow> (load_error, string) result \<times> calls" where
  "replay_mongo d t log =
     (let user = trim_space (dt_user t) in
      case (if user \<noteq> [] then valid_identifier user else None) of
        Some e \<Rightarrow> (Inl (Load_User (dt_user t) e), log)
      | None \<Rightarrow>
          (let (flags, input) = mongo_auth user (dt_password t);
               (reply, log1) = run_in d (dt_container t)
                 \<lparr>rq_cmd = mongorestore_command @ flags, rq_env = [], rq_stdin = input\<rparr> log;
               said = redact_secret (trim_space (rp_stderr reply)) (dt_password t)
           in case rp_error reply of
                Some e \<Rightarrow> (Inl (Load_Transport ''mongorestore'' e), log1)
              | None \<Rightarrow>
                  if rp_code reply \<noteq> 0 then (Inl (Load_Exited ''mongorestore'' (rp_code reply) said), log1)
                  else (Inr said, log1)))"

definition load_mongo :: "daemon \<Rightarrow> dump_target \<Rightarrow> dump_on_disk \<Rightarrow> calls \<Rightarrow> (load_error, string) result \<times> calls" where
  "load_mongo d t dump log =
     (case dd_open_fault dump of
        Some e \<Rightarrow> (Inl (Dump_Unreadable e), log)
      | None \<Rightarrow>
          (let put = Call_Put (dt_container t) ''/tmp'' ''back-orbit-restore.archive'' (dd_content dump);
               log1 = log @ [put]
           in case dm_fault d log put of
                Some e \<Rightarrow> (Inl (Upload_Failed e), log1)
              | None \<Rightarrow> (let (r, log2) = replay_mongo d t log1 in (r, log2 @ [mongo_cleanup t]))))"

definition mysql_load_command :: "dump_target \<Rightarrow> string list" where
  "mysql_load_command t =
     [if dt_technology t = ''mariadb'' then ''mariadb'' else ''mysql'', ''-u'', user_or (dt_user t) ''root'']"

definition load_engine :: "daemon \<Rightarrow> dump_target \<Rightarrow> dump_on_disk \<Rightarrow> calls
    \<Rightarrow> (load_error, int \<times> string) result \<times> calls" where
  "load_engine d t dump log =
     (if dt_technology t = ''postgresql'' then load_postgres d t dump log
      else if dt_technology t = ''mysql'' \<or> dt_technology t = ''mariadb'' then
        (let (r, log1) = load_streamed d t dump (mysql_load_command t) (password_env (dt_password t)) log
         in (bind_result r (\<lambda>out. Inr (0, out)), log1))
      else if dt_technology t = ''mongodb'' then
        (let (r, log1) = load_mongo d t dump log in (bind_result r (\<lambda>out. Inr (0, out)), log1))
      else (Inl (Restore_Unsupported (dt_technology t)), log))"

definition load_dump :: "daemon \<Rightarrow> dump_target \<Rightarrow> dump_on_disk \<Rightarrow> calls \<Rightarrow> (load_error, load_result) result \<times> calls" where
  "load_dump d t dump log =
     (if dt_container t = [] then (Inl (Target_Not_Running (dt_service t)), log)
      else case dd_stat_fault dump of
        Some e \<Rightarrow> (Inl (Dump_Unreadable e), log)
      | None \<Rightarrow>
          if dd_content dump = [] then (Inl Dump_Is_Empty, log)
          else (let (r, log1) = load_engine d t dump log in
                (bind_result r (\<lambda>(objects, out).
                   Inr \<lparr>lr_technology = dt_technology t, lr_service = dt_service t,
                        lr_bytes = length (dd_content dump), lr_objects = objects, lr_output = out\<rparr>), log1)))"

section \<open>The restore check\<close>

record restore_plan =
  pl_env :: "string \<Rightarrow> string list"
  pl_ready :: "string list"
  pl_load :: "string list"
  pl_count :: "daemon \<Rightarrow> string \<Rightarrow> string \<Rightarrow> calls \<Rightarrow> (string, int) result \<times> calls"

definition quoted_list :: "char \<Rightarrow> string list \<Rightarrow> string" where
  "quoted_list q xs = join (map (\<lambda>x. q # x @ [q]) xs) '',''"

definition mysql_count_command :: "string \<Rightarrow> string list" where
  "mysql_count_command client = [client, ''-uroot'', ''-N'', ''-B'', ''-e'',
     ''select count(*) from information_schema.tables where table_schema not in ('' @
     quoted_list apostrophe [''mysql'', ''information_schema'', ''performance_schema'', ''sys''] @ '')'']"

definition mongo_count_command :: "string list" where
  "mongo_count_command = [''mongosh'', ''--quiet'', ''--eval'',
     ''db.adminCommand({listDatabases:1}).databases.filter(d=>!['' @
     quoted_list double_quote [''admin'', ''config'', ''local''] @
     ''].includes(d.name)).reduce((n,d)=>n+db.getSiblingDB(d.name).getCollectionNames().length,0)'']"

definition restore_plan_of :: "string \<Rightarrow> restore_plan option" where
  "restore_plan_of technology =
     (if technology = ''postgresql'' then Some
        \<lparr>pl_env = (\<lambda>pw. [''POSTGRES_PASSWORD='' @ pw]), pl_ready = [''pg_isready'', ''-U'', ''postgres''],
         pl_load = [''psql'', ''-v'', ''ON_ERROR_STOP=0'', ''-U'', ''postgres''],
         pl_count = (\<lambda>d c pw. count_postgres_tables_as d c ''postgres'' pw)\<rparr>
      else if technology = ''mysql'' then Some
        \<lparr>pl_env = (\<lambda>_. [''MYSQL_ALLOW_EMPTY_PASSWORD=yes'']), pl_ready = [''mysqladmin'', ''ping'', ''-uroot''],
         pl_load = [''mysql'', ''-uroot''], pl_count = (\<lambda>d c pw. count_single_number d c pw (mysql_count_command ''mysql''))\<rparr>
      else if technology = ''mariadb'' then Some
        \<lparr>pl_env = (\<lambda>_. [''MARIADB_ALLOW_EMPTY_ROOT_PASSWORD=yes'']), pl_ready = [''mariadb-admin'', ''ping'', ''-uroot''],
         pl_load = [''mariadb'', ''-uroot''], pl_count = (\<lambda>d c pw. count_single_number d c pw (mysql_count_command ''mariadb''))\<rparr>
      else if technology = ''mongodb'' then Some
        \<lparr>pl_env = (\<lambda>_. []), pl_ready = [''mongosh'', ''--quiet'', ''--eval'', ''db.runCommand({ping:1}).ok''],
         pl_load = [''mongorestore'', ''--archive'', ''--drop'', ''--nsExclude'', ''admin.*'', ''--nsExclude'', ''config.*''],
         pl_count = (\<lambda>d c pw. count_single_number d c pw mongo_count_command)\<rparr>
      else None)"

record restore_check =
  rc_loaded :: bool
  rc_objects :: int
  rc_detail :: string

datatype verify_error =
  No_Image string
| No_Restore_Check string
| No_Credentials string
| Server_Not_Created string
| Server_Not_Started string
| Check_Unreadable string

definition ready_ok :: "exec_reply \<Rightarrow> bool" where
  "ready_ok reply = (rp_error reply = None \<and> rp_code reply = 0)"

text \<open>
  The rounds of the readiness loop before its deadline, each with the error of the context when it
  was cancelled. Readiness has to hold twice in a row; only a failing first probe is remembered.
\<close>

fun wait_ready :: "daemon \<Rightarrow> string \<Rightarrow> string list \<Rightarrow> string option list \<Rightarrow> string \<Rightarrow> calls \<Rightarrow> string option \<times> calls" where
  "wait_ready d c ready [] detail log =
     (Some (''the verification server did not become ready within 3m0s ('' @ detail @ '')''), log)"
| "wait_ready d c ready (Some e # rounds) detail log = (Some e, log)"
| "wait_ready d c ready (None # rounds) detail log =
     (let (reply, log1) = run_in d c (no_input ready) log;
          detail' = (case rp_error reply of Some e \<Rightarrow> e | None \<Rightarrow> detail)
      in if ready_ok reply then
           (let (again, log2) = run_in d c (no_input ready) log1 in
            if ready_ok again then (None, log2) else wait_ready d c ready rounds detail' log2)
         else wait_ready d c ready rounds detail' log1)"

definition failed_check :: "string \<Rightarrow> restore_check" where
  "failed_check detail = \<lparr>rc_loaded = False, rc_objects = 0, rc_detail = detail\<rparr>"

definition judge_count :: "(string, int) result \<Rightarrow> restore_check" where
  "judge_count r =
     (case r of
        Inl e \<Rightarrow> \<lparr>rc_loaded = True, rc_objects = 0, rc_detail = e\<rparr>
      | Inr n \<Rightarrow>
          if n = 0 then failed_check ''the dump replayed without error but the restored server holds no tables or collections''
          else \<lparr>rc_loaded = True, rc_objects = n, rc_detail = []\<rparr>)"

text \<open>Replaying the dump into the running server and counting what came back.\<close>

definition replay_and_count :: "daemon \<Rightarrow> string \<Rightarrow> restore_plan \<Rightarrow> string \<Rightarrow> dump_on_disk \<Rightarrow> calls
    \<Rightarrow> (verify_error, restore_check) result \<times> calls" where
  "replay_and_count d c plan password dump log =
     (case dd_open_fault dump of
        Some e \<Rightarrow> (Inl (Check_Unreadable e), log)
      | None \<Rightarrow>
          (let (reply, log1) = run_in d c \<lparr>rq_cmd = pl_load plan, rq_env = [], rq_stdin = Some (dd_content dump)\<rparr> log in
           case rp_error reply of
             Some e \<Rightarrow> (Inr (failed_check e), log1)
           | None \<Rightarrow>
               if rp_code reply \<noteq> 0
               then (Inr (failed_check (redact_secret (trim_space (rp_stderr reply)) password)), log1)
               else (let (r, log2) = pl_count plan d c password log1 in (Inr (judge_count r), log2))))"

definition check_in_server :: "daemon \<Rightarrow> string \<Rightarrow> restore_plan \<Rightarrow> string \<Rightarrow> dump_on_disk \<Rightarrow> string option list \<Rightarrow> calls
    \<Rightarrow> (verify_error, restore_check) result \<times> calls" where
  "check_in_server d c plan password dump rounds log =
     (let log1 = log @ [Call_Start c] in
      case dm_fault d log (Call_Start c) of
        Some e \<Rightarrow> (Inl (Server_Not_Started e), log1)
      | None \<Rightarrow>
          (let (w, log2) = wait_ready d c (pl_ready plan) rounds [] log1 in
           case w of
             Some e \<Rightarrow> (Inr (failed_check e), log2)
           | None \<Rightarrow> replay_and_count d c plan password dump log2))"

definition verify_restorable :: "daemon \<Rightarrow> string \<Rightarrow> dump_file \<Rightarrow> (string, string) result \<Rightarrow> dump_on_disk
    \<Rightarrow> string option list \<Rightarrow> calls \<Rightarrow> (verify_error, restore_check) result \<times> calls" where
  "verify_restorable d img dump random on_disk rounds log =
     (if img = [] then (Inl (No_Image (df_technology dump)), log)
      else case restore_plan_of (df_technology dump) of
        None \<Rightarrow> (Inl (No_Restore_Check (df_technology dump)), log)
      | Some plan \<Rightarrow>
          (case random of
             Inl e \<Rightarrow> (Inl (No_Credentials e), log)
           | Inr password \<Rightarrow>
               (let create = Call_Create img (pl_env plan password)
                      (''verify-restore:'' @ df_technology dump @ '':'' @ df_service dump);
                    c = dm_new_id d; log1 = log @ [create]
                in case dm_fault d log create of
                     Some e \<Rightarrow> (Inl (Server_Not_Created e), log1)
                   | None \<Rightarrow>
                       (let (r, log2) = check_in_server d c plan password on_disk rounds log1
                        in (r, log2 @ [Call_Remove c])))))"

section \<open>Which containers a call touches\<close>

fun touches :: "container_call \<Rightarrow> string option" where
  "touches (Call_Exec c rq) = Some c"
| "touches (Call_Put c dir name content) = Some c"
| "touches (Call_Create img env purpose) = None"
| "touches (Call_Start c) = Some c"
| "touches (Call_Remove c) = Some c"

text \<open>A step that only ever talks to one container, and forgets nothing.\<close>

definition only_touches :: "string \<Rightarrow> calls \<Rightarrow> calls \<Rightarrow> bool" where
  "only_touches c log log' = (\<exists>made. log' = log @ made \<and> list_all (\<lambda>call. touches call = Some c) made)"

lemma only_touches_refl [simp, intro]: "only_touches c log log"
  by (simp add: only_touches_def)

lemma only_touches_trans: "only_touches c a b \<Longrightarrow> only_touches c b e \<Longrightarrow> only_touches c a e"
  by (auto simp: only_touches_def)

lemma only_touches_snoc: "touches x = Some c \<Longrightarrow> only_touches c a (a @ [x])"
  by (simp add: only_touches_def)

lemma run_in_touches: "run_in d c rq log = (r, log') \<Longrightarrow> only_touches c log log'"
  by (auto simp: run_in_def intro: only_touches_snoc)

lemma run_in_snd: "only_touches c log (snd (run_in d c rq log))"
  by (simp add: run_in_def only_touches_snoc)

lemma count_databases_touches: "only_touches c log (snd (count_databases d c user ls n log))"
proof (induction ls arbitrary: n log)
  case (Cons l ls)
  obtain r log1 where run: "run_in d c (no_input (table_query user (trim_space l))) log = (r, log1)" by fastforce
  show ?case
    using Cons.IH run_in_touches[OF run]
    by (auto simp: Let_def run split: option.splits intro: only_touches_trans)
qed simp

lemma count_postgres_touches: "only_touches c log (snd (count_postgres_tables_as d c user pw log))"
proof -
  obtain r log1 where run: "run_in d c (no_input (database_query user)) log = (r, log1)" by fastforce
  show ?thesis
    using run_in_touches[OF run] count_databases_touches[of c log1 d user "split_on newline (rp_stdout r)" 0]
    by (auto simp: count_postgres_tables_as_def Let_def run case_prod_beta split: option.splits intro: only_touches_trans)
qed

lemma count_single_touches: "only_touches c log (snd (count_single_number d c pw cmd log))"
proof -
  obtain r log1 where run: "run_in d c (no_input cmd) log = (r, log1)" by fastforce
  show ?thesis
    using run_in_touches[OF run] by (auto simp: count_single_number_def Let_def run split: option.splits)
qed

lemma restore_plan_count_touches:
  "restore_plan_of technology = Some plan \<Longrightarrow> only_touches c log (snd (pl_count plan d c pw log))"
  by (auto simp: restore_plan_of_def count_postgres_touches count_single_touches split: if_splits)

lemma wait_ready_touches: "only_touches c log (snd (wait_ready d c ready rounds detail log))"
proof (induction d c ready rounds detail log rule: wait_ready.induct)
  case (3 d c ready rounds detail log)
  obtain r log1 where a: "run_in d c (no_input ready) log = (r, log1)" by fastforce
  obtain r2 log2 where b: "run_in d c (no_input ready) log1 = (r2, log2)" by fastforce
  note t = run_in_touches[OF a] run_in_touches[OF b]
  show ?case
    using 3 t by (auto simp: Let_def a b intro: only_touches_trans)
qed simp_all

lemma replay_and_count_touches:
  assumes "restore_plan_of technology = Some plan"
  shows "only_touches c log (snd (replay_and_count d c plan pw dump log))"
proof -
  obtain r log1 where run: "run_in d c \<lparr>rq_cmd = pl_load plan, rq_env = [], rq_stdin = Some (dd_content dump)\<rparr> log = (r, log1)"
    by fastforce
  show ?thesis
    using run_in_touches[OF run] restore_plan_count_touches[OF assms, of c log1 d pw]
    by (auto simp: replay_and_count_def Let_def run case_prod_beta split: option.splits intro: only_touches_trans)
qed

lemma check_in_server_touches:
  assumes "restore_plan_of technology = Some plan"
  shows "only_touches c log (snd (check_in_server d c plan pw dump rounds log))"
proof -
  have s: "only_touches c log (log @ [Call_Start c])" by (simp add: only_touches_snoc)
  obtain w log2 where w: "wait_ready d c (pl_ready plan) rounds [] (log @ [Call_Start c]) = (w, log2)" by fastforce
  have wt: "only_touches c (log @ [Call_Start c]) log2"
    using wait_ready_touches[of c "log @ [Call_Start c]" d "pl_ready plan" rounds "[]"] by (simp add: w)
  show ?thesis
    using s only_touches_trans[OF s wt]
      only_touches_trans[OF only_touches_trans[OF s wt] replay_and_count_touches[OF assms, of c log2 d pw dump]]
    by (simp add: check_in_server_def Let_def w split: option.splits)
qed

lemma load_streamed_touches: "only_touches (dt_container t) log (snd (load_streamed d t dump cmd env log))"
  using run_in_snd[of "dt_container t" log d "\<lparr>rq_cmd = cmd, rq_env = env, rq_stdin = Some (dd_content dump)\<rparr>"]
  by (auto simp: load_streamed_def Let_def split: option.splits prod.splits)

lemma load_postgres_touches: "only_touches (dt_container t) log (snd (load_postgres d t dump log))"
proof -
  let ?user = "user_or (dt_user t) ''postgres''"
  obtain r log1 where a: "load_streamed d t dump (psql_command ?user) [] log = (r, log1)" by fastforce
  obtain n log2 where b: "count_postgres_tables_as d (dt_container t) ?user (dt_password t) log1 = (n, log2)" by fastforce
  have ta: "only_touches (dt_container t) log log1"
    using load_streamed_touches[of t log d dump "psql_command ?user" "[]"] by (simp add: a)
  have tb: "only_touches (dt_container t) log1 log2"
    using count_postgres_touches[of "dt_container t" log1 d ?user "dt_password t"] by (simp add: b)
  show ?thesis
    using ta only_touches_trans[OF ta tb]
    by (cases r; cases n) (simp_all add: load_postgres_def Let_def a b split: option.splits)
qed

lemma replay_mongo_touches: "only_touches (dt_container t) log (snd (replay_mongo d t log))"
  using run_in_snd[of "dt_container t" log d]
  by (auto simp: replay_mongo_def Let_def case_prod_beta split: option.splits)

lemma load_mongo_touches: "only_touches (dt_container t) log (snd (load_mongo d t dump log))"
proof -
  let ?put = "Call_Put (dt_container t) ''/tmp'' ''back-orbit-restore.archive'' (dd_content dump)"
  have p: "only_touches (dt_container t) log (log @ [?put])" by (rule only_touches_snoc) simp
  have "only_touches (dt_container t) (log @ [?put]) (snd (replay_mongo d t (log @ [?put])) @ [mongo_cleanup t])"
    by (rule only_touches_trans[OF replay_mongo_touches[of t _ d]]) (simp add: only_touches_snoc mongo_cleanup_def)
  with p show ?thesis
    by (auto simp: load_mongo_def Let_def case_prod_beta split: option.splits intro: only_touches_trans)
qed

lemma load_dump_touches: "only_touches (dt_container t) log (snd (load_dump d t dump log))"
  using load_postgres_touches[of t log d dump] load_mongo_touches[of t log d dump]
    load_streamed_touches[of t log d dump "mysql_load_command t" "password_env (dt_password t)"]
  by (simp add: load_dump_def load_engine_def case_prod_beta split: option.splits)

lemma load_postgres_counts:
  "load_postgres d t dump log = (Inr (n, out), log') \<Longrightarrow> n \<noteq> 0"
  by (auto simp: load_postgres_def Let_def split: option.splits sum.splits prod.splits if_splits)

lemma load_dump_mongo:
  "load_dump d t dump log = (r, log') \<Longrightarrow> dt_technology t = ''mongodb'' \<Longrightarrow>
   log' = log \<or> log' = snd (load_mongo d t dump log)"
  by (auto simp: load_dump_def load_engine_def case_prod_beta split: option.splits if_splits)

lemma load_mongo_log:
  assumes "log @ made = snd (load_mongo d t dump log)"
  shows "made = [] \<or> dm_fault d log (hd made) \<noteq> None \<or> last made = mongo_cleanup t"
proof -
  let ?put = "Call_Put (dt_container t) ''/tmp'' ''back-orbit-restore.archive'' (dd_content dump)"
  obtain more where "snd (replay_mongo d t (log @ [?put])) = (log @ [?put]) @ more"
    using replay_mongo_touches[of t "log @ [?put]" d] by (auto simp: only_touches_def)
  then show ?thesis using assms by (auto simp: load_mongo_def Let_def case_prod_beta split: option.splits)
qed

lemma count_postgres_error:
  "count_postgres_tables_as d c user pw log = (r, log') \<Longrightarrow> r \<noteq> Inl []"
  by (auto simp: count_postgres_tables_as_def Let_def split: option.splits prod.splits if_splits)

lemma count_single_error:
  "count_single_number d c pw cmd log = (r, log') \<Longrightarrow> r \<noteq> Inl []"
  by (auto simp: count_single_number_def Let_def split: option.splits prod.splits if_splits)

lemma restore_plan_count_error:
  "restore_plan_of technology = Some plan \<Longrightarrow> fst (pl_count plan d c pw log) \<noteq> Inl []"
  using count_postgres_error[OF surjective_pairing] count_single_error[OF surjective_pairing]
  by (auto simp: restore_plan_of_def split: if_splits)

section \<open>Evidence\<close>

text \<open>
  A command that was run in a container between two states of the log, with what it was given and
  what the daemon answered at that moment.
\<close>

definition answered :: "daemon \<Rightarrow> string \<Rightarrow> (exec_request \<Rightarrow> exec_reply \<Rightarrow> bool) \<Rightarrow> calls \<Rightarrow> calls \<Rightarrow> bool" where
  "answered d c P log log' \<longleftrightarrow>
     (\<exists>before rq after. log' = log @ before @ Call_Exec c rq # after \<and>
        P rq (dm_exec d (log @ before) (Call_Exec c rq)))"

definition ended_well :: "exec_reply \<Rightarrow> bool" where
  "ended_well reply \<longleftrightarrow> rp_error reply = None \<and> rp_code reply = 0"

text \<open>The client got the whole dump on its standard input and ended without an error.\<close>

definition replayed_by :: "string \<Rightarrow> string \<Rightarrow> exec_request \<Rightarrow> exec_reply \<Rightarrow> bool" where
  "replayed_by tool content rq reply \<longleftrightarrow>
     hd (rq_cmd rq) = tool \<and> rq_stdin rq = Some content \<and> ended_well reply"

text \<open>A query that ended well and printed a number other than zero.\<close>

definition printed :: "int \<Rightarrow> exec_request \<Rightarrow> exec_reply \<Rightarrow> bool" where
  "printed n rq reply \<longleftrightarrow> ended_well reply \<and> atoi (trim_space (rp_stdout reply)) = Some n"

definition found_something :: "exec_request \<Rightarrow> exec_reply \<Rightarrow> bool" where
  "found_something rq reply \<longleftrightarrow> (\<exists>n. n \<noteq> 0 \<and> printed n rq reply)"

text \<open>The evidence that a live server has taken a dump, engine by engine.\<close>

definition dump_arrived :: "daemon \<Rightarrow> dump_target \<Rightarrow> string \<Rightarrow> calls \<Rightarrow> calls \<Rightarrow> bool" where
  "dump_arrived d t content log log' \<longleftrightarrow>
     (let c = dt_container t in
      if dt_technology t = ''postgresql'' then
        (\<exists>mid. answered d c (replayed_by ''psql'' content) log mid \<and> answered d c found_something mid log')
      else if dt_technology t = ''mysql'' then answered d c (replayed_by ''mysql'' content) log log'
      else if dt_technology t = ''mariadb'' then answered d c (replayed_by ''mariadb'' content) log log'
      else dt_technology t = ''mongodb'' \<and>
        (let put = Call_Put c ''/tmp'' ''back-orbit-restore.archive'' content
         in dm_fault d log put = None \<and>
            answered d c (\<lambda>rq reply. hd (rq_cmd rq) = ''mongorestore'' \<and>
               ''--archive=/tmp/back-orbit-restore.archive'' \<in> set (rq_cmd rq) \<and> ended_well reply) (log @ [put]) log'))"

lemma answered_in: "run_in d c rq log = (reply, log') \<Longrightarrow> P rq reply \<Longrightarrow> answered d c P log log'"
  unfolding answered_def run_in_def by (rule exI[of _ "[]"], rule exI[of _ rq], rule exI[of _ "[]"]) auto

lemma answered_then: "answered d c P log log1 \<Longrightarrow> only_touches c' log1 log' \<Longrightarrow> answered d c P log log'"
  unfolding answered_def only_touches_def by (elim exE conjE) (simp, blast)

lemma then_answered:
  assumes "only_touches c' log log1" "answered d c P log1 log'"
  shows "answered d c P log log'"
proof -
  obtain a where a: "log1 = log @ a" using assms(1) by (auto simp: only_touches_def)
  obtain before rq after where r: "log' = log1 @ before @ Call_Exec c rq # after"
      "P rq (dm_exec d (log1 @ before) (Call_Exec c rq))"
    using assms(2) by (auto simp: answered_def)
  then show ?thesis unfolding answered_def a
    by (intro exI[of _ "a @ before"] exI[of _ rq] exI[of _ after]) simp
qed

lemma wrap64_wrap64 [simp]: "wrap64 (wrap64 n) = wrap64 n"
  by (simp add: wrap64_def)

lemma counted_databases:
  assumes "count_databases d c user ls n log = (m, log')" "n \<noteq> m" "wrap64 n = n"
  shows "answered d c found_something log log'"
  using assms
proof (induction ls arbitrary: n log)
  case (Cons l ls)
  show ?case
  proof (cases "trim_space l = []")
    case True
    then show ?thesis using Cons by (simp add: Let_def)
  next
    case False
    obtain reply log1 where run: "run_in d c (no_input (table_query user (trim_space l))) log = (reply, log1)" by fastforce
    show ?thesis
    proof (cases "\<exists>k. found_something (no_input (table_query user (trim_space l))) reply")
      case True
      then have "answered d c found_something log log1" using answered_in[OF run] by auto
      moreover have "snd (count_databases d c user ls k log1) = log' \<Longrightarrow> only_touches c log1 log'" for k
        using count_databases_touches[of c log1 d user ls k] by simp
      then have "only_touches c log1 log'"
        using Cons.prems(1) False
        by (auto simp: Let_def run prod_eq_iff split: option.splits if_splits)
      ultimately show ?thesis by (rule answered_then)
    next
      case no: False
      then have "rp_error reply = None \<Longrightarrow> rp_code reply = 0 \<Longrightarrow> atoi (trim_space (rp_stdout reply)) = Some k \<Longrightarrow> k = 0" for k
        by (auto simp: found_something_def printed_def ended_well_def)
      then have "count_databases d c user ls n log1 = (m, log')"
        using Cons.prems False
        by (auto simp: Let_def run split: option.splits if_splits)
      then have "answered d c found_something log1 log'" using Cons.IH Cons.prems(2,3) by blast
      then show ?thesis by (rule then_answered[OF run_in_touches[OF run]])
    qed
  qed
qed simp

lemma counted_postgres:
  assumes "count_postgres_tables_as d c user pw log = (Inr n, log')" "n \<noteq> 0"
  shows "answered d c found_something log log'"
proof -
  obtain reply log1 where run: "run_in d c (no_input (database_query user)) log = (reply, log1)" by fastforce
  then have "count_databases d c user (split_on newline (rp_stdout reply)) 0 log1 = (n, log')"
    using assms by (auto simp: count_postgres_tables_as_def Let_def split: option.splits if_splits prod.splits)
  then have "answered d c found_something log1 log'" using assms(2) counted_databases[of d c user _ 0 log1 n log']
    by (simp add: wrap64_def)
  then show ?thesis by (rule then_answered[OF run_in_touches[OF run]])
qed

lemma counted_single:
  assumes "count_single_number d c pw cmd log = (Inr n, log')"
  shows "answered d c (printed n) log log'"
proof -
  obtain reply log1 where run: "run_in d c (no_input cmd) log = (reply, log1)" by fastforce
  then have "log' = log1 \<and> printed n (no_input cmd) reply"
    using assms by (auto simp: count_single_number_def Let_def printed_def ended_well_def split: option.splits if_splits)
  then show ?thesis using answered_in[OF run] by auto
qed

lemma streamed_in:
  assumes "load_streamed d t dump cmd env log = (Inr out, log')"
  shows "answered d (dt_container t) (replayed_by (hd cmd) (dd_content dump)) log log'"
proof -
  let ?rq = "\<lparr>rq_cmd = cmd, rq_env = env, rq_stdin = Some (dd_content dump)\<rparr>"
  obtain reply log1 where run: "run_in d (dt_container t) ?rq log = (reply, log1)" by fastforce
  then have "log' = log1 \<and> replayed_by (hd cmd) (dd_content dump) ?rq reply"
    using assms by (auto simp: load_streamed_def Let_def replayed_by_def ended_well_def split: option.splits if_splits)
  then show ?thesis using answered_in[OF run] by auto
qed

lemma mongo_in:
  assumes "load_mongo d t dump log = (Inr out, log')" "dt_technology t = ''mongodb''"
  shows "dump_arrived d t (dd_content dump) log log'"
proof -
  let ?put = "Call_Put (dt_container t) ''/tmp'' ''back-orbit-restore.archive'' (dd_content dump)"
  let ?user = "trim_space (dt_user t)"
  obtain flags input where auth: "mongo_auth ?user (dt_password t) = (flags, input)" by fastforce
  let ?rq = "\<lparr>rq_cmd = mongorestore_command @ flags, rq_env = [], rq_stdin = input\<rparr>"
  obtain reply log1 where run: "run_in d (dt_container t) ?rq (log @ [?put]) = (reply, log1)" by fastforce
  have "dm_fault d log ?put = None \<and> ended_well reply \<and> log' = log1 @ [mongo_cleanup t]"
    using assms(1)
    by (auto simp: load_mongo_def replay_mongo_def Let_def auth run ended_well_def split: option.splits prod.splits if_splits)
  moreover have "hd (rq_cmd ?rq) = ''mongorestore'' \<and> ''--archive=/tmp/back-orbit-restore.archive'' \<in> set (rq_cmd ?rq)"
    by (simp add: mongorestore_command_def mongo_restore_path_def)
  ultimately show ?thesis
    using assms(2) answered_then[OF answered_in[OF run] only_touches_snoc[of "mongo_cleanup t" "dt_container t" log1]]
    by (simp add: dump_arrived_def mongo_cleanup_def Let_def)
qed

lemma load_engine_arrived:
  assumes "load_engine d t dump log = (Inr res, log')"
  shows "dump_arrived d t (dd_content dump) log log'"
proof -
  consider (pg) "dt_technology t = ''postgresql''" | (my) "dt_technology t = ''mysql'' \<or> dt_technology t = ''mariadb''"
    | (mongo) "dt_technology t = ''mongodb''"
    using assms by (auto simp: load_engine_def split: if_splits)
  then show ?thesis
  proof cases
    case pg
    let ?user = "user_or (dt_user t) ''postgres''"
    obtain out log1 n where l: "load_streamed d t dump (psql_command ?user) [] log = (Inr out, log1)"
        "count_postgres_tables_as d (dt_container t) ?user (dt_password t) log1 = (Inr n, log')" "n \<noteq> 0"
      using assms pg
      by (auto simp: load_engine_def load_postgres_def Let_def split: option.splits sum.splits prod.splits if_splits)
    then show ?thesis
      using streamed_in[OF l(1)] counted_postgres[OF l(2,3)] pg by (auto simp: dump_arrived_def psql_command_def Let_def)
  next
    case my
    then obtain out where "load_streamed d t dump (mysql_load_command t) (password_env (dt_password t)) log = (Inr out, log')"
      using assms by (auto simp: load_engine_def Let_def bind_result_eq_Inr split: prod.splits)
    from streamed_in[OF this] show ?thesis using my by (auto simp: dump_arrived_def mysql_load_command_def Let_def)
  next
    case mongo
    then obtain out where "load_mongo d t dump log = (Inr out, log')"
      using assms by (auto simp: load_engine_def Let_def bind_result_eq_Inr split: prod.splits)
    from mongo_in[OF this mongo] show ?thesis .
  qed
qed

lemma load_verdict_core:
  assumes "load_dump d t dump log = (r, log')"
  shows "(dt_container t = [] \<or> dd_stat_fault dump \<noteq> None \<or> dd_content dump = [] \<longrightarrow> \<not> is_ok r \<and> log' = log) \<and>
    (case r of Inl _ \<Rightarrow> True
     | Inr res \<Rightarrow> lr_bytes res = length (dd_content dump) \<and> 0 < lr_bytes res \<and>
         dump_arrived d t (dd_content dump) log log')"
  using assms load_engine_arrived[of d t dump log _ log']
  by (auto simp: load_dump_def case_prod_beta bind_result_eq_Inr prod_eq_iff split: option.splits sum.splits if_splits)

section \<open>Properties\<close>

text \<open>
  C8. A live database is never replaced with nothing, and no load is called a success on the word of the
  dump alone. Without a running target and a readable, non-empty dump the load asks nothing of any
  container. A load that reports success has run the client of the engine in the target, given it the
  whole dump and seen it end with exit code 0; for MongoDB the archive was uploaded first and
  mongorestore read that file; for PostgreSQL a query made after the load found restored tables.
\<close>

theorem load_verdict:
  assumes "load_dump d t dump log = (r, log')"
  shows "(dt_container t = [] \<or> dd_stat_fault dump \<noteq> None \<or> dd_content dump = [] \<longrightarrow> \<not> is_ok r \<and> log' = log) \<and>
    (case r of Inl _ \<Rightarrow> True
     | Inr res \<Rightarrow> lr_bytes res = length (dd_content dump) \<and> 0 < lr_bytes res \<and>
         dump_arrived d t (dd_content dump) log log')"
  by (rule load_verdict_core[OF assms])

text \<open>
  A load only ever talks to the container it restores into, and the copy of a MongoDB archive
  that was uploaded into it is removed again by the last call, whatever happened in between.
\<close>

theorem load_confined:
  assumes "load_dump d t dump log = (r, log')"
  shows "\<exists>made. log' = log @ made \<and> list_all (\<lambda>call. touches call = Some (dt_container t)) made \<and>
    (dt_technology t = ''mongodb'' \<longrightarrow> made = [] \<or> dm_fault d log (hd made) \<noteq> None \<or> last made = mongo_cleanup t)"
proof -
  obtain made where made: "log' = log @ made" "list_all (\<lambda>call. touches call = Some (dt_container t)) made"
    using load_dump_touches[of t log d dump] assms by (auto simp: only_touches_def)
  have "made = [] \<or> dm_fault d log (hd made) \<noteq> None \<or> last made = mongo_cleanup t" if "dt_technology t = ''mongodb''"
    using load_mongo_log[of log made d t dump] load_dump_mongo[OF assms that] made(1) by auto
  then show ?thesis using made by blast
qed

text \<open>A MongoDB target, and a server that holds two tables after the load.\<close>

definition sample_daemon :: daemon where
  "sample_daemon = \<lparr>dm_exec = \<lambda>log call. \<lparr>rp_stdout = ''2'', rp_error = None, rp_code = 0, rp_stderr = []\<rparr>,
     dm_fault = \<lambda>log call. None, dm_new_id = ''throwaway''\<rparr>"

definition sample_disk :: dump_on_disk where
  "sample_disk = \<lparr>dd_stat_fault = None, dd_open_fault = None, dd_content = ''SQL''\<rparr>"

lemma sample_postgres_load:
  "fst (load_dump sample_daemon (sample_target ''postgresql'') sample_disk []) =
     Inr \<lparr>lr_technology = ''postgresql'', lr_service = ''db'', lr_bytes = 3, lr_objects = 2, lr_output = []\<rparr>"
  by code_simp

theorem load_verdict_witness:
  "case load_dump sample_daemon (sample_target ''postgresql'') sample_disk [] of
     (Inl _, _) \<Rightarrow> False
   | (Inr res, log) \<Rightarrow> 0 < lr_bytes res \<and> dump_arrived sample_daemon (sample_target ''postgresql'') ''SQL'' [] log"
proof -
  let ?run = "load_dump sample_daemon (sample_target ''postgresql'') sample_disk []"
  obtain log where run: "?run = (Inr \<lparr>lr_technology = ''postgresql'', lr_service = ''db'', lr_bytes = 3, lr_objects = 2, lr_output = []\<rparr>, log)"
    using sample_postgres_load by (cases ?run) simp
  show ?thesis using load_verdict[OF run] unfolding run by (simp add: sample_disk_def)
qed

theorem load_confined_witness:
  "\<exists>made. snd (load_dump sample_daemon (sample_target ''mongodb'') sample_disk []) = made \<and>
     last made = mongo_cleanup (sample_target ''mongodb'') \<and> length made = 3"
proof -
  let ?run = "load_dump sample_daemon (sample_target ''mongodb'') sample_disk []"
  have "length (snd ?run) = 3" by code_simp
  moreover have "?run = (fst ?run, snd ?run)" by simp
  from load_confined[OF this] have "snd ?run = [] \<or> last (snd ?run) = mongo_cleanup (sample_target ''mongodb'')"
    by (simp add: sample_daemon_def sample_target_def)
  ultimately show ?thesis by auto
qed

text \<open>
  The restore check happens in isolation: every call of a check is made to the server created for
  it, which is removed by the last call on every path, so the database that was exported is never
  touched.
\<close>

theorem verify_isolated:
  assumes "verify_restorable d img dump random on_disk rounds log = (r, log')"
  shows "log' = log \<or> (\<exists>env purpose made. log' = log @ Call_Create img env purpose # made \<and>
    (if dm_fault d log (Call_Create img env purpose) \<noteq> None then made = []
     else made \<noteq> [] \<and> list_all (\<lambda>call. touches call = Some (dm_new_id d)) made \<and> last made = Call_Remove (dm_new_id d)))"
proof (cases "img = [] \<or> restore_plan_of (df_technology dump) = None \<or> \<not> is_ok random")
  case True
  then have "log' = log"
    using assms by (auto simp: verify_restorable_def is_ok_def split: option.splits sum.splits if_splits)
  then show ?thesis by blast
next
  case False
  then obtain plan password where p: "img \<noteq> []" "restore_plan_of (df_technology dump) = Some plan" "random = Inr password"
    by (auto simp: is_ok_iff)
  let ?purpose = "''verify-restore:'' @ df_technology dump @ '':'' @ df_service dump"
  let ?create = "Call_Create img (pl_env plan password) ?purpose"
  obtain r2 log2 where check: "check_in_server d (dm_new_id d) plan password on_disk rounds (log @ [?create]) = (r2, log2)"
    by fastforce
  obtain made where made: "log2 = (log @ [?create]) @ made" "list_all (\<lambda>call. touches call = Some (dm_new_id d)) made"
    using check_in_server_touches[OF p(2), of "dm_new_id d" "log @ [?create]" d password on_disk rounds]
    unfolding check snd_conv only_touches_def by blast
  show ?thesis
  proof (cases "dm_fault d log ?create")
    case None
    then have "log' = log @ ?create # (made @ [Call_Remove (dm_new_id d)])"
      using assms p check made(1) by (simp add: verify_restorable_def Let_def)
    then show ?thesis using made(2) None by (intro disjI2 exI[of _ "pl_env plan password"] exI[of _ ?purpose]
        exI[of _ "made @ [Call_Remove (dm_new_id d)]"]) simp
  next
    case (Some e)
    then have "log' = log @ [?create]" using assms p check by (simp add: verify_restorable_def Let_def)
    then show ?thesis using Some by (intro disjI2 exI[of _ "pl_env plan password"] exI[of _ ?purpose] exI[of _ "[]"]) simp
  qed
qed

text \<open>
  What stands behind a check that says the dump was loaded: the client of the engine was given the whole
  dump in the throwaway server and ended with exit code 0, and the objects it names were counted there
  afterwards. If the count itself could not be made, the check names none and says why.
\<close>

definition restore_client :: "string \<Rightarrow> string" where
  "restore_client technology =
     (if technology = ''postgresql'' then ''psql'' else if technology = ''mysql'' then ''mysql''
      else if technology = ''mariadb'' then ''mariadb'' else ''mongorestore'')"

definition shown_to_restore :: "daemon \<Rightarrow> string \<Rightarrow> string \<Rightarrow> string \<Rightarrow> restore_check \<Rightarrow> calls \<Rightarrow> calls \<Rightarrow> bool" where
  "shown_to_restore d c technology content check log log' \<longleftrightarrow>
     (\<exists>mid. answered d c (replayed_by (restore_client technology) content) log mid \<and>
        (if rc_objects check = 0 then rc_detail check \<noteq> []
         else rc_detail check = [] \<and>
              answered d c (if technology = ''postgresql'' then found_something else printed (rc_objects check)) mid log'))"

lemma plan_load_client: "restore_plan_of technology = Some plan \<Longrightarrow> hd (pl_load plan) = restore_client technology"
  by (auto simp: restore_plan_of_def restore_client_def split: if_splits)

lemma plan_counted:
  assumes "restore_plan_of technology = Some plan" "pl_count plan d c pw log = (Inr n, log')" "n \<noteq> 0"
  shows "answered d c (if technology = ''postgresql'' then found_something else printed n) log log'"
  using assms counted_postgres[of d c _ pw log n log'] counted_single[of d c pw _ log n log']
  by (auto simp: restore_plan_of_def split: if_splits)

lemma replayed_check:
  assumes plan: "restore_plan_of technology = Some plan"
    and run: "replay_and_count d c plan pw dump log = (Inr check, log')" and loaded: "rc_loaded check"
  shows "shown_to_restore d c technology (dd_content dump) check log log'"
proof -
  let ?rq = "\<lparr>rq_cmd = pl_load plan, rq_env = [], rq_stdin = Some (dd_content dump)\<rparr>"
  obtain reply mid where go: "run_in d c ?rq log = (reply, mid)" by fastforce
  obtain r log2 where count: "pl_count plan d c pw mid = (r, log2)" by fastforce
  have *: "ended_well reply" "check = judge_count r" "log' = log2"
    using run loaded by (auto simp: replay_and_count_def Let_def go count ended_well_def failed_check_def
        split: option.splits prod.splits if_splits)
  have "answered d c (replayed_by (restore_client technology) (dd_content dump)) log mid"
    using answered_in[OF go] * plan_load_client[OF plan] by (auto simp: replayed_by_def)
  moreover have "r \<noteq> Inl []" using restore_plan_count_error[OF plan, of d c pw mid] count by auto
  ultimately show ?thesis
    using * loaded plan_counted[OF plan, of d c pw mid _ log2] count
    by (auto simp: shown_to_restore_def judge_count_def failed_check_def split: sum.splits if_splits)
qed


definition sample_mysql_dump :: dump_file where
  "sample_mysql_dump = \<lparr>df_technology = ''mysql'', df_service = ''db'', df_path = ''x'', df_command = [], df_user = [], df_bytes = 3\<rparr>"

theorem verify_isolated_witness:
  "\<exists>env purpose made. snd (verify_restorable sample_daemon ''mysql:8'' sample_mysql_dump (Inr ''pw'') sample_disk [None] []) =
     Call_Create ''mysql:8'' env purpose # made \<and> last made = Call_Remove ''throwaway''"
proof -
  let ?run = "verify_restorable sample_daemon ''mysql:8'' sample_mysql_dump (Inr ''pw'') sample_disk [None] []"
  have "length (snd ?run) = 7" by code_simp
  then have ne: "snd ?run \<noteq> []" by auto
  have "?run = (fst ?run, snd ?run)" by simp
  from verify_isolated[OF this] ne show ?thesis by (simp add: sample_daemon_def) blast
qed


text \<open>
  A server whose objects cannot be counted: the check says loaded, and only its detail tells it from a
  proven one.
\<close>

lemma failed_count_called_loaded:
  "rc_loaded (judge_count (Inl e)) \<and> rc_objects (judge_count (Inl e)) = 0"
  by (simp add: judge_count_def)

end
