(* ===== verification/Docker_Model.thy ===== *)
theory Docker_Model
  imports Go_Paths Go_Sort
begin

text \<open>
  The data the Docker client hands to the rest of the program (\<open>internal/docker/types.go\<close>):
  mounts, containers, volumes, networks, Compose projects and the daemon's status. Labels are lists of
  pairs; a creation time is its Unix second. The daemon itself is outside.
\<close>

record mount =
  mnt_type :: string
  mnt_name :: string
  mnt_source :: string
  mnt_destination :: string
  mnt_read_only :: bool

record container =
  ctr_id :: string
  ctr_name :: string
  ctr_service :: string
  ctr_image :: string
  ctr_image_id :: string
  ctr_state :: string
  ctr_status :: string
  ctr_created :: int
  ctr_labels :: "(string \<times> string) list"
  ctr_mounts :: "mount list"

record volume =
  vol_name :: string
  vol_driver :: string
  vol_mountpoint :: string
  vol_labels :: "(string \<times> string) list"

record network =
  net_id :: string
  net_name :: string
  net_driver :: string
  net_labels :: "(string \<times> string) list"

record compose_project =
  cp_name :: string
  cp_working_dir :: string
  cp_config_files :: "string list"
  cp_containers :: "container list"
  cp_volumes :: "volume list"
  cp_networks :: "network list"

record docker_status =
  ds_connected :: bool
  ds_host :: string
  ds_server_version :: string
  ds_api_version :: string
  ds_error :: string

end
