(* ===== verification/Project_Sources.thy ===== *)
theory Project_Sources
  imports Docker_Model
begin

text \<open>
  What a project holds that is worth backing up (\<open>internal/projects/sources.go\<close>): named volumes and
  bind mounts merged over the containers of the project, with the reason a source is left out.
  The Go map from names to sources is an association list; \<open>backup_sources\<close> sorts its values, so the
  iteration order of the map does not show.
\<close>

section \<open>Definitions\<close>

datatype source_kind = Source_Volume | Source_Bind

record backup_source =
  bs_kind :: source_kind
  bs_name :: string
  bs_mounted_at :: string
  bs_services :: "string list"
  bs_skipped :: string

definition backupable :: "backup_source \<Rightarrow> bool" where
  "backupable s = (bs_skipped s = [])"

definition socket_reason :: string where
  "socket_reason = ''this is the Docker socket, not application data''"

definition unbackupable_paths :: "(string \<times> string) list" where
  "unbackupable_paths =
     [(''/var/run/docker.sock'', socket_reason),
      (''/run/docker.sock'', socket_reason),
      (''/run/host-services/docker.proxy.sock'',
        ''this is Docker Desktop's internal Docker socket, not application data''),
      (''/etc/localtime'', ''this is a host system file, not application data''),
      (''/etc/timezone'', ''this is a host system file, not application data'')]"

definition kernel_path :: "string \<Rightarrow> bool" where
  "kernel_path clean =
     list_ex (\<lambda>p. clean = p \<or> has_prefix clean (p @ ''/'')) [''/proc'', ''/sys'', ''/dev'']"

definition skip_reason :: "string \<Rightarrow> string \<Rightarrow> string" where
  "skip_reason host_path container_path =
     (let clean = path_clean host_path; destination = path_clean container_path in
      if destination = ''/var/run/docker.sock'' \<or> destination = ''/run/docker.sock'' then socket_reason
      else if clean = ''/'' then ''this is the host's root directory''
      else case map_of unbackupable_paths clean of
        Some reason \<Rightarrow> reason
      | None \<Rightarrow> if kernel_path clean then ''this is a kernel filesystem, not application data'' else [])"

definition append_unique :: "string list \<Rightarrow> string \<Rightarrow> string list" where
  "append_unique values v = (if v = [] \<or> v \<in> set values then values else values @ [v])"

definition use_source :: "mount \<Rightarrow> string \<Rightarrow> backup_source \<Rightarrow> backup_source" where
  "use_source m service s =
     s\<lparr>bs_mounted_at := mnt_destination m, bs_services := append_unique (bs_services s) service\<rparr>"

fun touch_source :: "backup_source \<Rightarrow> mount \<Rightarrow> string \<Rightarrow> backup_source list \<Rightarrow> backup_source list" where
  "touch_source fresh m service [] = [use_source m service fresh]"
| "touch_source fresh m service (s # ss) =
     (if bs_name s = bs_name fresh then use_source m service s # ss
      else s # touch_source fresh m service ss)"

definition volume_source :: "string \<Rightarrow> backup_source" where
  "volume_source name = \<lparr>bs_kind = Source_Volume, bs_name = name, bs_mounted_at = [],
     bs_services = [], bs_skipped = []\<rparr>"

definition bind_source :: "mount \<Rightarrow> backup_source" where
  "bind_source m = \<lparr>bs_kind = Source_Bind, bs_name = mnt_source m, bs_mounted_at = [],
     bs_services = [], bs_skipped = skip_reason (mnt_source m) (mnt_destination m)\<rparr>"

definition add_mount :: "string \<Rightarrow> mount \<Rightarrow> backup_source list \<Rightarrow> backup_source list" where
  "add_mount service m ss =
     (if mnt_type m = ''volume'' then
        (if mnt_name m = [] then ss else touch_source (volume_source (mnt_name m)) m service ss)
      else if mnt_type m = ''bind'' then
        (if mnt_source m = [] \<or> \<not> has_prefix (mnt_source m) ''/'' then ss
         else touch_source (bind_source m) m service ss)
      else ss)"

definition container_label :: "container \<Rightarrow> string" where
  "container_label c = (if ctr_service c = [] then ctr_name c else ctr_service c)"

definition add_container :: "container \<Rightarrow> backup_source list \<Rightarrow> backup_source list" where
  "add_container c ss = fold (add_mount (container_label c)) (ctr_mounts c) ss"

fun add_volumes :: "volume list \<Rightarrow> backup_source list \<Rightarrow> backup_source list" where
  "add_volumes [] ss = ss"
| "add_volumes (v # vs) ss =
     add_volumes vs (if vol_name v \<in> set (map bs_name ss) then ss else ss @ [volume_source (vol_name v)])"

definition source_less :: "backup_source \<Rightarrow> backup_source \<Rightarrow> bool" where
  "source_less a b =
     (if bs_kind a \<noteq> bs_kind b then bs_kind a = Source_Volume
      else str_less (bs_name a) (bs_name b))"

definition collect_sources :: "container list \<Rightarrow> volume list \<Rightarrow> backup_source list" where
  "collect_sources containers volumes = fold add_container containers (add_volumes volumes [])"

definition backup_sources :: "container list \<Rightarrow> volume list \<Rightarrow> backup_source list" where
  "backup_sources containers volumes = sort_by source_less (collect_sources containers volumes)"

section \<open>The invariant of the collection\<close>

text \<open>Every path a source stands for has been judged: volumes are never skipped, and a bind source
  carries the verdict on its host path and on the destination of a mount that uses it.\<close>

definition judged :: "backup_source \<Rightarrow> bool" where
  "judged s = (case bs_kind s of
     Source_Volume \<Rightarrow> bs_skipped s = []
   | Source_Bind \<Rightarrow> rooted (bs_name s) \<and> (\<exists>dest. bs_skipped s = skip_reason (bs_name s) dest))"

definition sources_ok :: "backup_source list \<Rightarrow> bool" where
  "sources_ok ss = (distinct (map bs_name ss) \<and> (\<forall>s\<in>set ss. judged s \<and> distinct (bs_services s)))"

lemma distinct_append_unique [simp]: "distinct (append_unique vs v) = distinct vs"
  by (auto simp: append_unique_def)

lemma set_append_unique: "set (append_unique vs v) = (if v = [] then set vs else insert v (set vs))"
  by (auto simp: append_unique_def)

lemma use_source_simps [simp]:
  "bs_name (use_source m service s) = bs_name s" "bs_kind (use_source m service s) = bs_kind s"
  "bs_skipped (use_source m service s) = bs_skipped s"
  by (simp_all add: use_source_def)

lemma judged_use_source [simp]: "judged (use_source m service s) = judged s"
  by (cases "bs_kind s") (simp_all add: judged_def)

lemma touch_source_names:
  "map bs_name (touch_source fresh m service ss) =
     (if bs_name fresh \<in> set (map bs_name ss) then map bs_name ss else map bs_name ss @ [bs_name fresh])"
  by (induction ss) auto

lemma touch_source_all:
  "\<forall>s\<in>set ss. Q s \<Longrightarrow> Q fresh \<Longrightarrow> (\<And>s. Q s \<Longrightarrow> Q (use_source m service s)) \<Longrightarrow>
     \<forall>s\<in>set (touch_source fresh m service ss). Q s"
  by (induction ss) auto

lemma touch_source_ok:
  assumes "sources_ok ss" "judged fresh" "bs_services fresh = []"
  shows "sources_ok (touch_source fresh m service ss)"
proof -
  have "distinct (map bs_name (touch_source fresh m service ss))"
    using assms(1) by (simp add: touch_source_names sources_ok_def)
  moreover have "\<forall>s\<in>set (touch_source fresh m service ss). judged s \<and> distinct (bs_services s)"
  proof (rule touch_source_all)
    show "\<forall>s\<in>set ss. judged s \<and> distinct (bs_services s)" using assms(1) by (simp add: sources_ok_def)
  qed (use assms(2,3) in \<open>simp_all add: use_source_def[of _ _ fresh]\<close>, simp add: use_source_def)
  ultimately show ?thesis by (simp add: sources_ok_def)
qed

lemma judged_fresh:
  "judged (volume_source n)" "has_prefix (mnt_source m) ''/'' \<Longrightarrow> judged (bind_source m)"
  "bs_services (volume_source n) = []" "bs_services (bind_source m) = []"
  by (auto simp: judged_def volume_source_def bind_source_def rooted_def)

lemma add_mount_ok: "sources_ok ss \<Longrightarrow> sources_ok (add_mount service m ss)"
  by (simp add: add_mount_def touch_source_ok judged_fresh)

lemma fold_ok: "(\<And>x s. P s \<Longrightarrow> P (f x s)) \<Longrightarrow> P s \<Longrightarrow> P (fold f xs s)"
  by (induction xs arbitrary: s) auto

lemma add_container_ok: "sources_ok ss \<Longrightarrow> sources_ok (add_container c ss)"
  unfolding add_container_def by (rule fold_ok[where P = sources_ok]) (auto intro: add_mount_ok)

lemma add_volumes_ok: "sources_ok ss \<Longrightarrow> sources_ok (add_volumes vs ss)"
proof (induction vs arbitrary: ss)
  case (Cons v vs)
  have "bs_name (volume_source n) = n" for n by (simp add: volume_source_def)
  then have "vol_name v \<notin> set (map bs_name ss) \<Longrightarrow> sources_ok (ss @ [volume_source (vol_name v)])"
    using Cons.prems by (simp add: sources_ok_def judged_fresh)
  then show ?case using Cons by simp
qed simp

lemma collect_sources_ok: "sources_ok (collect_sources cs vs)"
  unfolding collect_sources_def
proof (rule fold_ok[where P = sources_ok])
  show "sources_ok (add_volumes vs [])" by (rule add_volumes_ok) (simp add: sources_ok_def)
qed (rule add_container_ok)

text \<open>Nothing already listed is lost, and every usable mount is listed with its service.\<close>

definition lists_source :: "string \<Rightarrow> string \<Rightarrow> backup_source list \<Rightarrow> bool" where
  "lists_source name service ss =
     (\<exists>s\<in>set ss. bs_name s = name \<and> (service = [] \<or> service \<in> set (bs_services s)))"

lemma lists_source_touch:
  "lists_source n sv ss \<Longrightarrow> lists_source n sv (touch_source fresh m service ss)"
  unfolding lists_source_def
  by (induction ss) (auto simp: use_source_def set_append_unique)

lemma lists_source_touched: "lists_source (bs_name fresh) service (touch_source fresh m service ss)"
  unfolding lists_source_def
  by (induction ss) (auto simp: use_source_def set_append_unique)

lemma lists_source_add_mount: "lists_source n sv ss \<Longrightarrow> lists_source n sv (add_mount service m ss)"
  by (simp add: add_mount_def lists_source_touch)

lemma lists_source_mounts:
  "lists_source n sv ss \<Longrightarrow> lists_source n sv (fold (add_mount service) ms ss)"
  by (rule fold_ok[where P = "lists_source n sv"]) (auto intro: lists_source_add_mount)

lemma lists_source_containers: "lists_source n sv ss \<Longrightarrow> lists_source n sv (fold add_container cs ss)"
  by (rule fold_ok[where P = "lists_source n sv"]) (auto simp: add_container_def intro: lists_source_mounts)

definition mount_key :: "mount \<Rightarrow> string option" where
  "mount_key m =
     (if mnt_type m = ''volume'' \<and> mnt_name m \<noteq> [] then Some (mnt_name m)
      else if mnt_type m = ''bind'' \<and> rooted (mnt_source m) then Some (mnt_source m) else None)"

lemma lists_source_key:
  "mount_key m = Some n \<Longrightarrow> lists_source n service (add_mount service m ss)"
  using lists_source_touched[of "volume_source n" service m ss] lists_source_touched[of "bind_source m" service m ss]
  by (auto simp: mount_key_def add_mount_def rooted_def has_prefix_def volume_source_def bind_source_def split: if_splits)

lemma lists_source_in_mounts:
  "m \<in> set ms \<Longrightarrow> mount_key m = Some n \<Longrightarrow> lists_source n service (fold (add_mount service) ms ss)"
  by (induction ms arbitrary: ss) (auto intro: lists_source_mounts lists_source_key)

lemma lists_source_in_containers:
  "c \<in> set cs \<Longrightarrow> m \<in> set (ctr_mounts c) \<Longrightarrow> mount_key m = Some n \<Longrightarrow>
     lists_source n (container_label c) (fold add_container cs ss)"
proof (induction cs arbitrary: ss)
  case (Cons d ds)
  show ?case
  proof (cases "c = d")
    case True
    have "lists_source n (container_label c) (add_container d ss)"
      unfolding add_container_def True[symmetric] by (rule lists_source_in_mounts[OF Cons.prems(2,3)])
    then show ?thesis by (simp add: lists_source_containers)
  next
    case False
    then show ?thesis using Cons by simp
  qed
qed simp

lemma separates_source_less:
  assumes "distinct (map bs_name ss)"
  shows "separates source_less (set ss)"
proof -
  have "x = y" if "x \<in> set ss" "y \<in> set ss" "bs_name x = bs_name y" for x y
    using assms that by (auto simp: distinct_map dest: inj_onD)
  moreover have "bs_name x = bs_name y" if "\<not> source_less x y" "\<not> source_less y x" for x y
    using that str_less_linear[of "bs_name x" "bs_name y"]
    by (cases "bs_kind x"; cases "bs_kind y") (simp_all add: source_less_def)
  ultimately show ?thesis unfolding separates_def by blast
qed

lemma weak_order_source_less: "weak_order source_less"
proof -
  have "source_less = (\<lambda>a b. if (bs_kind a = Source_Volume) \<noteq> (bs_kind b = Source_Volume)
      then bs_kind a = Source_Volume else str_less (bs_name a) (bs_name b))"
  proof (intro ext)
    fix a b
    show "source_less a b = (if (bs_kind a = Source_Volume) \<noteq> (bs_kind b = Source_Volume)
      then bs_kind a = Source_Volume else str_less (bs_name a) (bs_name b))"
      by (cases "bs_kind a"; cases "bs_kind b") (simp_all add: source_less_def)
  qed
  then show ?thesis
    using weak_order_first[OF weak_order_str_less[of bs_name], of "\<lambda>s :: backup_source. bs_kind s = Source_Volume"] by simp
qed

lemma backup_sources_set [simp]: "set (backup_sources cs vs) = set (collect_sources cs vs)"
  by (simp add: backup_sources_def)

section \<open>Properties\<close>

text \<open>
  Completeness of discovery: every volume mount and every absolute bind mount of every container
  appears in the sources of the project, under its name, with the service that uses it.
\<close>

theorem backup_sources_complete:
  assumes "c \<in> set containers" "m \<in> set (ctr_mounts c)" "mount_key m = Some n"
  shows "lists_source n (container_label c) (backup_sources containers volumes)"
  using lists_source_in_containers[OF assms, of "add_volumes volumes []"]
  by (simp add: lists_source_def collect_sources_def)

definition web_container :: container where
  "web_container = \<lparr>ctr_id = ''c1'', ctr_name = ''app-web-1'', ctr_service = ''web'', ctr_image = ''nginx'', ctr_image_id = [],
     ctr_state = ''running'', ctr_status = [], ctr_created = 0, ctr_labels = [],
     ctr_mounts = [\<lparr>mnt_type = ''bind'', mnt_name = [], mnt_source = ''/srv/app/data'',
       mnt_destination = ''/data'', mnt_read_only = False\<rparr>]\<rparr>"

theorem backup_sources_complete_witness:
  "lists_source ''/srv/app/data'' ''web'' (backup_sources [web_container] [])"
proof -
  have "mount_key (hd (ctr_mounts web_container)) = Some ''/srv/app/data''"
    by (simp add: web_container_def mount_key_def)
  from backup_sources_complete[of web_container "[web_container]" _ "''/srv/app/data''" "[]", OF _ _ this]
  show ?thesis by (simp add: web_container_def container_label_def)
qed

text \<open>
  The list of sources is deterministic: volumes first, then bind mounts, each by name, no name
  twice, so it does not depend on the iteration order of the map it is collected in.
\<close>

theorem backup_sources_deterministic:
  assumes "mset ss = mset (collect_sources containers volumes)"
  shows "sort_by source_less ss = backup_sources containers volumes \<and>
    ordered_by source_less (backup_sources containers volumes) \<and>
    distinct (map bs_name (backup_sources containers volumes))"
proof -
  have d: "distinct (map bs_name (collect_sources containers volumes))"
    using collect_sources_ok by (simp add: sources_ok_def)
  have "set ss = set (collect_sources containers volumes)" using assms by (metis set_mset_mset)
  then have "sort_by source_less ss = backup_sources containers volumes"
    unfolding backup_sources_def using separates_source_less[OF d]
    by (intro sort_by_perm weak_order_source_less assms) simp
  moreover have "ordered_by source_less (backup_sources containers volumes)"
    unfolding backup_sources_def by (rule ordered_sort_by[OF weak_order_source_less])
  moreover have "distinct (map bs_name (backup_sources containers volumes))"
    unfolding backup_sources_def by (rule distinct_sort_by[OF d])
  ultimately show ?thesis by blast
qed

definition two_volumes :: "volume list" where
  "two_volumes = [\<lparr>vol_name = ''b'', vol_driver = [], vol_mountpoint = [], vol_labels = []\<rparr>,
                  \<lparr>vol_name = ''a'', vol_driver = [], vol_mountpoint = [], vol_labels = []\<rparr>]"

theorem backup_sources_deterministic_witness:
  "map bs_name (backup_sources [] two_volumes) = [''a'', ''b''] \<and>
   sort_by source_less (rev (collect_sources [] two_volumes)) = backup_sources [] two_volumes"
proof -
  have "map bs_name (backup_sources [] two_volumes) = [''a'', ''b'']"
    by (simp add: backup_sources_def collect_sources_def two_volumes_def volume_source_def source_less_def)
  moreover have "mset (rev (collect_sources [] two_volumes)) = mset (collect_sources [] two_volumes)" by simp
  ultimately show ?thesis using backup_sources_deterministic by blast
qed

text \<open>
  The host's own state is never backed up: a bind mount of the root directory, of a Docker
  socket, of the clock files or of anything inside a kernel file system is listed, but not
  backupable, however its path is written.
\<close>

theorem host_state_not_backupable:
  assumes "s \<in> set (backup_sources containers volumes)" "bs_kind s = Source_Bind"
    and "path_clean (bs_name s) = ''/'' \<or> path_clean (bs_name s) \<in> set (map fst unbackupable_paths) \<or>
      kernel_path (path_clean (bs_name s))"
  shows "\<not> backupable s"
proof -
  have "judged s" using assms(1) collect_sources_ok by (simp add: sources_ok_def)
  then obtain dest where "bs_skipped s = skip_reason (bs_name s) dest"
    using assms(2) by (auto simp: judged_def)
  moreover have "skip_reason (bs_name s) dest \<noteq> []"
  proof (cases "map_of unbackupable_paths (path_clean (bs_name s))")
    case None
    then have "path_clean (bs_name s) = ''/'' \<or> kernel_path (path_clean (bs_name s))"
      using assms(3) by (auto simp: map_of_eq_None_iff)
    then show ?thesis using None by (auto simp: skip_reason_def Let_def socket_reason_def)
  next
    case (Some reason)
    then have "reason \<in> snd ` set unbackupable_paths" by (force dest: map_of_SomeD)
    then have "reason \<noteq> []" by (auto simp: unbackupable_paths_def socket_reason_def)
    then show ?thesis using Some by (simp add: skip_reason_def Let_def socket_reason_def)
  qed
  ultimately show ?thesis by (simp add: backupable_def)
qed

definition socket_container :: "string \<Rightarrow> container" where
  "socket_container dest = \<lparr>ctr_id = ''c2'', ctr_name = ''app-proxy-1'', ctr_service = ''proxy'',
     ctr_image = ''traefik'', ctr_image_id = [],
     ctr_state = ''running'', ctr_status = [], ctr_created = 0, ctr_labels = [],
     ctr_mounts = [\<lparr>mnt_type = ''bind'', mnt_name = [], mnt_source = ''/var/../var/run//docker.sock'',
       mnt_destination = dest, mnt_read_only = True\<rparr>]\<rparr>"

theorem host_state_not_backupable_witness:
  "\<exists>s. s \<in> set (backup_sources [socket_container ''/sock''] []) \<and> \<not> backupable s"
proof -
  define s where "s = hd (backup_sources [socket_container ''/sock''] [])"
  have name: "bs_name s = ''/var/../var/run//docker.sock''" and kind: "bs_kind s = Source_Bind"
    and mem: "s \<in> set (backup_sources [socket_container ''/sock''] [])"
    by (simp_all add: s_def socket_container_def backup_sources_def collect_sources_def add_container_def
        add_mount_def bind_source_def use_source_def has_prefix_def)
  have "path_clean ''/var/../var/run//docker.sock'' = ''/var/run/docker.sock''" by code_simp
  then have "\<not> backupable s"
    by (intro host_state_not_backupable[OF mem kind]) (simp add: name unbackupable_paths_def)
  then show ?thesis using mem by blast
qed

text \<open>
  The verdict is taken from the first mount of a host path only: a host path that another container
  mounts as its Docker socket is left out or backed up depending on the order of the containers.
\<close>

definition rootless_container :: "string \<Rightarrow> container" where
  "rootless_container dest = \<lparr>ctr_id = dest, ctr_name = ''app'', ctr_service = ''app'',
     ctr_image = ''app'', ctr_image_id = [],
     ctr_state = ''running'', ctr_status = [], ctr_created = 0, ctr_labels = [],
     ctr_mounts = [\<lparr>mnt_type = ''bind'', mnt_name = [], mnt_source = ''/run/user/1000/docker.sock'',
       mnt_destination = dest, mnt_read_only = True\<rparr>]\<rparr>"

lemma skip_reason_order_dependent:
  "map backupable (backup_sources [rootless_container ''/var/run/docker.sock'', rootless_container ''/sock''] [])
     = [False]"
  "map backupable (backup_sources [rootless_container ''/sock'', rootless_container ''/var/run/docker.sock''] [])
     = [True]"
  by code_simp+

end
