(* ===== verification/Go_Time.thy ===== *)
theory Go_Time
  imports Go_Strings Go_Sort
begin

text \<open>
  Points in time as nanoseconds since 1970 (UTC), and the text \<open>time.RFC3339Nano\<close> gives them, which is
  the form in which every table of the program stores and compares them. The layout removes the
  trailing zeros of the fraction, so the byte order of two such texts is not the order of the times
  they name; \<open>rfc3339_order_defect\<close> is the smallest instance of that.
\<close>

type_synonym instant = int

definition pad_zero :: "nat \<Rightarrow> nat \<Rightarrow> string" where
  "pad_zero w n = (let s = show_nat n in replicate (w - length s) CHR ''0'' @ s)"

text \<open>The calendar date of a day number, in the proleptic Gregorian calendar.\<close>

definition civil_date :: "int \<Rightarrow> int \<times> int \<times> int" where
  "civil_date days =
     (let z = days + 719468;
          era = z div 146097;
          doe = z mod 146097;
          yoe = (doe - doe div 1460 + doe div 36524 - doe div 146096) div 365;
          doy = doe - (365 * yoe + yoe div 4 - yoe div 100);
          mp = (5 * doy + 2) div 153;
          m = (if mp < 10 then mp + 3 else mp - 9)
      in (yoe + era * 400 + (if m \<le> 2 then 1 else 0), m, doy - (153 * mp + 2) div 5 + 1))"

definition seconds_text :: "int \<Rightarrow> string" where
  "seconds_text s =
     (let (y, m, d) = civil_date (s div 86400); r = nat (s mod 86400) in
      pad_zero 4 (nat y) @ ''-'' @ pad_zero 2 (nat m) @ ''-'' @ pad_zero 2 (nat d) @ ''T'' @
      pad_zero 2 (r div 3600) @ '':'' @ pad_zero 2 (r mod 3600 div 60) @ '':'' @ pad_zero 2 (r mod 60))"

definition fraction_text :: "nat \<Rightarrow> string" where
  "fraction_text ns = (if ns = 0 then [] else CHR ''.'' # trim_right (pad_zero 9 ns) ''0'')"

definition rfc3339_nano :: "instant \<Rightarrow> string" where
  "rfc3339_nano t =
     seconds_text (t div 1000000000) @ fraction_text (nat (t mod 1000000000)) @ ''Z''"

text \<open>Half a second past a full second is later than the full second, and its text is smaller.\<close>

lemma str_less_common_prefix [simp]: "str_less (a @ x) (a @ y) = str_less x y"
  by (induction a) auto

lemma rfc3339_order_defect:
  "str_less (rfc3339_nano (s * 1000000000 + 500000000)) (rfc3339_nano (s * 1000000000))"
proof -
  have "fraction_text 500000000 = ''.5''"
  proof -
    have "show_nat 500000000 = ''500000000''" by (simp add: show_nat.simps) code_simp
    then show ?thesis by (simp add: fraction_text_def pad_zero_def trim_right_def)
  qed
  moreover have "(s * 1000000000 + 500000000) div 1000000000 = s"
    "(s * 1000000000 + 500000000) mod 1000000000 = (500000000::int)" by simp_all
  ultimately show ?thesis by (simp add: rfc3339_nano_def fraction_text_def)
qed

end
