(* ===== verification/Events.thy ===== *)
theory Events
  imports Go_Time "HOL-Library.Word" "HOL-Library.AList"
begin

text \<open>
  The audit trail and the live feed (\<open>internal/events\<close>): the event record, the redaction of its
  metadata, the audit table, the broker with its bounded subscriber queues, and the recorder that
  writes an event to the table and hands it to the broker. A failing insert is an input of the
  model (\<open>fault\<close>), as are the generated identifier and the clock.
\<close>

section \<open>Events\<close>

datatype meta_value = Meta_String string | Meta_Number int | Meta_Bool bool | Meta_List "string list"

record event =
  ev_id :: string
  ev_action :: string
  ev_actor :: string
  ev_target_type :: string
  ev_target_id :: string
  ev_metadata :: "(string \<times> meta_value) list option"
  ev_created_at :: "instant option"

definition event_of :: "string \<Rightarrow> string \<Rightarrow> string \<Rightarrow> string \<Rightarrow> (string \<times> meta_value) list \<Rightarrow> event" where
  "event_of action actor ttype tid meta =
     \<lparr>ev_id = [], ev_action = action, ev_actor = actor, ev_target_type = ttype, ev_target_id = tid,
      ev_metadata = Some meta, ev_created_at = None\<rparr>"

definition sensitive_keys :: "string list" where
  "sensitive_keys =
     [''password'', ''secret'', ''token'', ''credential'', ''credentials'', ''apikey'', ''api_key'']"

definition redact_entry :: "string \<times> meta_value \<Rightarrow> string \<times> meta_value" where
  "redact_entry kv =
     (if to_lower (fst kv) \<in> set sensitive_keys then (fst kv, Meta_String ''[redacted]'') else kv)"

definition redact_metadata :: "(string \<times> meta_value) list option \<Rightarrow> (string \<times> meta_value) list option" where
  "redact_metadata m = (case m of None \<Rightarrow> None | Some kvs \<Rightarrow> Some (map redact_entry kvs))"

section \<open>The audit table\<close>

datatype event_error = Persist_Failed string

definition insert_event :: "bool \<Rightarrow> string \<Rightarrow> instant \<Rightarrow> event \<Rightarrow> event list
    \<Rightarrow> (event_error, event \<times> event list) result" where
  "insert_event fault uuid now ev rows =
     (let ev1 = (if ev_id ev = [] then ev\<lparr>ev_id := uuid\<rparr> else ev);
          ev2 = (if ev_created_at ev1 = None then ev1\<lparr>ev_created_at := Some now\<rparr> else ev1);
          ev3 = ev2\<lparr>ev_metadata := redact_metadata (ev_metadata ev2)\<rparr>
      in if fault \<or> ev_id ev3 \<in> set (map ev_id rows) then Inl (Persist_Failed (ev_action ev))
         else Inr (ev3, rows @ [ev3]))"

definition newer_text :: "event \<Rightarrow> event \<Rightarrow> bool" where
  "newer_text a b =
     str_less (rfc3339_nano (case ev_created_at b of Some t \<Rightarrow> t | None \<Rightarrow> 0))
              (rfc3339_nano (case ev_created_at a of Some t \<Rightarrow> t | None \<Rightarrow> 0))"

definition list_recent :: "int \<Rightarrow> event list \<Rightarrow> event list" where
  "list_recent limit rows =
     (let n = (if limit \<le> 0 \<or> limit > 500 then 100 else limit)
      in take (nat n) (sort_by newer_text rows))"

section \<open>The broker\<close>

definition subscriber_buffer_size :: nat where
  "subscriber_buffer_size = 64"

record broker =
  subscribers :: "(64 word \<times> event list) list"
  next_sub :: "64 word"

definition new_broker :: broker where
  "new_broker = \<lparr>subscribers = [], next_sub = 0\<rparr>"

definition subscribe :: "broker \<Rightarrow> 64 word \<times> broker" where
  "subscribe b =
     (let sid = next_sub b in
      (sid, b\<lparr>next_sub := sid + 1, subscribers := AList.update sid [] (subscribers b)\<rparr>))"

definition unsubscribe :: "64 word \<Rightarrow> broker \<Rightarrow> broker" where
  "unsubscribe sid b =
     (case map_of (subscribers b) sid of
        Some _ \<Rightarrow> b\<lparr>subscribers := AList.delete sid (subscribers b)\<rparr>
      | None \<Rightarrow> b)"

definition offer :: "event \<Rightarrow> event list \<Rightarrow> event list" where
  "offer ev q = (if length q < subscriber_buffer_size then q @ [ev] else q)"

definition publish :: "event \<Rightarrow> broker \<Rightarrow> broker" where
  "publish ev b = b\<lparr>subscribers := map (\<lambda>(sid, q). (sid, offer ev q)) (subscribers b)\<rparr>"

text \<open>The receiving end of a subscriber's channel, which the activity stream reads.\<close>

definition receive :: "64 word \<Rightarrow> broker \<Rightarrow> (event \<times> broker) option" where
  "receive sid b =
     (case map_of (subscribers b) sid of
        Some (ev # q) \<Rightarrow> Some (ev, b\<lparr>subscribers := AList.update sid q (subscribers b)\<rparr>)
      | _ \<Rightarrow> None)"

section \<open>The recorder\<close>

record recorder =
  audit_rows :: "event list"
  feed :: broker

definition emit :: "bool \<Rightarrow> string \<Rightarrow> instant \<Rightarrow> event \<Rightarrow> recorder \<Rightarrow> recorder" where
  "emit fault uuid now ev r =
     (case insert_event fault uuid now ev (audit_rows r) of
        Inl _ \<Rightarrow> r\<lparr>feed := publish ev (feed r)\<rparr>
      | Inr (stored, rows) \<Rightarrow> r\<lparr>audit_rows := rows, feed := publish stored (feed r)\<rparr>)"

definition record_event :: "bool \<Rightarrow> string \<Rightarrow> instant \<Rightarrow> event \<Rightarrow> recorder
    \<Rightarrow> (event_error, unit) result \<times> recorder" where
  "record_event fault uuid now ev r =
     (case insert_event fault uuid now ev (audit_rows r) of
        Inl e \<Rightarrow> (Inl e, r\<lparr>feed := publish ev (feed r)\<rparr>)
      | Inr (stored, rows) \<Rightarrow> (Inr (), r\<lparr>audit_rows := rows, feed := publish stored (feed r)\<rparr>))"

section \<open>What the broker guarantees a subscriber\<close>

text \<open>
  A run of the broker, with what was published to each subscriber since it subscribed and what the
  subscriber has received so far.
\<close>

inductive broker_run :: "broker \<Rightarrow> (64 word \<Rightarrow> event list) \<Rightarrow> (64 word \<Rightarrow> event list) \<Rightarrow> bool" where
  run_new: "broker_run new_broker (\<lambda>_. []) (\<lambda>_. [])"
| run_subscribe: "broker_run b pub got \<Longrightarrow> subscribe b = (sid, b') \<Longrightarrow>
    broker_run b' (pub(sid := [])) (got(sid := []))"
| run_unsubscribe: "broker_run b pub got \<Longrightarrow> broker_run (unsubscribe sid b) pub got"
| run_publish: "broker_run b pub got \<Longrightarrow> broker_run (publish ev b) (\<lambda>s. pub s @ [ev]) got"
| run_receive: "broker_run b pub got \<Longrightarrow> receive sid b = Some (ev, b') \<Longrightarrow>
    broker_run b' pub (got(sid := got sid @ [ev]))"

lemma subscribers_publish:
  "map_of (subscribers (publish ev b)) sid = map_option (offer ev) (map_of (subscribers b) sid)"
proof -
  have "map_of (map (\<lambda>(s, q). (s, offer ev q)) xs) sid = map_option (offer ev) (map_of xs sid)" for xs
    by (induction xs) auto
  then show ?thesis by (simp add: publish_def)
qed

lemma subscribers_subscribe:
  "subscribe b = (sid, b') \<Longrightarrow>
     map_of (subscribers b') s = (if s = sid then Some [] else map_of (subscribers b) s)"
  by (auto simp: subscribe_def Let_def update_conv)

lemma subscribers_receive:
  assumes "receive sid b = Some (ev, b')"
  shows "\<exists>q. map_of (subscribers b) sid = Some (ev # q) \<and>
     (\<forall>s. map_of (subscribers b') s = (if s = sid then Some q else map_of (subscribers b) s))"
  using assms by (auto simp: receive_def update_conv split: option.splits list.splits)

lemma subscribers_unsubscribe:
  "map_of (subscribers (unsubscribe sid b)) s = Some q \<Longrightarrow> map_of (subscribers b) s = Some q"
  by (auto simp: unsubscribe_def delete_conv' split: option.splits if_splits)

lemma subseq_offer:
  assumes "subseq (got @ q) pub"
  shows "subseq (got @ offer ev q) (pub @ [ev])"
proof (cases "length q < subscriber_buffer_size")
  case True
  have "subseq ((got @ q) @ [ev]) (pub @ [ev])" using assms by (rule list_emb_append_mono) simp
  with True show ?thesis by (simp add: offer_def)
next
  case False
  have "subseq pub (pub @ [ev])" by (simp add: prefix_imp_subseq)
  with assms have "subseq (got @ q) (pub @ [ev])" by (rule subseq_order.order_trans)
  with False show ?thesis by (simp add: offer_def)
qed

lemma redact_metadata_idem [simp]: "redact_metadata (redact_metadata m) = redact_metadata m"
  by (cases m) (auto simp: redact_metadata_def redact_entry_def)

lemma insert_event_stored:
  "insert_event fault uuid now ev rows = Inr (stored, rows') \<Longrightarrow>
     rows' = rows @ [stored] \<and> ev_metadata stored = redact_metadata (ev_metadata ev) \<and>
     ev_action stored = ev_action ev"
  by (auto simp: insert_event_def Let_def split: if_splits)

definition redacted :: "event \<Rightarrow> bool" where
  "redacted ev = (redact_metadata (ev_metadata ev) = ev_metadata ev)"

section \<open>Properties\<close>

text \<open>
  Whatever the interleaving of subscriptions, publications and reads, a subscriber's queue never
  holds more than 64 events, and what it has received followed by what waits for it is a subsequence
  of what was published to it: slow subscribers lose events, they never see one twice or out of order.
\<close>

theorem broker_delivery:
  assumes "broker_run b pub got" and "map_of (subscribers b) sid = Some q"
  shows "length q \<le> 64 \<and> subseq (got sid @ q) (pub sid)"
  using assms
proof (induction arbitrary: sid q rule: broker_run.induct)
  case run_new
  then show ?case by (simp add: new_broker_def)
next
  case (run_subscribe b pub got new b')
  then show ?case using subscribers_subscribe[OF run_subscribe(2), of sid] by (cases "sid = new") auto
next
  case (run_unsubscribe b pub got s)
  then show ?case using subscribers_unsubscribe by blast
next
  case (run_publish b pub got ev)
  then obtain q' where q': "map_of (subscribers b) sid = Some q'" "q = offer ev q'"
    by (auto simp: subscribers_publish)
  note ih = run_publish.IH[OF q'(1)]
  have "length q \<le> 64" using ih by (simp add: q'(2) offer_def subscriber_buffer_size_def)
  moreover have "subseq (got sid @ q) (pub sid @ [ev])" unfolding q'(2) by (rule subseq_offer) (use ih in simp)
  ultimately show ?case by simp
next
  case (run_receive b pub got s ev b')
  obtain q0 where q0: "map_of (subscribers b) s = Some (ev # q0)"
    "\<forall>x. map_of (subscribers b') x = (if x = s then Some q0 else map_of (subscribers b) x)"
    using subscribers_receive[OF run_receive(2)] by blast
  show ?case
  proof (cases "sid = s")
    case True
    then show ?thesis using run_receive.IH[OF q0(1)] q0(2) run_receive.prems by simp
  next
    case False
    then show ?thesis using run_receive.IH[of sid q] q0(2) run_receive.prems by simp
  qed
qed

definition sample_event :: event where
  "sample_event = event_of ''auth.login_failed'' [] ''user'' [] [(''Token'', Meta_String ''abc'')]"

theorem broker_delivery_witness:
  "\<exists>(b :: broker) (pub :: 64 word \<Rightarrow> event list) (got :: 64 word \<Rightarrow> event list). map_of (subscribers b) 0 = Some [sample_event] \<and> got 0 = [sample_event] \<and>
     subseq (got 0 @ [sample_event]) (pub 0)"
proof -
  define b1 where "b1 = snd (subscribe new_broker)"
  define b2 where "b2 = publish sample_event (publish sample_event b1)"
  define b3 where "b3 = snd (the (receive 0 b2))"
  have "subscribe new_broker = (0, b1)" by (simp add: b1_def subscribe_def new_broker_def)
  from run_publish[OF run_publish[OF run_subscribe[OF run_new this]], of sample_event sample_event]
  have r2: "broker_run b2 (\<lambda>s. (((\<lambda>_. [])(0 := [])) s @ [sample_event]) @ [sample_event]) ((\<lambda>_. [])(0 := []))"
    by (simp add: b2_def)
  have "receive 0 b2 = Some (sample_event, b3)"
    by (simp add: b3_def b2_def b1_def receive_def publish_def subscribe_def new_broker_def offer_def
        subscriber_buffer_size_def)
  note r3 = run_receive[OF r2 this]
  have q: "map_of (subscribers b3) 0 = Some [sample_event]"
    by (simp add: b3_def b2_def b1_def receive_def publish_def subscribe_def new_broker_def offer_def
        subscriber_buffer_size_def)
  define pub where "pub = (\<lambda>s::64 word. (((\<lambda>_. [])(0 := [])) s @ [sample_event]) @ [sample_event])"
  define got where "got = ((\<lambda>_::64 word. [])(0 := []))(0 := ((\<lambda>_::64 word. []::event list)(0 := [])) 0 @ [sample_event])"
  have "subseq (got 0 @ [sample_event]) (pub 0)"
    using broker_delivery[OF r3 q] unfolding pub_def got_def by simp
  moreover have "got 0 = [sample_event]" by (simp add: got_def)
  ultimately show ?thesis using q by blast
qed

text \<open>The metadata of an event as it may be stored: every key in its place, and no value under a sensitive one.\<close>

definition hides_secrets :: "(string \<times> meta_value) list \<Rightarrow> (string \<times> meta_value) list \<Rightarrow> bool" where
  "hides_secrets given stored \<longleftrightarrow>
     list_all2 (\<lambda>(k, v) (k', v'). k' = k \<and>
       v' = (if to_lower k \<in> {''password'', ''secret'', ''token'', ''credential'', ''credentials'', ''apikey'', ''api_key''}
             then Meta_String ''[redacted]'' else v)) given stored"

lemma redact_metadata_hides: "hides_secrets m (map redact_entry m)"
  by (induction m) (auto simp: hides_secrets_def redact_entry_def sensitive_keys_def)

text \<open>
  C12. What an audited action leaves behind. Emitting an event and recording one change the same things.
  Without a fault, and unless its id is taken, exactly one row is added: the event, with an id and a time if it
  had none, in which every value whose key is, in any case of letters, one of the seven sensitive words
  is replaced by the marker and every other value is as given; and this row is what the feed gets. Otherwise
  the table is as it was, and only a recorded event reports it.
\<close>

theorem emit_keeps_rows_redacted:
  "(let r' = emit fault uuid now ev r; i = (if ev_id ev = [] then uuid else ev_id ev) in
    snd (record_event fault uuid now ev r) = r' \<and>
    (if fault \<or> i \<in> set (map ev_id (audit_rows r))
     then audit_rows r' = audit_rows r \<and> \<not> is_ok (fst (record_event fault uuid now ev r))
     else is_ok (fst (record_event fault uuid now ev r)) \<and>
       (\<exists>row. audit_rows r' = audit_rows r @ [row] \<and> feed r' = publish row (feed r) \<and>
          ev_id row = i \<and> ev_created_at row = Some (case ev_created_at ev of None \<Rightarrow> now | Some t \<Rightarrow> t) \<and>
          ev_action row = ev_action ev \<and> ev_actor row = ev_actor ev \<and>
          ev_target_type row = ev_target_type ev \<and> ev_target_id row = ev_target_id ev \<and>
          (case (ev_metadata ev, ev_metadata row) of
             (None, None) \<Rightarrow> True
           | (Some given, Some stored) \<Rightarrow> hides_secrets given stored
           | _ \<Rightarrow> False))))"
  using redact_metadata_hides
  by (auto simp: emit_def record_event_def insert_event_def Let_def redact_metadata_def split: option.split)

text \<open>
  When the insert fails, the event is handed to the live feed as it was given, so a value under a
  sensitive key reaches the subscribers in the clear.
\<close>

lemma emit_fault_publishes_unredacted:
  "map_of (subscribers (feed (emit True ''u1'' 5 sample_event
      \<lparr>audit_rows = [], feed = snd (subscribe new_broker)\<rparr>))) 0 = Some [sample_event]"
  "\<not> redacted sample_event"
proof -
  show "map_of (subscribers (feed (emit True ''u1'' 5 sample_event
      \<lparr>audit_rows = [], feed = snd (subscribe new_broker)\<rparr>))) 0 = Some [sample_event]"
    by (simp add: emit_def insert_event_def Let_def subscribers_publish subscribe_def new_broker_def
        offer_def subscriber_buffer_size_def)
  have "to_lower ''Token'' = ''token''" by code_simp
  then show "\<not> redacted sample_event"
    by (simp add: redacted_def sample_event_def event_of_def redact_metadata_def redact_entry_def sensitive_keys_def)
qed

text \<open>The list of recent events, and the order the text of the time gives it.\<close>

lemma list_recent_length: "length (list_recent limit rows) \<le> 500"
  by (auto simp: list_recent_def Let_def)

lemma list_recent_set: "set (list_recent limit rows) \<subseteq> set rows"
  unfolding list_recent_def Let_def by (metis set_sort_by set_take_subset)

lemma list_recent_text_order: "ordered_by newer_text (list_recent limit rows)"
proof -
  have "weak_order newer_text"
    unfolding newer_text_def[abs_def] by (rule weak_order_flip[OF weak_order_str_less])
  then have "ordered_by newer_text (sort_by newer_text rows)" by (rule ordered_sort_by)
  then show ?thesis unfolding list_recent_def ordered_by_def Let_def by (rule sorted_wrt_take)
qed

end
