(* ===== verification/Project_Registry.thy ===== *)
theory Project_Registry
  imports Project_Sources Events
begin

text \<open>
  The project registry (\<open>internal/projects/project.go\<close>, \<open>store.go\<close>, \<open>service.go\<close>): the projects
  table with its unique identifier and name, and the service operations that list, scan, register,
  show and remove projects and record what they did. Docker's answers, generated identifiers, the
  clock and database failures are inputs.
\<close>

section \<open>Data\<close>

datatype project_source = Project_Discovered | Project_Registered

datatype project_status =
  Status_Healthy | Status_Warning | Status_Failed | Status_Running | Status_Paused | Status_Unprotected

record project_rec =
  pr_id :: string
  pr_name :: string
  pr_compose_path :: string
  pr_compose_files :: "string list"
  pr_source :: project_source
  pr_status :: project_status
  pr_created_at :: instant
  pr_updated_at :: instant

datatype project_error =
  Project_Exists | Project_Not_Found | Invalid_Path | Project_Db_Failed | Project_Scan_Failed
| Project_Audit_Failed

section \<open>The table\<close>

definition project_list :: "project_rec list \<Rightarrow> project_rec list" where
  "project_list rows = sort_by (\<lambda>a b. str_less (pr_name a) (pr_name b)) rows"

definition project_by_id :: "string \<Rightarrow> project_rec list \<Rightarrow> (project_error, project_rec) result" where
  "project_by_id i rows = (case List.find (\<lambda>p. pr_id p = i) rows of
     Some p \<Rightarrow> Inr p | None \<Rightarrow> Inl Project_Not_Found)"

definition project_by_name :: "string \<Rightarrow> project_rec list \<Rightarrow> (project_error, project_rec) result" where
  "project_by_name n rows = (case List.find (\<lambda>p. pr_name p = n) rows of
     Some p \<Rightarrow> Inr p | None \<Rightarrow> Inl Project_Not_Found)"

definition insert_project :: "bool \<Rightarrow> project_rec \<Rightarrow> project_rec list
    \<Rightarrow> (project_error, project_rec list) result" where
  "insert_project fault p rows =
     (if fault then Inl Project_Db_Failed
      else if pr_id p \<in> set (map pr_id rows) \<or> pr_name p \<in> set (map pr_name rows) then Inl Project_Exists
      else Inr (rows @ [p]))"

text \<open>The \<open>UPDATE\<close> writes four columns only: path, files, status and time of the update.\<close>

definition update_project :: "bool \<Rightarrow> project_rec \<Rightarrow> project_rec list
    \<Rightarrow> (project_error, project_rec list) result" where
  "update_project fault p rows =
     (if fault then Inl Project_Db_Failed
      else Inr (map (\<lambda>q. if pr_id q = pr_id p
                 then q\<lparr>pr_compose_path := pr_compose_path p, pr_compose_files := pr_compose_files p,
                        pr_status := pr_status p, pr_updated_at := pr_updated_at p\<rparr>
                 else q) rows))"

definition upsert_discovered :: "bool \<Rightarrow> string \<Rightarrow> instant \<Rightarrow> string \<Rightarrow> string \<Rightarrow> string list
    \<Rightarrow> project_rec list \<Rightarrow> (project_error, project_rec \<times> project_rec list) result" where
  "upsert_discovered fault uuid now name path files rows =
     (case project_by_name name rows of
        Inr existing \<Rightarrow>
          (let p = existing\<lparr>pr_compose_path := path, pr_compose_files := files, pr_updated_at := now\<rparr> in
           bind_result (update_project fault p rows) (\<lambda>rows'. Inr (p, rows')))
      | Inl e \<Rightarrow>
          if e \<noteq> Project_Not_Found then Inl e
          else (let p = \<lparr>pr_id = uuid, pr_name = name, pr_compose_path = path, pr_compose_files = files,
                         pr_source = Project_Discovered, pr_status = Status_Unprotected,
                         pr_created_at = now, pr_updated_at = now\<rparr> in
                bind_result (insert_project fault p rows) (\<lambda>rows'. Inr (p, rows'))))"

definition delete_project :: "bool \<Rightarrow> string \<Rightarrow> project_rec list
    \<Rightarrow> (project_error, project_rec list) result" where
  "delete_project fault i rows =
     (if fault then Inl Project_Db_Failed
      else let rest = filter (\<lambda>p. pr_id p \<noteq> i) rows in
        if length rest = length rows then Inl Project_Not_Found else Inr rest)"

section \<open>Paths and Compose files\<close>

definition validate_project_path :: "string \<Rightarrow> (project_error, string) result" where
  "validate_project_path path =
     (if path = [] then Inl Invalid_Path
      else let cleaned = path_clean path in if \<not> rooted cleaned then Inl Invalid_Path else Inr cleaned)"

definition known_compose_filenames :: "string list" where
  "known_compose_filenames =
     [''compose.yml'', ''compose.yaml'', ''docker-compose.yml'', ''docker-compose.yaml'']"

definition compose_like :: "string \<Rightarrow> bool" where
  "compose_like name =
     (let lower = to_lower name in
      (has_prefix lower ''compose.'' \<or> has_prefix lower ''docker-compose.'') \<and>
      (has_suffix lower ''.yml'' \<or> has_suffix lower ''.yaml''))"

definition detect_compose_files :: "(string \<times> bool) list option \<Rightarrow> string list" where
  "detect_compose_files dir = (case dir of
     None \<Rightarrow> []
   | Some entries \<Rightarrow>
       (let found = map fst (filter (\<lambda>(_, is_dir). \<not> is_dir) entries);
            known = filter (\<lambda>n. n \<in> set found) known_compose_filenames
        in sort_strings (fold (\<lambda>n files. if compose_like n then append_new n files else files) found known)))"

section \<open>The service\<close>

record projects_state =
  prj_rows :: "project_rec list"
  prj_recorder :: recorder

text \<open>What the environment supplies to one call: faults, identifiers and the clock.\<close>

record call_env =
  db_fault :: bool
  audit_fault :: bool
  new_uuid :: string
  event_uuid :: string
  clock :: instant

definition emit_event :: "call_env \<Rightarrow> event \<Rightarrow> projects_state \<Rightarrow> projects_state" where
  "emit_event env ev st =
     st\<lparr>prj_recorder := emit (audit_fault env) (event_uuid env) (clock env) ev (prj_recorder st)\<rparr>"

fun register_discovered :: "call_env list \<Rightarrow> compose_project list \<Rightarrow> project_rec list
    \<Rightarrow> project_rec list \<times> project_error option" where
  "register_discovered envs [] rows = (rows, None)"
| "register_discovered [] (dp # dps) rows = (rows, Some Project_Db_Failed)"
| "register_discovered (env # envs) (dp # dps) rows =
     (case upsert_discovered (db_fault env) (new_uuid env) (clock env) (cp_name dp) (cp_working_dir dp)
             (cp_config_files dp) rows of
        Inl e \<Rightarrow> (rows, Some e)
      | Inr (_, rows') \<Rightarrow> register_discovered envs dps rows')"

text \<open>\<open>docker\<close> is \<open>None\<close> without a Docker client, else the answer of \<open>ListComposeProjects\<close>.\<close>

definition scan_projects :: "call_env \<Rightarrow> call_env list \<Rightarrow> compose_project list option option \<Rightarrow> string
    \<Rightarrow> projects_state \<Rightarrow> (project_error, project_rec list) result \<times> projects_state" where
  "scan_projects env envs docker actor st =
     (case docker of
        None \<Rightarrow> (Inr (project_list (prj_rows st)), st)
      | Some None \<Rightarrow> (Inl Project_Scan_Failed, st)
      | Some (Some discovered) \<Rightarrow>
          (case register_discovered envs discovered (prj_rows st) of
             (rows, Some e) \<Rightarrow> (Inl e, st\<lparr>prj_rows := rows\<rparr>)
           | (rows, None) \<Rightarrow>
               (let st' = emit_event env (event_of ''project.scanned'' actor [] []
                            [(''discoveredCount'', Meta_Number (int (length discovered)))]) (st\<lparr>prj_rows := rows\<rparr>)
                in (Inr (project_list (prj_rows st')), st'))))"

definition register_project :: "call_env \<Rightarrow> (string \<Rightarrow> (string \<times> bool) list option) \<Rightarrow> string \<Rightarrow> string
    \<Rightarrow> string \<Rightarrow> projects_state \<Rightarrow> (project_error, project_rec) result \<times> projects_state" where
  "register_project env read_dir actor name path st =
     (case validate_project_path path of
        Inl e \<Rightarrow> (Inl e, st)
      | Inr clean \<Rightarrow>
          (let files = detect_compose_files (read_dir clean);
               p = \<lparr>pr_id = new_uuid env, pr_name = name, pr_compose_path = clean, pr_compose_files = files,
                    pr_source = Project_Registered, pr_status = Status_Unprotected,
                    pr_created_at = clock env, pr_updated_at = clock env\<rparr>
           in case insert_project (db_fault env) p (prj_rows st) of
                Inl e \<Rightarrow> (Inl e, st)
              | Inr rows \<Rightarrow>
                  (Inr p, emit_event env (event_of ''project.registered'' actor ''project'' (pr_id p)
                     [(''name'', Meta_String name), (''composePath'', Meta_String clean),
                      (''composeFilesFound'', Meta_Number (int (length files)))]) (st\<lparr>prj_rows := rows\<rparr>))))"

definition remove_project :: "call_env \<Rightarrow> string \<Rightarrow> string \<Rightarrow> projects_state
    \<Rightarrow> (project_error, unit) result \<times> projects_state" where
  "remove_project env actor i st =
     (case project_by_id i (prj_rows st) of
        Inl e \<Rightarrow> (Inl e, st)
      | Inr p \<Rightarrow>
          (case record_event (audit_fault env) (event_uuid env) (clock env)
                  (event_of ''project.removed'' actor ''project'' i
                     [(''name'', Meta_String (pr_name p)), (''effect'', Meta_String ''registry-only'')])
                  (prj_recorder st) of
             (Inl _, rec) \<Rightarrow> (Inl Project_Audit_Failed, st\<lparr>prj_recorder := rec\<rparr>)
           | (Inr _, rec) \<Rightarrow>
               (let st' = st\<lparr>prj_recorder := rec\<rparr> in
                case delete_project (db_fault env) i (prj_rows st') of
                  Inl e \<Rightarrow> (Inl e, st')
                | Inr rows \<Rightarrow> (Inr (), st'\<lparr>prj_rows := rows\<rparr>))))"

record project_detail =
  pd_record :: project_rec
  pd_docker_available :: bool
  pd_containers :: "container list"
  pd_volumes :: "volume list"
  pd_networks :: "network list"
  pd_warning :: string
  pd_sources :: "backup_source list"

definition attach_docker_state :: "(docker_status \<times> (string \<Rightarrow> compose_project option)) option
    \<Rightarrow> project_rec \<Rightarrow> project_detail" where
  "attach_docker_state docker p =
     (let d0 = \<lparr>pd_record = p, pd_docker_available = False, pd_containers = [], pd_volumes = [],
                pd_networks = [], pd_warning = [], pd_sources = []\<rparr>
      in case docker of
           None \<Rightarrow> d0\<lparr>pd_warning := ''Docker integration is not configured.''\<rparr>
         | Some (status, live) \<Rightarrow>
             if \<not> ds_connected status
             then d0\<lparr>pd_warning := ''Docker daemon unreachable: '' @ ds_error status\<rparr>
             else (case live (pr_name p) of
                 None \<Rightarrow> d0\<lparr>pd_warning := ''This project has no currently running containers.''\<rparr>
               | Some cp \<Rightarrow>
                   d0\<lparr>pd_docker_available := True, pd_containers := cp_containers cp,
                      pd_volumes := cp_volumes cp, pd_networks := cp_networks cp,
                      pd_sources := backup_sources (cp_containers cp) (cp_volumes cp)\<rparr>))"

definition get_project :: "(docker_status \<times> (string \<Rightarrow> compose_project option)) option \<Rightarrow> string
    \<Rightarrow> projects_state \<Rightarrow> (project_error, project_detail) result" where
  "get_project docker i st =
     bind_result (project_by_id i (prj_rows st)) (\<lambda>p. Inr (attach_docker_state docker p))"

section \<open>The table's invariant\<close>

definition registry_ok :: "project_rec list \<Rightarrow> bool" where
  "registry_ok rows = (distinct (map pr_id rows) \<and> distinct (map pr_name rows))"

text \<open>What a scan may not change of a project that is already known.\<close>

definition keeps_project :: "project_rec \<Rightarrow> project_rec list \<Rightarrow> bool" where
  "keeps_project p rows =
     (\<exists>q\<in>set rows. pr_id q = pr_id p \<and> pr_name q = pr_name p \<and> pr_source q = pr_source p \<and>
        pr_status q = pr_status p \<and> pr_created_at q = pr_created_at p)"

lemma find_Some_set: "List.find P xs = Some x \<Longrightarrow> x \<in> set xs \<and> P x"
  by (auto simp: find_Some_iff)

lemma project_by_id_Inr: "project_by_id i rows = Inr p \<Longrightarrow> p \<in> set rows \<and> pr_id p = i"
  by (auto simp: project_by_id_def split: option.splits dest: find_Some_set)

lemma project_by_name_Inr: "project_by_name n rows = Inr p \<Longrightarrow> p \<in> set rows \<and> pr_name p = n"
  by (auto simp: project_by_name_def split: option.splits dest: find_Some_set)

lemma insert_project_Inr:
  "insert_project fault p rows = Inr rows' \<Longrightarrow>
     rows' = rows @ [p] \<and> pr_id p \<notin> set (map pr_id rows) \<and> pr_name p \<notin> set (map pr_name rows)"
  by (simp add: insert_project_def split: if_splits)

lemma insert_project_ok: "registry_ok rows \<Longrightarrow> insert_project fault p rows = Inr rows' \<Longrightarrow> registry_ok rows'"
  by (drule insert_project_Inr) (simp add: registry_ok_def)

lemma update_project_keys:
  "update_project fault p rows = Inr rows' \<Longrightarrow> map pr_id rows' = map pr_id rows \<and> map pr_name rows' = map pr_name rows"
  by (auto simp: update_project_def split: if_splits)

lemma update_project_keeps:
  assumes "update_project fault p rows = Inr rows'" "q \<in> set rows" "pr_id q = pr_id p \<Longrightarrow> pr_status q = pr_status p"
  shows "keeps_project q rows'"
proof -
  let ?f = "\<lambda>q. if pr_id q = pr_id p
                 then q\<lparr>pr_compose_path := pr_compose_path p, pr_compose_files := pr_compose_files p,
                        pr_status := pr_status p, pr_updated_at := pr_updated_at p\<rparr>
                 else q"
  have "rows' = map ?f rows" using assms(1) by (simp add: update_project_def split: if_splits)
  then have "?f q \<in> set rows'" using assms(2) by simp
  then show ?thesis unfolding keeps_project_def using assms(3) by (intro bexI[of _ "?f q"]) simp_all
qed

lemma delete_project_Inr:
  "delete_project fault i rows = Inr rows' \<Longrightarrow> rows' = filter (\<lambda>p. pr_id p \<noteq> i) rows"
  by (simp add: delete_project_def Let_def split: if_splits)

lemma delete_project_ok: "registry_ok rows \<Longrightarrow> delete_project fault i rows = Inr rows' \<Longrightarrow> registry_ok rows'"
  by (drule delete_project_Inr) (simp add: registry_ok_def distinct_map_filter)

lemma upsert_discovered_step:
  assumes "upsert_discovered fault uuid now name path files rows = Inr (p, rows')" "registry_ok rows"
  shows "registry_ok rows' \<and> (\<forall>q\<in>set rows. keeps_project q rows')"
proof (cases "project_by_name name rows")
  case (Inl e)
  then obtain r where r: "insert_project fault r rows = Inr rows'"
    using assms(1) by (auto simp: upsert_discovered_def Let_def bind_result_eq_Inr split: if_splits)
  then show ?thesis
    using insert_project_ok[OF assms(2) r] insert_project_Inr[OF r] by (auto simp: keeps_project_def)
next
  case (Inr existing)
  define r where "r = existing\<lparr>pr_compose_path := path, pr_compose_files := files, pr_updated_at := now\<rparr>"
  have u: "update_project fault r rows = Inr rows'"
    using assms(1) Inr by (auto simp: upsert_discovered_def Let_def bind_result_eq_Inr r_def)
  have ok: "registry_ok rows'" using update_project_keys[OF u] assms(2) by (simp add: registry_ok_def)
  have "keeps_project q rows'" if q: "q \<in> set rows" for q
  proof (rule update_project_keeps[OF u q])
    assume "pr_id q = pr_id r"
    then have "q = existing"
      using q project_by_name_Inr[OF Inr] assms(2) unfolding registry_ok_def r_def
      by (simp add: distinct_map inj_on_def)
    then show "pr_status q = pr_status r" by (simp add: r_def)
  qed
  with ok show ?thesis by blast
qed

lemma keeps_project_trans:
  "keeps_project p rows \<Longrightarrow> (\<forall>q\<in>set rows. keeps_project q rows') \<Longrightarrow> keeps_project p rows'"
  unfolding keeps_project_def by metis

lemma register_discovered_step:
  "register_discovered envs dps rows = (rows', e) \<Longrightarrow> registry_ok rows \<Longrightarrow>
     registry_ok rows' \<and> (\<forall>q\<in>set rows. keeps_project q rows')"
proof (induction envs dps rows arbitrary: rows' e rule: register_discovered.induct)
  case (3 env envs dp dps rows)
  show ?case
  proof (cases "upsert_discovered (db_fault env) (new_uuid env) (clock env) (cp_name dp) (cp_working_dir dp)
             (cp_config_files dp) rows")
    case (Inl err)
    then show ?thesis using 3 by (auto simp: keeps_project_def)
  next
    case (Inr r)
    then obtain p mid where mid: "upsert_discovered (db_fault env) (new_uuid env) (clock env) (cp_name dp)
        (cp_working_dir dp) (cp_config_files dp) rows = Inr (p, mid)" by (cases r) auto
    note step = upsert_discovered_step[OF mid 3(3)]
    have "registry_ok rows' \<and> (\<forall>q\<in>set mid. keeps_project q rows')"
      by (rule 3(1)[OF mid refl]) (use 3(2) mid step in simp_all)
    with step show ?thesis by (blast intro: keeps_project_trans)
  qed
qed (auto simp: keeps_project_def)

lemma prj_rows_emit_event [simp]: "prj_rows (emit_event env ev st) = prj_rows st"
  by (simp add: emit_event_def)

lemma fold_append_new_set:
  "set (fold (\<lambda>n files. if P n then append_new n files else files) ns files) = set files \<union> {n\<in>set ns. P n}"
  by (induction ns arbitrary: files) auto

lemma fold_append_new_distinct:
  "distinct files \<Longrightarrow> distinct (fold (\<lambda>n files. if P n then append_new n files else files) ns files)"
  by (induction ns arbitrary: files) auto

lemma known_compose_like: "list_all compose_like known_compose_filenames"
  by code_simp

section \<open>Properties\<close>

text \<open>
  A scan never loses or rewrites a project: identifiers and names stay unique, and every known
  project keeps its name, its origin, its status and its creation time, whether the scan completes
  or stops at an error half way.
\<close>

theorem scan_keeps_projects:
  assumes "scan_projects env envs docker actor st = (r, st')" "registry_ok (prj_rows st)"
  shows "registry_ok (prj_rows st') \<and> list_all (\<lambda>p. keeps_project p (prj_rows st')) (prj_rows st)"
proof -
  have same: "list_all (\<lambda>p. keeps_project p (prj_rows st)) (prj_rows st)"
    by (auto simp: keeps_project_def list_all_iff)
  show ?thesis
  proof (cases docker)
    case None
    then show ?thesis using assms same by (simp add: scan_projects_def)
  next
    case (Some answer)
    show ?thesis
    proof (cases answer)
      case None
      then show ?thesis using assms same Some by (simp add: scan_projects_def)
    next
      case (Some discovered)
      obtain rows e where rd: "register_discovered envs discovered (prj_rows st) = (rows, e)" by fastforce
      have "prj_rows st' = rows"
        using assms(1) \<open>docker = Some answer\<close> Some rd
        by (cases e) (auto simp: scan_projects_def Let_def)
      then show ?thesis using register_discovered_step[OF rd assms(2)] by (simp add: list_all_iff)
    qed
  qed
qed

definition quiet_env :: "string \<Rightarrow> call_env" where
  "quiet_env u = \<lparr>db_fault = False, audit_fault = False, new_uuid = u, event_uuid = u, clock = 7\<rparr>"

definition sample_state :: projects_state where
  "sample_state =
     \<lparr>prj_rows = [\<lparr>pr_id = ''p1'', pr_name = ''immich'', pr_compose_path = ''/srv/old'', pr_compose_files = [],
        pr_source = Project_Registered, pr_status = Status_Healthy, pr_created_at = 1, pr_updated_at = 1\<rparr>],
      prj_recorder = \<lparr>audit_rows = [], feed = new_broker\<rparr>\<rparr>"

definition immich_project :: compose_project where
  "immich_project = \<lparr>cp_name = ''immich'', cp_working_dir = ''/srv/immich'', cp_config_files = [''compose.yml''],
     cp_containers = [], cp_volumes = [], cp_networks = []\<rparr>"

theorem scan_keeps_projects_witness:
  "map (\<lambda>p. (pr_source p, pr_status p, pr_compose_path p))
     (prj_rows (snd (scan_projects (quiet_env ''e'') [quiet_env ''p2''] (Some (Some [immich_project])) ''u'' sample_state)))
     = [(Project_Registered, Status_Healthy, ''/srv/immich'')] \<and>
   registry_ok (prj_rows (snd (scan_projects (quiet_env ''e'') [quiet_env ''p2''] (Some (Some [immich_project])) ''u'' sample_state)))"
proof -
  have "registry_ok (prj_rows sample_state)" by (simp add: sample_state_def registry_ok_def)
  from scan_keeps_projects[OF prod.collapse[symmetric] this, THEN conjunct1]
  have "registry_ok (prj_rows (snd (scan_projects (quiet_env ''e'') [quiet_env ''p2'']
      (Some (Some [immich_project])) ''u'' sample_state)))" .
  moreover have "prj_rows (snd (scan_projects (quiet_env ''e'') [quiet_env ''p2'']
      (Some (Some [immich_project])) ''u'' sample_state))
    = [\<lparr>pr_id = ''p1'', pr_name = ''immich'', pr_compose_path = ''/srv/immich'', pr_compose_files = [''compose.yml''],
        pr_source = Project_Registered, pr_status = Status_Healthy, pr_created_at = 1, pr_updated_at = 7\<rparr>]"
    by (simp add: scan_projects_def upsert_discovered_def project_by_name_def sample_state_def immich_project_def
        quiet_env_def update_project_def Let_def)
  ultimately show ?thesis by simp
qed

text \<open>
  A removal that succeeds is on record: the project is gone, every other project is untouched,
  and the audit table holds the removal. One that cannot be recorded removes nothing.
\<close>

theorem remove_project_audited:
  assumes "remove_project env actor i st = (r, st')"
  shows "if is_ok r
    then prj_rows st' = filter (\<lambda>p. pr_id p \<noteq> i) (prj_rows st) \<and>
      list_ex (\<lambda>e. ev_action e = ''project.removed'' \<and> ev_target_id e = i) (audit_rows (prj_recorder st'))
    else prj_rows st' = prj_rows st"
proof (cases "project_by_id i (prj_rows st)")
  case (Inl e)
  then show ?thesis using assms by (auto simp: remove_project_def)
next
  case (Inr p)
  define ev where "ev = event_of ''project.removed'' actor ''project'' i
     [(''name'', Meta_String (pr_name p)), (''effect'', Meta_String ''registry-only'')]"
  obtain rr rec where rec: "record_event (audit_fault env) (event_uuid env) (clock env) ev (prj_recorder st) = (rr, rec)"
    by fastforce
  show ?thesis
  proof (cases rr)
    case (Inl err)
    then show ?thesis using assms Inr rec by (auto simp: remove_project_def ev_def)
  next
    case (Inr u)
    obtain stored rows where ins: "insert_event (audit_fault env) (event_uuid env) (clock env) ev
        (audit_rows (prj_recorder st)) = Inr (stored, rows)" "rec = (prj_recorder st)\<lparr>audit_rows := rows, feed := publish stored (feed (prj_recorder st))\<rparr>"
      using rec Inr by (auto simp: record_event_def split: sum.splits prod.splits)
    have t: "ev_target_id stored = i" "ev_action stored = ''project.removed''" "stored \<in> set rows"
      using ins(1) by (auto simp: insert_event_def Let_def ev_def event_of_def split: if_splits)
    have "remove_project env actor i st =
       (case delete_project (db_fault env) i (prj_rows st) of
          Inl e \<Rightarrow> (Inl e, st\<lparr>prj_recorder := rec\<rparr>)
        | Inr rows \<Rightarrow> (Inr (), st\<lparr>prj_recorder := rec, prj_rows := rows\<rparr>))"
      using \<open>project_by_id i (prj_rows st) = Inr p\<close> rec Inr
      by (simp add: remove_project_def ev_def Let_def split: sum.splits)
    then show ?thesis
      using assms t ins(2) by (auto simp: list_ex_iff dest: delete_project_Inr split: sum.splits)
  qed
qed

theorem remove_project_audited_witness:
  "prj_rows (snd (remove_project (quiet_env ''e'') ''u'' ''p1'' sample_state)) = [] \<and>
   list_ex (\<lambda>e. ev_target_id e = ''p1'') (audit_rows (prj_recorder (snd (remove_project (quiet_env ''e'') ''u'' ''p1'' sample_state))))"
proof -
  have ok: "is_ok (fst (remove_project (quiet_env ''e'') ''u'' ''p1'' sample_state))"
    by (simp add: remove_project_def project_by_id_def sample_state_def quiet_env_def record_event_def
        insert_event_def event_of_def Let_def delete_project_def)
  have "prj_rows sample_state = [p] \<Longrightarrow> pr_id p = ''p1'' \<Longrightarrow> filter (\<lambda>p. pr_id p \<noteq> ''p1'') (prj_rows sample_state) = []" for p
    by simp
  then have "filter (\<lambda>p. pr_id p \<noteq> ''p1'') (prj_rows sample_state) = []" by (simp add: sample_state_def)
  with remove_project_audited[OF prod.collapse[symmetric], of "quiet_env ''e''" "''u''" "''p1''" sample_state] ok
  show ?thesis by (auto simp only: if_True list_ex_iff)
qed

text \<open>
  Registering a project accepts exactly the paths that are absolute, and what it stores is the
  cleaned absolute path, under which no parent reference is left.
\<close>

theorem validate_project_path_spec:
  "validate_project_path path = (if rooted path then Inr (path_clean path) else Inl Invalid_Path) \<and>
   (case validate_project_path path of Inl _ \<Rightarrow> True
    | Inr clean \<Rightarrow> abs_clean clean \<and> list_all normal_seg (path_segs clean))"
proof -
  have "abs_clean (path_clean path) \<Longrightarrow> list_all normal_seg (path_segs (path_clean path))"
    by (simp add: list_all_iff abs_clean_segs)
  moreover have "rooted path \<Longrightarrow> abs_clean (path_clean path)" by (rule abs_clean_path_clean)
  moreover have "rooted path \<Longrightarrow> path \<noteq> []" by auto
  ultimately show ?thesis by (auto simp: validate_project_path_def Let_def)
qed

text \<open>
  The Compose files found in a directory are exactly its plain files with a Compose name, each
  once, in byte order; a directory that cannot be read has none.
\<close>

theorem detect_compose_files_spec:
  "set (detect_compose_files dir) =
     {n. compose_like n \<and> (case dir of None \<Rightarrow> False | Some entries \<Rightarrow> (n, False) \<in> set entries)} \<and>
   distinct (detect_compose_files dir) \<and> ordered_by str_less (detect_compose_files dir)"
proof (cases dir)
  case None
  then show ?thesis by (simp add: detect_compose_files_def)
next
  case (Some entries)
  define found where "found = map fst (filter (\<lambda>(_, is_dir). \<not> is_dir) entries)"
  have f: "n \<in> set found \<longleftrightarrow> (n, False) \<in> set entries" for n by (force simp: found_def)
  have eq: "detect_compose_files dir = sort_strings (fold (\<lambda>n files. if compose_like n then append_new n files else files)
      found (filter (\<lambda>n. n \<in> set found) known_compose_filenames))"
    by (simp add: detect_compose_files_def Some found_def Let_def)
  have "distinct known_compose_filenames" by (simp add: known_compose_filenames_def)
  then have "distinct (detect_compose_files dir)"
    unfolding eq by (intro distinct_sort_strings fold_append_new_distinct) simp
  moreover have "set (detect_compose_files dir) = {n. compose_like n \<and> (n, False) \<in> set entries}"
    using known_compose_like unfolding eq by (auto simp: fold_append_new_set f list_all_iff)
  moreover have "ordered_by str_less (detect_compose_files dir)" unfolding eq by (rule ordered_sort_strings)
  ultimately show ?thesis using Some by simp
qed

end
