(* ===== verification/Analyzer_Evidence.thy ===== *)
theory Analyzer_Evidence
  imports Project_Registry
begin

text \<open>
  The evidence the project analyzer collects (\<open>internal/projectanalyzer/service.go\<close>): services,
  secrets, configs and environment files out of decoded Compose documents, the runtime mounts
  merged into them, and SQLite files found on disk and in mounted storage. YAML decoding, the file
  system and the Docker archives are inputs.
\<close>

section \<open>Data\<close>

record mount_evidence =
  me_type :: string
  me_source :: string
  me_target :: string

record service_evidence =
  se_name :: string
  se_image :: string
  se_env :: "string list"
  se_mounts :: "mount_evidence list"

record analysis_input =
  ai_project_id :: string
  ai_services :: "service_evidence list"
  ai_secrets :: "string list"
  ai_configs :: "string list"
  ai_env_files :: "string list"
  ai_sqlite :: "string list"
  ai_warnings :: "string list"

text \<open>A decoded YAML value; \<open>Y_Scalar\<close> carries the text \<open>fmt.Sprint\<close> gives a number or a boolean.\<close>

datatype yaml =
  Y_Null | Y_String string | Y_Scalar string | Y_Seq "yaml list" | Y_Map "(string \<times> yaml) list"

record compose_service =
  cs_image :: string
  cs_environment :: yaml
  cs_volumes :: "yaml list"
  cs_secrets :: "yaml list"
  cs_configs :: "yaml list"
  cs_env_file :: yaml

record compose_document =
  cd_services :: "(string \<times> compose_service) list"
  cd_secrets :: "string list"
  cd_configs :: "string list"

section \<open>Reading a Compose service\<close>

fun sprint_yaml :: "yaml \<Rightarrow> string" where
  "sprint_yaml Y_Null = ''<nil>''"
| "sprint_yaml (Y_String s) = s"
| "sprint_yaml (Y_Scalar s) = s"
| "sprint_yaml (Y_Seq xs) = ''['' @ join (map sprint_yaml xs) '' '' @ '']''"
| "sprint_yaml (Y_Map kvs) =
     ''map['' @ join (map snd (sort_by (\<lambda>a b. str_less (fst a) (fst b))
        (map (\<lambda>kv. (fst kv, fst kv @ '':'' @ sprint_yaml (snd kv))) kvs))) '' '' @ '']''"

definition before_equals :: "string \<Rightarrow> string" where
  "before_equals s = (case index_char CHR ''='' s of Some i \<Rightarrow> take i s | None \<Rightarrow> s)"

definition environment_names :: "yaml \<Rightarrow> string list" where
  "environment_names v = unique_sorted (case v of
     Y_Map kvs \<Rightarrow> map fst kvs
   | Y_Seq items \<Rightarrow> filter (\<lambda>s. s \<noteq> []) (map (\<lambda>i. before_equals (sprint_yaml i)) items)
   | _ \<Rightarrow> [])"

definition field_string :: "string \<Rightarrow> (string \<times> yaml) list \<Rightarrow> string option" where
  "field_string k kvs = (case map_of kvs k of Some (Y_String s) \<Rightarrow> Some s | _ \<Rightarrow> None)"

definition named_field :: "string \<Rightarrow> yaml \<Rightarrow> string list" where
  "named_field k v = (case v of
     Y_String s \<Rightarrow> [s]
   | Y_Map kvs \<Rightarrow> (case field_string k kvs of Some s \<Rightarrow> [s] | None \<Rightarrow> [])
   | _ \<Rightarrow> [])"

definition reference_names :: "yaml list \<Rightarrow> string list" where
  "reference_names vs = concat (map (named_field ''source'') vs)"

definition env_file_names :: "yaml \<Rightarrow> string list" where
  "env_file_names v = (case v of
     Y_String s \<Rightarrow> [s]
   | Y_Seq items \<Rightarrow> concat (map (named_field ''path'') items)
   | _ \<Rightarrow> [])"

definition sprint_field :: "string \<Rightarrow> (string \<times> yaml) list \<Rightarrow> string" where
  "sprint_field k kvs = sprint_yaml (case map_of kvs k of Some v \<Rightarrow> v | None \<Rightarrow> Y_Null)"

definition mounts_of :: "yaml list \<Rightarrow> mount_evidence list" where
  "mounts_of vs = concat (map (\<lambda>v. case v of
     Y_String s \<Rightarrow>
       (case split_on CHR '':'' s of
          a # b # _ \<Rightarrow>
            [\<lparr>me_type = (if \<not> has_prefix a ''.'' \<and> \<not> has_prefix a ''/'' then ''volume'' else ''bind''),
              me_source = a, me_target = b\<rparr>]
        | _ \<Rightarrow> [])
   | Y_Map kvs \<Rightarrow> [\<lparr>me_type = sprint_field ''type'' kvs, me_source = sprint_field ''source'' kvs,
                   me_target = sprint_field ''target'' kvs\<rparr>]
   | _ \<Rightarrow> []) vs)"

section \<open>Merging services\<close>

definition merge_into :: "service_evidence \<Rightarrow> service_evidence \<Rightarrow> service_evidence" where
  "merge_into new old =
     old\<lparr>se_image := (if se_image old = [] then se_image new else se_image old),
         se_env := unique_sorted (se_env old @ se_env new),
         se_mounts := se_mounts old @ se_mounts new\<rparr>"

fun merge_service :: "service_evidence list \<Rightarrow> service_evidence \<Rightarrow> service_evidence list" where
  "merge_service [] new = [new]"
| "merge_service (s # ss) new =
     (if se_name s = se_name new then merge_into new s # ss else s # merge_service ss new)"

definition service_of :: "string \<times> compose_service \<Rightarrow> service_evidence" where
  "service_of ns =
     \<lparr>se_name = fst ns, se_image = cs_image (snd ns), se_env = environment_names (cs_environment (snd ns)),
      se_mounts = mounts_of (cs_volumes (snd ns))\<rparr>"

definition add_compose_service :: "string \<times> compose_service \<Rightarrow> analysis_input \<Rightarrow> analysis_input" where
  "add_compose_service ns i =
     i\<lparr>ai_services := merge_service (ai_services i) (service_of ns),
       ai_secrets := ai_secrets i @ reference_names (cs_secrets (snd ns)),
       ai_configs := ai_configs i @ reference_names (cs_configs (snd ns)),
       ai_env_files := ai_env_files i @ env_file_names (cs_env_file (snd ns))\<rparr>"

definition add_document :: "compose_document \<Rightarrow> analysis_input \<Rightarrow> analysis_input" where
  "add_document doc i =
     (let i1 = fold add_compose_service (cd_services doc) i in
      i1\<lparr>ai_secrets := ai_secrets i1 @ cd_secrets doc, ai_configs := ai_configs i1 @ cd_configs doc\<rparr>)"

text \<open>Reading one file: unreadable, or its size with what decoding it gives.\<close>

type_synonym compose_file = "(int \<times> compose_document option) option"

definition compose_path :: "string \<Rightarrow> string \<Rightarrow> string" where
  "compose_path root name = path_clean (if \<not> rooted name then path_join [root, name] else name)"

text \<open>One iteration of the loop over the Compose files: the evidence and the warnings after it.\<close>

definition read_compose :: "(string \<Rightarrow> compose_file) \<Rightarrow> string \<Rightarrow> string \<Rightarrow> analysis_input \<Rightarrow> string list
    \<Rightarrow> analysis_input \<times> string list" where
  "read_compose read root name i ws =
     (let p = compose_path root name; base = path_base p in
      if escapes_upwards (path_rel root p) then
        (i, ws @ [''A Compose file outside the registered project path was not read: '' @ base])
      else case read p of
        None \<Rightarrow> (i, ws @ [''Could not read Compose file '' @ base @ ''.''])
      | Some (bytes, decoded) \<Rightarrow>
          if bytes > 4 * 1048576 then
            (i, ws @ [''Compose file is larger than the 4 MiB analysis limit: '' @ base])
          else case decoded of
            None \<Rightarrow> (i, ws @ [''Could not parse Compose file '' @ base @ ''.''])
          | Some doc \<Rightarrow> (add_document doc i, ws))"

text \<open>The names carry whether the context is still live when the loop reaches them.\<close>

fun compose_files :: "(string \<Rightarrow> compose_file) \<Rightarrow> string \<Rightarrow> (string \<times> bool) list \<Rightarrow> analysis_input
    \<Rightarrow> string list \<Rightarrow> (analysis_input \<times> string list) \<times> bool" where
  "compose_files read root [] i ws = ((i, ws), True)"
| "compose_files read root ((name, live) # names) i ws =
     (if \<not> live then ((i, ws @ [''Analysis was cancelled.'']), False)
      else case read_compose read root name i ws of
        (i', ws') \<Rightarrow> compose_files read root names i' ws')"

text \<open>\<open>abs_root\<close> is the outcome of \<open>filepath.Abs\<close> on the registered path.\<close>

definition compose_evidence :: "(string \<Rightarrow> compose_file) \<Rightarrow> bool \<Rightarrow> string option \<Rightarrow> (string \<times> bool) list
    \<Rightarrow> analysis_input \<Rightarrow> analysis_input \<times> string list" where
  "compose_evidence read dot_env abs_root names i =
     (case abs_root of
        None \<Rightarrow> (i, [''Compose project path is unavailable; file analysis was skipped.''])
      | Some root \<Rightarrow>
          if root = [] then (i, [''Compose project path is unavailable; file analysis was skipped.''])
          else case compose_files read root names i [] of
            ((i1, ws), completed) \<Rightarrow>
              if \<not> completed then (i1, ws)
              else (i1\<lparr>ai_secrets := unique_sorted (ai_secrets i1), ai_configs := unique_sorted (ai_configs i1),
                       ai_env_files := unique_sorted (ai_env_files i1 @ (if dot_env then [''.env''] else []))\<rparr>, ws))"

definition first_text :: "string \<Rightarrow> string \<Rightarrow> string" where
  "first_text a b = (if a \<noteq> [] then a else b)"

definition runtime_service :: "container \<Rightarrow> service_evidence" where
  "runtime_service c =
     \<lparr>se_name = container_label c, se_image = ctr_image c, se_env = [],
      se_mounts = map (\<lambda>m. \<lparr>me_type = mnt_type m, me_source = first_text (mnt_name m) (mnt_source m),
                            me_target = mnt_destination m\<rparr>) (ctr_mounts c)\<rparr>"

definition merge_runtime :: "container list \<Rightarrow> analysis_input \<Rightarrow> analysis_input" where
  "merge_runtime cs i = i\<lparr>ai_services := fold (\<lambda>c ss. merge_service ss (runtime_service c)) cs (ai_services i)\<rparr>"

section \<open>SQLite files\<close>

definition sqlite_magic :: string where
  "sqlite_magic = ''SQLite format 3'' @ [char_of (0::nat)]"

text \<open>A directory tree: a link (to a directory or not), a file with the first 16 bytes it yields, a
  directory with its entries in walking order.\<close>

datatype fs_tree = T_Link | T_File "string option" | T_Dir "(string \<times> fs_tree) list"

record walk_state =
  wk_found :: "string list"
  wk_count :: int
  wk_stop :: bool

fun walk_sqlite :: "string list \<Rightarrow> fs_tree \<Rightarrow> walk_state \<Rightarrow> walk_state"
and walk_entries :: "string list \<Rightarrow> (string \<times> fs_tree) list \<Rightarrow> walk_state \<Rightarrow> walk_state" where
  "walk_sqlite rel T_Link st = st"
| "walk_sqlite rel (T_File header) st =
     (let st1 = st\<lparr>wk_count := wk_count st + 1\<rparr> in
      if wk_count st1 > 10000 then st1\<lparr>wk_stop := True\<rparr>
      else if header = Some sqlite_magic then st1\<lparr>wk_found := wk_found st1 @ [join rel ''/'']\<rparr>
      else st1)"
| "walk_sqlite rel (T_Dir entries) st =
     (if rel \<noteq> [] \<and> length rel - 1 \<ge> 6 then st else walk_entries rel entries st)"
| "walk_entries rel [] st = st"
| "walk_entries rel ((name, t) # es) st =
     (if wk_stop st then st else walk_entries rel es (walk_sqlite (rel @ [name]) t st))"

definition find_sqlite :: "string \<Rightarrow> fs_tree \<Rightarrow> string list \<Rightarrow> string list \<times> string list" where
  "find_sqlite root tree warnings =
     (if root = [] then ([], warnings)
      else let st = walk_sqlite [] tree \<lparr>wk_found = [], wk_count = 0, wk_stop = False\<rparr> in
        (unique_sorted (wk_found st),
         warnings @ (if wk_count st > 10000 then [''SQLite discovery stopped after 10,000 files.''] else [])))"

definition sqlite_candidate :: "string \<Rightarrow> bool" where
  "sqlite_candidate name =
     (let lower = to_lower name in
      has_suffix lower ''.db'' \<or> has_suffix lower ''.sqlite'' \<or> has_suffix lower ''.sqlite3'')"

text \<open>One step of reading a storage archive: an entry (regular or not, its name, the 16 bytes read
  from it), or the error that ends the stream.\<close>

datatype tar_item = Tar_Entry bool string "string option" | Tar_Broken

record storage_probe =
  sp_created :: bool
  sp_archive :: "tar_item list option"
  sp_removed :: bool

definition kind_text :: "source_kind \<Rightarrow> string" where
  "kind_text k = (case k of Source_Volume \<Rightarrow> ''volume'' | Source_Bind \<Rightarrow> ''bind'')"

fun scan_archive :: "backup_source \<Rightarrow> tar_item list \<Rightarrow> int \<Rightarrow> string list \<Rightarrow> string list
    \<Rightarrow> string list \<times> string list" where
  "scan_archive s [] n found ws = (found, ws)"
| "scan_archive s (Tar_Broken # items) n found ws =
     (found, ws @ [''Mounted storage '' @ bs_name s @ '' returned an invalid archive.''])"
| "scan_archive s (Tar_Entry regular name header # items) n found ws =
     (if n \<ge> 10000 then
        (found, ws @ [''SQLite inspection of '' @ bs_name s @ '' stopped after 10,000 entries.''])
      else if \<not> regular \<or> \<not> sqlite_candidate name then scan_archive s items (n + 1) found ws
      else if header = Some sqlite_magic then
        scan_archive s items (n + 1)
          (found @ [kind_text (bs_kind s) @ '':'' @ bs_name s @ ''/'' @ trim_prefix (path_clean name) ''./'']) ws
      else scan_archive s items (n + 1) found ws)"

fun probe_sources :: "(backup_source \<Rightarrow> storage_probe) \<Rightarrow> backup_source list \<Rightarrow> string list \<Rightarrow> string list
    \<Rightarrow> string list \<times> string list" where
  "probe_sources probe [] found ws = (unique_sorted found, ws)"
| "probe_sources probe (s # ss) found ws =
     (if \<not> backupable s then probe_sources probe ss found ws
      else if \<not> sp_created (probe s) then
        probe_sources probe ss found
          (ws @ [''Could not inspect '' @ kind_text (bs_kind s) @ '' '' @ bs_name s @ ''.''])
      else
        let (found1, ws1) = (case sp_archive (probe s) of
               None \<Rightarrow> (found, ws @ [''Could not read '' @ kind_text (bs_kind s) @ '' '' @ bs_name s @ ''.''])
             | Some items \<Rightarrow> scan_archive s items 0 found ws);
            ws2 = (if sp_removed (probe s) then ws1 else ws1 @ [''Could not remove the storage analysis helper.''])
        in probe_sources probe ss found1 ws2)"

definition find_sqlite_in_sources :: "bool option \<Rightarrow> (backup_source \<Rightarrow> storage_probe) \<Rightarrow> backup_source list
    \<Rightarrow> string list \<times> string list" where
  "find_sqlite_in_sources docker probe sources =
     (case docker of
        None \<Rightarrow> ([], [])
      | Some self_image \<Rightarrow>
          if sources = [] then ([], [])
          else if \<not> self_image then ([], [''Mounted storage could not be inspected for SQLite databases.''])
          else probe_sources probe sources [] [])"

definition artifact_names :: "string list" where
  "artifact_names = [''backup'', ''backups'', ''archive'', ''archives'', ''snapshot'', ''snapshots'']"

definition is_artifact :: "string \<Rightarrow> bool" where
  "is_artifact v =
     list_ex (\<lambda>c. c \<in> set artifact_names)
       (split_on CHR ''/'' (to_lower (map (\<lambda>c. if c = char_of (92::nat) then CHR ''/'' else c) v)))"

definition classify_sqlite_paths :: "string list \<Rightarrow> string list \<times> string list" where
  "classify_sqlite_paths paths =
     (unique_sorted (filter (\<lambda>v. \<not> is_artifact v) paths), unique_sorted (filter is_artifact paths))"

section \<open>Lemmas\<close>

lemma before_equals_no_equals: "CHR ''='' \<notin> set (before_equals s)"
proof (cases "index_char CHR ''='' s")
  case None
  then show ?thesis by (simp add: before_equals_def index_char_None)
next
  case (Some i)
  then show ?thesis using index_char_Some[OF Some] by (simp add: before_equals_def)
qed

text \<open>A list of \<open>KEY=value\<close> items contributes its keys only; no value is kept.\<close>

lemma environment_names_keys_only:
  "list_all (\<lambda>n. CHR ''='' \<notin> set n) (environment_names (Y_Seq items))"
  by (auto simp: environment_names_def list_all_iff before_equals_no_equals)

lemma compose_path_rooted: "rooted root \<Longrightarrow> rooted (compose_path root name)"
  by (cases root) (auto simp: compose_path_def path_join_two)

lemma read_compose_inside:
  assumes "rooted root" "\<And>p. prefix (path_segs root) (path_segs p) \<Longrightarrow> read p = read' p"
  shows "read_compose read root name i ws = read_compose read' root name i ws"
  using assms(2)[of "compose_path root name"] escapes_path_rel[OF compose_path_rooted[OF assms(1)], of root name]
  by (auto simp: read_compose_def Let_def)

lemma compose_files_inside:
  assumes "rooted root" "\<And>p. prefix (path_segs root) (path_segs p) \<Longrightarrow> read p = read' p"
  shows "compose_files read root names i ws = compose_files read' root names i ws"
  by (induction names arbitrary: i ws)
    (auto simp: read_compose_inside[where read = read and read' = read', OF assms] split: prod.split)

section \<open>Properties\<close>

text \<open>
  No file outside the registered project directory is read, however a Compose file is named: two
  file systems that agree below the root give the same evidence and the same warnings.
\<close>

theorem compose_evidence_confined:
  assumes "rooted root" "\<And>p. prefix (path_segs root) (path_segs p) \<Longrightarrow> read p = read' p"
  shows "compose_evidence read dot_env (Some root) names i = compose_evidence read' dot_env (Some root) names i"
  unfolding compose_evidence_def
  by (simp add: compose_files_inside[where read = read and read' = read', OF assms])

definition empty_input :: analysis_input where
  "empty_input = \<lparr>ai_project_id = [], ai_services = [], ai_secrets = [], ai_configs = [], ai_env_files = [],
     ai_sqlite = [], ai_warnings = []\<rparr>"

theorem compose_evidence_confined_witness:
  "compose_evidence (\<lambda>p. if prefix [''srv'', ''app''] (path_segs p) then None else Some (1, None)) False
     (Some ''/srv/app'') [(''../../etc/shadow'', True)] empty_input
   = compose_evidence (\<lambda>_. None) False (Some ''/srv/app'') [(''../../etc/shadow'', True)] empty_input"
proof (rule compose_evidence_confined)
  have "path_segs ''/srv/app'' = [''srv'', ''app'']" by code_simp
  then show "prefix (path_segs ''/srv/app'') (path_segs p) \<Longrightarrow>
    (if prefix [''srv'', ''app''] (path_segs p) then None else Some (1, None)) = None" for p by simp
qed simp

text \<open>
  SQLite files are split into databases and backup copies: nothing is lost and nothing is both.
\<close>

theorem classify_sqlite_partition:
  "set (fst (classify_sqlite_paths paths)) \<union> set (snd (classify_sqlite_paths paths)) = set paths - {[]} \<and>
   set (fst (classify_sqlite_paths paths)) \<inter> set (snd (classify_sqlite_paths paths)) = {} \<and>
   list_all is_artifact (snd (classify_sqlite_paths paths))"
  by (auto simp: classify_sqlite_paths_def list_all_iff)

end
