(* ===== verification/Image_Ref.thy ===== *)
theory Image_Ref
  imports Go_Strings
begin

text \<open>
  Container image references (\<open>internal/imageref/imageref.go\<close>): reducing a reference to its
  repository path, and deciding whether a path is the software a pattern names. The abstract
  specification is on path segments: a pattern names a path when its segments are the last
  segments of the path.
\<close>

section \<open>Definitions\<close>

definition normal_pattern :: "string \<Rightarrow> string" where
  "normal_pattern pattern = trim (to_lower (trim_space pattern)) ''/''"

definition matches :: "string \<Rightarrow> string \<Rightarrow> bool" where
  "matches path pattern =
     (let p = normal_pattern pattern in
      if p = [] \<or> path = [] then False
      else if path = p then True
      else has_suffix path (CHR ''/'' # p))"

fun matches_any :: "string \<Rightarrow> string list \<Rightarrow> bool" where
  "matches_any path [] = False"
| "matches_any path (p # ps) = (if matches path p then True else matches_any path ps)"

definition strip_digest :: "string \<Rightarrow> string" where
  "strip_digest img = (case index_char CHR ''@'' img of
     Some at_pos \<Rightarrow> take at_pos img
   | None \<Rightarrow> img)"

definition strip_tag :: "string \<Rightarrow> string" where
  "strip_tag img = (case last_index_char CHR ''/'' img of
     Some slash \<Rightarrow> (case index_char CHR '':'' (drop slash img) of
        Some colon \<Rightarrow> take (slash + colon) img
      | None \<Rightarrow> img)
   | None \<Rightarrow> (case index_char CHR '':'' img of
        Some colon \<Rightarrow> take colon img
      | None \<Rightarrow> img))"

definition strip_registry :: "string \<Rightarrow> string" where
  "strip_registry img = (case index_char CHR ''/'' img of
     Some slash \<Rightarrow>
       (let head = take slash img in
        if 0 < slash \<and> (contains_any_char head ''.:'' \<or> head = ''localhost'')
        then drop (Suc slash) img else img)
   | None \<Rightarrow> img)"

definition repository_path :: "string \<Rightarrow> string" where
  "repository_path img =
     (let img = to_lower (trim_space img) in
      if img = [] then []
      else trim (strip_registry (strip_tag (strip_digest img))) ''/'')"

fun repository_paths :: "string list \<Rightarrow> string list" where
  "repository_paths [] = []"
| "repository_paths (i # is) =
     (let path = repository_path i in
      if path \<noteq> [] then path # repository_paths is else repository_paths is)"

definition last_segment :: "string \<Rightarrow> string" where
  "last_segment pattern = (case last_index_char CHR ''/'' pattern of
     Some slash \<Rightarrow> drop (Suc slash) pattern
   | None \<Rightarrow> pattern)"

section \<open>The segment view\<close>

definition segments :: "string \<Rightarrow> string list" where
  "segments path = split_on CHR ''/'' path"

text \<open>The specification of matching: whole segments, anchored at the end.\<close>

definition names_software :: "string \<Rightarrow> string \<Rightarrow> bool" where
  "names_software path pattern =
     (path \<noteq> [] \<and> normal_pattern pattern \<noteq> [] \<and>
      suffix (segments (normal_pattern pattern)) (segments path))"

lemma segments_suffix_iff:
  "suffix (segments p) (segments path) \<longleftrightarrow> path = p \<or> suffix (CHR ''/'' # p) path"
proof
  assume "suffix (segments p) (segments path)"
  then obtain zs where zs: "segments path = zs @ segments p" by (auto simp: suffix_def)
  show "path = p \<or> suffix (CHR ''/'' # p) path"
  proof (cases "zs = []")
    case True
    with zs show ?thesis unfolding segments_def by (auto dest: split_on_inj)
  next
    case False
    have "path = join (zs @ segments p) ''/''"
      using zs join_split_on[of "CHR ''/''" path] unfolding segments_def by simp
    also have "\<dots> = join zs ''/'' @ CHR ''/'' # p"
      using False by (simp add: join_append segments_def)
    finally show ?thesis by (auto simp: suffix_def)
  qed
next
  assume "path = p \<or> suffix (CHR ''/'' # p) path"
  then show "suffix (segments p) (segments path)"
    by (auto simp: suffix_def segments_def split_on_append)
qed

lemma matches_any_iff: "matches_any path ps \<longleftrightarrow> (\<exists>p\<in>set ps. matches path p)"
  by (induction ps) auto

lemma set_repository_paths: "set (repository_paths is) = repository_path ` set is - {[]}"
  by (induction "is") (auto simp: Let_def)

lemma strip_digest_no_at: "CHR ''@'' \<notin> set (strip_digest s)"
  by (auto simp: strip_digest_def index_char_None dest: index_char_Some split: option.splits)

lemma set_strip_tag: "set (strip_tag s) \<subseteq> set s"
  by (auto simp: strip_tag_def dest: in_set_takeD split: option.splits)

lemma set_strip_registry: "set (strip_registry s) \<subseteq> set s"
  by (auto simp: strip_registry_def Let_def dest: in_set_dropD split: option.splits)

lemma set_trim_dest: "c \<in> set (trim s cs) \<Longrightarrow> c \<in> set s"
  using set_trim_subset by blast

lemma last_segment_alt: "last_segment s = last (segments s)"
proof (cases "last_index_char CHR ''/'' s")
  case None
  then show ?thesis
    by (simp add: last_segment_def segments_def split_on_id last_index_char_None)
next
  case (Some i)
  from last_index_char_Some[OF Some] have
    "split_on CHR ''/'' s = split_on CHR ''/'' (take i s) @ [drop (Suc i) s]"
    by (metis split_on_append split_on_id)
  with Some show ?thesis by (simp add: last_segment_def segments_def)
qed

lemma strip_tag_last_segment: "CHR '':'' \<notin> set (last_segment (strip_tag s))"
proof (cases "last_index_char CHR ''/'' s")
  case None
  then have "CHR ''/'' \<notin> set s" by (simp add: last_index_char_None)
  then have "CHR ''/'' \<notin> set (strip_tag s)" using set_strip_tag[of s] by blast
  then have "last_segment (strip_tag s) = strip_tag s"
    by (simp add: last_segment_alt segments_def split_on_id)
  with None show ?thesis
    by (auto simp: strip_tag_def index_char_None dest: index_char_Some split: option.splits)
next
  case (Some i)
  note sl = last_index_char_Some[OF Some]
  show ?thesis
  proof (cases "index_char CHR '':'' (drop i s)")
    case None
    with Some have "strip_tag s = s" by (simp add: strip_tag_def)
    moreover have "set (drop (Suc i) s) \<subseteq> set (drop i s)" by (rule set_drop_subset_set_drop) simp
    ultimately show ?thesis using Some None by (auto simp: last_segment_def index_char_None)
  next
    case (Some k)
    note k = index_char_Some[OF Some]
    have d: "drop i s = CHR ''/'' # drop (Suc i) s"
      using sl by (metis append_eq_conv_conj length_take append_take_drop_id same_append_eq
          last_index_char_less[OF \<open>last_index_char CHR ''/'' s = Some i\<close>] Cons_nth_drop_Suc
          nth_append_length min.absorb2 less_imp_le)
    have k0: "k > 0" using Some d by (cases k) auto
    have st: "strip_tag s = take i s @ CHR ''/'' # take (k - 1) (drop (Suc i) s)"
      using Some \<open>last_index_char CHR ''/'' s = Some i\<close> d k0
        take_add[of i k s]
      by (cases k) (simp_all add: strip_tag_def)
    have "CHR ''/'' \<notin> set (take (k - 1) (drop (Suc i) s))" using sl by (auto dest: in_set_takeD)
    then have "last_index_char CHR ''/'' (strip_tag s) = Some (length (take i s))"
      unfolding st by (rule last_index_char_append)
    then have "last_segment (strip_tag s) = take (k - 1) (drop (Suc i) s)"
      by (simp add: last_segment_def st)
    moreover have "CHR '':'' \<notin> set (take k (drop i s))" using k by simp
    ultimately show ?thesis using d k0 by (cases k) auto
  qed
qed

lemma last_segment_drop:
  assumes "CHR ''/'' \<in> set b" shows "last_segment (a @ b) = last_segment b"
proof -
  obtain i where i: "last_index_char CHR ''/'' b = Some i"
    using assms by (cases "last_index_char CHR ''/'' b") (auto simp: last_index_char_None)
  from last_index_char_Some[OF i] obtain u v where "b = u @ CHR ''/'' # v" and "CHR ''/'' \<notin> set v"
    by blast
  then show ?thesis
    using last_index_char_append[of "CHR ''/''" v "a @ u"] last_index_char_append[of "CHR ''/''" v u]
    by (simp add: last_segment_def)
qed

section \<open>Printing a reference\<close>

text \<open>
  A well-formed reference has an optional registry host, a repository path, an optional tag and
  an optional digest; \<open>render_ref\<close> prints it the way Docker writes it. Reducing the printed
  reference gives the repository path back.
\<close>

record image_reference =
  ref_host :: "string option"
  ref_path :: string
  ref_tag :: "string option"
  ref_digest :: "string option"

definition opt_text :: "(string \<Rightarrow> string) \<Rightarrow> string option \<Rightarrow> string" where
  "opt_text f v = (case v of None \<Rightarrow> [] | Some t \<Rightarrow> f t)"

definition render_ref :: "image_reference \<Rightarrow> string" where
  "render_ref r =
     opt_text (\<lambda>h. h @ ''/'') (ref_host r) @ ref_path r @
     opt_text (\<lambda>t. CHR '':'' # t) (ref_tag r) @ opt_text (\<lambda>d. CHR ''@'' # d) (ref_digest r)"

definition is_registry_host :: "string \<Rightarrow> bool" where
  "is_registry_host h = (h \<noteq> [] \<and> (contains_any_char h ''.:'' \<or> h = ''localhost''))"

definition plain_text :: "string \<Rightarrow> bool" where
  "plain_text s = (to_lower s = s \<and> list_all (\<lambda>c. c \<notin> set ascii_space) s)"

definition wf_ref :: "image_reference \<Rightarrow> bool" where
  "wf_ref r =
     (plain_text (render_ref r) \<and>
      ref_path r \<noteq> [] \<and> list_all (\<lambda>c. c \<noteq> CHR '':'' \<and> c \<noteq> CHR ''@'') (ref_path r) \<and>
      hd (ref_path r) \<noteq> CHR ''/'' \<and> last (ref_path r) \<noteq> CHR ''/'' \<and>
      (case ref_host r of
         Some h \<Rightarrow> is_registry_host h \<and> list_all (\<lambda>c. c \<noteq> CHR ''/'' \<and> c \<noteq> CHR ''@'') h
       | None \<Rightarrow> CHR ''/'' \<in> set (ref_path r) \<longrightarrow> \<not> is_registry_host (hd (segments (ref_path r)))) \<and>
      list_all (\<lambda>c. c \<noteq> CHR ''/'' \<and> c \<noteq> CHR ''@'') (opt_text id (ref_tag r)))"

lemma strip_digest_append: "CHR ''@'' \<notin> set a \<Longrightarrow> strip_digest (a @ opt_text (\<lambda>d. CHR ''@'' # d) v) = a"
proof (cases v)
  case (Some d)
  assume a: "CHR ''@'' \<notin> set a"
  have "index_char CHR ''@'' (a @ CHR ''@'' # d) = Some (length a)"
    using a by (induction a) auto
  with Some show ?thesis by (simp add: strip_digest_def opt_text_def)
qed (auto simp: strip_digest_def opt_text_def)

lemma index_char_append: "c \<notin> set a \<Longrightarrow> index_char c (a @ c # b) = Some (length a)"
  by (induction a) auto

text \<open>The tag is found behind the last slash, so a port in the registry host is not one.\<close>

lemma strip_tag_append:
  assumes p: "CHR '':'' \<notin> set p" and "CHR ''/'' \<notin> set (opt_text id v)"
    and h: "h = [] \<or> (\<exists>h'. h = h' @ ''/'')"
  shows "strip_tag (h @ p @ opt_text (\<lambda>t. CHR '':'' # t) v) = h @ p"
proof (cases "last_index_char CHR ''/'' (h @ p)")
  case None
  then have "CHR ''/'' \<notin> set (h @ p)" by (simp add: last_index_char_None)
  with h assms show ?thesis
    by (cases v) (auto simp: strip_tag_def opt_text_def index_char_append)
next
  case (Some i)
  from last_index_char_Some[OF Some]
  obtain u w where hp: "h @ p = u @ CHR ''/'' # w" and w: "CHR ''/'' \<notin> set w"
    by blast
  have wp: "CHR '':'' \<notin> set w"
  proof -
    have "suffix w p"
    proof (cases "h = []")
      case True
      with hp show ?thesis by (auto simp: suffix_def)
    next
      case False
      with h obtain h' where "h = h' @ ''/''" by blast
      with hp w show ?thesis
        by (auto simp: suffix_def append_eq_append_conv2 Cons_eq_append_conv append_eq_Cons_conv)
    qed
    with p show ?thesis by (auto simp: suffix_def)
  qed
  have eq: "h @ p @ opt_text (\<lambda>t. CHR '':'' # t) v = u @ CHR ''/'' # (w @ opt_text (\<lambda>t. CHR '':'' # t) v)"
    using hp by (metis append.assoc append_Cons)
  have nos: "CHR ''/'' \<notin> set (w @ opt_text (\<lambda>t. CHR '':'' # t) v)"
    using w assms(2) by (auto simp: opt_text_def split: option.splits)
  have st: "strip_tag (h @ p @ opt_text (\<lambda>t. CHR '':'' # t) v) =
      (case index_char CHR '':'' (CHR ''/'' # w @ opt_text (\<lambda>t. CHR '':'' # t) v) of
        Some colon \<Rightarrow> take (length u + colon) (u @ CHR ''/'' # (w @ opt_text (\<lambda>t. CHR '':'' # t) v))
      | None \<Rightarrow> u @ CHR ''/'' # (w @ opt_text (\<lambda>t. CHR '':'' # t) v))"
    unfolding eq strip_tag_def last_index_char_append[OF nos] by (simp del: index_char.simps)
  show ?thesis
    unfolding st using wp hp by (cases v) (auto simp: opt_text_def index_char_append)
qed

section \<open>Properties\<close>

text \<open>
  Matching is matching on whole path segments, anchored at the end: a pattern matches a
  repository path exactly when the segments of the normalised pattern are a suffix of the
  segments of the path. A neighbouring name such as \<open>mongo-express\<close> is never matched by \<open>mongo\<close>.
\<close>

theorem matches_iff_segments: "matches path pattern \<longleftrightarrow> names_software path pattern"
  by (auto simp: matches_def names_software_def Let_def has_suffix_def segments_suffix_iff)

lemma wf_ref_host:
  assumes "wf_ref r" and "ref_host r = Some h"
  shows "is_registry_host h" and "CHR ''/'' \<notin> set h" and "CHR ''@'' \<notin> set h"
  using assms unfolding wf_ref_def list_all_iff by (simp_all; blast)+

lemma wf_ref_path:
  assumes "wf_ref r"
  shows "ref_path r \<noteq> []" and "CHR '':'' \<notin> set (ref_path r)" and "CHR ''@'' \<notin> set (ref_path r)"
    and "hd (ref_path r) \<noteq> CHR ''/''" and "last (ref_path r) \<noteq> CHR ''/''"
  using assms unfolding wf_ref_def list_all_iff by blast+

lemma wf_ref_tag:
  assumes "wf_ref r"
  shows "CHR ''/'' \<notin> set (opt_text id (ref_tag r))" and "CHR ''@'' \<notin> set (opt_text id (ref_tag r))"
  using assms unfolding wf_ref_def list_all_iff by blast+

text \<open>
  Reducing a printed reference gives its repository path back: the registry host (with its
  port), the tag and the digest are dropped and nothing else, whichever of them are present.
\<close>

theorem repository_path_render:
  assumes wf: "wf_ref r"
  shows "repository_path (render_ref r) = ref_path r"
proof -
  define h where "h = opt_text (\<lambda>h. h @ ''/'') (ref_host r)"
  define p where "p = ref_path r"
  define t where "t = opt_text (\<lambda>t. CHR '':'' # t) (ref_tag r)"
  have r: "render_ref r = (h @ p @ t) @ opt_text (\<lambda>d. CHR ''@'' # d) (ref_digest r)"
    by (simp add: render_ref_def h_def p_def t_def)
  note path = wf_ref_path[OF wf, folded p_def] and tags = wf_ref_tag[OF wf]
  have "CHR ''@'' \<notin> set h"
    using wf_ref_host[OF wf] by (cases "ref_host r") (simp_all add: h_def opt_text_def)
  moreover have "CHR ''@'' \<notin> set t"
    using tags by (cases "ref_tag r") (simp_all add: t_def opt_text_def)
  ultimately have noat: "CHR ''@'' \<notin> set (h @ p @ t)" using path by simp
  have plain: "plain_text (render_ref r)" using wf by (simp add: wf_ref_def)
  have ne: "render_ref r \<noteq> []" using path by (simp add: r)
  then have sp: "trim_space (render_ref r) = render_ref r"
    using plain unfolding trim_space_def plain_text_def list_all_iff
    by (intro trim_id) simp_all
  have low: "to_lower (render_ref r) = render_ref r" using plain by (simp add: plain_text_def)
  have dig: "strip_digest (render_ref r) = h @ p @ t"
    unfolding r using noat by (rule strip_digest_append)
  have tag: "strip_tag (h @ p @ t) = h @ p"
    unfolding t_def
  proof (rule strip_tag_append)
    show "CHR '':'' \<notin> set p" by (rule path)
    show "CHR ''/'' \<notin> set (opt_text id (ref_tag r))" by (rule tags)
    show "h = [] \<or> (\<exists>h'. h = h' @ ''/'')" by (cases "ref_host r") (auto simp: h_def opt_text_def)
  qed
  have reg: "strip_registry (h @ p) = p"
  proof (cases "ref_host r")
    case (Some host)
    with wf_ref_host[OF wf this] show ?thesis
      by (auto simp: h_def opt_text_def strip_registry_def index_char_append Let_def
          is_registry_host_def)
  next
    case None
    show ?thesis
    proof (cases "index_char CHR ''/'' p")
      case (Some i)
      note i = index_char_Some[OF Some]
      then have "segments p = take i p # segments (drop (Suc i) p)"
        unfolding segments_def using split_on_append[of "CHR ''/''" "take i p" "drop (Suc i) p"]
        by (simp add: split_on_id)
      moreover have "CHR ''/'' \<in> set p" using i by (metis in_set_conv_decomp)
      ultimately have "\<not> is_registry_host (take i p)" using None wf by (simp add: wf_ref_def p_def)
      then show ?thesis
        using Some None path by (auto simp: h_def opt_text_def strip_registry_def Let_def is_registry_host_def)
    qed (simp add: None h_def opt_text_def strip_registry_def)
  qed
  have "repository_path (render_ref r) = trim p ''/''"
    using ne unfolding repository_path_def Let_def sp low dig tag reg by simp
  also have "\<dots> = p" using path by (intro trim_id) simp_all
  finally show ?thesis by (simp add: p_def)
qed

theorem repository_path_render_witness:
  "repository_path ''ghcr.io:5000/immich-app/immich-server:v2.7.5@sha256:ab'' = ''immich-app/immich-server''"
proof -
  let ?r = "\<lparr>ref_host = Some ''ghcr.io:5000'', ref_path = ''immich-app/immich-server'',
             ref_tag = Some ''v2.7.5'', ref_digest = Some ''sha256:ab''\<rparr>"
  have "wf_ref ?r" by code_simp
  from repository_path_render[OF this] show ?thesis
    by (simp add: render_ref_def opt_text_def)
qed

end
