(* ===== verification/Role_Assignment.thy ===== *)
theory Role_Assignment
  imports Image_Ref
begin

text \<open>
  The assignment of images to template roles (\<open>assign\<close> in
  \<open>internal/protectionblueprints/match.go\<close>): Kuhn's augmenting-path bipartite matching with the
  shared \<open>visited\<close> slice and the two index slices \<open>roleOf\<close> and \<open>assigned\<close>. The code's -1 is
  \<open>None\<close>. The closure \<open>augment\<close> is bounded by fuel: every recursive call visits a new image, so
  one unit more than the number of images is enough (\<open>assign_state_total\<close>).
\<close>

section \<open>The code\<close>

record aug_state =
  visited :: "bool list"
  role_of :: "nat option list"
  assigned :: "nat option list"

definition hold :: "nat \<Rightarrow> nat \<Rightarrow> aug_state \<Rightarrow> aug_state" where
  "hold role index st =
     st\<lparr>role_of := (role_of st)[index := Some role], assigned := (assigned st)[role := Some index]\<rparr>"

definition visit :: "nat \<Rightarrow> aug_state \<Rightarrow> aug_state" where
  "visit index st = st\<lparr>visited := (visited st)[index := True]\<rparr>"

fun augment :: "nat \<Rightarrow> string list \<Rightarrow> string list list \<Rightarrow> nat \<Rightarrow> aug_state \<Rightarrow> (bool \<times> aug_state) option"
and augment_loop :: "nat \<Rightarrow> string list \<Rightarrow> string list list \<Rightarrow> nat \<Rightarrow> nat list \<Rightarrow> aug_state
    \<Rightarrow> (bool \<times> aug_state) option" where
  "augment 0 images groups role st = None"
| "augment (Suc fuel) images groups role st =
     augment_loop fuel images groups role [0..<length images] st"
| "augment_loop fuel images groups role [] st = Some (False, st)"
| "augment_loop fuel images groups role (index # rest) st =
     (if visited st ! index \<or> \<not> matches_any (images ! index) (groups ! role)
      then augment_loop fuel images groups role rest st
      else (let st1 = visit index st in
        case role_of st1 ! index of
          None \<Rightarrow> Some (True, hold role index st1)
        | Some holder \<Rightarrow>
            (case augment fuel images groups holder st1 of
               None \<Rightarrow> None
             | Some (moved, st2) \<Rightarrow>
                 if moved then Some (True, hold role index st2)
                 else augment_loop fuel images groups role rest st2)))"

fun assign_loop :: "string list \<Rightarrow> string list list \<Rightarrow> nat list \<Rightarrow> aug_state \<Rightarrow> bool
    \<Rightarrow> (aug_state \<times> bool) option" where
  "assign_loop images groups [] st complete = Some (st, complete)"
| "assign_loop images groups (role # rest) st complete =
     (case augment (Suc (length images)) images groups role
             (st\<lparr>visited := replicate (length images) False\<rparr>) of
        None \<Rightarrow> None
      | Some (found, st') \<Rightarrow> assign_loop images groups rest st' (if found then complete else False))"

definition assign_state :: "string list \<Rightarrow> string list list \<Rightarrow> (aug_state \<times> bool) option" where
  "assign_state images groups =
     assign_loop images groups [0..<length groups]
       \<lparr>visited = replicate (length images) False,
        role_of = replicate (length images) None,
        assigned = replicate (length groups) None\<rparr> True"

definition assign :: "string list \<Rightarrow> string list list \<Rightarrow> nat option list \<times> bool" where
  "assign images groups = (case assign_state images groups of
     Some (st, complete) \<Rightarrow> (assigned st, complete)
   | None \<Rightarrow> ([], False))"

section \<open>The abstract problem\<close>

definition fills :: "string list \<Rightarrow> string list list \<Rightarrow> nat \<Rightarrow> nat \<Rightarrow> bool" where
  "fills images groups index role =
     (index < length images \<and> matches_any (images ! index) (groups ! role))"

text \<open>A complete assignment: every role filled, by an image that matches it, no image twice.\<close>

definition assignable :: "string list \<Rightarrow> string list list \<Rightarrow> bool" where
  "assignable images groups =
     (\<exists>f. inj_on f {..<length groups} \<and> (\<forall>r<length groups. fills images groups (f r) r))"

section \<open>Invariants of the augmenting search\<close>

definition seen :: "aug_state \<Rightarrow> nat set" where
  "seen st = {i. i < length (visited st) \<and> visited st ! i}"

definition sized :: "string list \<Rightarrow> string list list \<Rightarrow> aug_state \<Rightarrow> bool" where
  "sized images groups st =
     (length (visited st) = length images \<and> length (role_of st) = length images \<and>
      length (assigned st) = length groups)"

definition holders :: "aug_state \<Rightarrow> nat \<Rightarrow> nat set" where
  "holders st role = {i. i < length (role_of st) \<and> role_of st ! i = Some role}"

text \<open>\<open>roleOf\<close> and \<open>assigned\<close> are inverse to each other, except for the images of \<open>stale\<close>, whose
  old holder has just been moved to another image.\<close>

definition linked :: "string list \<Rightarrow> string list list \<Rightarrow> aug_state \<Rightarrow> nat set \<Rightarrow> bool" where
  "linked images groups st stale =
     ((\<forall>i<length images. \<forall>r. i \<notin> stale \<longrightarrow> role_of st ! i = Some r \<longrightarrow>
         r < length groups \<and> assigned st ! r = Some i \<and> fills images groups i r) \<and>
      (\<forall>r<length groups. \<forall>i. assigned st ! r = Some i \<longrightarrow>
         i < length images \<and> role_of st ! i = Some r \<and> i \<notin> stale))"

definition covered :: "aug_state \<Rightarrow> nat set" where
  "covered st = {r. r < length (assigned st) \<and> assigned st ! r \<noteq> None}"

lemma visit_simps [simp]:
  "role_of (visit i st) = role_of st" "assigned (visit i st) = assigned st"
  "visited (visit i st) = (visited st)[i := True]"
  by (simp_all add: visit_def)

lemma hold_simps [simp]:
  "role_of (hold r i st) = (role_of st)[i := Some r]"
  "assigned (hold r i st) = (assigned st)[r := Some i]"
  "visited (hold r i st) = visited st"
  by (simp_all add: hold_def)

lemma seen_visit [simp]: "i < length (visited st) \<Longrightarrow> seen (visit i st) = insert i (seen st)"
  by (auto simp: seen_def nth_list_update)

lemma seen_hold [simp]: "seen (hold r i st) = seen st"
  by (simp add: seen_def)

lemma sized_visit [simp]: "sized images groups (visit i st) = sized images groups st"
  by (simp add: sized_def)

lemma sized_hold [simp]: "sized images groups (hold r i st) = sized images groups st"
  by (simp add: sized_def)

lemma linked_visit [simp]: "linked images groups (visit i st) S = linked images groups st S"
  by (simp add: linked_def)

lemma holders_visit [simp]: "holders (visit i st) r = holders st r"
  by (simp add: holders_def)

lemma finite_seen [simp]: "finite (seen st)"
  by (simp add: seen_def)

text \<open>What a search from \<open>role\<close> guarantees, started in \<open>st\<close> and ended in \<open>st'\<close>.\<close>

definition moved_ok :: "string list \<Rightarrow> string list list \<Rightarrow> nat \<Rightarrow> aug_state \<Rightarrow> aug_state \<Rightarrow> bool" where
  "moved_ok images groups role st st' =
     (sized images groups st' \<and> seen st \<subseteq> seen st' \<and>
      linked images groups st' (holders st role) \<and>
      covered st' = insert role (covered st) \<and>
      (\<forall>i\<in>seen st. role_of st' ! i = role_of st ! i) \<and>
      (\<forall>r. r < length groups \<longrightarrow> r \<noteq> role \<longrightarrow> holders st r \<subseteq> seen st \<longrightarrow>
         assigned st' ! r = assigned st ! r))"

definition stuck_ok :: "string list \<Rightarrow> string list list \<Rightarrow> nat \<Rightarrow> nat set \<Rightarrow> aug_state \<Rightarrow> aug_state \<Rightarrow> bool" where
  "stuck_ok images groups role tried st st' =
     (sized images groups st' \<and> seen st \<subseteq> seen st' \<and>
      role_of st' = role_of st \<and> assigned st' = assigned st \<and>
      (\<forall>i\<in>tried. fills images groups i role \<longrightarrow> i \<in> seen st') \<and>
      (\<forall>i\<in>seen st' - seen st. \<exists>h. role_of st ! i = Some h \<and>
         (\<forall>j. fills images groups j h \<longrightarrow> j \<in> seen st')))"

definition search_ok :: "string list \<Rightarrow> string list list \<Rightarrow> nat \<Rightarrow> nat set \<Rightarrow> aug_state
    \<Rightarrow> bool \<times> aug_state \<Rightarrow> bool" where
  "search_ok images groups role tried st res =
     (if fst res then moved_ok images groups role st (snd res)
      else stuck_ok images groups role tried st (snd res))"

definition search_pre :: "string list \<Rightarrow> string list list \<Rightarrow> nat \<Rightarrow> aug_state \<Rightarrow> bool" where
  "search_pre images groups role st =
     (sized images groups st \<and> linked images groups st {} \<and> role < length groups \<and>
      holders st role \<subseteq> seen st)"

lemma linkedI:
  assumes "\<And>i r. i < length images \<Longrightarrow> i \<notin> S \<Longrightarrow> role_of st ! i = Some r \<Longrightarrow>
      r < length groups \<and> assigned st ! r = Some i \<and> fills images groups i r"
    and "\<And>r i. r < length groups \<Longrightarrow> assigned st ! r = Some i \<Longrightarrow>
      i < length images \<and> role_of st ! i = Some r \<and> i \<notin> S"
  shows "linked images groups st S"
proof -
  have "\<forall>i<length images. \<forall>r. i \<notin> S \<longrightarrow> role_of st ! i = Some r \<longrightarrow>
      r < length groups \<and> assigned st ! r = Some i \<and> fills images groups i r"
    by (intro allI impI; rule assms(1); assumption)
  moreover have "\<forall>r<length groups. \<forall>i. assigned st ! r = Some i \<longrightarrow>
      i < length images \<and> role_of st ! i = Some r \<and> i \<notin> S"
    by (intro allI impI; rule assms(2); assumption)
  ultimately show ?thesis unfolding linked_def by (rule conjI)
qed

lemma linked_role:
  assumes "linked images groups st S" and "i < length images" and "i \<notin> S" and "role_of st ! i = Some r"
  shows "r < length groups" and "assigned st ! r = Some i" and "fills images groups i r"
  using assms unfolding linked_def by blast+

lemma linked_assigned:
  assumes "linked images groups st S" and "r < length groups" and "assigned st ! r = Some i"
  shows "i < length images" and "role_of st ! i = Some r" and "i \<notin> S"
  using assms unfolding linked_def by blast+

lemma linked_holders:
  assumes lk: "linked images groups st {}" and sz: "sized images groups st"
    and i: "i < length images" and held: "role_of st ! i = Some r"
  shows "holders st r = {i}"
proof -
  have a: "assigned st ! r = Some i" using linked_role[OF lk i _ held] by simp
  have uniq: "j = i" if "j < length images" "role_of st ! j = Some r" for j
    using linked_role(2)[OF lk that(1) _ that(2)] a by simp
  have "holders st r \<subseteq> {i}"
  proof
    fix j assume "j \<in> holders st r"
    then have "j < length images" and "role_of st ! j = Some r"
      using sz by (simp_all add: holders_def sized_def)
    then show "j \<in> {i}" using uniq by simp
  qed
  moreover have "i \<in> holders st r" using i held sz by (simp add: holders_def sized_def)
  ultimately show ?thesis by blast
qed

lemma search_preD:
  assumes "search_pre images groups role st"
  shows "sized images groups st" and "linked images groups st {}" and "role < length groups"
    and "holders st role \<subseteq> seen st"
  using assms by (simp_all add: search_pre_def)

text \<open>A free image: the role takes it.\<close>

lemma take_free:
  assumes pre: "search_pre images groups role st" and i: "i < length images"
    and f: "fills images groups i role" and ns: "i \<notin> seen st" and free: "role_of st ! i = None"
  shows "moved_ok images groups role st (hold role i (visit i st))"
proof -
  from pre have sz: "sized images groups st" and lk: "linked images groups st {}"
    and rl: "role < length groups" and hs: "holders st role \<subseteq> seen st"
    by (auto simp: search_pre_def)
  have notin: "i \<notin> holders st role" using free by (auto simp: holders_def)
  have "linked images groups (hold role i (visit i st)) (holders st role)"
  proof (rule linkedI)
    fix y r assume y: "y < length images" "y \<notin> holders st role"
      "role_of (hold role i (visit i st)) ! y = Some r"
    show "r < length groups \<and> assigned (hold role i (visit i st)) ! r = Some y \<and> fills images groups y r"
    proof (cases "y = i")
      case True
      then show ?thesis using y f rl sz by (simp add: sized_def)
    next
      case False
      with y have "role_of st ! y = Some r" by simp
      moreover from this have "r \<noteq> role" using y sz by (auto simp: holders_def sized_def)
      ultimately show ?thesis using linked_role[OF lk y(1)] by simp
    qed
  next
    fix r y assume r: "r < length groups" "assigned (hold role i (visit i st)) ! r = Some y"
    show "y < length images \<and> role_of (hold role i (visit i st)) ! y = Some r \<and> y \<notin> holders st role"
    proof (cases "r = role")
      case True
      then show ?thesis using r rl sz i notin by (simp add: sized_def)
    next
      case False
      with r have "assigned st ! r = Some y" by simp
      from linked_assigned[OF lk r(1) this] False free show ?thesis
        by (cases "y = i") (simp_all add: holders_def)
    qed
  qed
  moreover have "covered (hold role i (visit i st)) = insert role (covered st)"
    using sz rl by (auto simp: covered_def sized_def nth_list_update)
  moreover have "\<forall>j\<in>seen st. role_of (hold role i (visit i st)) ! j = role_of st ! j"
    using ns by (metis hold_simps(1) visit_simps(1) nth_list_update_neq)
  ultimately show ?thesis
    using sz rl i by (auto simp: moved_ok_def sized_def)
qed

text \<open>A held image whose holder could be moved: the role takes it over.\<close>

lemma take_over:
  assumes pre: "search_pre images groups role st" and i: "i < length images"
    and f: "fills images groups i role" and ns: "i \<notin> seen st" and held: "role_of st ! i = Some h"
    and mv: "moved_ok images groups h (visit i st) st2"
  shows "moved_ok images groups role st (hold role i st2)"
proof -
  from pre have sz: "sized images groups st" and lk: "linked images groups st {}"
    and rl: "role < length groups" and hs: "holders st role \<subseteq> seen st"
    by (auto simp: search_pre_def)
  have hl: "h < length groups" "assigned st ! h = Some i" using linked_role[OF lk i _ held] by simp_all
  have hh: "holders st h = {i}" using lk sz i held by (rule linked_holders)
  have hr: "h \<noteq> role" using hs held ns i sz by (auto simp: holders_def sized_def)
  have iv: "i < length (visited st)" using i sz by (simp add: sized_def)
  from mv iv have sz2: "sized images groups st2" and sub: "insert i (seen st) \<subseteq> seen st2"
    and lk2: "linked images groups st2 {i}" and cov: "covered st2 = insert h (covered st)"
    and keep: "\<forall>j\<in>insert i (seen st). role_of st2 ! j = role_of st ! j"
    and frame: "\<forall>r<length groups. r \<noteq> h \<longrightarrow> holders st r \<subseteq> insert i (seen st) \<longrightarrow>
                  assigned st2 ! r = assigned st ! r"
    unfolding moved_ok_def by (simp_all add: hh covered_def)
  have unl: "assigned st2 ! role = assigned st ! role" using frame rl hr hs by auto
  have stale: "\<forall>x\<in>holders st role. role_of st2 ! x = Some role"
    using keep hs by (auto simp: holders_def)
  have notin: "i \<notin> holders st role" using hs ns by blast
  have inv: "y \<in> holders st role" if "assigned st ! role = Some y" for y
    using linked_assigned[OF lk rl that] sz by (simp add: holders_def sized_def)
  have "linked images groups (hold role i st2) (holders st role)"
  proof (rule linkedI)
    fix y r
    assume y: "y < length images" "y \<notin> holders st role" "role_of (hold role i st2) ! y = Some r"
    show "r < length groups \<and> assigned (hold role i st2) ! r = Some y \<and> fills images groups y r"
    proof (cases "y = i")
      case True
      then show ?thesis using y f rl sz2 i by (simp add: sized_def)
    next
      case False
      with y have ry: "role_of st2 ! y = Some r" by simp
      from False have "y \<notin> {i}" by simp
      note r = linked_role[OF lk2 y(1) this ry]
      have "r \<noteq> role" using r unl inv y by metis
      with r show ?thesis by simp
    qed
  next
    fix r y
    assume r: "r < length groups" "assigned (hold role i st2) ! r = Some y"
    show "y < length images \<and> role_of (hold role i st2) ! y = Some r \<and> y \<notin> holders st role"
    proof (cases "r = role")
      case True
      with r rl sz2 have "y = i" by (simp add: sized_def)
      with True show ?thesis using i notin sz2 by (simp add: sized_def)
    next
      case False
      with r have "assigned st2 ! r = Some y" by simp
      note y = linked_assigned[OF lk2 r(1) this]
      have "y \<notin> holders st role" using stale False y by auto
      with y show ?thesis by simp
    qed
  qed
  moreover have "covered (hold role i st2) = insert role (covered st)"
  proof -
    have "h \<in> covered st" using hl sz by (simp add: covered_def sized_def)
    with cov have "covered st2 = covered st" by (simp add: insert_absorb)
    then show ?thesis using rl sz2 by (auto simp: covered_def sized_def nth_list_update split: if_splits)
  qed
  moreover have "\<forall>r<length groups. r \<noteq> role \<longrightarrow> holders st r \<subseteq> seen st \<longrightarrow>
      assigned (hold role i st2) ! r = assigned st ! r"
  proof (intro allI impI)
    fix r assume r: "r < length groups" "r \<noteq> role" "holders st r \<subseteq> seen st"
    then have "r \<noteq> h" using hh ns by auto
    with frame r show "assigned (hold role i st2) ! r = assigned st ! r" by auto
  qed
  moreover have "\<forall>j\<in>seen st. role_of (hold role i st2) ! j = role_of st ! j"
    using keep ns by (metis hold_simps(1) insertCI nth_list_update_neq)
  ultimately show ?thesis
    using sz2 sub unfolding moved_ok_def by simp
qed

text \<open>Continuing after a stuck recursive call.\<close>

lemma stuck_seen: "stuck_ok images groups role T st st' \<Longrightarrow> seen st \<subseteq> seen st'"
  by (simp add: stuck_ok_def)

lemma stuck_pre:
  assumes "search_pre images groups role st" and "sized images groups st'"
    and "role_of st' = role_of st" and "assigned st' = assigned st" and "seen st \<subseteq> seen st'"
  shows "search_pre images groups role st'"
proof -
  have "linked images groups st' {} = linked images groups st {}"
    by (simp add: linked_def assms)
  moreover have "holders st' role = holders st role" by (simp add: holders_def assms)
  ultimately show ?thesis using assms by (auto simp: search_pre_def)
qed

lemma inner_pre:
  assumes pre: "search_pre images groups role st" and i: "i < length images"
    and held: "role_of st ! i = Some h"
  shows "search_pre images groups h (visit i st)"
proof -
  from pre have sz: "sized images groups st" and lk: "linked images groups st {}"
    by (auto simp: search_pre_def)
  have "h < length groups" using linked_role[OF lk i _ held] by simp
  moreover have "holders st h = {i}" using lk sz i held by (rule linked_holders)
  ultimately show ?thesis using sz lk i by (simp add: search_pre_def sized_def)
qed

lemma moved_ok_compose:
  assumes "role_of st1 = role_of st" and "assigned st1 = assigned st" and "seen st \<subseteq> seen st1"
    and "moved_ok images groups role st1 st'"
  shows "moved_ok images groups role st st'"
  using assms unfolding moved_ok_def holders_def covered_def by auto

lemma stuck_ok_compose:
  assumes i: "i < length images" and iv: "i < length (visited st)"
    and held: "role_of st ! i = Some h"
    and inner: "stuck_ok images groups h UNIV (visit i st) st2"
    and outer: "stuck_ok images groups role T st2 st'"
  shows "stuck_ok images groups role (insert i T) st st'"
proof -
  have sub: "insert i (seen st) \<subseteq> seen st2" "seen st2 \<subseteq> seen st'"
    using inner outer iv by (auto simp: stuck_ok_def)
  have ro: "role_of st2 = role_of st" "assigned st2 = assigned st"
    using inner by (auto simp: stuck_ok_def)
  have "\<exists>h. role_of st ! j = Some h \<and> (\<forall>k. fills images groups k h \<longrightarrow> k \<in> seen st')"
    if j: "j \<in> seen st' - seen st" for j
  proof -
    consider "j \<in> seen st' - seen st2" | "j \<in> seen st2 - insert i (seen st)" | "j = i"
      using j by blast
    then show ?thesis
    proof cases
      case 1
      then show ?thesis using outer ro by (auto simp: stuck_ok_def)
    next
      case 2
      then have "\<exists>h. role_of st ! j = Some h \<and> (\<forall>k. fills images groups k h \<longrightarrow> k \<in> seen st2)"
        using inner iv unfolding stuck_ok_def by simp
      then show ?thesis using sub by blast
    next
      case 3
      have "\<forall>k. fills images groups k h \<longrightarrow> k \<in> seen st2" using inner by (simp add: stuck_ok_def)
      then show ?thesis using 3 held sub by blast
    qed
  qed
  then show ?thesis
    using outer sub ro by (auto simp: stuck_ok_def)
qed

section \<open>Correctness of the search\<close>

lemma stuck_ok_insert:
  assumes "stuck_ok images groups role T st st'" and "i \<in> seen st \<or> \<not> fills images groups i role"
  shows "stuck_ok images groups role (insert i T) st st'"
  using assms by (auto simp: stuck_ok_def)

lemma fills_iff: "i < length images \<Longrightarrow> fills images groups i r \<longleftrightarrow> matches_any (images ! i) (groups ! r)"
  by (simp add: fills_def)

lemma seen_iff: "sized images groups st \<Longrightarrow> i < length images \<Longrightarrow> i \<in> seen st \<longleftrightarrow> visited st ! i"
  by (simp add: seen_def sized_def)

lemma stuck_ok_all:
  "stuck_ok images groups role {..<length images} st st' \<Longrightarrow> stuck_ok images groups role UNIV st st'"
  by (auto simp: stuck_ok_def fills_def)

lemma augment_ok:
  "search_pre images groups role st \<Longrightarrow> augment fuel images groups role st = Some res \<Longrightarrow>
     search_ok images groups role UNIV st res"
  and augment_loop_ok:
  "search_pre images groups role st \<Longrightarrow> set is \<subseteq> {..<length images} \<Longrightarrow>
     augment_loop fuel images groups role is st = Some res \<Longrightarrow>
     search_ok images groups role (set is) st res"
proof (induction fuel images groups role st and fuel images groups role "is" st
    arbitrary: res and res rule: augment_augment_loop.induct)
  case (1 images groups role st)
  then show ?case by simp
next
  case (2 fuel images groups role st)
  then have "search_ok images groups role (set [0..<length images]) st res" by (simp add: atLeast0LessThan)
  then show ?case by (auto simp: search_ok_def atLeast0LessThan stuck_ok_all split: if_splits)
next
  case (3 fuel images groups role st)
  then show ?case by (auto simp: search_ok_def stuck_ok_def search_pre_def)
next
  case (4 fuel images groups role i rest st)
  note pre = 4(4) and sz = search_preD(1)[OF 4(4)]
  from 4(5) have i: "i < length images" and rest: "set rest \<subseteq> {..<length images}" by auto
  show ?case
  proof (cases "visited st ! i \<or> \<not> matches_any (images ! i) (groups ! role)")
    case True
    with 4 rest have "search_ok images groups role (set rest) st res" by simp
    moreover have "i \<in> seen st \<or> \<not> fills images groups i role"
      using True sz i by (simp add: fills_iff seen_iff)
    ultimately show ?thesis by (auto simp: search_ok_def stuck_ok_insert split: if_splits)
  next
    case new: False
    then have f: "fills images groups i role" and ns: "i \<notin> seen st"
      using sz i by (simp_all add: fills_iff seen_iff)
    show ?thesis
    proof (cases "role_of st ! i")
      case None
      then have "res = (True, hold role i (visit i st))" using 4(6) new by simp
      with take_free[OF pre i f ns None] show ?thesis by (simp add: search_ok_def)
    next
      case (Some h)
      obtain moved st2 where inner: "augment fuel images groups h (visit i st) = Some (moved, st2)"
        using 4(6) new Some by (auto split: option.splits)
      note ih = 4(2)[OF new refl _ inner_pre[OF pre i Some] inner]
      show ?thesis
      proof (cases moved)
        case True
        then have "res = (True, hold role i st2)" using 4(6) new Some inner by simp
        moreover have "moved_ok images groups h (visit i st) st2"
          using ih Some True by (simp add: search_ok_def)
        ultimately show ?thesis using take_over[OF pre i f ns Some] by (simp add: search_ok_def)
      next
        case False
        then have loop: "augment_loop fuel images groups role rest st2 = Some res"
          using 4(6) new Some inner by simp
        have st2: "stuck_ok images groups h UNIV (visit i st) st2"
          using ih Some False by (simp add: search_ok_def)
        have iv: "i < length (visited st)" using sz i by (simp add: sized_def)
        have keep: "sized images groups st2" "role_of st2 = role_of st" "assigned st2 = assigned st"
          "seen st \<subseteq> seen st2"
          using st2 iv by (auto simp: stuck_ok_def)
        have "search_ok images groups role (set rest) st2 res"
          using 4(3)[OF new refl _ inner refl] Some False stuck_pre[OF pre keep] rest loop by simp
        then show ?thesis
          using moved_ok_compose[OF keep(2,3,4)] stuck_ok_compose[OF i iv Some st2]
          by (auto simp: search_ok_def split: if_splits)
      qed
    qed
  qed
qed

text \<open>Enough fuel: a search with more fuel than unseen images returns.\<close>

definition unseen :: "string list \<Rightarrow> aug_state \<Rightarrow> nat" where
  "unseen images st = card ({..<length images} - seen st)"

lemma unseen_visit:
  assumes "sized images groups st" and "i < length images" and "i \<notin> seen st"
  shows "Suc (unseen images (visit i st)) = unseen images st"
proof -
  have "{..<length images} - seen (visit i st) = ({..<length images} - seen st) - {i}"
    using assms by (auto simp: sized_def)
  moreover have "i \<in> {..<length images} - seen st" using assms by simp
  ultimately show ?thesis unfolding unseen_def by (metis card_Suc_Diff1 finite_Diff finite_lessThan)
qed

lemma unseen_mono: "seen st \<subseteq> seen st' \<Longrightarrow> unseen images st' \<le> unseen images st"
  unfolding unseen_def by (intro card_mono) auto

lemma augment_returns:
  "search_pre images groups role st \<Longrightarrow> unseen images st < fuel \<Longrightarrow>
     \<exists>res. augment fuel images groups role st = Some res"
  and augment_loop_returns:
  "search_pre images groups role st \<Longrightarrow> unseen images st \<le> fuel \<Longrightarrow> set is \<subseteq> {..<length images} \<Longrightarrow>
     \<exists>res. augment_loop fuel images groups role is st = Some res"
proof (induction fuel images groups role st and fuel images groups role "is" st
    rule: augment_augment_loop.induct)
  case (1 images groups role st)
  then show ?case by simp
next
  case (2 fuel images groups role st)
  then show ?case by (simp add: atLeast0LessThan)
next
  case (3 fuel images groups role st)
  then show ?case by auto
next
  case (4 fuel images groups role i rest st)
  note pre = 4(4) and sz = search_preD(1)[OF 4(4)]
  from 4(6) have i: "i < length images" and rest: "set rest \<subseteq> {..<length images}" by auto
  show ?case
  proof (cases "visited st ! i \<or> \<not> matches_any (images ! i) (groups ! role)")
    case True
    with 4 rest show ?thesis by simp
  next
    case new: False
    then have ns: "i \<notin> seen st" using sz i by (simp add: seen_iff)
    have fuel: "unseen images (visit i st) < fuel" using unseen_visit[OF sz i ns] 4(5) by simp
    show ?thesis
    proof (cases "role_of st ! i")
      case None
      then show ?thesis using new by auto
    next
      case (Some h)
      obtain moved st2 where inner: "augment fuel images groups h (visit i st) = Some (moved, st2)"
        using 4(2)[OF new refl _ inner_pre[OF pre i Some] fuel] Some by auto
      have ok: "search_ok images groups h UNIV (visit i st) (moved, st2)"
        using augment_ok inner_pre[OF pre i Some] inner by blast
      show ?thesis
      proof (cases moved)
        case True
        then show ?thesis using new Some inner by auto
      next
        case False
        have iv: "i < length (visited st)" using sz i by (simp add: sized_def)
        have keep: "sized images groups st2" "role_of st2 = role_of st" "assigned st2 = assigned st"
          "seen st \<subseteq> seen st2"
          using ok False iv by (auto simp: search_ok_def stuck_ok_def)
        have "unseen images st2 \<le> fuel" using unseen_mono[OF keep(4), of images] 4(5) by simp
        then show ?thesis
          using 4(3)[OF new refl _ inner refl] Some False stuck_pre[OF pre keep] rest new inner by simp
      qed
    qed
  qed
qed

section \<open>Correctness of the assignment\<close>

definition round_inv :: "string list \<Rightarrow> string list list \<Rightarrow> nat \<Rightarrow> aug_state \<Rightarrow> bool" where
  "round_inv images groups k st =
     (sized images groups st \<and> linked images groups st {} \<and> covered st \<subseteq> {..<k})"

definition fresh :: "string list \<Rightarrow> aug_state \<Rightarrow> aug_state" where
  "fresh images st = st\<lparr>visited := replicate (length images) False\<rparr>"

lemma fresh_simps [simp]:
  "role_of (fresh images st) = role_of st" "assigned (fresh images st) = assigned st"
  "seen (fresh images st) = {}"
  "covered (fresh images st) = covered st" "holders (fresh images st) r = holders st r"
  by (simp_all add: fresh_def seen_def covered_def holders_def)

lemma fresh_inv [simp]:
  "linked images groups (fresh images st) S = linked images groups st S"
  "sized images groups st \<Longrightarrow> sized images groups (fresh images st)"
  by (simp_all add: linked_def sized_def fresh_def)

lemma uncovered_no_holder:
  assumes "sized images groups st" and lk: "linked images groups st {}" and "k \<notin> covered st"
    and "k < length groups"
  shows "holders st k = {}"
  using assms linked_role[OF lk] by (fastforce simp: holders_def sized_def covered_def)

text \<open>A stuck search is a Hall violator: the roles reached want only the images seen, and there is
  one role more than images.\<close>

lemma stuck_no_assignment:
  assumes sz: "sized images groups st" and lk: "linked images groups st {}"
    and k: "k < length groups" and free: "holders st k = {}"
    and stuck: "stuck_ok images groups k UNIV (fresh images st) st'"
  shows "\<not> assignable images groups"
proof
  assume "assignable images groups"
  then obtain f where inj: "inj_on f {..<length groups}"
    and f: "\<forall>r<length groups. fills images groups (f r) r" unfolding assignable_def by blast
  define W where "W = seen st'"
  define H where "H = (\<lambda>i. the (role_of st ! i)) ` W"
  have W: "\<And>i. i \<in> W \<Longrightarrow> \<exists>h. role_of st ! i = Some h \<and> (\<forall>j. fills images groups j h \<longrightarrow> j \<in> W)"
    and Wk: "\<And>i. fills images groups i k \<Longrightarrow> i \<in> W"
    using stuck unfolding stuck_ok_def W_def by simp_all
  have Wn: "W \<subseteq> {..<length images}"
    using stuck by (auto simp: W_def seen_def stuck_ok_def sized_def)
  have hold: "the (role_of st ! i) < length groups \<and> assigned st ! the (role_of st ! i) = Some i"
    if "i \<in> W" for i
    using W[OF that] linked_role[OF lk, of i] Wn that by auto
  have "inj_on (\<lambda>i. the (role_of st ! i)) W"
    using hold by (intro inj_onI) (metis option.inject)
  then have cH: "card H = card W" unfolding H_def by (rule card_image)
  have kH: "k \<notin> H"
  proof
    assume "k \<in> H"
    then obtain i where i: "i \<in> W" "k = the (role_of st ! i)" by (auto simp: H_def)
    then have "role_of st ! i = Some k" using W[OF i(1)] by auto
    then have "i \<in> holders st k" using i Wn sz by (auto simp: holders_def sized_def)
    with free show False by simp
  qed
  have sub: "insert k H \<subseteq> {..<length groups}" using hold k by (auto simp: H_def)
  have "f ` insert k H \<subseteq> W"
  proof
    fix x assume "x \<in> f ` insert k H"
    then obtain r where r: "r \<in> insert k H" "x = f r" by blast
    then have "fills images groups x r" using f sub by blast
    then show "x \<in> W" using r Wk W unfolding H_def by fastforce
  qed
  then have "card (f ` insert k H) \<le> card W" unfolding W_def by (intro card_mono) simp_all
  moreover have "card (f ` insert k H) = card (insert k H)"
    by (rule card_image[OF inj_on_subset[OF inj sub]])
  moreover have "card (insert k H) = Suc (card W)"
    using kH cH by (simp add: H_def W_def)
  ultimately show False by simp
qed

lemma assign_loop_ok:
  assumes "round_inv images groups k st" and "k + length rest \<le> length groups"
    and "rest = [k..<k + length rest]"
  shows "\<exists>st' c. assign_loop images groups rest st complete = Some (st', c) \<and>
      sized images groups st' \<and> linked images groups st' {} \<and>
      (c \<longrightarrow> complete \<and> covered st' = covered st \<union> set rest) \<and>
      (\<not> c \<longrightarrow> \<not> complete \<or> \<not> assignable images groups)"
  using assms
proof (induction rest arbitrary: k st complete)
  case Nil
  then show ?case by (auto simp: round_inv_def)
next
  case (Cons r rest)
  from Cons.prems(3) have r: "r = k" and rest: "rest = [Suc k..<Suc k + length rest]"
    by (simp_all add: upt_rec)
  have k: "k < length groups" using Cons.prems(2) by simp
  from Cons.prems(1) have sz: "sized images groups st" and lk: "linked images groups st {}"
    and cv: "covered st \<subseteq> {..<k}" by (simp_all add: round_inv_def)
  have free: "holders st k = {}" using uncovered_no_holder[OF sz lk _ k] cv by auto
  let ?s = "fresh images st"
  have pre: "search_pre images groups k ?s" using sz lk k free by (simp add: search_pre_def)
  have "unseen images ?s < Suc (length images)" by (simp add: unseen_def)
  then obtain found s' where s': "augment (Suc (length images)) images groups k ?s = Some (found, s')"
    using augment_returns[OF pre] by fastforce
  have ok: "search_ok images groups k UNIV ?s (found, s')" using augment_ok[OF pre s'] .
  have step: "assign_loop images groups (r # rest) st complete =
      assign_loop images groups rest s' (if found then complete else False)"
    using s' by (simp add: r fresh_def)
  have inv': "round_inv images groups (Suc k) s'"
  proof (cases found)
    case True
    then show ?thesis
      using ok cv free by (auto simp: search_ok_def moved_ok_def round_inv_def)
  next
    case False
    then have s: "sized images groups s'" "role_of s' = role_of st" "assigned s' = assigned st"
      using ok by (simp_all add: search_ok_def stuck_ok_def)
    then have "covered s' = covered st" and "linked images groups s' {} = linked images groups st {}"
      by (simp_all add: covered_def linked_def)
    with s lk cv show ?thesis by (auto simp: round_inv_def)
  qed
  have "covered s' = (if found then insert k (covered st) else covered st)"
  proof (cases found)
    case True
    then show ?thesis using ok by (simp add: search_ok_def moved_ok_def)
  next
    case False
    then show ?thesis using ok by (simp add: search_ok_def stuck_ok_def covered_def)
  qed
  moreover have "\<not> found \<Longrightarrow> \<not> assignable images groups"
    using ok stuck_no_assignment[OF sz lk k free] by (simp add: search_ok_def)
  ultimately show ?case
    using Cons.IH[OF inv' _ rest, of "if found then complete else False"] Cons.prems(2) r
    unfolding step by (auto split: if_splits)
qed

lemma assign_state_total:
  "\<exists>st c. assign_state images groups = Some (st, c) \<and> sized images groups st \<and>
     linked images groups st {} \<and>
     (c \<longrightarrow> covered st = {..<length groups}) \<and> (\<not> c \<longrightarrow> \<not> assignable images groups)"
proof -
  let ?st = "\<lparr>visited = replicate (length images) False, role_of = replicate (length images) None,
              assigned = replicate (length groups) None\<rparr>"
  have "round_inv images groups 0 ?st"
    by (auto simp: round_inv_def sized_def linked_def covered_def)
  moreover have "covered ?st = {}" by (auto simp: covered_def)
  ultimately show ?thesis
    using assign_loop_ok[of images groups 0 ?st "[0..<length groups]" True]
    unfolding assign_state_def by (auto simp: atLeast0LessThan)
qed

lemma assign_assigned:
  assumes "assign images groups = (roles, c)"
  shows "\<exists>st. roles = assigned st \<and> sized images groups st \<and> linked images groups st {} \<and>
    (c \<longrightarrow> covered st = {..<length groups}) \<and> (\<not> c \<longrightarrow> \<not> assignable images groups)"
proof -
  obtain st c' where st: "assign_state images groups = Some (st, c')" "sized images groups st"
    "linked images groups st {}" "c' \<longrightarrow> covered st = {..<length groups}"
    "\<not> c' \<longrightarrow> \<not> assignable images groups"
    using assign_state_total by blast
  with assms have "roles = assigned st" "c = c'" by (simp_all add: assign_def)
  with st show ?thesis by blast
qed

section \<open>Properties\<close>

text \<open>
  The assignment is a matching: the slice has one entry per role, a role's image is in range
  and matches the role, and no image fills two roles, also when the assignment is incomplete.
\<close>

theorem assign_is_matching:
  assumes "assign images groups = (roles, complete)"
  shows "length roles = length groups \<and>
    (\<forall>r<length groups. \<forall>i. roles ! r = Some i \<longrightarrow> fills images groups i r) \<and>
    (\<forall>r<length groups. \<forall>r'<length groups. \<forall>i. roles ! r = Some i \<longrightarrow> roles ! r' = Some i \<longrightarrow> r = r')"
proof -
  obtain st where st: "roles = assigned st" "sized images groups st" "linked images groups st {}"
    using assign_assigned[OF assms] by blast
  have held: "role_of st ! i = Some r \<and> fills images groups i r"
    if "r < length groups" "roles ! r = Some i" for r i
  proof -
    note a = linked_assigned[OF st(3) that(1) that(2)[unfolded st(1)]]
    with linked_role(3)[OF st(3) a(1) a(3) a(2)] show ?thesis by simp
  qed
  have "r = r'" if "r < length groups" "r' < length groups" "roles ! r = Some i" "roles ! r' = Some i"
    for r r' i
    using held[OF that(1,3)] held[OF that(2,4)] by simp
  moreover have "length roles = length groups" using st by (simp add: sized_def)
  ultimately show ?thesis using held by blast
qed

theorem assign_is_matching_witness:
  "assign [''a/mongo'', ''x/redis''] [[''redis'', ''mongo''], [''mongo'']] = ([Some 1, Some 0], True) \<and>
   fills [''a/mongo'', ''x/redis''] [[''redis'', ''mongo''], [''mongo'']] 1 0"
proof -
  have "assign [''a/mongo'', ''x/redis''] [[''redis'', ''mongo''], [''mongo'']] = ([Some 1, Some 0], True)"
    by code_simp
  from assign_is_matching[OF this] this show ?thesis by auto
qed

text \<open>The matching found is maximal.\<close>

lemma assign_covers: "snd (assign images groups) \<longleftrightarrow> assignable images groups"
proof -
  obtain roles c where rc: "assign images groups = (roles, c)" by fastforce
  obtain st where st: "roles = assigned st" "sized images groups st" "linked images groups st {}"
    "c \<longrightarrow> covered st = {..<length groups}" "\<not> c \<longrightarrow> \<not> assignable images groups"
    using assign_assigned[OF rc] by blast
  have "assignable images groups" if c
  proof -
    define f where "f r = the (assigned st ! r)" for r
    have r: "assigned st ! r = Some (f r)" if "r < length groups" for r
    proof -
      have "r \<in> covered st" using st(4) \<open>c\<close> that by simp
      then show ?thesis unfolding covered_def f_def by auto
    qed
    have held: "role_of st ! f r = Some r \<and> fills images groups (f r) r" if "r < length groups" for r
    proof -
      note a = linked_assigned[OF st(3) that r[OF that]]
      with linked_role(3)[OF st(3) a(1) a(3) a(2)] show ?thesis by simp
    qed
    have "inj_on f {..<length groups}"
    proof (rule inj_onI)
      fix x y assume "x \<in> {..<length groups}" "y \<in> {..<length groups}" "f x = f y"
      then have "role_of st ! f y = Some x" "role_of st ! f y = Some y" using held by fastforce+
      then show "x = y" by simp
    qed
    with held show ?thesis unfolding assignable_def by blast
  qed
  with st(5) rc show ?thesis by auto
qed

text \<open>
  C10. The matcher is complete where a greedy pass is not: it reports every role filled exactly when
  some assignment of distinct matching images to all the roles exists, whatever the order of images.
\<close>

theorem assign_complete_iff: "snd (assign images groups) \<longleftrightarrow> assignable images groups"
  by (rule assign_covers)

end
