(* ===== verification/Blueprint_Match.thy ===== *)
theory Blueprint_Match
  imports Role_Assignment Go_Sort
begin

text \<open>
  The protection template catalog (\<open>internal/protectionblueprints\<close>): the template record, the
  validation that loading the catalog performs, the matching of one template against the images
  and technologies of a project, and the ranking of the matches. The YAML decoder is a parameter:
  \<open>load_builtin\<close> receives, per catalog file, either a decoding error or the decoded document.
\<close>

section \<open>Data\<close>

record tpl_metadata =
  tm_id :: string
  tm_name :: string
  tm_version :: string
  tm_category :: string
  tm_upstream :: string
  tm_tags :: "string list"

record tpl_match =
  required_image_groups :: "string list list"
  optional_image_groups :: "string list list"
  required_technologies :: "string list"
  optional_technologies :: "string list"

record tpl_plan =
  tp_classification :: string
  tp_consistency :: string
  tp_required_data :: "string list"
  tp_database_strategy :: "string list"
  tp_include_hints :: "string list"
  tp_exclude_hints :: "string list"
  tp_warnings :: "string list"
  tp_restore_checks :: "string list"

record template =
  tpl_api_version :: string
  tpl_kind :: string
  tpl_metadata :: tpl_metadata
  tpl_match :: tpl_match
  tpl_plan :: tpl_plan

record catalog_document =
  doc_schema_version :: int
  doc_templates :: "template list"

datatype catalog_error =
  Decode_Failed string
| Unsupported_Schema string int
| Unsupported_Kind string
| Invalid_Metadata
| No_Required_Evidence string
| Empty_Group string
| Invalid_Pattern string
| Tagged_Pattern string string
| Duplicate_Id string

record match_result =
  mr_template_id :: string
  mr_name :: string
  mr_version :: string
  mr_category :: string
  mr_score :: nat
  mr_matched :: "string list"
  mr_missing :: "string list"
  mr_plan :: tpl_plan

section \<open>Loading and validating the catalog\<close>

abbreviation template_id :: "template \<Rightarrow> string" where
  "template_id t \<equiv> tm_id (tpl_metadata t)"

definition catalog_schema_version :: int where
  "catalog_schema_version = 1"

definition id_rune :: "nat \<Rightarrow> bool" where
  "id_rune r = (\<not> ((r < 97 \<or> r > 122) \<and> (r < 48 \<or> r > 57) \<and> r \<noteq> 45))"

definition valid_id :: "string \<Rightarrow> bool" where
  "valid_id value = (if value = [] \<or> length value > 80 then False
                     else list_all id_rune (runes value))"

definition check_pattern :: "string \<Rightarrow> string \<Rightarrow> (catalog_error, unit) result" where
  "check_pattern tid pattern =
     (if trim_space pattern = [] \<or> contains_any_char pattern (map char_of [32::nat, 9, 13, 10])
      then Inl (Invalid_Pattern tid)
      else if contains_any_char (last_segment pattern) '':@'' then Inl (Tagged_Pattern tid pattern)
      else Inr ())"

fun check_patterns :: "string \<Rightarrow> string list \<Rightarrow> (catalog_error, unit) result" where
  "check_patterns tid [] = Inr ()"
| "check_patterns tid (p # ps) = bind_result (check_pattern tid p) (\<lambda>_. check_patterns tid ps)"

fun check_groups :: "string \<Rightarrow> string list list \<Rightarrow> (catalog_error, unit) result" where
  "check_groups tid [] = Inr ()"
| "check_groups tid (g # gs) =
     (if g = [] then Inl (Empty_Group tid)
      else bind_result (check_patterns tid g) (\<lambda>_. check_groups tid gs))"

definition validate_template :: "template \<Rightarrow> (catalog_error, unit) result" where
  "validate_template t =
     (let tid = tm_id (tpl_metadata t) in
      if tpl_api_version t \<noteq> ''back-orbit.io/v1alpha1'' \<or> tpl_kind t \<noteq> ''ProtectionTemplate''
      then Inl (Unsupported_Kind tid)
      else if \<not> valid_id tid \<or> trim_space (tm_name (tpl_metadata t)) = [] \<or>
              trim_space (tm_version (tpl_metadata t)) = []
      then Inl Invalid_Metadata
      else if length (required_image_groups (tpl_match t)) = 0
      then Inl (No_Required_Evidence tid)
      else check_groups tid (required_image_groups (tpl_match t) @ optional_image_groups (tpl_match t)))"

fun load_templates :: "template list \<Rightarrow> template list \<Rightarrow> (catalog_error, template list) result" where
  "load_templates [] all = Inr all"
| "load_templates (t # ts) all =
     bind_result (validate_template t)
       (\<lambda>_. if tm_id (tpl_metadata t) \<in> set (map template_id all)
             then Inl (Duplicate_Id (tm_id (tpl_metadata t)))
             else load_templates ts (all @ [t]))"

fun load_documents :: "(string \<times> (string, catalog_document) result) list \<Rightarrow> template list
    \<Rightarrow> (catalog_error, template list) result" where
  "load_documents [] all = Inr all"
| "load_documents ((name, Inl e) # docs) all = Inl (Decode_Failed name)"
| "load_documents ((name, Inr doc) # docs) all =
     (if doc_schema_version doc \<noteq> catalog_schema_version
      then Inl (Unsupported_Schema name (doc_schema_version doc))
      else bind_result (load_templates (doc_templates doc) all) (load_documents docs))"

definition load_builtin :: "(string \<times> (string, catalog_document) result) list
    \<Rightarrow> (catalog_error, template list) result" where
  "load_builtin docs =
     bind_result (load_documents docs [])
       (\<lambda>all. Inr (sort_by (\<lambda>a b. str_less (tm_id (tpl_metadata a)) (tm_id (tpl_metadata b))) all))"

section \<open>Matching one template\<close>

fun normalize_values :: "string list \<Rightarrow> string list" where
  "normalize_values [] = []"
| "normalize_values (v # vs) =
     (let w = to_lower (trim_space v) in
      if w \<noteq> [] then w # normalize_values vs else normalize_values vs)"

definition contains_value :: "string list \<Rightarrow> string \<Rightarrow> bool" where
  "contains_value values wanted = (to_lower (trim_space wanted) \<in> set values)"

fun any_image_matches :: "string list \<Rightarrow> string list \<Rightarrow> bool" where
  "any_image_matches [] patterns = False"
| "any_image_matches (p # ps) patterns =
     (if matches_any p patterns then True else any_image_matches ps patterns)"

definition role_label :: "string list \<Rightarrow> string" where
  "role_label g = ''required image role: '' @ join g '' or ''"

fun require_technologies :: "string list \<Rightarrow> string list \<Rightarrow> match_result \<Rightarrow> match_result option" where
  "require_technologies technologies [] r = Some r"
| "require_technologies technologies (t # ts) r =
     (if \<not> contains_value technologies t then None
      else require_technologies technologies ts
             (r\<lparr>mr_matched := mr_matched r @ [''required technology: '' @ t]\<rparr>))"

text \<open>One pass over an optional list: its label function, its test, and the counters.\<close>

fun optional_pass :: "('a \<Rightarrow> string) \<Rightarrow> ('a \<Rightarrow> bool) \<Rightarrow> 'a list \<Rightarrow> nat \<times> nat \<times> match_result
    \<Rightarrow> nat \<times> nat \<times> match_result" where
  "optional_pass label present [] acc = acc"
| "optional_pass label present (x # xs) (optional, found, r) =
     (if present x
      then optional_pass label present xs
             (Suc optional, Suc found, r\<lparr>mr_matched := mr_matched r @ [label x]\<rparr>)
      else optional_pass label present xs
             (Suc optional, found, r\<lparr>mr_missing := mr_missing r @ [label x]\<rparr>))"

fun label_roles :: "nat option list \<Rightarrow> string list list \<Rightarrow> match_result \<Rightarrow> match_result" where
  "label_roles (a # as) (g # gs) r =
     label_roles as gs
       (if a \<noteq> None then r\<lparr>mr_matched := mr_matched r @ [role_label g]\<rparr>
        else r\<lparr>mr_missing := mr_missing r @ [role_label g]\<rparr>)"
| "label_roles _ _ r = r"

definition match_template :: "template \<Rightarrow> string list \<Rightarrow> string list \<Rightarrow> match_result option" where
  "match_template t images technologies =
     (let m = tpl_match t;
          r0 = \<lparr>mr_template_id = tm_id (tpl_metadata t), mr_name = tm_name (tpl_metadata t),
                mr_version = tm_version (tpl_metadata t), mr_category = tm_category (tpl_metadata t),
                mr_score = 0, mr_matched = [], mr_missing = [], mr_plan = tpl_plan t\<rparr>;
          (roles, complete) = assign images (required_image_groups m);
          r1 = label_roles roles (required_image_groups m) r0
      in if \<not> complete then None
         else case require_technologies technologies (required_technologies m) r1 of
           None \<Rightarrow> None
         | Some r2 \<Rightarrow>
             (let (optional, found, r3) =
                    optional_pass (\<lambda>t. ''optional technology: '' @ t) (contains_value technologies)
                      (optional_technologies m)
                      (optional_pass (\<lambda>g. ''optional image: '' @ join g '' or '')
                        (any_image_matches images) (optional_image_groups m) (0, 0, r2));
                  required = length (required_image_groups m) + length (required_technologies m);
                  total = required + optional
              in Some (r3\<lparr>mr_score := if 0 < total then (required + found) * 100 div total else 100\<rparr>)))"

section \<open>Matching the catalog\<close>

definition result_less :: "match_result \<Rightarrow> match_result \<Rightarrow> bool" where
  "result_less a b =
     (if length (mr_matched a) \<noteq> length (mr_matched b)
      then length (mr_matched a) > length (mr_matched b)
      else if mr_score a \<noteq> mr_score b then mr_score a > mr_score b
      else str_less (mr_template_id a) (mr_template_id b))"

definition match_catalog :: "template list \<Rightarrow> string list \<Rightarrow> string list \<Rightarrow> match_result list" where
  "match_catalog templates images technologies =
     (let paths = repository_paths images; techs = normalize_values technologies in
      sort_by result_less
        (concat (map (\<lambda>t. case match_template t paths techs of Some r \<Rightarrow> [r] | None \<Rightarrow> []) templates)))"

section \<open>Lemmas\<close>

lemma weak_order_result_less: "weak_order result_less"
  unfolding weak_order_def result_less_def
  by (smt (verit, best) str_less_asym str_less_linear str_less_trans not_less_iff_gr_or_eq
      order_less_trans)

lemma optional_pass_eq:
  "optional_pass label present xs (n, k, r) =
     (n + length xs, k + length (filter present xs),
      r\<lparr>mr_matched := mr_matched r @ map label (filter present xs),
        mr_missing := mr_missing r @ map label (filter (\<lambda>x. \<not> present x) xs)\<rparr>)"
  by (induction xs arbitrary: n k r) auto

lemma require_technologies_eq:
  "require_technologies techs ts r =
     (if list_all (contains_value techs) ts
      then Some (r\<lparr>mr_matched := mr_matched r @ map (\<lambda>t. ''required technology: '' @ t) ts\<rparr>)
      else None)"
  by (induction ts arbitrary: r) auto

lemma label_roles_full:
  "length roles = length gs \<Longrightarrow> (\<forall>a\<in>set roles. a \<noteq> None) \<Longrightarrow>
     label_roles roles gs r = r\<lparr>mr_matched := mr_matched r @ map role_label gs\<rparr>"
  by (induction roles gs r rule: label_roles.induct) auto

lemma assign_full:
  assumes "assign images groups = (roles, True)"
  shows "length roles = length groups" and "\<forall>a\<in>set roles. a \<noteq> None"
proof -
  obtain st where st: "roles = assigned st" "sized images groups st" "covered st = {..<length groups}"
    using assign_assigned[OF assms] by blast
  then show len: "length roles = length groups" by (simp add: sized_def)
  show "\<forall>a\<in>set roles. a \<noteq> None"
  proof
    fix a assume "a \<in> set roles"
    then obtain i where i: "i < length roles" "roles ! i = a" by (auto simp: in_set_conv_nth)
    then have "i \<in> covered st" using st(3) len by simp
    with i st(1) show "a \<noteq> None" by (simp add: covered_def)
  qed
qed

text \<open>The result of an eligible template, in closed form.\<close>

definition optional_hits :: "template \<Rightarrow> string list \<Rightarrow> string list \<Rightarrow> nat" where
  "optional_hits t images techs =
     length (filter (any_image_matches images) (optional_image_groups (tpl_match t))) +
     length (filter (contains_value techs) (optional_technologies (tpl_match t)))"

definition optional_size :: "template \<Rightarrow> nat" where
  "optional_size t = length (optional_image_groups (tpl_match t)) + length (optional_technologies (tpl_match t))"

definition required_size :: "template \<Rightarrow> nat" where
  "required_size t = length (required_image_groups (tpl_match t)) + length (required_technologies (tpl_match t))"

lemma match_template_Some:
  assumes "match_template t images techs = Some r"
  shows "snd (assign images (required_image_groups (tpl_match t)))"
    and "list_all (contains_value techs) (required_technologies (tpl_match t))"
    and "mr_template_id r = tm_id (tpl_metadata t)"
    and "mr_score r = (if 0 < required_size t + optional_size t
           then (required_size t + optional_hits t images techs) * 100 div (required_size t + optional_size t)
           else 100)"
    and "length (mr_matched r) = required_size t + optional_hits t images techs"
    and "length (mr_missing r) = optional_size t - optional_hits t images techs"
proof -
  let ?m = "tpl_match t"
  obtain roles where as: "assign images (required_image_groups ?m) = (roles, True)"
    using assms by (cases "assign images (required_image_groups ?m)")
      (auto simp: match_template_def Let_def split: if_splits)
  note full = assign_full[OF as]
  show "snd (assign images (required_image_groups ?m))" by (simp add: as)
  show "list_all (contains_value techs) (required_technologies ?m)"
    using assms by (simp add: match_template_def Let_def as require_technologies_eq split: if_splits)
  note eval = match_template_def Let_def as require_technologies_eq optional_pass_eq
      label_roles_full[OF full] optional_hits_def optional_size_def required_size_def
  show "mr_template_id r = tm_id (tpl_metadata t)" using assms by (auto simp: eval split: if_splits)
  show "mr_score r = (if 0 < required_size t + optional_size t
           then (required_size t + optional_hits t images techs) * 100 div (required_size t + optional_size t)
           else 100)"
    using assms by (auto simp: eval add.assoc split: if_splits)
  show "length (mr_matched r) = required_size t + optional_hits t images techs"
    using assms by (auto simp: eval split: if_splits)
  have "length (filter P xs) + length (filter (\<lambda>x. \<not> P x) xs) = length xs" for P and xs :: "'z list"
    by (rule sum_length_filter_compl)
  from this[of "any_image_matches images" "optional_image_groups ?m"]
    sum_length_filter_compl[of "contains_value techs" "optional_technologies ?m"]
  show "length (mr_missing r) = optional_size t - optional_hits t images techs"
    using assms by (auto simp: eval split: if_splits)
qed

lemma match_template_eligible:
  "(\<exists>r. match_template t images techs = Some r) \<longleftrightarrow>
     assignable images (required_image_groups (tpl_match t)) \<and>
     list_all (contains_value techs) (required_technologies (tpl_match t))"
proof (cases "assign images (required_image_groups (tpl_match t))")
  case (Pair roles c)
  then have c: "c = assignable images (required_image_groups (tpl_match t))"
    using assign_covers[of images "required_image_groups (tpl_match t)"] by simp
  show ?thesis
    by (auto simp: match_template_def Let_def Pair c[symmetric] require_technologies_eq optional_pass_eq)
qed

lemma optional_hits_le: "optional_hits t images techs \<le> optional_size t"
  unfolding optional_hits_def optional_size_def by (intro add_mono) simp_all

section \<open>Properties\<close>

text \<open>
  Eligibility: a template matches exactly when every required role can be filled by an image of
  its own and every required technology is evidenced. Optional hints never manufacture a match and
  never prevent one.
\<close>

theorem match_template_eligible_iff:
  "match_template t images techs \<noteq> None \<longleftrightarrow>
     assignable images (required_image_groups (tpl_match t)) \<and>
     list_all (contains_value techs) (required_technologies (tpl_match t))"
  using match_template_eligible[of t images techs] by auto

text \<open>
  The score of a match is between 0 and 100, and it is 100 exactly when nothing the template
  describes is missing; what is matched and what is missing together are the whole template.
\<close>

theorem match_score_meaning:
  assumes m: "match_template t images techs = Some r"
  shows "mr_score r \<le> 100 \<and> (mr_score r = 100 \<longleftrightarrow> mr_missing r = []) \<and>
    length (mr_matched r) + length (mr_missing r) = required_size t + optional_size t"
proof -
  let ?q = "required_size t" and ?f = "optional_hits t images techs" and ?o = "optional_size t"
  note r = match_template_Some[OF m]
  have fo: "?f \<le> ?o" by (rule optional_hits_le)
  have "(?q + ?f) * 100 div (?q + ?o) \<le> 100" if "0 < ?q + ?o"
  proof -
    have "(?q + ?f) * 100 div (?q + ?o) \<le> (?q + ?o) * 100 div (?q + ?o)"
      using fo by (intro div_le_mono) simp
    also have "\<dots> = 100" using that by (metis nonzero_mult_div_cancel_left less_irrefl)
    finally show ?thesis .
  qed
  moreover have "(?q + ?f) * 100 div (?q + ?o) = 100 \<longleftrightarrow> ?f = ?o" if pos: "0 < ?q + ?o"
  proof
    assume "(?q + ?f) * 100 div (?q + ?o) = 100"
    then have "100 * (?q + ?o) \<le> (?q + ?f) * 100" by (metis div_times_less_eq_dividend)
    then show "?f = ?o" using fo by simp
  next
    assume "?f = ?o"
    then show "(?q + ?f) * 100 div (?q + ?o) = 100"
      using pos nonzero_mult_div_cancel_left[of "?q + ?o" "100::nat"] by simp
  qed
  moreover have "mr_missing r = [] \<longleftrightarrow> ?f = ?o" using r(6) fo by (metis diff_is_0_eq' le_antisym length_0_conv order_refl diff_is_0_eq)
  moreover have "?q + ?o = 0 \<Longrightarrow> ?f = ?o" using fo by simp
  ultimately show ?thesis using r(4,5,6) fo by (cases "0 < ?q + ?o") auto
qed

definition immich_template :: template where
  "immich_template =
     \<lparr>tpl_api_version = ''back-orbit.io/v1alpha1'', tpl_kind = ''ProtectionTemplate'',
      tpl_metadata = \<lparr>tm_id = ''immich'', tm_name = ''Immich'', tm_version = ''1'', tm_category = ''photos'',
        tm_upstream = [], tm_tags = []\<rparr>,
      tpl_match = \<lparr>required_image_groups = [[''immich-server''], [''postgres'']],
        optional_image_groups = [[''redis'', ''valkey'']],
        required_technologies = [''postgresql''], optional_technologies = []\<rparr>,
      tpl_plan = \<lparr>tp_classification = [], tp_consistency = [], tp_required_data = [],
        tp_database_strategy = [], tp_include_hints = [], tp_exclude_hints = [], tp_warnings = [],
        tp_restore_checks = []\<rparr>\<rparr>"

theorem match_score_meaning_witness:
  "\<exists>r. match_template immich_template [''immich-app/immich-server'', ''immich-app/postgres''] [''postgresql''] = Some r
     \<and> mr_score r = 75 \<and> mr_missing r \<noteq> []"
proof -
  let ?images = "[''immich-app/immich-server'', ''immich-app/postgres'']"
  have "map_option mr_score (match_template immich_template ?images [''postgresql'']) = Some 75"
    by code_simp
  then obtain r where r: "match_template immich_template ?images [''postgresql''] = Some r" "mr_score r = 75"
    by auto
  from match_score_meaning[OF r(1)] r show ?thesis by auto
qed

text \<open>
  The catalog match lists exactly the results of the eligible templates, and ranks them: no
  result is preceded by a less specific one, or by an equally specific one with a lower score.
\<close>

theorem match_catalog_ranked:
  "set (match_catalog templates images technologies) =
     {r. \<exists>t\<in>set templates.
        match_template t (repository_paths images) (normalize_values technologies) = Some r} \<and>
   ordered_by result_less (match_catalog templates images technologies)"
proof
  show "set (match_catalog templates images technologies) =
     {r. \<exists>t\<in>set templates.
        match_template t (repository_paths images) (normalize_values technologies) = Some r}"
    by (auto simp: match_catalog_def Let_def split: option.splits)
  show "ordered_by result_less (match_catalog templates images technologies)"
    by (simp add: match_catalog_def Let_def ordered_sort_by weak_order_result_less)
qed

lemma check_patterns_ok:
  "check_patterns tid ps = Inr () \<longleftrightarrow> (\<forall>p\<in>set ps. check_pattern tid p = Inr ())"
proof (induction ps)
  case (Cons p ps)
  then show ?case by (cases "check_pattern tid p") (auto simp: unit_eq)
qed simp

lemma check_groups_ok:
  "check_groups tid gs = Inr () \<longleftrightarrow> (\<forall>g\<in>set gs. g \<noteq> [] \<and> (\<forall>p\<in>set g. check_pattern tid p = Inr ()))"
proof (induction gs)
  case (Cons g gs)
  then show ?case
    using check_patterns_ok[of tid g] by (cases "check_patterns tid g") (auto simp: unit_eq)
qed simp

lemma validate_template_groups:
  "validate_template t = Inr () \<Longrightarrow>
     \<forall>g\<in>set (required_image_groups (tpl_match t) @ optional_image_groups (tpl_match t)).
       g \<noteq> [] \<and> (\<forall>p\<in>set g. \<not> contains_any_char (last_segment p) '':@'')"
  by (auto simp: validate_template_def Let_def check_groups_ok check_pattern_def split: if_splits)

lemma load_templates_inv:
  "load_templates ts all = Inr all' \<Longrightarrow>
     all' = all @ ts \<and> (\<forall>t\<in>set ts. validate_template t = Inr ()) \<and>
     (distinct (map template_id all) \<longrightarrow> distinct (map template_id all'))"
proof (induction ts arbitrary: all)
  case (Cons t ts)
  have v: "validate_template t = Inr ()"
    and fresh: "tm_id (tpl_metadata t) \<notin> set (map (\<lambda>u. tm_id (tpl_metadata u)) all)"
    and rest: "load_templates ts (all @ [t]) = Inr all'"
    using Cons.prems by (auto simp: bind_result_eq_Inr split: if_splits)
  have "distinct (map template_id all) \<longrightarrow> distinct (map template_id (all @ [t]))"
    using fresh by simp
  with Cons.IH[OF rest] v show ?case by (metis append.assoc append_Cons append_Nil set_ConsD)
qed simp

lemma load_documents_inv:
  "load_documents docs all = Inr all' \<Longrightarrow> \<forall>t\<in>set all. validate_template t = Inr () \<Longrightarrow>
     distinct (map template_id all) \<Longrightarrow>
     (\<forall>t\<in>set all'. validate_template t = Inr ()) \<and> distinct (map template_id all')"
proof (induction docs arbitrary: all)
  case (Cons d docs)
  obtain name e where d: "d = (name, e)" by (cases d)
  obtain doc where e: "e = Inr doc" using Cons.prems(1) d by (cases e) auto
  obtain mid where mid: "load_templates (doc_templates doc) all = Inr mid" "load_documents docs mid = Inr all'"
    using Cons.prems(1) by (auto simp: d e bind_result_eq_Inr split: if_splits)
  note inv = load_templates_inv[OF mid(1)]
  have "\<forall>t\<in>set mid. validate_template t = Inr ()" using inv Cons.prems(2) by (metis Un_iff set_append)
  moreover have "distinct (map template_id mid)" using inv Cons.prems(3) by blast
  ultimately show ?case by (rule Cons.IH[OF mid(2)])
qed simp

text \<open>
  A catalog that loads is sound: the templates come out sorted by identifier, no identifier
  occurs twice, and every template passed validation, so no image pattern carries a tag or digest
  that could never match.
\<close>

theorem load_builtin_sound:
  assumes "load_builtin docs = Inr ts"
  shows "ordered_by (\<lambda>a b. str_less (tm_id (tpl_metadata a)) (tm_id (tpl_metadata b))) ts \<and>
    distinct (map template_id ts) \<and>
    (\<forall>t\<in>set ts. \<forall>g\<in>set (required_image_groups (tpl_match t) @ optional_image_groups (tpl_match t)).
       g \<noteq> [] \<and> (\<forall>p\<in>set g. \<not> contains_any_char (last_segment p) '':@''))"
proof -
  obtain all where all: "load_documents docs [] = Inr all"
    and ts: "ts = sort_by (\<lambda>a b. str_less (tm_id (tpl_metadata a)) (tm_id (tpl_metadata b))) all"
    using assms by (auto simp: load_builtin_def bind_result_eq_Inr)
  have ok: "\<forall>t\<in>set all. validate_template t = Inr ()" and dist: "distinct (map template_id all)"
    using load_documents_inv[OF all] by simp_all
  have "set ts = set all" by (simp add: ts)
  then have groups: "\<forall>t\<in>set ts. \<forall>g\<in>set (required_image_groups (tpl_match t) @ optional_image_groups (tpl_match t)).
       g \<noteq> [] \<and> (\<forall>p\<in>set g. \<not> contains_any_char (last_segment p) '':@'')"
    using ok validate_template_groups by metis
  have "ordered_by (\<lambda>a b. str_less (template_id a) (template_id b)) ts"
    unfolding ts by (rule ordered_sort_by[OF weak_order_str_less])
  moreover have "distinct (map template_id ts)" unfolding ts by (rule distinct_sort_by[OF dist])
  ultimately show ?thesis using groups by (intro conjI)
qed

theorem load_builtin_sound_witness:
  "\<exists>ts. load_builtin [(''immich.yaml'', Inr \<lparr>doc_schema_version = 1, doc_templates = [immich_template]\<rparr>)] = Inr ts
     \<and> distinct (map template_id ts) \<and> length ts = 1"
proof -
  have "load_builtin [(''immich.yaml'', Inr \<lparr>doc_schema_version = 1, doc_templates = [immich_template]\<rparr>)]
      = Inr [immich_template]" by code_simp
  from load_builtin_sound[OF this] this show ?thesis by simp
qed

end
