(* ===== verification/Analyzer_Detect.thy ===== *)
theory Analyzer_Detect
  imports Analyzer_Evidence Blueprint_Match
begin

text \<open>
  The detectors of the project analyzer (\<open>internal/projectanalyzer/detectors.go\<close>, \<open>types.go\<close>): the
  database signatures with the confidence their evidence earns, the storage detector and the
  detector for secrets, configs and environment files.
\<close>

section \<open>Findings\<close>

datatype confidence = Confirmed | Probable | Possible

record evidence =
  evi_source :: string
  evi_subject :: string
  evi_detail :: string

record finding =
  fd_id :: string
  fd_kind :: string
  fd_technology :: string
  fd_service :: string
  fd_confidence :: confidence
  fd_evidence :: "evidence list"
  fd_recommendation :: string
  fd_consistency :: string
  fd_warnings :: "string list"
  fd_data_mount :: "mount_evidence option"

record signature =
  sig_technology :: string
  sig_method :: string
  sig_consistency :: string
  sig_images :: "string list"
  sig_env :: "string list"
  sig_data_dirs :: "string list"
  sig_generic_dir :: bool

definition db_signature :: "string \<Rightarrow> string \<Rightarrow> string list \<Rightarrow> string list \<Rightarrow> string list \<Rightarrow> bool \<Rightarrow> signature" where
  "db_signature tech method images env dirs generic =
     \<lparr>sig_technology = tech, sig_method = method, sig_consistency = ''application-consistent'',
      sig_images = images, sig_env = env, sig_data_dirs = dirs, sig_generic_dir = generic\<rparr>"

definition database_signatures :: "signature list" where
  "database_signatures =
     [db_signature ''postgresql'' ''Create a logical dump with pg_dump before snapshotting persistent storage.''
        [''postgres'', ''timescale/timescaledb'', ''timescale/timescaledb-ha'']
        [''POSTGRES_DB'', ''POSTGRES_USER'', ''PGDATA'']
        [''/var/lib/postgresql/data'', ''/var/lib/postgresql''] False,
      db_signature ''mariadb'' ''Create a logical dump with mariadb-dump before snapshotting persistent storage.''
        [''mariadb''] [''MARIADB_DATABASE'', ''MARIADB_USER''] [''/var/lib/mysql''] False,
      db_signature ''mysql'' ''Create a logical dump with mysqldump before snapshotting persistent storage.''
        [''mysql'', ''mysql/mysql-server'', ''percona'', ''percona/percona-server'', ''percona/percona-xtradb-cluster'']
        [''MYSQL_DATABASE'', ''MYSQL_USER''] [''/var/lib/mysql''] False,
      db_signature ''mongodb'' ''Create a logical dump with mongodump; use replica-set aware options when available.''
        [''mongo'', ''mongodb/mongodb-community-server''] [''MONGO_INITDB_DATABASE'', ''MONGO_INITDB_ROOT_USERNAME'']
        [''/data/db''] False,
      db_signature ''valkey'' ''Persist data with a controlled SAVE/BGSAVE and capture the configured data directory.''
        [''valkey''] [] [''/data''] True,
      db_signature ''redis'' ''Confirm whether Redis is durable or cache-only; for durable data run a controlled BGSAVE and capture RDB/AOF files.''
        [''redis''] [] [''/data''] True]"

section \<open>The database detector\<close>

definition equal_any :: "string \<Rightarrow> string list \<Rightarrow> bool" where
  "equal_any v candidates = list_ex (equal_fold v) candidates"

definition has_any :: "string list \<Rightarrow> string list \<Rightarrow> bool" where
  "has_any values wanted = list_ex (\<lambda>v. equal_any v wanted) values"

definition data_mount_for :: "service_evidence \<Rightarrow> signature \<Rightarrow> mount_evidence option" where
  "data_mount_for svc sig =
     List.find (\<lambda>m. list_ex (\<lambda>dir. trim_suffix (me_target m) ''/'' = trim_suffix dir ''/'') (sig_data_dirs sig))
       (se_mounts svc)"

definition database_confidence :: "service_evidence \<Rightarrow> string \<Rightarrow> signature \<Rightarrow> confidence option" where
  "database_confidence svc repository sig =
     (let image_match = matches_any repository (sig_images sig); data_mount = data_mount_for svc sig in
      if image_match \<and> (data_mount \<noteq> None \<or> has_any (se_env svc) (sig_env sig)) then Some Confirmed
      else if data_mount \<noteq> None \<and> \<not> sig_generic_dir sig then Some Probable
      else if image_match then Some Possible
      else None)"

definition compose_fact :: "string \<Rightarrow> string \<Rightarrow> evidence" where
  "compose_fact subject detail = \<lparr>evi_source = ''compose'', evi_subject = subject, evi_detail = detail\<rparr>"

definition database_evidence :: "service_evidence \<Rightarrow> string \<Rightarrow> signature \<Rightarrow> evidence list" where
  "database_evidence svc repository sig =
     (if matches_any repository (sig_images sig)
      then [compose_fact (se_name svc) (''image '' @ se_image svc @ '' matches '' @ sig_technology sig)] else []) @
     (case data_mount_for svc sig of
        Some m \<Rightarrow> [compose_fact (se_name svc) (me_source m @ '' is mounted at '' @ me_target m @ '', where '' @
                    sig_technology sig @ '' keeps its data'')]
      | None \<Rightarrow> []) @
     map (\<lambda>env. compose_fact (se_name svc) (''environment key '' @ env @ '' is present''))
       (filter (\<lambda>env. equal_any env (sig_env sig)) (se_env svc))"

definition cache_only_warning :: string where
  "cache_only_warning =
     ''Persistence and cache-only intent cannot be inferred safely; confirm before enabling backup.''"

definition image_only_warning :: string where
  "image_only_warning =
     ''Only the image name suggests this. Tools such as exporters, migration jobs and backup sidecars carry the engine's name without holding its data '' @ em_dash @ '' confirm before treating this as a database.''"

definition no_data_dir_warning :: string where
  "no_data_dir_warning =
     ''No data directory for this engine was found among the declared mounts, so its files may not be captured by a storage backup at all.''"

definition database_warnings :: "signature \<Rightarrow> confidence \<Rightarrow> mount_evidence option \<Rightarrow> string list" where
  "database_warnings sig conf data_mount =
     (if sig_technology sig = ''redis'' \<or> sig_technology sig = ''valkey'' then [cache_only_warning] else []) @
     (if conf = Possible then [image_only_warning] else []) @
     (if data_mount = None \<and> conf \<noteq> Possible then [no_data_dir_warning] else [])"

definition detect_database :: "service_evidence \<Rightarrow> string \<Rightarrow> signature \<Rightarrow> finding option" where
  "detect_database svc repository sig =
     (case database_confidence svc repository sig of
        None \<Rightarrow> None
      | Some conf \<Rightarrow> Some
          \<lparr>fd_id = ''database:'' @ se_name svc @ '':'' @ sig_technology sig, fd_kind = ''database'',
           fd_technology = sig_technology sig, fd_service = se_name svc, fd_confidence = conf,
           fd_evidence = database_evidence svc repository sig, fd_recommendation = sig_method sig,
           fd_consistency = sig_consistency sig,
           fd_warnings = database_warnings sig conf (data_mount_for svc sig),
           fd_data_mount = data_mount_for svc sig\<rparr>)"

definition image_identified :: "string \<Rightarrow> bool" where
  "image_identified repository = list_ex (\<lambda>sig. matches_any repository (sig_images sig)) database_signatures"

definition service_databases :: "service_evidence \<Rightarrow> finding list" where
  "service_databases svc =
     (let repository = repository_path (se_image svc) in
      concat (map (\<lambda>sig.
        if image_identified repository \<and> \<not> matches_any repository (sig_images sig) then []
        else case detect_database svc repository sig of Some f \<Rightarrow> [f] | None \<Rightarrow> []) database_signatures))"

definition sqlite_finding :: "string \<Rightarrow> finding" where
  "sqlite_finding path =
     (let mounted = has_prefix path ''volume:'' \<or> has_prefix path ''bind:'' in
      \<lparr>fd_id = ''database:sqlite:'' @ path, fd_kind = ''database'', fd_technology = ''sqlite'', fd_service = [],
       fd_confidence = Confirmed,
       fd_evidence = [\<lparr>evi_source = (if mounted then ''mounted-storage'' else ''filesystem''), evi_subject = path,
         evi_detail = (if mounted then ''SQLite file header detected in a read-only storage inspection''
                       else ''SQLite file header detected'')\<rparr>],
       fd_recommendation = ''Use the SQLite online backup API or VACUUM INTO and include WAL/SHM handling before snapshotting.'',
       fd_consistency = ''application-consistent'', fd_warnings = [], fd_data_mount = None\<rparr>)"

fun keep_first :: "string list \<Rightarrow> finding list \<Rightarrow> finding list" where
  "keep_first seen_ids [] = []"
| "keep_first seen_ids (f # fs) =
     (if fd_id f \<in> set seen_ids then keep_first seen_ids fs else f # keep_first (fd_id f # seen_ids) fs)"

definition finding_less :: "finding \<Rightarrow> finding \<Rightarrow> bool" where
  "finding_less a b = str_less (fd_id a) (fd_id b)"

definition deduplicate :: "finding list \<Rightarrow> finding list" where
  "deduplicate fs = sort_by finding_less (keep_first [] fs)"

definition detect_databases :: "analysis_input \<Rightarrow> finding list" where
  "detect_databases i =
     deduplicate (concat (map service_databases (ai_services i)) @ map sqlite_finding (ai_sqlite i))"

section \<open>Storage and metadata\<close>

definition mount_id :: "mount_evidence \<Rightarrow> string" where
  "mount_id m = me_type m @ '':'' @ me_source m @ '':'' @ me_target m"

definition storage_finding :: "service_evidence \<Rightarrow> mount_evidence \<Rightarrow> finding" where
  "storage_finding svc m =
     (let vol = (me_type m = ''volume'') in
      \<lparr>fd_id = ''storage:'' @ mount_id m, fd_kind = ''storage'',
       fd_technology = (if vol then ''named-volume'' else ''bind-mount''), fd_service = se_name svc,
       fd_confidence = Confirmed,
       fd_evidence = [compose_fact (se_name svc) (me_source m @ '' mounted at '' @ me_target m)],
       fd_recommendation =
         (if vol then ''Capture this volume read-only through an inert helper container and preserve ownership and timestamps.''
          else ''Include this host path with explicit include/exclude rules and validate readability before each run.''),
       fd_consistency = ''filesystem-consistent'', fd_warnings = [], fd_data_mount = None\<rparr>)"

fun storage_of_mounts :: "service_evidence \<Rightarrow> mount_evidence list \<Rightarrow> string list \<Rightarrow> finding list
    \<Rightarrow> string list \<times> finding list" where
  "storage_of_mounts svc [] seen_ids out = (seen_ids, out)"
| "storage_of_mounts svc (m # ms) seen_ids out =
     (if mount_id m \<in> set seen_ids then storage_of_mounts svc ms seen_ids out
      else storage_of_mounts svc ms (mount_id m # seen_ids) (out @ [storage_finding svc m]))"

fun storage_of_services :: "service_evidence list \<Rightarrow> string list \<Rightarrow> finding list \<Rightarrow> finding list" where
  "storage_of_services [] seen_ids out = out"
| "storage_of_services (svc # svcs) seen_ids out =
     (case storage_of_mounts svc (se_mounts svc) seen_ids out of
        (seen', out') \<Rightarrow> storage_of_services svcs seen' out')"

definition detect_storage :: "analysis_input \<Rightarrow> finding list" where
  "detect_storage i = storage_of_services (ai_services i) [] []"

definition reference_finding :: "string \<Rightarrow> string \<Rightarrow> string \<Rightarrow> string \<Rightarrow> string \<Rightarrow> string \<Rightarrow> string \<Rightarrow> finding" where
  "reference_finding prefix_text kind tech detail rec consistency name =
     \<lparr>fd_id = prefix_text @ name, fd_kind = kind, fd_technology = tech, fd_service = [], fd_confidence = Confirmed,
      fd_evidence = [compose_fact name detail], fd_recommendation = rec, fd_consistency = consistency,
      fd_warnings = [], fd_data_mount = None\<rparr>"

definition detect_metadata :: "analysis_input \<Rightarrow> finding list" where
  "detect_metadata i =
     map (reference_finding ''secret:'' ''secret'' ''compose-secret''
       ''secret reference declared; value was not read''
       ''Map this identifier to Back-Orbit's encrypted Secret Store during restore.'' ''application-consistent'')
       (ai_secrets i) @
     map (reference_finding ''config:'' ''configuration'' ''compose-config'' ''configuration reference declared''
       ''Include the referenced configuration and preserve its relative restore path.'' ''filesystem-consistent'')
       (ai_configs i) @
     map (reference_finding ''config:env-file:'' ''configuration'' ''env-file''
       ''environment file reference detected; contents were not read''
       ''Include this file encrypted and map secret values through stable Secret Store identifiers.''
       ''filesystem-consistent'')
       (ai_env_files i)"

definition all_findings :: "analysis_input \<Rightarrow> finding list" where
  "all_findings i =
     sort_by finding_less (detect_databases i @ detect_storage i @ detect_metadata i)"

section \<open>Lemmas\<close>

lemma keep_first_set: "set (keep_first seen_ids fs) \<subseteq> set fs"
  by (induction seen_ids fs rule: keep_first.induct) auto

lemma keep_first_ids:
  "fd_id ` set (keep_first seen_ids fs) = fd_id ` set fs - set seen_ids \<and>
   distinct (map fd_id (keep_first seen_ids fs))"
  by (induction seen_ids fs rule: keep_first.induct) auto

lemma deduplicate_set: "set (deduplicate fs) \<subseteq> set fs"
  by (simp add: deduplicate_def keep_first_set)

lemma deduplicate_distinct: "distinct (map fd_id (deduplicate fs))"
  unfolding deduplicate_def using keep_first_ids[of "[]" fs] by (intro distinct_sort_by) simp

lemma detect_database_fields:
  "detect_database svc repository sig = Some f \<Longrightarrow>
     database_confidence svc repository sig = Some (fd_confidence f) \<and> fd_technology f = sig_technology sig \<and>
     fd_service f = se_name svc \<and> fd_evidence f = database_evidence svc repository sig \<and>
     fd_kind f = ''database'' \<and> fd_data_mount f = data_mount_for svc sig \<and>
     fd_warnings f = database_warnings sig (fd_confidence f) (data_mount_for svc sig)"
  by (auto simp: detect_database_def split: option.splits)

lemma confidence_evidence:
  "database_confidence svc repository sig = Some c \<Longrightarrow> database_evidence svc repository sig \<noteq> []"
  by (auto simp: database_confidence_def database_evidence_def Let_def split: if_splits option.splits)

lemma service_databases_mem:
  "f \<in> set (service_databases svc) \<Longrightarrow>
     \<exists>sig\<in>set database_signatures. detect_database svc (repository_path (se_image svc)) sig = Some f \<and>
       (image_identified (repository_path (se_image svc)) \<longrightarrow>
          matches_any (repository_path (se_image svc)) (sig_images sig))"
  by (auto simp: service_databases_def Let_def split: if_splits option.splits)

lemma storage_of_mounts_spec:
  "storage_of_mounts svc ms seen_ids out = (seen', out') \<Longrightarrow>
     set seen' = set seen_ids \<union> mount_id ` set ms \<and>
     (\<exists>new. out' = out @ new \<and> distinct (map fd_id new) \<and>
        fd_id ` set new = (\<lambda>m. ''storage:'' @ mount_id m) ` (set ms) - (\<lambda>k. ''storage:'' @ k) ` set seen_ids \<and>
        (\<forall>f\<in>set new. fd_kind f = ''storage'' \<and> fd_evidence f \<noteq> []))"
proof (induction svc ms seen_ids out arbitrary: seen' out' rule: storage_of_mounts.induct)
  case (1 svc seen_ids out)
  then show ?case by simp
next
  case (2 svc m ms seen_ids out)
  show ?case
  proof (cases "mount_id m \<in> set seen_ids")
    case True
    then show ?thesis using 2(1)[OF True, of seen' out'] 2(3) by auto
  next
    case False
    then obtain new where new: "set seen' = set (mount_id m # seen_ids) \<union> mount_id ` set ms"
      "out' = (out @ [storage_finding svc m]) @ new" "distinct (map fd_id new)"
      "fd_id ` set new = (\<lambda>m. ''storage:'' @ mount_id m) ` set ms - (\<lambda>k. ''storage:'' @ k) ` set (mount_id m # seen_ids)"
      "\<forall>f\<in>set new. fd_kind f = ''storage'' \<and> fd_evidence f \<noteq> []"
      using 2(2)[OF False, of seen' out'] 2(3) by auto
    have f: "fd_id (storage_finding svc m) = ''storage:'' @ mount_id m"
      "fd_kind (storage_finding svc m) = ''storage''" "fd_evidence (storage_finding svc m) \<noteq> []"
      by (simp_all add: storage_finding_def Let_def)
    show ?thesis
    proof (intro conjI exI[of _ "storage_finding svc m # new"])
      show "set seen' = set seen_ids \<union> mount_id ` set (m # ms)" using new(1) by auto
      show "distinct (map fd_id (storage_finding svc m # new))" using new(3,4) f(1) by auto
      show "fd_id ` set (storage_finding svc m # new) =
          (\<lambda>m. ''storage:'' @ mount_id m) ` set (m # ms) - (\<lambda>k. ''storage:'' @ k) ` set seen_ids"
        using new(4) f(1) False by auto
    qed (use new f in auto)
  qed
qed

lemma storage_of_services_spec:
  "distinct (map fd_id out) \<Longrightarrow> fd_id ` set out = (\<lambda>k. ''storage:'' @ k) ` set seen_ids \<Longrightarrow>
   \<forall>f\<in>set out. fd_kind f = ''storage'' \<and> fd_evidence f \<noteq> [] \<Longrightarrow>
     distinct (map fd_id (storage_of_services svcs seen_ids out)) \<and>
     fd_id ` set (storage_of_services svcs seen_ids out) =
       (\<lambda>k. ''storage:'' @ k) ` (set seen_ids \<union> mount_id ` (\<Union>s\<in>set svcs. set (se_mounts s))) \<and>
     (\<forall>f\<in>set (storage_of_services svcs seen_ids out). fd_kind f = ''storage'' \<and> fd_evidence f \<noteq> [])"
proof (induction svcs seen_ids out rule: storage_of_services.induct)
  case (1 seen_ids out)
  then show ?case by simp
next
  case (2 svc svcs seen_ids out)
  obtain seen' out' where so: "storage_of_mounts svc (se_mounts svc) seen_ids out = (seen', out')" by fastforce
  from storage_of_mounts_spec[OF this] obtain new where new: "set seen' = set seen_ids \<union> mount_id ` set (se_mounts svc)"
    "out' = out @ new" "distinct (map fd_id new)"
    "fd_id ` set new = (\<lambda>m. ''storage:'' @ mount_id m) ` set (se_mounts svc) - (\<lambda>k. ''storage:'' @ k) ` set seen_ids"
    "\<forall>f\<in>set new. fd_kind f = ''storage'' \<and> fd_evidence f \<noteq> []" by blast
  have "fd_id ` set out \<inter> fd_id ` set new = {}" using new(4) 2(3) by blast
  then have d: "distinct (map fd_id out')" using new(2,3) 2(2) by simp
  have i: "fd_id ` set out' = (\<lambda>k. ''storage:'' @ k) ` set seen'"
    using new(1,2,4) 2(3) by (simp add: image_Un image_image)
  have k: "\<forall>f\<in>set out'. fd_kind f = ''storage'' \<and> fd_evidence f \<noteq> []" using new(2,5) 2(4) by auto
  have "set seen' \<union> mount_id ` (\<Union>s\<in>set svcs. set (se_mounts s))
      = set seen_ids \<union> mount_id ` (\<Union>s\<in>set (svc # svcs). set (se_mounts s))"
    using new(1) by auto
  with 2(1)[OF so[symmetric] d i k] show ?case unfolding storage_of_services.simps so prod.case by simp
qed

lemma detect_storage_spec:
  "distinct (map fd_id (detect_storage i)) \<and>
   fd_id ` set (detect_storage i) = (\<lambda>m. ''storage:'' @ mount_id m) ` (\<Union>s\<in>set (ai_services i). set (se_mounts s)) \<and>
   (\<forall>f\<in>set (detect_storage i). fd_kind f = ''storage'' \<and> fd_evidence f \<noteq> [])"
  using storage_of_services_spec[of "[]" "[]" "ai_services i"]
  by (simp add: detect_storage_def image_image)

lemma detect_databases_cases:
  assumes "f \<in> set (detect_databases i)"
  shows "(\<exists>svc\<in>set (ai_services i). f \<in> set (service_databases svc)) \<or>
     (\<exists>p\<in>set (ai_sqlite i). f = sqlite_finding p)"
  using assms deduplicate_set by (fastforce simp: detect_databases_def)

lemma detect_metadata_evidence: "f \<in> set (detect_metadata i) \<Longrightarrow> fd_evidence f \<noteq> [] \<and> fd_kind f \<noteq> ''database''"
  by (auto simp: detect_metadata_def reference_finding_def)

text \<open>What makes a service certain to be an engine: its image names it, and an independent fact agrees.\<close>

definition corroborated :: "service_evidence \<Rightarrow> signature \<Rightarrow> bool" where
  "corroborated svc sig =
     (matches_any (repository_path (se_image svc)) (sig_images sig) \<and>
      (data_mount_for svc sig \<noteq> None \<or> has_any (se_env svc) (sig_env sig)))"

definition confirmed_by :: "analysis_input \<Rightarrow> finding \<Rightarrow> bool" where
  "confirmed_by i f =
     ((\<exists>svc\<in>set (ai_services i). \<exists>sig\<in>set database_signatures.
         fd_service f = se_name svc \<and> fd_technology f = sig_technology sig \<and> corroborated svc sig) \<or>
      (\<exists>p\<in>set (ai_sqlite i). f = sqlite_finding p))"

lemma confirmed_corroborated:
  "detect_database svc (repository_path (se_image svc)) sig = Some f \<Longrightarrow> fd_confidence f = Confirmed \<Longrightarrow>
     corroborated svc sig"
  by (drule detect_database_fields)
    (auto simp: database_confidence_def corroborated_def Let_def split: if_splits)

section \<open>Properties\<close>

text \<open>
  Confidence is earned: every finding carries evidence, and a database is only reported as
  confirmed for a service whose image names that engine and which also mounts the engine's data
  directory or sets its environment, or for a file with a SQLite header.
\<close>

theorem findings_evidence_based:
  "list_all (\<lambda>f. fd_evidence f \<noteq> []) (all_findings i) \<and>
   list_all (confirmed_by i)
     (filter (\<lambda>f. fd_kind f = ''database'' \<and> fd_confidence f = Confirmed) (all_findings i))"
proof -
  have db: "fd_evidence f \<noteq> [] \<and> (fd_confidence f = Confirmed \<longrightarrow> confirmed_by i f)"
    if "f \<in> set (detect_databases i)" for f
    using detect_databases_cases[OF that]
  proof
    assume "\<exists>svc\<in>set (ai_services i). f \<in> set (service_databases svc)"
    then obtain svc sig where s: "svc \<in> set (ai_services i)" "sig \<in> set database_signatures"
      "detect_database svc (repository_path (se_image svc)) sig = Some f"
      using service_databases_mem by blast
    note fields = detect_database_fields[OF s(3)]
    have "fd_evidence f \<noteq> []" using fields confidence_evidence by fastforce
    moreover have "confirmed_by i f" if "fd_confidence f = Confirmed"
      unfolding confirmed_by_def using s fields confirmed_corroborated[OF s(3) that] by blast
    ultimately show ?thesis by blast
  next
    assume "\<exists>p\<in>set (ai_sqlite i). f = sqlite_finding p"
    then show ?thesis by (auto simp: confirmed_by_def sqlite_finding_def Let_def)
  qed
  have st: "fd_evidence f \<noteq> [] \<and> fd_kind f \<noteq> ''database''" if "f \<in> set (detect_storage i)" for f
    using detect_storage_spec[of i] that by fastforce
  show ?thesis
    using db st detect_metadata_evidence by (fastforce simp: all_findings_def list_all_iff)
qed

text \<open>
  A service whose image names an engine is reported as that engine only: no second engine is
  inferred from a data directory the two happen to share.
\<close>

theorem identified_service_single_engine:
  assumes "image_identified (repository_path (se_image svc))" "f \<in> set (service_databases svc)"
  shows "\<exists>sig\<in>set database_signatures. fd_technology f = sig_technology sig \<and>
    matches_any (repository_path (se_image svc)) (sig_images sig)"
  using service_databases_mem[OF assms(2)] assms(1) detect_database_fields by blast

definition mysql_service :: service_evidence where
  "mysql_service = \<lparr>se_name = ''db'', se_image = ''docker.io/library/mysql:8.4'', se_env = [],
     se_mounts = [\<lparr>me_type = ''volume'', me_source = ''dbdata'', me_target = ''/var/lib/mysql/''\<rparr>]\<rparr>"

theorem identified_service_single_engine_witness:
  "map (\<lambda>f. (fd_technology f, fd_confidence f)) (service_databases mysql_service) = [(''mysql'', Confirmed)] \<and>
   (\<exists>sig\<in>set database_signatures. matches_any (repository_path (se_image mysql_service)) (sig_images sig))"
proof -
  have m: "map (\<lambda>f. (fd_technology f, fd_confidence f)) (service_databases mysql_service) = [(''mysql'', Confirmed)]"
    by code_simp
  have i: "image_identified (repository_path (se_image mysql_service))" by code_simp
  obtain f where "f \<in> set (service_databases mysql_service)" using m by (cases "service_databases mysql_service") auto
  from identified_service_single_engine[OF i this] m show ?thesis by blast
qed

text \<open>
  Every mount of every service is one storage finding, however many services share it.
\<close>

theorem storage_findings_complete:
  "fd_id ` set (detect_storage i) =
     {''storage:'' @ mount_id m | m. \<exists>s\<in>set (ai_services i). m \<in> set (se_mounts s)} \<and>
   distinct (map fd_id (detect_storage i))"
  using detect_storage_spec[of i] by auto

end
