(* ===== verification/Analyzer_Service.thy ===== *)
theory Analyzer_Service
  imports Analyzer_Detect
begin

text \<open>
  The analysis of a project (\<open>internal/projectanalyzer/service.go\<close>): evidence, findings, template
  matches, the fingerprint they give, the plan, and the stored blueprint with its confirmation.
  The digest of the analysis (SHA-256 over its JSON text) is a parameter. The lemmas show that the
  iteration order of the Compose maps does not reach the analysis.
\<close>

section \<open>Data\<close>

record plan_step =
  ps_order :: nat
  ps_action :: string
  ps_description :: string

record blueprint =
  bp_schema_version :: nat
  bp_project_id :: string
  bp_fingerprint :: string
  bp_analyzed_at :: instant
  bp_confirmed_at :: "instant option"
  bp_drifted :: bool
  bp_findings :: "finding list"
  bp_steps :: "plan_step list"
  bp_warnings :: "string list"
  bp_matches :: "match_result list"

record blueprint_row =
  br_fingerprint :: string
  br_analysis :: blueprint
  br_confirmed_fingerprint :: "string option"
  br_confirmed_at :: "instant option"

type_synonym blueprint_table = "(string \<times> blueprint_row) list"

record analysis_payload =
  ap_services :: "service_evidence list"
  ap_secrets :: "string list"
  ap_configs :: "string list"
  ap_env_files :: "string list"
  ap_sqlite :: "string list"
  ap_findings :: "finding list"
  ap_matches :: "match_result list"

datatype analyzer_error = Blueprint_Not_Found | Analyzer_Project_Error project_error | Analysis_Cancelled
| Blueprint_Save_Failed | Blueprint_Load_Failed

text \<open>Everything one analysis reads from outside.\<close>

record analysis_world =
  aw_read :: "string \<Rightarrow> compose_file"
  aw_dot_env :: bool
  aw_abs_root :: "string option"
  aw_files_live :: "bool list"
  aw_tree :: fs_tree
  aw_docker :: "bool option"
  aw_probe :: "backup_source \<Rightarrow> storage_probe"
  aw_detectors_live :: bool
  aw_catalog :: "template list option"
  aw_confirm_fault :: bool
  aw_save_fault :: bool
  aw_now :: instant
  aw_emit_fault :: bool
  aw_event_id :: string
  aw_event_at :: instant

section \<open>The plan\<close>

definition unnumbered :: "string \<Rightarrow> string \<Rightarrow> plan_step" where
  "unnumbered action description = \<lparr>ps_order = 0, ps_action = action, ps_description = description\<rparr>"

fun number_steps :: "nat \<Rightarrow> plan_step list \<Rightarrow> plan_step list" where
  "number_steps n [] = []"
| "number_steps n (s # ss) = s\<lparr>ps_order := Suc n\<rparr> # number_steps (Suc n) ss"

definition plan_steps :: "finding list \<Rightarrow> plan_step list" where
  "plan_steps fs =
     number_steps 0
       ([unnumbered ''validate'' ''Validate Compose files, source paths, repository access, and required secret mappings.''] @
        (if list_ex (\<lambda>f. fd_kind f = ''database'') fs
         then [unnumbered ''dump_databases'' ''Create and validate logical database dumps using credentials from the Secret Store.'']
         else []) @
        (if list_ex (\<lambda>f. fd_kind f = ''storage'') fs
         then [unnumbered ''capture_storage'' ''Capture selected named volumes and bind mounts while preserving metadata.'']
         else []) @
        [unnumbered ''snapshot'' ''Create an encrypted restic snapshot with the project manifest.'',
         unnumbered ''verify'' ''Read back manifest and selected data, then apply retention only after verification.''])"

section \<open>Analysis\<close>

definition service_less :: "service_evidence \<Rightarrow> service_evidence \<Rightarrow> bool" where
  "service_less a b =
     (if se_name a = se_name b then str_less (se_image a) (se_image b) else str_less (se_name a) (se_name b))"

definition collect_input :: "analysis_world \<Rightarrow> project_detail \<Rightarrow> analysis_input" where
  "collect_input w d =
     (let i0 = \<lparr>ai_project_id = pr_id (pd_record d), ai_services = [], ai_secrets = [], ai_configs = [],
                ai_env_files = [], ai_sqlite = [], ai_warnings = []\<rparr>;
          (i1, ws) = compose_evidence (aw_read w) (aw_dot_env w) (aw_abs_root w)
                       (zip (pr_compose_files (pd_record d)) (aw_files_live w)) i0;
          i2 = merge_runtime (pd_containers d) (i1\<lparr>ai_warnings := ai_warnings i1 @ ws\<rparr>);
          (disk, ws1) = find_sqlite (pr_compose_path (pd_record d)) (aw_tree w) (ai_warnings i2);
          (mounted, ws2) = find_sqlite_in_sources (aw_docker w) (aw_probe w) (pd_sources d);
          (active, artifacts) = classify_sqlite_paths (unique_sorted (disk @ mounted));
          ws3 = ws1 @ ws2 @ (if artifacts \<noteq> []
            then [show_nat (length artifacts) @ '' SQLite backup or archive copies were detected and excluded from active databases.'']
            else [])
      in i2\<lparr>ai_sqlite := active, ai_warnings := ws3, ai_services := sort_by service_less (ai_services i2)\<rparr>)"

definition catalog_matches :: "analysis_world \<Rightarrow> analysis_input \<Rightarrow> finding list \<Rightarrow> match_result list" where
  "catalog_matches w i fs = (case aw_catalog w of
     None \<Rightarrow> []
   | Some templates \<Rightarrow> match_catalog templates (map se_image (ai_services i))
       (map fd_technology (filter (\<lambda>f. fd_kind f = ''database'') fs)))"

definition catalog_warning :: "analysis_world \<Rightarrow> string list" where
  "catalog_warning w = (case aw_catalog w of
     None \<Rightarrow> [''Built-in protection templates could not be loaded; application-specific recommendations are unavailable.'']
   | Some _ \<Rightarrow> [])"

definition payload :: "analysis_input \<Rightarrow> finding list \<Rightarrow> match_result list \<Rightarrow> analysis_payload" where
  "payload i fs ms =
     \<lparr>ap_services = ai_services i, ap_secrets = ai_secrets i, ap_configs = ai_configs i,
      ap_env_files = ai_env_files i, ap_sqlite = ai_sqlite i, ap_findings = fs, ap_matches = ms\<rparr>"

definition confirmation :: "string \<Rightarrow> blueprint_table \<Rightarrow> (string \<times> instant option) option" where
  "confirmation pid t = (case map_of t pid of
     None \<Rightarrow> None
   | Some r \<Rightarrow> Some (case br_confirmed_fingerprint r of Some fp \<Rightarrow> fp | None \<Rightarrow> [], br_confirmed_at r))"

definition save_blueprint :: "bool \<Rightarrow> blueprint \<Rightarrow> string \<Rightarrow> instant option \<Rightarrow> blueprint_table
    \<Rightarrow> (analyzer_error, blueprint_table) result" where
  "save_blueprint fault bp confirmed_fp confirmed_at t =
     (if fault then Inl Blueprint_Save_Failed
      else Inr (AList.update (bp_project_id bp)
        (case map_of t (bp_project_id bp) of
           None \<Rightarrow> \<lparr>br_fingerprint = bp_fingerprint bp, br_analysis = bp,
                    br_confirmed_fingerprint = (if confirmed_fp = [] then None else Some confirmed_fp),
                    br_confirmed_at = confirmed_at\<rparr>
         | Some r \<Rightarrow> r\<lparr>br_fingerprint := bp_fingerprint bp, br_analysis := bp\<rparr>) t))"

definition build_blueprint :: "(analysis_payload \<Rightarrow> string) \<Rightarrow> analysis_world \<Rightarrow> analysis_input
    \<Rightarrow> string \<times> instant option \<Rightarrow> blueprint" where
  "build_blueprint digest w i confirmed =
     (let fs = all_findings i; ms = catalog_matches w i fs; fp = digest (payload i fs ms) in
      \<lparr>bp_schema_version = 1, bp_project_id = ai_project_id i, bp_fingerprint = fp, bp_analyzed_at = aw_now w,
       bp_confirmed_at = snd confirmed, bp_drifted = (fst confirmed \<noteq> [] \<and> fst confirmed \<noteq> fp),
       bp_findings = fs, bp_steps = plan_steps fs,
       bp_warnings = unique_sorted (ai_warnings i @ catalog_warning w), bp_matches = ms\<rparr>)"

definition run_analysis :: "(analysis_payload \<Rightarrow> string) \<Rightarrow> analysis_world \<Rightarrow> (project_error, project_detail) result
    \<Rightarrow> blueprint_table \<Rightarrow> (analyzer_error, blueprint) result \<times> blueprint_table" where
  "run_analysis digest w detail t =
     (case detail of
        Inl e \<Rightarrow> (Inl (Analyzer_Project_Error e), t)
      | Inr d \<Rightarrow>
          if \<not> aw_detectors_live w then (Inl Analysis_Cancelled, t)
          else if aw_confirm_fault w then (Inl Blueprint_Load_Failed, t)
          else
            let i = collect_input w d;
                confirmed = (case confirmation (ai_project_id i) t of Some c \<Rightarrow> c | None \<Rightarrow> ([], None));
                bp = build_blueprint digest w i confirmed
            in case save_blueprint (aw_save_fault w) bp (fst confirmed) (snd confirmed) t of
                 Inl e \<Rightarrow> (Inl e, t)
               | Inr t' \<Rightarrow> (Inr bp, t'))"

record analyzer_state =
  as_table :: blueprint_table
  as_recorder :: recorder

definition analyzed_event :: "string \<Rightarrow> blueprint \<Rightarrow> event" where
  "analyzed_event actor bp =
     event_of ''project.analyzed'' actor ''project'' (bp_project_id bp)
       [(''findings'', Meta_Number (int (length (bp_findings bp)))),
        (''warnings'', Meta_Number (int (length (bp_warnings bp)))), (''drifted'', Meta_Bool (bp_drifted bp))]"

definition analyze :: "(analysis_payload \<Rightarrow> string) \<Rightarrow> analysis_world \<Rightarrow> string \<Rightarrow> (project_error, project_detail) result
    \<Rightarrow> analyzer_state \<Rightarrow> (analyzer_error, blueprint) result \<times> analyzer_state" where
  "analyze digest w actor detail st =
     (case run_analysis digest w detail (as_table st) of
        (Inl e, t) \<Rightarrow> (Inl e, st\<lparr>as_table := t\<rparr>)
      | (Inr bp, t) \<Rightarrow>
          (Inr bp, \<lparr>as_table = t,
             as_recorder = emit (aw_emit_fault w) (aw_event_id w) (aw_event_at w) (analyzed_event actor bp) (as_recorder st)\<rparr>))"

definition get_blueprint :: "string \<Rightarrow> blueprint_table \<Rightarrow> (analyzer_error, blueprint) result" where
  "get_blueprint pid t = (case map_of t pid of
     None \<Rightarrow> Inl Blueprint_Not_Found
   | Some r \<Rightarrow> Inr (case br_confirmed_at r of
       Some at \<Rightarrow> (br_analysis r)\<lparr>bp_confirmed_at := Some at\<rparr>
     | None \<Rightarrow> br_analysis r))"

text \<open>Reading the row and the update are two statements; the row is the one found first.\<close>

definition confirm_row :: "instant \<Rightarrow> string \<Rightarrow> blueprint_table
    \<Rightarrow> (analyzer_error, blueprint) result \<times> blueprint_table" where
  "confirm_row now pid t =
     (case get_blueprint pid t of
        Inl e \<Rightarrow> (Inl e, t)
      | Inr bp \<Rightarrow>
          (case map_of t pid of
             None \<Rightarrow> (Inl Blueprint_Not_Found, t)
           | Some r \<Rightarrow>
               (Inr (bp\<lparr>bp_confirmed_at := Some now, bp_drifted := False\<rparr>),
                AList.update pid (r\<lparr>br_confirmed_fingerprint := Some (br_fingerprint r),
                                    br_confirmed_at := Some now\<rparr>) t)))"

definition confirm_blueprint :: "analysis_world \<Rightarrow> string \<Rightarrow> string \<Rightarrow> analyzer_state
    \<Rightarrow> (analyzer_error, blueprint) result \<times> analyzer_state" where
  "confirm_blueprint w actor pid st =
     (if aw_confirm_fault w then (Inl Blueprint_Load_Failed, st)
      else if aw_save_fault w \<and> is_ok (get_blueprint pid (as_table st)) then (Inl Blueprint_Save_Failed, st)
      else case confirm_row (aw_now w) pid (as_table st) of
        (Inl e, t) \<Rightarrow> (Inl e, st\<lparr>as_table := t\<rparr>)
      | (Inr bp, t) \<Rightarrow>
          (Inr bp, \<lparr>as_table = t,
             as_recorder = emit (aw_emit_fault w) (aw_event_id w) (aw_event_at w)
               (event_of ''project.blueprint_confirmed'' actor ''project'' pid
                  [(''fingerprint'', Meta_String (bp_fingerprint bp))]) (as_recorder st)\<rparr>))"

section \<open>Merging does not depend on the order within a document\<close>

definition svc_at :: "service_evidence list \<Rightarrow> string \<Rightarrow> service_evidence option" where
  "svc_at ss = map_of (map (\<lambda>s. (se_name s, s)) ss)"

definition merge_opt :: "service_evidence option \<Rightarrow> service_evidence \<Rightarrow> service_evidence" where
  "merge_opt old new = (case old of None \<Rightarrow> new | Some s \<Rightarrow> merge_into new s)"

lemma merge_into_name [simp]: "se_name (merge_into new old) = se_name old"
  by (simp add: merge_into_def)

lemma merge_service_names:
  "map se_name (merge_service ss new) =
     (if se_name new \<in> set (map se_name ss) then map se_name ss else map se_name ss @ [se_name new])"
  by (induction ss new rule: merge_service.induct) auto

lemma merge_service_distinct: "distinct (map se_name ss) \<Longrightarrow> distinct (map se_name (merge_service ss new))"
  by (simp add: merge_service_names)

lemma svc_at_merge:
  "svc_at (merge_service ss new) = (svc_at ss)(se_name new \<mapsto> merge_opt (svc_at ss (se_name new)) new)"
proof (induction ss new rule: merge_service.induct)
  case (2 s ss new)
  then show ?case by (auto simp: svc_at_def merge_opt_def fun_eq_iff split: option.splits)
qed (auto simp: svc_at_def merge_opt_def)

lemma service_of_name [simp]: "se_name (service_of ns) = fst ns"
  by (simp add: service_of_def)

lemma fold_add_services:
  "distinct (map fst xs) \<Longrightarrow>
     svc_at (ai_services (fold add_compose_service xs i)) n =
       (case map_of xs n of
          None \<Rightarrow> svc_at (ai_services i) n
        | Some c \<Rightarrow> Some (merge_opt (svc_at (ai_services i) n) (service_of (n, c))))"
proof (induction xs arbitrary: i)
  case (Cons x xs)
  have "svc_at (ai_services (add_compose_service x i)) n =
      (if n = fst x then Some (merge_opt (svc_at (ai_services i) n) (service_of x)) else svc_at (ai_services i) n)"
    by (simp add: add_compose_service_def svc_at_merge)
  moreover have "n = fst x \<Longrightarrow> map_of xs n = None" using Cons.prems by (simp add: map_of_eq_None_iff)
  ultimately show ?case using Cons by (cases x) (auto split: option.splits)
qed simp

lemma fold_add_sets:
  "set (ai_secrets (fold add_compose_service xs i)) = set (ai_secrets i) \<union> (\<Union>x\<in>set xs. set (reference_names (cs_secrets (snd x))))"
  "set (ai_configs (fold add_compose_service xs i)) = set (ai_configs i) \<union> (\<Union>x\<in>set xs. set (reference_names (cs_configs (snd x))))"
  "set (ai_env_files (fold add_compose_service xs i)) = set (ai_env_files i) \<union> (\<Union>x\<in>set xs. set (env_file_names (cs_env_file (snd x))))"
  "ai_project_id (fold add_compose_service xs i) = ai_project_id i"
  "ai_sqlite (fold add_compose_service xs i) = ai_sqlite i"
  "ai_warnings (fold add_compose_service xs i) = ai_warnings i"
  by (induction xs arbitrary: i) (auto simp: add_compose_service_def)

lemma fold_add_distinct:
  "distinct (map se_name (ai_services i)) \<Longrightarrow> distinct (map se_name (ai_services (fold add_compose_service xs i)))"
  by (induction xs arbitrary: i) (simp_all add: add_compose_service_def merge_service_distinct)

text \<open>
  Two decoded values that differ only in the order in which the fields of their maps come, at any depth.
\<close>

inductive same_yaml :: "yaml \<Rightarrow> yaml \<Rightarrow> bool" where
  same_value: "same_yaml v v"
| same_items: "list_all2 same_yaml xs ys \<Longrightarrow> same_yaml (Y_Seq xs) (Y_Seq ys)"
| same_fields: "list_all2 (\<lambda>x y. fst x = fst y \<and> same_yaml (snd x) (snd y)) kvs lvs \<Longrightarrow> distinct (map fst kvs) \<Longrightarrow>
    mset ms = mset lvs \<Longrightarrow> same_yaml (Y_Map kvs) (Y_Map ms)"

inductive_cases same_nullE: "same_yaml Y_Null v"
inductive_cases same_stringE: "same_yaml (Y_String t) v"
inductive_cases same_scalarE: "same_yaml (Y_Scalar t) v"
inductive_cases same_seqE: "same_yaml (Y_Seq xs) v"
inductive_cases same_mapE: "same_yaml (Y_Map kvs) v"

lemma list_all2_map_eq:
  "list_all2 R xs ys \<Longrightarrow> (\<And>x y. R x y \<Longrightarrow> f x = f y) \<Longrightarrow> map f xs = map f ys"
  by (induction rule: list_all2_induct) auto

lemma list_all2_keys: "list_all2 (\<lambda>x y. fst x = fst y \<and> R (snd x) (snd y)) xs ys \<Longrightarrow> map fst xs = map fst ys"
  by (induction rule: list_all2_induct) auto

lemma list_all2_lookup:
  "list_all2 (\<lambda>x y. fst x = fst y \<and> R (snd x) (snd y)) xs ys \<Longrightarrow> rel_option R (map_of xs k) (map_of ys k)"
  by (induction rule: list_all2_induct) auto

lemma map_of_permuted:
  assumes "distinct (map fst ys)" "mset ms = mset ys"
  shows "map_of ms = map_of ys"
proof -
  have "mset (map fst ms) = mset (map fst ys)" using assms(2) by simp
  then have "distinct (map fst ms)" using assms(1) by (metis mset_eq_imp_distinct_iff)
  moreover have "set ms = set ys" using assms(2) by (rule mset_eq_setD)
  ultimately show ?thesis using assms(1) map_of_inject_set by blast
qed

lemma sprint_same: "same_yaml v u \<Longrightarrow> sprint_yaml v = sprint_yaml u"
proof (induction rule: same_yaml.induct)
  case (same_items xs ys)
  then have "map sprint_yaml xs = map sprint_yaml ys" by (auto intro: list_all2_map_eq)
  then show ?case by simp
next
  case (same_fields kvs lvs ms)
  let ?text = "map (\<lambda>kv. (fst kv, fst kv @ '':'' @ sprint_yaml (snd kv)))"
  have same: "?text kvs = ?text lvs" by (rule list_all2_map_eq[OF same_fields.IH]) auto
  have "map fst kvs = map fst lvs" by (rule list_all2_map_eq[OF same_fields.IH]) auto
  then have "distinct (map fst (?text lvs))" using same_fields.hyps by (simp add: comp_def)
  then have i: "inj_on fst (set (?text lvs))" by (simp only: distinct_map[of fst] simp_thms)
  have "sort_by (\<lambda>a b. str_less (fst a) (fst b)) (?text lvs) = sort_by (\<lambda>a b. str_less (fst a) (fst b)) (?text ms)"
  proof (rule sort_by_perm)
    show "weak_order (\<lambda>a b. str_less (fst a) (fst b))" by (rule weak_order_str_less)
    show "mset (?text lvs) = mset (?text ms)" using same_fields.hyps by simp
    have "x = y" if "x \<in> set (?text lvs)" "y \<in> set (?text lvs)" "fst x = fst y" for x y
      using i that(3,1,2) by (rule inj_onD)
    then show "separates (\<lambda>a b. str_less (fst a) (fst b)) (set (?text lvs))"
      unfolding separates_def using str_less_linear by blast
  qed
  then show ?case by (simp only: sprint_yaml.simps same)
qed simp

lemma same_mapD:
  assumes "same_yaml (Y_Map kvs) (Y_Map ms)"
  obtains (equal) "ms = kvs"
    | (permuted) lvs where "list_all2 (\<lambda>x y. fst x = fst y \<and> same_yaml (snd x) (snd y)) kvs lvs"
        "distinct (map fst kvs)" "mset ms = mset lvs"
  using assms by (auto elim: same_mapE)

lemma same_field_lookup:
  assumes "same_yaml (Y_Map kvs) (Y_Map ms)"
  shows "rel_option same_yaml (map_of kvs k) (map_of ms k)"
  using assms
proof (cases rule: same_mapD)
  case equal
  then show ?thesis by (cases "map_of kvs k") (simp_all add: same_value)
next
  case (permuted lvs)
  have "distinct (map fst lvs)" using list_all2_keys[OF permuted(1)] permuted(2) by simp
  then have "map_of ms = map_of lvs" using permuted(3) by (rule map_of_permuted)
  then show ?thesis using list_all2_lookup[OF permuted(1), of k] by simp
qed

lemma same_map_keys:
  assumes "same_yaml (Y_Map kvs) (Y_Map ms)"
  shows "set (map fst kvs) = set (map fst ms)"
  using assms
proof (cases rule: same_mapD)
  case (permuted lvs)
  have "mset (map fst ms) = mset (map fst lvs)" using permuted(3) by simp
  then show ?thesis unfolding list_all2_keys[OF permuted(1)] by (metis mset_eq_setD)
qed simp

lemma same_yaml_shape:
  assumes "same_yaml v u"
  obtains (equal) "v = u" | (items) xs ys where "v = Y_Seq xs" "u = Y_Seq ys" "list_all2 same_yaml xs ys"
    | (maps) kvs ms where "v = Y_Map kvs" "u = Y_Map ms"
  using assms by (cases rule: same_yaml.cases) auto

lemma field_string_same:
  assumes "same_yaml (Y_Map kvs) (Y_Map ms)"
  shows "field_string k kvs = field_string k ms"
  using same_field_lookup[OF assms, of k]
proof (cases rule: option.rel_cases)
  case (Some x y)
  from Some(3) show ?thesis by (cases rule: same_yaml_shape) (simp_all add: field_string_def Some(1,2))
qed (simp add: field_string_def)

lemma named_field_same:
  assumes "same_yaml v u"
  shows "named_field k v = named_field k u"
  using assms
proof (cases rule: same_yaml_shape)
  case (maps kvs ms)
  then show ?thesis using assms field_string_same[of kvs ms k] by (simp add: named_field_def)
qed (simp_all add: named_field_def)

lemma sprint_field_same: "same_yaml (Y_Map kvs) (Y_Map ms) \<Longrightarrow> sprint_field k kvs = sprint_field k ms"
  using same_field_lookup[of kvs ms k] by (auto simp: sprint_field_def elim!: option.rel_cases intro: sprint_same)

lemma references_same: "list_all2 same_yaml vs us \<Longrightarrow> reference_names vs = reference_names us"
  unfolding reference_names_def by (subst list_all2_map_eq[of same_yaml]) (auto intro: named_field_same)

lemma env_files_same:
  assumes "same_yaml v u"
  shows "env_file_names v = env_file_names u"
  using assms
proof (cases rule: same_yaml_shape)
  case (items xs ys)
  then show ?thesis using list_all2_map_eq[of same_yaml xs ys "named_field ''path''"] named_field_same
    by (simp add: env_file_names_def)
qed (simp_all add: env_file_names_def)

lemma mounts_of_concat: "mounts_of vs = concat (map (\<lambda>v. mounts_of [v]) vs)"
  by (simp add: mounts_of_def)

lemma mounts_same: "list_all2 same_yaml vs us \<Longrightarrow> mounts_of vs = mounts_of us"
proof -
  assume vs: "list_all2 same_yaml vs us"
  have "mounts_of [v] = mounts_of [u]" if "same_yaml v u" for v u
    using that by (cases rule: same_yaml_shape) (use that sprint_field_same in \<open>auto simp: mounts_of_def\<close>)
  then have "map (\<lambda>v. mounts_of [v]) vs = map (\<lambda>v. mounts_of [v]) us" by (intro list_all2_map_eq[OF vs])
  then show ?thesis by (subst (1 2) mounts_of_concat) simp
qed

lemma environment_same:
  assumes "same_yaml v u"
  shows "environment_names v = environment_names u"
  using assms
proof (cases rule: same_yaml_shape)
  case (items xs ys)
  then show ?thesis
    using list_all2_map_eq[of same_yaml xs ys "\<lambda>i. before_equals (sprint_yaml i)"] sprint_same
    by (simp add: environment_names_def)
next
  case (maps kvs ms)
  then show ?thesis using same_map_keys[of kvs ms] assms
    by (auto simp: environment_names_def intro: unique_sorted_set_cong)
qed simp

text \<open>
  Two decoded documents that differ in the iteration order of their maps only: the services, the top-level
  secrets and configs, and the maps anywhere inside a service.
\<close>

definition same_service :: "compose_service \<Rightarrow> compose_service \<Rightarrow> bool" where
  "same_service c e \<longleftrightarrow>
     cs_image c = cs_image e \<and> same_yaml (cs_environment c) (cs_environment e) \<and>
     list_all2 same_yaml (cs_volumes c) (cs_volumes e) \<and> list_all2 same_yaml (cs_secrets c) (cs_secrets e) \<and>
     list_all2 same_yaml (cs_configs c) (cs_configs e) \<and> same_yaml (cs_env_file c) (cs_env_file e)"

definition same_document :: "compose_document \<Rightarrow> compose_document \<Rightarrow> bool" where
  "same_document d e \<longleftrightarrow>
     distinct (map fst (cd_services d)) \<and>
     (\<exists>ss. list_all2 (\<lambda>x y. fst x = fst y \<and> same_service (snd x) (snd y)) (cd_services d) ss \<and>
        mset (cd_services e) = mset ss) \<and>
     set (cd_secrets d) = set (cd_secrets e) \<and> set (cd_configs d) = set (cd_configs e)"

lemma add_same_service:
  assumes "fst x = fst y" "same_service (snd x) (snd y)"
  shows "add_compose_service x i = add_compose_service y i"
  using assms environment_same[of "cs_environment (snd x)" "cs_environment (snd y)"]
    mounts_same[of "cs_volumes (snd x)" "cs_volumes (snd y)"] references_same[of "cs_secrets (snd x)" "cs_secrets (snd y)"]
    references_same[of "cs_configs (snd x)" "cs_configs (snd y)"] env_files_same[of "cs_env_file (snd x)" "cs_env_file (snd y)"]
  by (simp add: add_compose_service_def service_of_def same_service_def)

lemma fold_same_services:
  "list_all2 (\<lambda>x y. fst x = fst y \<and> same_service (snd x) (snd y)) xs ys \<Longrightarrow>
   fold add_compose_service xs i = fold add_compose_service ys i"
  by (induction arbitrary: i rule: list_all2_induct) (auto simp: add_same_service)

fun same_file :: "compose_file \<Rightarrow> compose_file \<Rightarrow> bool" where
  "same_file (Some (m, Some d)) (Some (n, Some e)) = (m = n \<and> same_document d e)"
| "same_file a b = (a = b)"

definition similar :: "analysis_input \<Rightarrow> analysis_input \<Rightarrow> bool" where
  "similar i j =
     (distinct (map se_name (ai_services i)) \<and> distinct (map se_name (ai_services j)) \<and>
      svc_at (ai_services i) = svc_at (ai_services j) \<and>
      set (ai_secrets i) = set (ai_secrets j) \<and> set (ai_configs i) = set (ai_configs j) \<and>
      set (ai_env_files i) = set (ai_env_files j) \<and> ai_project_id i = ai_project_id j \<and>
      ai_sqlite i = ai_sqlite j \<and> ai_warnings i = ai_warnings j)"

lemma similar_add_document:
  assumes "similar i j" "same_document d e"
  shows "similar (add_document d i) (add_document e j)"
proof -
  obtain ss where ss: "list_all2 (\<lambda>x y. fst x = fst y \<and> same_service (snd x) (snd y)) (cd_services d) ss"
      "mset (cd_services e) = mset ss"
    using assms(2) by (auto simp: same_document_def)
  have d: "distinct (map fst ss)" using list_all2_keys[OF ss(1)] assms(2) by (simp add: same_document_def)
  note maps = map_of_permuted[OF d ss(2)]
  have "mset (map fst (cd_services e)) = mset (map fst ss)" using ss(2) by simp
  then have e: "distinct (map fst (cd_services e))" using d by (metis mset_eq_imp_distinct_iff)
  have sets: "set (cd_services e) = set ss" using ss(2) by (rule mset_eq_setD)
  have "svc_at (ai_services (fold add_compose_service ss i)) = svc_at (ai_services (fold add_compose_service (cd_services e) j))"
    using assms(1) by (intro ext) (simp add: fold_add_services d e maps similar_def split: option.splits)
  then have "similar (add_document (d\<lparr>cd_services := ss\<rparr>) i) (add_document e j)"
    using assms fold_add_distinct[of i ss] fold_add_distinct[of j "cd_services e"]
    by (simp add: similar_def add_document_def Let_def fold_add_sets same_document_def sets)
  then show ?thesis by (simp add: add_document_def fold_same_services[OF ss(1)] Let_def)
qed

lemma same_file_cases:
  assumes "same_file a b"
  shows "a = b \<and> (a = None \<or> (\<exists>m. a = Some (m, None)))
    \<or> (\<exists>m d e. a = Some (m, Some d) \<and> b = Some (m, Some e) \<and> same_document d e)"
  using assms by (cases "(a, b)" rule: same_file.cases) auto

lemma similar_read_compose:
  assumes "same_file (read (compose_path root name)) (read' (compose_path root name))" "similar i j"
  shows "\<exists>i' j' ws'. read_compose read root name i ws = (i', ws') \<and>
    read_compose read' root name j ws = (j', ws') \<and> similar i' j'"
proof (cases "escapes_upwards (path_rel root (compose_path root name))")
  case True
  then show ?thesis using assms(2) by (simp add: read_compose_def Let_def)
next
  case False
  from same_file_cases[OF assms(1)] show ?thesis
  proof (elim disjE conjE exE)
    fix m d e
    assume f: "read (compose_path root name) = Some (m, Some d)" "read' (compose_path root name) = Some (m, Some e)"
      "same_document d e"
    show ?thesis
      using False f(1,2) similar_add_document[OF assms(2) f(3)] assms(2)
      by (cases "m > 4 * 1048576") (simp_all add: read_compose_def Let_def)
  next
    assume f: "read (compose_path root name) = read' (compose_path root name)" "read (compose_path root name) = None"
    then show ?thesis using False assms(2) by (simp add: read_compose_def Let_def)
  next
    fix m
    assume f: "read (compose_path root name) = read' (compose_path root name)" "read (compose_path root name) = Some (m, None)"
    then have "read' (compose_path root name) = Some (m, None)" by simp
    then show ?thesis
      using False f(2) assms(2) by (cases "m > 4 * 1048576") (simp_all add: read_compose_def Let_def)
  qed
qed

lemma similar_compose_files:
  assumes "\<And>p. same_file (read p) (read' p)"
  shows "similar i j \<Longrightarrow> \<exists>i' j' ws' fin. compose_files read root names i ws = ((i', ws'), fin) \<and>
    compose_files read' root names j ws = ((j', ws'), fin) \<and> similar i' j'"
proof (induction names arbitrary: i j ws)
  case (Cons nl names)
  obtain name live where nl: "nl = (name, live)" by (cases nl)
  obtain i1 j1 ws1 where one: "read_compose read root name i ws = (i1, ws1)"
    "read_compose read' root name j ws = (j1, ws1)" "similar i1 j1"
    using similar_read_compose[where read = read and read' = read', OF assms Cons.prems] by metis
  show ?case using Cons.IH[OF one(3), of ws1] Cons.prems one(1,2) by (cases live) (simp add: nl, simp add: nl, blast)
qed auto

definition merge_containers :: "container list \<Rightarrow> service_evidence list \<Rightarrow> service_evidence list" where
  "merge_containers cs ss = fold (\<lambda>c ss. merge_service ss (runtime_service c)) cs ss"

lemma merge_containers_Cons [simp]:
  "merge_containers [] ss = ss"
  "merge_containers (c # cs) ss = merge_containers cs (merge_service ss (runtime_service c))"
  by (simp_all add: merge_containers_def)

lemma merge_containers_distinct: "distinct (map se_name ss) \<Longrightarrow> distinct (map se_name (merge_containers cs ss))"
  by (induction cs arbitrary: ss) (simp_all add: merge_service_distinct)

lemma merge_containers_at: "svc_at as = svc_at bs \<Longrightarrow> svc_at (merge_containers cs as) = svc_at (merge_containers cs bs)"
  by (induction cs arbitrary: as bs) (simp_all add: svc_at_merge)

lemma similar_merge_runtime: "similar i j \<Longrightarrow> similar (merge_runtime cs i) (merge_runtime cs j)"
  using merge_containers_at[of "ai_services i" "ai_services j" cs]
  by (simp add: similar_def merge_runtime_def merge_containers_def[symmetric] merge_containers_distinct)

lemma weak_order_service_less: "weak_order service_less"
  using weak_order_then[OF weak_order_str_less[of se_image], of se_name]
  by (simp add: service_less_def[abs_def])

lemma svc_at_mem:
  assumes "distinct (map se_name ss)"
  shows "s \<in> set ss \<longleftrightarrow> svc_at ss (se_name s) = Some s"
proof -
  have "distinct (map fst (map (\<lambda>s. (se_name s, s)) ss))" using assms by (simp add: comp_def)
  from map_of_eq_Some_iff[OF this] show ?thesis unfolding svc_at_def by auto
qed

lemma sorted_services_equal:
  assumes "similar i j"
  shows "sort_by service_less (ai_services i) = sort_by service_less (ai_services j)"
proof (rule sort_by_perm[OF weak_order_service_less])
  have d: "distinct (map se_name (ai_services i))" "distinct (map se_name (ai_services j))"
    "svc_at (ai_services i) = svc_at (ai_services j)" using assms by (simp_all add: similar_def)
  have "s \<in> set (ai_services i) \<longleftrightarrow> s \<in> set (ai_services j)" for s
    using svc_at_mem[OF d(1)] svc_at_mem[OF d(2)] d(3) by simp
  then have "set (ai_services i) = set (ai_services j)" by blast
  then show "mset (ai_services i) = mset (ai_services j)"
    using assms unfolding similar_def by (metis distinct_map set_eq_iff_mset_eq_distinct)
  have "x = y" if "x \<in> set (ai_services i)" "y \<in> set (ai_services i)" "se_name x = se_name y" for x y
    using d(1) that by (auto simp: distinct_map dest: inj_onD)
  moreover have "se_name x = se_name y" if "\<not> service_less x y" "\<not> service_less y x" for x y
    using that str_less_linear[of "se_name x" "se_name y"] by (auto simp: service_less_def split: if_splits)
  ultimately show "separates service_less (set (ai_services i))" unfolding separates_def by blast
qed

lemma compose_files_completed: "list_all snd names \<Longrightarrow> snd (compose_files rd r names i ws)"
  by (induction rd r names i ws rule: compose_files.induct) (simp_all split: prod.split)

text \<open>Two worlds that answer alike, up to the order of the maps in the decoded documents.\<close>

definition same_world :: "analysis_world \<Rightarrow> analysis_world \<Rightarrow> bool" where
  "same_world w v = ((\<forall>p. same_file (aw_read w p) (aw_read v p)) \<and> v = w\<lparr>aw_read := aw_read v\<rparr>)"

lemma compose_evidence_similar:
  assumes "\<And>p. same_file (read p) (read' p)" "list_all snd names" "similar i i"
  shows "\<exists>i' j' ws. compose_evidence read dot root names i = (i', ws) \<and>
    compose_evidence read' dot root names i = (j', ws) \<and> similar i' j' \<and>
    ((root = None \<or> root = Some []) \<and> i' = j' \<or>
     ai_secrets i' = ai_secrets j' \<and> ai_configs i' = ai_configs j' \<and> ai_env_files i' = ai_env_files j')"
proof (cases "root = None \<or> root = Some []")
  case True
  then show ?thesis using assms(3) by (auto simp: compose_evidence_def)
next
  case False
  then obtain r where r: "root = Some r" "r \<noteq> []" by auto
  obtain i' j' ws fin where c: "compose_files read r names i [] = ((i', ws), fin)"
    "compose_files read' r names i [] = ((j', ws), fin)" "similar i' j'"
    using similar_compose_files[where read = read and read' = read' and root = r and names = names and ws = "[]",
        OF assms(1,3)] by blast
  have "fin" using c(1) compose_files_completed[OF assms(2), of read r i "[]"] by simp
  let ?tidy = "\<lambda>x. x\<lparr>ai_secrets := unique_sorted (ai_secrets x), ai_configs := unique_sorted (ai_configs x),
      ai_env_files := unique_sorted (ai_env_files x @ (if dot then [''.env''] else []))\<rparr>"
  have "compose_evidence read dot root names i = (?tidy i', ws)" "compose_evidence read' dot root names i = (?tidy j', ws)"
    using r c \<open>fin\<close> by (simp_all add: compose_evidence_def)
  moreover have "similar (?tidy i') (?tidy j')" using c(3) by (simp add: similar_def)
  moreover have "unique_sorted (ai_secrets i') = unique_sorted (ai_secrets j')"
    "unique_sorted (ai_configs i') = unique_sorted (ai_configs j')"
    "unique_sorted (ai_env_files i' @ e) = unique_sorted (ai_env_files j' @ e)" for e
    using c(3) by (auto intro!: unique_sorted_set_cong simp: similar_def)
  ultimately show ?thesis by (intro exI[of _ "?tidy i'"] exI[of _ "?tidy j'"] exI[of _ ws]) simp
qed

lemma same_worldD:
  assumes "same_world w v"
  shows "same_file (aw_read w p) (aw_read v p)" "aw_dot_env v = aw_dot_env w" "aw_abs_root v = aw_abs_root w"
    "aw_files_live v = aw_files_live w" "aw_tree v = aw_tree w" "aw_docker v = aw_docker w"
    "aw_probe v = aw_probe w" "aw_detectors_live v = aw_detectors_live w" "aw_catalog v = aw_catalog w"
    "aw_confirm_fault v = aw_confirm_fault w" "aw_save_fault v = aw_save_fault w" "aw_now v = aw_now w"
    "aw_emit_fault v = aw_emit_fault w" "aw_event_id v = aw_event_id w" "aw_event_at v = aw_event_at w"
  using assms unfolding same_world_def by (simp, (metis analysis_world.select_convs analysis_world.surjective
    analysis_world.update_convs(1))+)

lemma collect_input_same_world:
  assumes "same_world w v" "list_all id (aw_files_live w)"
  shows "collect_input w d = collect_input v d"
proof -
  let ?names = "zip (pr_compose_files (pd_record d)) (aw_files_live w)"
  let ?i0 = "\<lparr>ai_project_id = pr_id (pd_record d), ai_services = [], ai_secrets = [], ai_configs = [],
                ai_env_files = [], ai_sqlite = [], ai_warnings = []\<rparr>"
  note w = same_worldD[OF assms(1)]
  have names: "list_all snd ?names" using assms(2) by (auto simp: list_all_iff dest: set_zip_rightD)
  have "similar ?i0 ?i0" by (simp add: similar_def)
  from compose_evidence_similar[where read = "aw_read w" and read' = "aw_read v", OF w(1) names this,
      of "aw_dot_env w" "aw_abs_root w"]
  obtain i j ws where c: "compose_evidence (aw_read w) (aw_dot_env w) (aw_abs_root w) ?names ?i0 = (i, ws)"
    "compose_evidence (aw_read v) (aw_dot_env w) (aw_abs_root w) ?names ?i0 = (j, ws)" "similar i j"
    "ai_secrets i = ai_secrets j \<and> ai_configs i = ai_configs j \<and> ai_env_files i = ai_env_files j"
    by fastforce
  define i2 where "i2 = merge_runtime (pd_containers d) (i\<lparr>ai_warnings := ai_warnings i @ ws\<rparr>)"
  define j2 where "j2 = merge_runtime (pd_containers d) (j\<lparr>ai_warnings := ai_warnings j @ ws\<rparr>)"
  have "similar (i\<lparr>ai_warnings := ai_warnings i @ ws\<rparr>) (j\<lparr>ai_warnings := ai_warnings j @ ws\<rparr>)"
    using c(3) by (simp add: similar_def)
  then have s2: "similar i2 j2" unfolding i2_def j2_def by (rule similar_merge_runtime)
  have rest: "ai_secrets i2 = ai_secrets j2" "ai_configs i2 = ai_configs j2" "ai_env_files i2 = ai_env_files j2"
    "ai_project_id i2 = ai_project_id j2" "ai_sqlite i2 = ai_sqlite j2" "ai_warnings i2 = ai_warnings j2"
    using c(3,4) by (simp_all add: i2_def j2_def merge_runtime_def similar_def)
  have eq: "i2\<lparr>ai_sqlite := q, ai_warnings := ws', ai_services := sort_by service_less (ai_services i2)\<rparr>
      = j2\<lparr>ai_sqlite := q, ai_warnings := ws', ai_services := sort_by service_less (ai_services j2)\<rparr>" for q ws'
    using sorted_services_equal[OF s2] rest by (intro analysis_input.equality) simp_all
  show ?thesis
    unfolding collect_input_def Let_def w(2-15) c(1,2) prod.case i2_def[symmetric] j2_def[symmetric] rest(6) eq ..
qed

lemma build_blueprint_same_world:
  "same_world w v \<Longrightarrow> build_blueprint digest w i c = build_blueprint digest v i c"
  using same_worldD(9)[of w v] same_worldD(12)[of w v]
  by (simp only: build_blueprint_def catalog_matches_def catalog_warning_def)

lemma run_analysis_same_world:
  assumes "same_world w v" "list_all id (aw_files_live w)"
  shows "run_analysis digest w detail t = run_analysis digest v detail t"
  unfolding run_analysis_def collect_input_same_world[OF assms] build_blueprint_same_world[OF assms(1)]
    same_worldD(8)[OF assms(1)] same_worldD(10)[OF assms(1)] same_worldD(11)[OF assms(1)] ..

lemma analyze_same_world:
  assumes "same_world w v" "list_all id (aw_files_live w)"
  shows "analyze digest w actor detail st = analyze digest v actor detail st"
  unfolding analyze_def run_analysis_same_world[OF assms] same_worldD(13-15)[OF assms(1)] ..

lemma number_steps_orders: "map ps_order (number_steps n ss) = [Suc n..<Suc (n + length ss)]"
proof (induction ss arbitrary: n)
  case (Cons s ss)
  then show ?case using upt_conv_Cons[of "Suc n" "Suc (n + length (s # ss))"] by (simp del: upt_Suc)
qed simp

lemma number_steps_actions: "map ps_action (number_steps n ss) = map ps_action ss"
  by (induction ss arbitrary: n) simp_all

lemma length_number_steps [simp]: "length (number_steps n ss) = length ss"
  by (induction ss arbitrary: n) simp_all

section \<open>Properties\<close>

text \<open>
  C13. The analysis does not depend on the iteration order of the maps in the Compose documents, be it the
  services, the top-level secrets and configs, the environment of a service or any map inside it: two
  runs over worlds that differ in that order only give the same blueprint, fingerprint included, the same table
  and the same event, so an untouched project never reports itself as drifted.
\<close>

theorem analysis_order_independent:
  assumes "same_world w v" "list_all id (aw_files_live w)"
  shows "collect_input w d = collect_input v d \<and> analyze digest w actor detail st = analyze digest v actor detail st"
  using collect_input_same_world[OF assms] analyze_same_world[OF assms] by simp

definition stack_document :: "bool \<Rightarrow> compose_document" where
  "stack_document flipped =
     (let env = [(''POSTGRES_USER'', Y_String ''app''), (''POSTGRES_DB'', Y_String ''shop'')];
          svc = (\<lambda>img. \<lparr>cs_image = img, cs_environment = Y_Map (if flipped then rev env else env), cs_volumes = [], cs_secrets = [],
                       cs_configs = [], cs_env_file = Y_Null\<rparr>);
          web = (''web'', svc ''nginx''); db = (''db'', svc ''postgres:16'')
      in \<lparr>cd_services = (if flipped then [db, web] else [web, db]), cd_secrets = [], cd_configs = []\<rparr>)"

lemma stack_documents_same: "same_document (stack_document False) (stack_document True)"
proof -
  have env: "same_yaml (Y_Map [(''POSTGRES_USER'', Y_String ''app''), (''POSTGRES_DB'', Y_String ''shop'')])
      (Y_Map [(''POSTGRES_DB'', Y_String ''shop''), (''POSTGRES_USER'', Y_String ''app'')])"
    by (rule same_fields[where lvs = "[(''POSTGRES_USER'', Y_String ''app''), (''POSTGRES_DB'', Y_String ''shop'')]"])
      (auto intro: same_value)
  show ?thesis
    unfolding same_document_def
    by (intro conjI exI[of _ "rev (cd_services (stack_document True))"])
      (auto simp: stack_document_def Let_def same_service_def env intro: same_value)
qed

definition stack_world :: "bool \<Rightarrow> analysis_world" where
  "stack_world flipped =
     \<lparr>aw_read = (\<lambda>_. Some (100, Some (stack_document flipped))), aw_dot_env = False, aw_abs_root = Some ''/srv/app'',
      aw_files_live = [True], aw_tree = T_Dir [], aw_docker = None,
      aw_probe = (\<lambda>_. \<lparr>sp_created = False, sp_archive = None, sp_removed = True\<rparr>),
      aw_detectors_live = True, aw_catalog = Some [], aw_confirm_fault = False, aw_save_fault = False, aw_now = 9,
      aw_emit_fault = False, aw_event_id = ''e1'', aw_event_at = 9\<rparr>"

definition stack_detail :: project_detail where
  "stack_detail =
     attach_docker_state None \<lparr>pr_id = ''p1'', pr_name = ''app'', pr_compose_path = ''/srv/app'',
       pr_compose_files = [''compose.yml''], pr_source = Project_Registered, pr_status = Status_Unprotected,
       pr_created_at = 1, pr_updated_at = 1\<rparr>"

theorem analysis_order_independent_witness:
  "collect_input (stack_world False) stack_detail = collect_input (stack_world True) stack_detail \<and>
   map se_name (ai_services (collect_input (stack_world True) stack_detail)) = [''db'', ''web'']"
proof -
  have "same_world (stack_world False) (stack_world True)"
    unfolding same_world_def
  proof
    show "\<forall>p. same_file (aw_read (stack_world False) p) (aw_read (stack_world True) p)"
      using stack_documents_same by (simp add: stack_world_def)
  qed (simp add: stack_world_def)
  moreover have "list_all id (aw_files_live (stack_world False))" by (simp add: stack_world_def)
  moreover have "map se_name (ai_services (collect_input (stack_world True) stack_detail)) = [''db'', ''web'']"
    by code_simp
  ultimately show ?thesis using analysis_order_independent by blast
qed

text \<open>
  The plan is numbered from one without gaps, starts by validating and ends by verifying, and
  dumps databases or captures storage exactly when the findings contain some, in that order.
\<close>

theorem plan_steps_shape:
  "map ps_order (plan_steps fs) = [1..<Suc (length (plan_steps fs))] \<and>
   map ps_action (plan_steps fs) =
     [''validate''] @ (if list_ex (\<lambda>f. fd_kind f = ''database'') fs then [''dump_databases''] else []) @
     (if list_ex (\<lambda>f. fd_kind f = ''storage'') fs then [''capture_storage''] else []) @ [''snapshot'', ''verify'']"
  unfolding plan_steps_def number_steps_orders number_steps_actions by (simp add: unnumbered_def)

text \<open>
  A confirmation outlives later analyses: after a blueprint was confirmed, analysing the project
  again reports drift exactly when the fingerprint is not the confirmed one.
\<close>

theorem drift_after_confirmation:
  assumes first: "map_of t (pr_id (pd_record d)) = Some r" and "br_fingerprint r \<noteq> []"
    and "confirm_row now (pr_id (pd_record d)) t = (Inr bp0, t1)"
    and "run_analysis digest w (Inr d) t1 = (Inr bp, t2)"
  shows "(bp_drifted bp \<longleftrightarrow> bp_fingerprint bp \<noteq> br_fingerprint r) \<and> bp_confirmed_at bp = Some now \<and>
    confirmation (pr_id (pd_record d)) t2 = Some (br_fingerprint r, Some now)"
proof -
  let ?pid = "pr_id (pd_record d)"
  have "\<exists>bp. get_blueprint ?pid t = Inr bp" using first by (simp add: get_blueprint_def)
  then have t1: "t1 = AList.update ?pid (r\<lparr>br_confirmed_fingerprint := Some (br_fingerprint r),
      br_confirmed_at := Some now\<rparr>) t"
    using assms(1,3) by (auto simp: confirm_row_def)
  then have c: "confirmation ?pid t1 = Some (br_fingerprint r, Some now)"
    by (simp add: confirmation_def update_conv)
  have pid: "ai_project_id (collect_input w d) = ?pid"
  proof -
    have files: "ai_project_id (fst (fst (compose_files rd root names i ws))) = ai_project_id i" for rd root names i ws
    proof (induction names arbitrary: i ws)
      case (Cons nl names)
      obtain i' ws' where one: "read_compose rd root (fst nl) i ws = (i', ws')" by fastforce
      then have "ai_project_id i' = ai_project_id i"
        by (auto simp: read_compose_def Let_def add_document_def fold_add_sets split: if_splits option.splits)
      then show ?case using Cons one by (cases nl) simp
    qed simp
    have "ai_project_id (fst (compose_evidence rd dot root names i)) = ai_project_id i" for rd dot root names i
      using files[of rd "the root" names i "[]"]
      by (auto simp: compose_evidence_def split: option.splits prod.splits)
    then show ?thesis
      by (simp add: collect_input_def Let_def merge_runtime_def case_prod_beta)
  qed
  let ?bp = "build_blueprint digest w (collect_input w d) (br_fingerprint r, Some now)"
  have "bp = ?bp" and "save_blueprint (aw_save_fault w) ?bp (br_fingerprint r) (Some now) t1 = Inr t2"
    using assms(4) c unfolding run_analysis_def pid by (auto simp: Let_def pid split: if_splits sum.splits)
  moreover have "bp_project_id ?bp = ?pid" by (simp add: build_blueprint_def Let_def pid)
  ultimately show ?thesis
    using assms(2) t1
    by (auto simp: build_blueprint_def Let_def save_blueprint_def confirmation_def update_conv split: if_splits)
qed

definition seen_table :: blueprint_table where
  "seen_table = snd (run_analysis (\<lambda>_. ''fp1'') (stack_world False) (Inr stack_detail) [])"

theorem drift_after_confirmation_witness:
  "\<exists>bp t2. run_analysis (\<lambda>_. ''fp2'') (stack_world False) (Inr stack_detail)
       (snd (confirm_row 11 ''p1'' seen_table)) = (Inr bp, t2) \<and> bp_drifted bp \<and> bp_confirmed_at bp = Some 11"
proof -
  have pid: "pr_id (pd_record stack_detail) = ''p1''" by (simp add: stack_detail_def attach_docker_state_def)
  have "map_option br_fingerprint (map_of seen_table ''p1'') = Some ''fp1''" unfolding seen_table_def by code_simp
  then obtain r where r: "map_of seen_table ''p1'' = Some r" "br_fingerprint r = ''fp1''" by auto
  obtain bp0 t1 where c: "confirm_row 11 ''p1'' seen_table = (Inr bp0, t1)"
    using r(1) by (simp add: confirm_row_def get_blueprint_def)
  obtain bp t2 where a: "run_analysis (\<lambda>_. ''fp2'') (stack_world False) (Inr stack_detail) t1 = (Inr bp, t2)"
    and fp: "bp_fingerprint bp = ''fp2''"
    by (auto simp: run_analysis_def Let_def save_blueprint_def build_blueprint_def stack_world_def)
  from drift_after_confirmation[of seen_table stack_detail r 11 bp0 t1, unfolded pid, OF r(1) _ c a] r(2) fp
  show ?thesis using a c by auto
qed

text \<open>
  The stored analysis keeps the drift flag it was saved with: a blueprint that was confirmed after it
  had drifted is still shown as drifted until the next analysis.
\<close>

lemma confirmed_still_shown_as_drifted:
  assumes "map_of t pid = Some r" "bp_drifted (br_analysis r)"
  shows "\<exists>shown later t'. confirm_row now pid t = (Inr shown, t') \<and> \<not> bp_drifted shown \<and>
    get_blueprint pid t' = Inr later \<and> bp_drifted later \<and> bp_confirmed_at later = Some now"
  using assms by (simp add: confirm_row_def get_blueprint_def update_conv)

end
