(* ===== verification/Backup_Model.thy ===== *)
theory Backup_Model
  imports Volume_Staging Db_Load Project_Registry Analyzer_Service
begin

text \<open>
  The data of a backup run (\<open>internal/backuprun/run.go\<close>, with what staging hands over from
  \<open>internal/storage\<close>) and its two tables (\<open>internal/backuprun/store.go\<close>, schema in
  \<open>migrations/0004_backup_runs.sql\<close>). The JSON and time columns are kept as the values they encode; a
  failing statement is an input. A list written as JSON reads back as a list, so the nil and the
  empty slice are one value here.
\<close>

section \<open>Runs and snapshots\<close>

datatype run_status = Running | Completed_With_Warnings | Completed | Failed | Cancelled

definition run_done :: "run_status \<Rightarrow> bool" where
  "run_done s = (s \<noteq> Running)"

datatype run_phase = Preparing | Staging | Snapshotting | Verifying | Finished

datatype run_trigger = Manual | Scheduled

datatype protection_level = Exported | Consistent | Files_Only

record database_dump =
  dd_technology :: string
  dd_service :: string
  dd_level :: protection_level
  dd_path :: string
  dd_command :: string
  dd_user :: string
  dd_bytes :: int
  dd_note :: string
  dd_check :: "restore_check option"

record volume_manifest =
  vm_name :: string
  vm_kind :: source_kind
  vm_mounted_at :: string
  vm_path :: string
  vm_files :: int
  vm_bytes :: int
  vm_ownership :: "ownership_entry list"
  vm_preserved :: bool
  vm_sqlite :: "sqlite_capture list"
  vm_warnings :: "string list"

definition manifest_schema_version :: nat where
  "manifest_schema_version = 1"

record manifest =
  mf_schema :: nat
  mf_project :: string
  mf_created_at :: instant
  mf_volumes :: "volume_manifest list"
  mf_databases :: "database_dump list"

record verification =
  vf_ok :: bool
  vf_checks :: "string list"
  vf_errors :: "string list"
  vf_files_listed :: int
  vf_bytes_in_snapshot :: int
  vf_duration_ms :: int

record snapshot =
  sn_id :: string
  sn_run_id :: string
  sn_repository_id :: string
  sn_restic_id :: string
  sn_manifest :: manifest
  sn_size_bytes :: int
  sn_files_count :: int
  sn_verified_at :: "instant option"
  sn_verification :: verification
  sn_created_at :: instant

record run =
  rn_id :: string
  rn_project_id :: string
  rn_project_name :: string
  rn_repository_id :: string
  rn_repository_name :: string
  rn_trigger :: run_trigger
  rn_status :: run_status
  rn_phase :: run_phase
  rn_volumes :: "string list"
  rn_files_total :: int
  rn_bytes_total :: int
  rn_bytes_added :: int
  rn_warnings :: "string list"
  rn_error :: string
  rn_started_at :: instant
  rn_ended_at :: "instant option"
  rn_created_at :: instant

section \<open>The replay command of an export\<close>

definition replay_user :: "database_dump \<Rightarrow> string \<Rightarrow> string" where
  "replay_user d fallback = (if dd_user d = [] then fallback else dd_user d)"

definition replay_command :: "database_dump \<Rightarrow> string" where
  "replay_command d =
     (if dd_level d \<noteq> Exported \<or> dd_path d = [] then []
      else if dd_technology d = ''postgresql'' then
        ''docker compose exec -T '' @ dd_service d @ '' psql -U '' @ replay_user d ''postgres'' @
        '' -d postgres < '' @ dd_path d
      else if dd_technology d = ''mysql'' \<or> dd_technology d = ''mariadb'' then
        ''docker compose exec -T '' @ dd_service d @ '' '' @
        (if dd_technology d = ''mariadb'' then ''mariadb'' else ''mysql'') @ '' -u '' @ replay_user d ''root'' @
        '' -p < '' @ dd_path d
      else if dd_technology d = ''mongodb'' then
        ''docker compose exec -T '' @ dd_service d @ '' mongorestore --archive --drop --nsExclude '' @
        [apostrophe] @ ''admin.*'' @ [apostrophe] @ '' --nsExclude '' @ [apostrophe] @ ''config.*'' @ [apostrophe] @
        (if dd_user d = [] then [] else '' -u '' @ dd_user d @ '' --authenticationDatabase admin -p'') @
        '' < '' @ dd_path d
      else [])"

section \<open>The tables\<close>

datatype store_error = Run_Not_Found | Run_Insert_Failed | Snapshot_Insert_Failed

type_synonym run_table = "run list"
type_synonym snapshot_table = "snapshot list"

definition insert_run :: "bool \<Rightarrow> run \<Rightarrow> run_table \<Rightarrow> (store_error, run_table) result" where
  "insert_run fault r rows =
     (if fault \<or> rn_id r \<in> set (map rn_id rows) then Inl Run_Insert_Failed else Inr (rows @ [r]))"

text \<open>The columns an update writes; all others keep what the insert stored.\<close>

definition update_columns :: "run \<Rightarrow> run \<Rightarrow> run" where
  "update_columns r row =
     row\<lparr>rn_status := rn_status r, rn_phase := rn_phase r, rn_files_total := rn_files_total r,
         rn_bytes_total := rn_bytes_total r, rn_bytes_added := rn_bytes_added r, rn_warnings := rn_warnings r,
         rn_error := rn_error r, rn_ended_at := rn_ended_at r\<rparr>"

definition update_run :: "bool \<Rightarrow> run \<Rightarrow> run_table \<Rightarrow> run_table" where
  "update_run fault r rows =
     (if fault then rows else map (\<lambda>row. if rn_id row = rn_id r then update_columns r row else row) rows)"

definition same_restic_snapshot :: "snapshot \<Rightarrow> snapshot \<Rightarrow> bool" where
  "same_restic_snapshot a b =
     (sn_repository_id a \<noteq> [] \<and> sn_repository_id a = sn_repository_id b \<and> sn_restic_id a = sn_restic_id b)"

definition insert_snapshot :: "bool \<Rightarrow> run_table \<Rightarrow> snapshot \<Rightarrow> snapshot_table
    \<Rightarrow> (store_error, snapshot_table) result" where
  "insert_snapshot fault rows s snaps =
     (if fault \<or> sn_id s \<in> set (map sn_id snaps) \<or> sn_run_id s \<notin> set (map rn_id rows) \<or>
         list_ex (same_restic_snapshot s) snaps
      then Inl Snapshot_Insert_Failed else Inr (snaps @ [s]))"

definition snapshot_for_run :: "string \<Rightarrow> snapshot_table \<Rightarrow> snapshot option" where
  "snapshot_for_run i snaps = List.find (\<lambda>s. sn_run_id s = i) snaps"

definition snapshot_by_id :: "string \<Rightarrow> snapshot_table \<Rightarrow> (store_error, snapshot) result" where
  "snapshot_by_id i snaps = (case List.find (\<lambda>s. sn_id s = i) snaps of None \<Rightarrow> Inl Run_Not_Found | Some s \<Rightarrow> Inr s)"

definition get_run :: "string \<Rightarrow> run_table \<Rightarrow> snapshot_table \<Rightarrow> (store_error, run \<times> snapshot option) result" where
  "get_run i rows snaps =
     (case List.find (\<lambda>r. rn_id r = i) rows of
        None \<Rightarrow> Inl Run_Not_Found
      | Some r \<Rightarrow> Inr (r, snapshot_for_run i snaps))"

definition newer_run :: "run \<Rightarrow> run \<Rightarrow> bool" where
  "newer_run a b = str_less (rfc3339_nano (rn_created_at b)) (rfc3339_nano (rn_created_at a))"

definition list_runs :: "int \<Rightarrow> run_table \<Rightarrow> snapshot_table \<Rightarrow> (run \<times> snapshot option) list" where
  "list_runs limit rows snaps =
     (let n = (if limit \<le> 0 \<or> limit > 200 then 50 else limit)
      in map (\<lambda>r. (r, snapshot_for_run (rn_id r) snaps)) (take (nat n) (sort_by newer_run rows)))"

definition interrupted_message :: string where
  "interrupted_message = ''Back-Orbit stopped while this backup was running, so it did not finish. No verified snapshot was recorded.''"

definition mark_interrupted_runs :: "instant \<Rightarrow> run_table \<Rightarrow> nat \<times> run_table" where
  "mark_interrupted_runs now rows =
     (length (filter (\<lambda>r. rn_status r = Running) rows),
      map (\<lambda>r. if rn_status r = Running
                then r\<lparr>rn_status := Failed, rn_phase := Finished, rn_ended_at := Some now, rn_error := interrupted_message\<rparr>
                else r) rows)"

section \<open>Lemmas\<close>

lemma update_columns_id [simp]: "rn_id (update_columns r row) = rn_id row"
  by (simp add: update_columns_def)

lemma update_columns_sel [simp]:
  "rn_status (update_columns r row) = rn_status r" "rn_ended_at (update_columns r row) = rn_ended_at r"
  "rn_error (update_columns r row) = rn_error r" "rn_warnings (update_columns r row) = rn_warnings r"
  "rn_phase (update_columns r row) = rn_phase r"
  by (simp_all add: update_columns_def)

lemma update_run_ids [simp]: "map rn_id (update_run fault r rows) = map rn_id rows"
  by (simp add: update_run_def)

lemma update_run_other:
  "list_all2 (\<lambda>a b. rn_id b = rn_id a \<and> (rn_id a \<noteq> rn_id r \<longrightarrow> b = a)) rows (update_run fault r rows)"
  by (auto simp: update_run_def list_all2_conv_all_nth)

lemma find_update_run:
  "List.find (\<lambda>x. rn_id x = rn_id r) (update_run False r rows) =
   map_option (update_columns r) (List.find (\<lambda>x. rn_id x = rn_id r) rows)"
  unfolding update_run_def by (induction rows) auto

lemma insert_run_ids:
  "insert_run fault r rows = Inr rows' \<Longrightarrow> distinct (map rn_id rows) \<Longrightarrow> distinct (map rn_id rows')"
  by (auto simp: insert_run_def split: if_splits)

section \<open>Properties\<close>

text \<open>
  After a restart no run claims to be running: every run a dead process left behind is failed with
  an end time, every finished run is exactly as it was, no run appears or disappears, and the number
  reported is the number of runs closed.
\<close>

theorem mark_interrupted_runs_closes:
  "let (n, rows') = mark_interrupted_runs now rows in
     list_all2 (\<lambda>r r'. rn_id r' = rn_id r \<and> run_done (rn_status r') \<and>
       (if run_done (rn_status r) then r' = r else rn_status r' = Failed \<and> rn_ended_at r' = Some now)) rows rows' \<and>
     n = length (filter (\<lambda>r. \<not> run_done (rn_status r)) rows) \<and>
     mark_interrupted_runs later rows' = (0, rows')"
proof -
  have "list_all2 (\<lambda>r r'. rn_id r' = rn_id r \<and> run_done (rn_status r') \<and>
       (if run_done (rn_status r) then r' = r else rn_status r' = Failed \<and> rn_ended_at r' = Some now))
     rows (snd (mark_interrupted_runs now rows))"
    by (simp add: mark_interrupted_runs_def run_done_def list_all2_conv_all_nth)
  moreover have "mark_interrupted_runs later (snd (mark_interrupted_runs now rows)) = (0, snd (mark_interrupted_runs now rows))"
  proof -
    let ?f = "\<lambda>r. if rn_status r = Running
                then r\<lparr>rn_status := Failed, rn_phase := Finished, rn_ended_at := Some now, rn_error := interrupted_message\<rparr>
                else r"
    have nr: "rn_status (?f r) \<noteq> Running" for r :: run by simp
    have "filter (\<lambda>r. rn_status r = Running) (map ?f rows) = []"
      unfolding filter_empty_conv using nr by auto
    moreover have "map g (map ?f rows) = map ?f rows" if "\<And>r. rn_status r \<noteq> Running \<Longrightarrow> g r = r" for g :: "run \<Rightarrow> run"
      using that nr by (intro map_idI) auto
    ultimately show ?thesis by (simp add: mark_interrupted_runs_def)
  qed
  moreover have "fst (mark_interrupted_runs now rows) = length (filter (\<lambda>r. \<not> run_done (rn_status r)) rows)"
    by (simp add: mark_interrupted_runs_def run_done_def)
  ultimately show ?thesis by (simp add: case_prod_beta)
qed

text \<open>The command shown for a dump never carries a password and is empty unless the dump was exported.\<close>

lemma replay_command_only_exports:
  "replay_command d \<noteq> [] \<Longrightarrow> dd_level d = Exported \<and> dd_path d \<noteq> [] \<and>
     dd_technology d \<in> {''postgresql'', ''mysql'', ''mariadb'', ''mongodb''}"
  by (auto simp: replay_command_def split: if_splits)

end
