(* ===== verification/Backup_Dumps.thy ===== *)
theory Backup_Dumps
  imports Backup_Model
begin

text \<open>
  What a backup run does about databases (\<open>internal/backuprun/dumps.go\<close> and \<open>consistency.go\<close>): the
  export of every database the analyzer found, the list of databases in the manifest of the snapshot,
  and the warnings about databases that were only copied as files.
\<close>

section \<open>Exports\<close>

definition dump_engines :: "string list" where
  "dump_engines = [''postgresql'', ''mysql'', ''mariadb'', ''mongodb'']"

definition user_keys :: "string \<Rightarrow> string list" where
  "user_keys technology =
     (if technology = ''postgresql'' then [''POSTGRES_USER'']
      else if technology = ''mysql'' then [''MYSQL_ROOT_USER'']
      else if technology = ''mariadb'' then [''MARIADB_ROOT_USER'']
      else if technology = ''mongodb'' then [''MONGO_INITDB_ROOT_USERNAME''] else [])"

definition password_keys :: "string \<Rightarrow> string list" where
  "password_keys technology =
     (if technology = ''mysql'' then [''MYSQL_ROOT_PASSWORD'', ''MARIADB_ROOT_PASSWORD'']
      else if technology = ''mariadb'' then [''MARIADB_ROOT_PASSWORD'', ''MYSQL_ROOT_PASSWORD'']
      else if technology = ''mongodb'' then [''MONGO_INITDB_ROOT_PASSWORD''] else [])"

text \<open>
  Outside the runner: the environment of a container, what its tools answer, the daemon that runs the
  restore check, the random password and the readiness rounds of that check, and files of the
  working directory of the process.
\<close>

record dumps_world =
  dx_env :: "string \<Rightarrow> string \<Rightarrow> (string, string) result"
  dx_dump :: "string \<Rightarrow> dump_world"
  dx_daemon :: daemon
  dx_random :: "string \<Rightarrow> (string, string) result"
  dx_rounds :: "string \<Rightarrow> string option list"
  dx_cwd :: "string \<Rightarrow> string option"

record dumps_state =
  dxs_dump :: dump_state
  dxs_calls :: calls
  dxs_warnings :: "string list"

record dump_result =
  dr_file :: dump_file
  dr_key :: string
  dr_check :: "restore_check option"

definition finding_key :: "finding \<Rightarrow> string" where
  "finding_key f = fd_service f @ '':'' @ fd_technology f"

fun first_env_value :: "dumps_world \<Rightarrow> string \<Rightarrow> string list \<Rightarrow> (string, string) result" where
  "first_env_value w c [] = Inr []"
| "first_env_value w c (k # ks) =
     (case dx_env w c k of
        Inl e \<Rightarrow> Inl e
      | Inr v \<Rightarrow> if v \<noteq> [] then Inr v else first_env_value w c ks)"

definition finding_target :: "finding \<Rightarrow> container \<Rightarrow> string \<Rightarrow> string \<Rightarrow> dump_target" where
  "finding_target f c user password =
     \<lparr>dt_technology = fd_technology f, dt_service = fd_service f, dt_container = ctr_id c,
      dt_user = user, dt_password = password\<rparr>"

definition dump_one :: "dumps_world \<Rightarrow> finding \<Rightarrow> container \<Rightarrow> string \<Rightarrow> dump_state
    \<Rightarrow> (dump_error, dump_file) result \<times> dump_state" where
  "dump_one w f c staging st =
     (case first_env_value w (ctr_id c) (user_keys (fd_technology f)) of
        Inl e \<Rightarrow> (Inl (Env_Failed (''read the database user: '' @ e)), st)
      | Inr user \<Rightarrow>
          (case first_env_value w (ctr_id c) (password_keys (fd_technology f)) of
             Inl e \<Rightarrow> (Inl (Env_Failed (''read the database credentials: '' @ e)), st)
           | Inr password \<Rightarrow>
               export_database (dx_dump w (ctr_id c)) (finding_target f c user password) staging st))"

definition service_containers :: "container list \<Rightarrow> string \<Rightarrow> container option" where
  "service_containers cs = map_of (rev (map (\<lambda>c. (ctr_service c, c)) (filter (\<lambda>c. ctr_service c \<noteq> []) cs)))"

definition exportable :: "finding \<Rightarrow> bool" where
  "exportable f = (fd_kind f = ''database'' \<and> fd_technology f \<in> set dump_engines \<and> fd_confidence f \<noteq> Possible)"

definition add_warning :: "string \<Rightarrow> dumps_state \<Rightarrow> dumps_state" where
  "add_warning t st = st\<lparr>dxs_warnings := dxs_warnings st @ [t]\<rparr>"

definition not_running_warning :: "finding \<Rightarrow> string" where
  "not_running_warning f = fd_technology f @ '' in service '' @ fd_service f @
     '' could not be exported because its container is not running; its files were copied as they are.''"

definition failed_export_warning :: "finding \<Rightarrow> string \<Rightarrow> string" where
  "failed_export_warning f e = fd_technology f @ '' in service '' @ fd_service f @ '' could not be exported ('' @ e @
     ''); its files were copied as they are, which may be inconsistent if the database was running.''"

definition unproven_warning :: "finding \<Rightarrow> string \<Rightarrow> string" where
  "unproven_warning f e = ''the '' @ fd_technology f @ '' export from '' @ fd_service f @
     '' could not be test-restored ('' @ e @ ''), so it is unproven.''"

definition unloadable_warning :: "finding \<Rightarrow> string \<Rightarrow> string" where
  "unloadable_warning f e = ''the '' @ fd_technology f @ '' export from '' @ fd_service f @
     '' did not load into an empty server: '' @ e @
     ''. The file is in the snapshot, but it has not been shown to restore.''"

fun verify_text :: "verify_error \<Rightarrow> string" where
  "verify_text (No_Image t) = ''dbdump: no image to verify '' @ t @ '' against''"
| "verify_text (No_Restore_Check t) = ''dbdump: no restore check for '' @ t"
| "verify_text (No_Credentials e) = ''dbdump: generate verification credentials: '' @ e"
| "verify_text (Server_Not_Created e) = ''dbdump: create verification server: '' @ e"
| "verify_text (Server_Not_Started e) = ''dbdump: start verification server: '' @ e"
| "verify_text (Check_Unreadable e) = ''dbdump: read the dump to verify: '' @ e"

text \<open>The file the restore check opens: the path as it stands, then below the staged tree.\<close>

definition dump_on_check :: "dumps_world \<Rightarrow> string \<Rightarrow> dump_state \<Rightarrow> string \<Rightarrow> dump_on_disk" where
  "dump_on_check w staging st path =
     (case dx_cwd w path of
        Some c \<Rightarrow> \<lparr>dd_stat_fault = None, dd_open_fault = None, dd_content = c\<rparr>
      | None \<Rightarrow>
          (case staged st (path_clean (staging @ ''/'' @ path)) of
             Some c \<Rightarrow> \<lparr>dd_stat_fault = None, dd_open_fault = None, dd_content = c\<rparr>
           | None \<Rightarrow> \<lparr>dd_stat_fault = None, dd_open_fault = Some ''no such file or directory'', dd_content = []\<rparr>))"

definition prove_restore :: "dumps_world \<Rightarrow> finding \<Rightarrow> container \<Rightarrow> string \<Rightarrow> dump_file \<Rightarrow> dumps_state
    \<Rightarrow> restore_check option \<times> dumps_state" where
  "prove_restore w f c staging file st =
     (let (r, log) = verify_restorable (dx_daemon w) (ctr_image c) file (dx_random w (finding_key f))
            (dump_on_check w staging (dxs_dump st) (df_path file)) (dx_rounds w (finding_key f)) (dxs_calls st);
          st1 = st\<lparr>dxs_calls := log\<rparr>
      in case r of
           Inl e \<Rightarrow> (None, add_warning (unproven_warning f (verify_text e)) st1)
         | Inr check \<Rightarrow>
             if \<not> rc_loaded check then (Some check, add_warning (unloadable_warning f (rc_detail check)) st1)
             else (Some check, st1))"

definition dump_finding :: "dumps_world \<Rightarrow> (string \<Rightarrow> container option) \<Rightarrow> string \<Rightarrow> bool \<Rightarrow> finding \<Rightarrow> dumps_state
    \<Rightarrow> dump_result option \<times> dumps_state" where
  "dump_finding w containers staging verify f st =
     (case containers (fd_service f) of
        None \<Rightarrow> (None, add_warning (not_running_warning f) st)
      | Some c \<Rightarrow>
          if ctr_id c = [] then (None, add_warning (not_running_warning f) st)
          else (let (r, ds) = dump_one w f c staging (dxs_dump st); st1 = st\<lparr>dxs_dump := ds\<rparr> in
                case r of
                  Inl e \<Rightarrow> (None, add_warning (failed_export_warning f (error_text e)) st1)
                | Inr file \<Rightarrow>
                    (let (check, st2) = (if verify then prove_restore w f c staging file st1 else (None, st1))
                     in (Some \<lparr>dr_file = file, dr_key = finding_key f, dr_check = check\<rparr>, st2))))"

fun dump_findings :: "dumps_world \<Rightarrow> (string \<Rightarrow> container option) \<Rightarrow> string \<Rightarrow> bool \<Rightarrow> finding list \<Rightarrow> dumps_state
    \<Rightarrow> dump_result list \<times> dumps_state" where
  "dump_findings w containers staging verify [] st = ([], st)"
| "dump_findings w containers staging verify (f # fs) st =
     (if \<not> exportable f then dump_findings w containers staging verify fs st
      else (let (r, st1) = dump_finding w containers staging verify f st;
                (rs, st2) = dump_findings w containers staging verify fs st1
            in (case r of None \<Rightarrow> rs | Some x \<Rightarrow> x # rs, st2)))"

definition dump_databases :: "dumps_world \<Rightarrow> bool \<Rightarrow> string \<Rightarrow> blueprint option \<Rightarrow> container list \<Rightarrow> string \<Rightarrow> bool
    \<Rightarrow> dumps_state \<Rightarrow> dump_result list \<times> dumps_state" where
  "dump_databases w docker project_id bp cs staging verify st =
     (case bp of
        None \<Rightarrow> ([], st)
      | Some b \<Rightarrow>
          if \<not> docker \<or> project_id = [] then ([], st)
          else dump_findings w (service_containers cs) staging verify (bp_findings b) st)"

definition dumped_keys :: "dump_result list \<Rightarrow> string list" where
  "dumped_keys rs = map dr_key rs"

section \<open>The manifest\<close>

definition exported_entry :: "dump_result \<Rightarrow> database_dump" where
  "exported_entry r =
     \<lparr>dd_technology = df_technology (dr_file r), dd_service = df_service (dr_file r), dd_level = Exported,
      dd_path = df_path (dr_file r), dd_command = df_command (dr_file r), dd_user = df_user (dr_file r),
      dd_bytes = int (df_bytes (dr_file r)), dd_note = [], dd_check = dr_check r\<rparr>"

definition sqlite_entries :: "volume_manifest \<Rightarrow> database_dump list" where
  "sqlite_entries v =
     map (\<lambda>c. \<lparr>dd_technology = ''sqlite'', dd_service = vm_name v, dd_level = Consistent,
                dd_path = vm_name v @ ''/'' @ sc_path c, dd_command = [], dd_user = [], dd_bytes = sc_bytes c,
                dd_note = sc_method c, dd_check = None\<rparr>) (vm_sqlite v)"

definition files_only_note :: string where
  "files_only_note = ''Back-Orbit does not export this engine yet, so only its data directory was copied. That restores if the service was stopped, and may not if it was running.''"

definition files_only_entry :: "finding \<Rightarrow> database_dump" where
  "files_only_entry f =
     \<lparr>dd_technology = fd_technology f, dd_service = fd_service f, dd_level = Files_Only, dd_path = [],
      dd_command = [], dd_user = [], dd_bytes = 0, dd_note = files_only_note, dd_check = None\<rparr>"

definition manifest_entries :: "string \<Rightarrow> blueprint option \<Rightarrow> dump_result list \<Rightarrow> volume_manifest list
    \<Rightarrow> database_dump list" where
  "manifest_entries project_id bp rs volumes =
     map exported_entry rs @ concat (map sqlite_entries volumes) @
     (case bp of
        None \<Rightarrow> []
      | Some b \<Rightarrow>
          if project_id = [] then []
          else map files_only_entry (filter (\<lambda>f. fd_kind f = ''database'' \<and> fd_technology f \<noteq> ''sqlite'' \<and>
                 fd_confidence f \<noteq> Possible \<and> finding_key f \<notin> set (dumped_keys rs)) (bp_findings b)))"

section \<open>Consistency warnings\<close>

definition server_databases :: "(string \<times> string) list" where
  "server_databases =
     [(''postgresql'', ''PostgreSQL''), (''mysql'', ''MySQL''), (''mariadb'', ''MariaDB''), (''mongodb'', ''MongoDB''),
      (''redis'', ''Redis''), (''valkey'', ''Valkey'')]"

type_synonym services_by_label = "(string \<times> string list) list"

definition services_of :: "services_by_label \<Rightarrow> string \<Rightarrow> string list" where
  "services_of m label = (case map_of m label of None \<Rightarrow> [] | Some ss \<Rightarrow> ss)"

definition note_finding :: "string list \<Rightarrow> finding \<Rightarrow> services_by_label \<Rightarrow> services_by_label" where
  "note_finding dumped f m =
     (if fd_kind f \<noteq> ''database'' then m
      else case map_of server_databases (fd_technology f) of
        None \<Rightarrow> m
      | Some label \<Rightarrow>
          if finding_key f \<in> set dumped then m
          else if fd_service f \<noteq> [] then AList.update label (append_new (fd_service f) (services_of m label)) m
          else if map_of m label = None then AList.update label [] m
          else m)"

definition consistency_warning :: "string \<Rightarrow> string list \<Rightarrow> string" where
  "consistency_warning label names =
     label @ '' was detected in this project'' @
     (if names = [] then [] else '' (service '' @ join (sort_strings names) '', '' @ '')'') @
     '', and its files were copied as they were rather than exported with a dump. If the database was running during this backup, the copy may be inconsistent and may not start when restored. Until Back-Orbit performs the dump itself, stop the service before backing up, or take a dump alongside this snapshot.''"

definition database_consistency_warnings :: "string \<Rightarrow> blueprint option \<Rightarrow> string list \<Rightarrow> string list" where
  "database_consistency_warnings project_id bp dumped =
     (case bp of
        None \<Rightarrow> []
      | Some b \<Rightarrow>
          if project_id = [] then []
          else (let services = fold (note_finding dumped) (bp_findings b) [] in
                map (\<lambda>label. consistency_warning label (services_of services label))
                  (sort_strings (map fst services))))"

section \<open>Lemmas on the exports\<close>

lemma add_warning_sel [simp]:
  "dxs_dump (add_warning t st) = dxs_dump st" "dxs_calls (add_warning t st) = dxs_calls st"
  "dxs_warnings (add_warning t st) = dxs_warnings st @ [t]"
  by (simp_all add: add_warning_def)

lemma prove_restore_dump [simp]: "dxs_dump (snd (prove_restore w f c staging file st)) = dxs_dump st"
  by (simp add: prove_restore_def Let_def case_prod_beta split: sum.split)

text \<open>The file of the export of a finding; it depends on nothing else.\<close>

definition export_target :: "finding \<Rightarrow> dump_target" where
  "export_target f = \<lparr>dt_technology = fd_technology f, dt_service = fd_service f, dt_container = [], dt_user = [], dt_password = []\<rparr>"

definition finding_path :: "string \<Rightarrow> finding \<Rightarrow> string" where
  "finding_path staging f = path_join [staging, dump_file_path (export_target f)]"

lemma dump_file_path_finding:
  "dump_file_path (finding_target f c u p) = dump_file_path (export_target f)"
  by (simp add: dump_file_path_def dump_ending_def finding_target_def export_target_def)

lemma dump_one_outcome:
  assumes "dump_one w f c staging st = (r, st')"
  shows "case r of
      Inr file \<Rightarrow> df_technology file = fd_technology f \<and> df_service file = fd_service f \<and>
        path_join [staging, df_path file] = finding_path staging f \<and>
        (\<exists>out. out \<noteq> [] \<and> df_bytes file = length out \<and> staged st' = (staged st)(finding_path staging f \<mapsto> out))
    | Inl e \<Rightarrow> failed_at (dx_dump w (ctr_id c)) (finding_path staging f) (staged st) (staged st')"
proof (cases "\<exists>u pw. first_env_value w (ctr_id c) (user_keys (fd_technology f)) = Inr u \<and>
    first_env_value w (ctr_id c) (password_keys (fd_technology f)) = Inr pw")
  case True
  then obtain u pw where "export_database (dx_dump w (ctr_id c)) (finding_target f c u pw) staging st = (r, st')"
    using assms(1) by (auto simp: dump_one_def)
  note run = this
  have path: "path_join [staging, dump_file_path (finding_target f c u pw)] = finding_path staging f"
    unfolding finding_path_def dump_file_path_finding[of f c u pw] ..
  note outcome = export_all_or_nothing_core[OF run]
  show ?thesis
  proof (cases r)
    case (Inl e)
    then show ?thesis using outcome by (simp add: path)
  next
    case (Inr written)
    have "df_technology written = fd_technology f" "df_service written = fd_service f"
      using export_database_names[OF run[unfolded Inr]] by (simp_all add: finding_target_def)
    then show ?thesis using outcome Inr path by auto
  qed
next
  case False
  then show ?thesis using assms(1) by (auto simp: dump_one_def split: sum.splits)
qed

definition holds_dump :: "string \<Rightarrow> dump_state \<Rightarrow> dump_result \<Rightarrow> bool" where
  "holds_dump staging ds r =
     (case staged ds (path_join [staging, df_path (dr_file r)]) of
        None \<Rightarrow> False
      | Some c \<Rightarrow> c \<noteq> [] \<and> df_bytes (dr_file r) = length c)"

definition result_of :: "finding \<Rightarrow> dump_result \<Rightarrow> bool" where
  "result_of f r = (dr_key r = finding_key f \<and> df_technology (dr_file r) = fd_technology f \<and>
     df_service (dr_file r) = fd_service f)"

lemma dump_finding_cases:
  assumes "dump_finding w containers staging verify f st = (r, st')"
  obtains (unrun) "r = None" "dxs_dump st' = dxs_dump st" "dxs_warnings st' \<noteq> []"
    | (failed) c e ds where "containers (fd_service f) = Some c" "dump_one w f c staging (dxs_dump st) = (Inl e, ds)"
        "r = None" "dxs_dump st' = ds" "dxs_warnings st' \<noteq> []"
    | (exported) c out ds check where "containers (fd_service f) = Some c"
        "dump_one w f c staging (dxs_dump st) = (Inr out, ds)"
        "r = Some \<lparr>dr_file = out, dr_key = finding_key f, dr_check = check\<rparr>" "dxs_dump st' = ds"
proof -
  show thesis
  proof (cases "\<exists>c. containers (fd_service f) = Some c \<and> ctr_id c \<noteq> []")
    case False
    then have "r = None \<and> st' = add_warning (not_running_warning f) st"
      using assms by (auto simp: dump_finding_def split: option.splits)
    then show thesis by (intro unrun) auto
  next
    case True
    then obtain c where c: "containers (fd_service f) = Some c" "ctr_id c \<noteq> []" by blast
    obtain x ds where run: "dump_one w f c staging (dxs_dump st) = (x, ds)" by fastforce
    show thesis
    proof (cases x)
      case (Inl e)
      then have "r = None \<and> st' = add_warning (failed_export_warning f (error_text e)) (st\<lparr>dxs_dump := ds\<rparr>)"
        using assms c run by (simp add: dump_finding_def Let_def)
      then show thesis using c(1) run Inl by (intro failed[of c e ds]) auto
    next
      case (Inr out)
      obtain check st2 where check: "(if verify then prove_restore w f c staging out (st\<lparr>dxs_dump := ds\<rparr>)
          else (None, st\<lparr>dxs_dump := ds\<rparr>)) = (check, st2)" by fastforce
      then have "dxs_dump st2 = ds"
        using prove_restore_dump[of w f c staging out "st\<lparr>dxs_dump := ds\<rparr>"] by (cases verify) auto
      moreover have "r = Some \<lparr>dr_file = out, dr_key = finding_key f, dr_check = check\<rparr> \<and> st' = st2"
        using assms c run Inr check by (simp add: dump_finding_def Let_def)
      ultimately show thesis using c(1) run Inr by (intro exported[of c out ds check]) auto
    qed
  qed
qed

lemma dump_finding_outcome:
  assumes "dump_finding w containers staging verify f st = (r, st')"
  shows "(\<forall>p. p \<noteq> finding_path staging f \<longrightarrow> staged (dxs_dump st') p = staged (dxs_dump st) p) \<and>
    (case r of None \<Rightarrow> True
     | Some x \<Rightarrow> result_of f x \<and> path_join [staging, df_path (dr_file x)] = finding_path staging f \<and>
         holds_dump staging (dxs_dump st') x)"
  using assms(1)
proof (cases rule: dump_finding_cases)
  case (failed c e ds)
  then show ?thesis using dump_one_outcome[OF failed(2)] failed_at_other by fastforce
next
  case (exported c out ds check)
  obtain body where body: "df_technology out = fd_technology f" "df_service out = fd_service f"
      "path_join [staging, df_path out] = finding_path staging f" "body \<noteq> []" "df_bytes out = length body"
      "staged ds = (staged (dxs_dump st))(finding_path staging f \<mapsto> body)"
    using dump_one_outcome[OF exported(2)] by auto
  then show ?thesis using exported(3,4) by (simp add: result_of_def holds_dump_def)
qed simp

lemma dump_findings_outcome:
  assumes "dump_findings w containers staging verify fs st = (rs, st')"
    "distinct (map (finding_path staging) (filter exportable fs))"
  shows "list_all (holds_dump staging (dxs_dump st')) rs \<and>
    (\<forall>p. p \<notin> finding_path staging ` set (filter exportable fs) \<longrightarrow> staged (dxs_dump st') p = staged (dxs_dump st) p)"
  using assms(1,2)
proof (induction fs arbitrary: st rs)
  case (Cons f fs)
  show ?case
  proof (cases "exportable f")
    case False
    then show ?thesis using Cons by simp
  next
    case True
    obtain r st1 where one: "dump_finding w containers staging verify f st = (r, st1)" by fastforce
    obtain rs' st2 where rest: "dump_findings w containers staging verify fs st1 = (rs', st2)" by fastforce
    have res: "rs = (case r of None \<Rightarrow> rs' | Some x \<Rightarrow> x # rs')" "st' = st2"
      using Cons.prems(1) True one rest by (simp_all add: Let_def)
    note out = dump_finding_outcome[OF one]
    have ih: "list_all (holds_dump staging (dxs_dump st2)) rs'"
        "\<And>p. p \<notin> finding_path staging ` set (filter exportable fs) \<Longrightarrow> staged (dxs_dump st2) p = staged (dxs_dump st1) p"
      using Cons.IH[of st1 rs'] rest Cons.prems(2) True res(2) by auto
    have fresh: "finding_path staging f \<notin> finding_path staging ` set (filter exportable fs)"
      using Cons.prems(2) True by simp
    have "holds_dump staging (dxs_dump st2) x" if "r = Some x" for x
      using out ih(2)[OF fresh] that by (auto simp: holds_dump_def)
    then show ?thesis using ih out True by (auto simp: res split: option.splits)
  qed
qed simp

lemma dump_one_names:
  assumes "dump_one w f c staging st = (Inr out, st')"
  shows "df_technology out = fd_technology f \<and> df_service out = fd_service f"
proof -
  obtain u pw where "export_database (dx_dump w (ctr_id c)) (finding_target f c u pw) staging st = (Inr out, st')"
    using assms by (auto simp: dump_one_def split: sum.splits)
  from export_database_names[OF this] show ?thesis by (simp add: finding_target_def)
qed

lemma dump_finding_result:
  assumes "dump_finding w containers staging verify f st = (Some x, st')"
  shows "result_of f x"
  using assms
proof (cases rule: dump_finding_cases)
  case (exported c out ds check)
  then show ?thesis using dump_one_names[OF exported(2)] by (simp add: result_of_def)
qed simp_all

lemma dump_findings_results:
  "dump_findings w containers staging verify fs st = (rs, st') \<Longrightarrow> r \<in> set rs \<Longrightarrow>
   \<exists>f\<in>set fs. exportable f \<and> result_of f r"
proof (induction fs arbitrary: st rs)
  case (Cons f fs)
  show ?case
  proof (cases "exportable f")
    case False
    then show ?thesis using Cons.IH[of st rs] Cons.prems by auto
  next
    case True
    obtain x st1 where one: "dump_finding w containers staging verify f st = (x, st1)" by fastforce
    obtain rs' st2 where rest: "dump_findings w containers staging verify fs st1 = (rs', st2)" by fastforce
    have "rs = (case x of None \<Rightarrow> rs' | Some y \<Rightarrow> y # rs')" "st' = st2"
      using Cons.prems(1) True one rest by (simp_all add: Let_def)
    then consider "x = Some r" | "r \<in> set rs'" using Cons.prems(2) by (auto split: option.splits)
    then show ?thesis
    proof cases
      case 1
      then show ?thesis using dump_finding_result[of w containers staging verify f st r st1] one True by auto
    next
      case 2
      then show ?thesis using Cons.IH[of st1 rs'] rest \<open>st' = st2\<close> by auto
    qed
  qed
qed simp

lemma dump_one_path:
  assumes "dump_one w f c staging st = (Inr out, st')"
  shows "df_path out = dump_file_path (export_target f)"
proof -
  obtain u pw where "export_database (dx_dump w (ctr_id c)) (finding_target f c u pw) staging st = (Inr out, st')"
    using assms by (auto simp: dump_one_def split: sum.splits)
  from export_all_or_nothing_core[OF this] show ?thesis by (simp add: dump_file_path_finding[of f c u pw])
qed

lemma dump_findings_paths:
  "dump_findings w containers staging verify fs st = (rs, st') \<Longrightarrow> r \<in> set rs \<Longrightarrow>
   \<exists>f. exportable f \<and> df_path (dr_file r) = dump_file_path (export_target f)"
proof (induction fs arbitrary: st rs)
  case (Cons f fs)
  show ?case
  proof (cases "exportable f")
    case False
    then show ?thesis using Cons.IH[of st rs] Cons.prems by auto
  next
    case True
    obtain x st1 where one: "dump_finding w containers staging verify f st = (x, st1)" by fastforce
    obtain rs' st2 where rest: "dump_findings w containers staging verify fs st1 = (rs', st2)" by fastforce
    have "rs = (case x of None \<Rightarrow> rs' | Some y \<Rightarrow> y # rs')" "st2 = st'"
      using Cons.prems(1) True one rest by (simp_all add: Let_def)
    then consider "x = Some r" | "r \<in> set rs'" using Cons.prems(2) by (auto split: option.splits)
    then show ?thesis
    proof cases
      case 1
      from one[unfolded 1] show ?thesis
        by (cases rule: dump_finding_cases) (use True dump_one_path in auto)
    next
      case 2
      then show ?thesis using Cons.IH[OF rest[unfolded \<open>st2 = st'\<close>]] by blast
    qed
  qed
qed simp

text \<open>An export that did not happen always leaves a warning.\<close>

lemma dump_finding_warnings:
  assumes "dump_finding w containers staging verify f st = (r, st')"
  shows "prefix (dxs_warnings st) (dxs_warnings st') \<and> (r = None \<longrightarrow> strict_prefix (dxs_warnings st) (dxs_warnings st'))"
  using assms
  by (auto simp: dump_finding_def prove_restore_def Let_def case_prod_beta add_warning_def strict_prefix_def
      split: option.splits sum.splits if_splits)

lemma dump_findings_warnings:
  "prefix (dxs_warnings st) (dxs_warnings (snd (dump_findings w containers staging verify fs st)))"
proof (induction fs arbitrary: st)
  case (Cons f fs)
  obtain r st1 where one: "dump_finding w containers staging verify f st = (r, st1)" by fastforce
  show ?case
    using Cons.IH[of st] Cons.IH[of st1] dump_finding_warnings[OF one]
    by (auto simp: one Let_def case_prod_beta intro: prefix_order.order_trans)
qed simp

lemma dump_databases_Some:
  assumes "dump_databases w docker pid bp cs staging verify st = (rs, st')"
  shows "(rs = [] \<and> st' = st) \<or>
    (\<exists>b. bp = Some b \<and> dump_findings w (service_containers cs) staging verify (bp_findings b) st = (rs, st'))"
  using assms by (auto simp: dump_databases_def split: option.splits if_splits)

text \<open>Whatever fails, the exports only touch their own files below the staging directory.\<close>

lemma dump_one_other:
  assumes "dump_one w f c staging st = (r, st')" "p \<noteq> finding_path staging f"
  shows "staged st' p = staged st p"
proof -
  have path: "path_join [staging, dump_file_path (finding_target f c u pw)] = finding_path staging f" for u pw
    unfolding finding_path_def dump_file_path_finding[of f c u pw] ..
  show ?thesis
    using assms export_database_other[of "dx_dump w (ctr_id c)" "finding_target f c _ _" staging st r st' p]
    by (auto simp: dump_one_def path split: sum.splits)
qed

lemma dump_finding_other:
  assumes "dump_finding w containers staging verify f st = (r, st')" "p \<noteq> finding_path staging f"
  shows "staged (dxs_dump st') p = staged (dxs_dump st) p"
  using assms(1)
proof (cases rule: dump_finding_cases)
  case (failed c e ds)
  then show ?thesis using dump_one_other[OF failed(2) assms(2)] by simp
next
  case (exported c out ds check)
  then show ?thesis using dump_one_other[OF exported(2) assms(2)] by simp
qed simp

lemma dump_findings_other:
  assumes "dump_findings w containers staging verify fs st = (rs, st')"
    "p \<notin> finding_path staging ` set (filter exportable fs)"
  shows "staged (dxs_dump st') p = staged (dxs_dump st) p"
  using assms
proof (induction fs arbitrary: st rs)
  case (Cons f fs)
  show ?case
  proof (cases "exportable f")
    case False
    then show ?thesis using Cons by simp
  next
    case True
    obtain r st1 where one: "dump_finding w containers staging verify f st = (r, st1)" by fastforce
    obtain rs' where rest: "dump_findings w containers staging verify fs st1 = (rs', st')"
      using Cons.prems(1) True one by (auto simp: Let_def split: prod.splits)
    show ?thesis
      using Cons.IH[OF rest] dump_finding_other[OF one, of p] Cons.prems(2) True by auto
  qed
qed simp

lemma finding_path_segs:
  assumes "abs_clean staging" "exportable f"
  shows "prefix (path_segs staging) (path_segs (finding_path staging f))"
  unfolding finding_path_def
  using dump_file_path_segs[OF assms(1), of "export_target f"] assms(2)
  by (simp add: export_target_def exportable_def dump_engines_def)

lemma dump_databases_other:
  assumes "dump_databases w docker pid bp cs staging verify st = (rs, st')" "abs_clean staging"
    "\<not> prefix (path_segs staging) (path_segs p)"
  shows "staged (dxs_dump st') p = staged (dxs_dump st) p"
proof -
  have "p \<notin> finding_path staging ` set (filter exportable fs)" for fs
    using finding_path_segs[OF assms(2)] assms(3) by auto
  then show ?thesis using dump_databases_Some[OF assms(1)] dump_findings_other by fastforce
qed

lemma manifest_lists_exports:
  assumes "dump_databases w docker pid bp cs staging verify st = (rs, st')" "finding_key f \<in> set (dumped_keys rs)"
    "CHR '':'' \<notin> set (fd_technology f)"
  shows "\<exists>e\<in>set (manifest_entries pid' bp' rs volumes).
    dd_technology e = fd_technology f \<and> dd_service e = fd_service f \<and> dd_level e = Exported \<and>
    (\<exists>r\<in>set rs. dd_path e = df_path (dr_file r))"
proof -
  obtain r where r: "r \<in> set rs" "dr_key r = finding_key f" using assms(2) by (auto simp: dumped_keys_def)
  then obtain g where g: "exportable g" "result_of g r"
    using dump_databases_Some[OF assms(1)] dump_findings_results[OF _ r(1)] by fastforce
  have "CHR '':'' \<notin> set (fd_technology g)" using g(1) by (auto simp: exportable_def dump_engines_def)
  moreover have "fd_service g @ '':'' @ fd_technology g = fd_service f @ '':'' @ fd_technology f"
    using g(2) r(2) by (simp add: result_of_def finding_key_def)
  ultimately have "fd_service g = fd_service f \<and> fd_technology g = fd_technology f"
    using assms(3) by (intro last_separator) auto
  then have "dd_technology (exported_entry r) = fd_technology f" "dd_service (exported_entry r) = fd_service f"
    using g(2) by (simp_all add: exported_entry_def result_of_def)
  moreover have "exported_entry r \<in> set (manifest_entries pid' bp' rs volumes)"
    using r(1) by (simp add: manifest_entries_def)
  ultimately show ?thesis using r(1) by (intro bexI[of _ "exported_entry r"]) (auto simp: exported_entry_def)
qed

section \<open>Lemmas on the warnings\<close>

definition unexported :: "string list \<Rightarrow> finding \<Rightarrow> bool" where
  "unexported dumped f = (fd_kind f = ''database'' \<and> map_of server_databases (fd_technology f) \<noteq> None \<and>
     finding_key f \<notin> set dumped)"

lemma note_finding_labels:
  "set (map fst (note_finding dumped f m)) = set (map fst m) \<union>
     (if unexported dumped f then {the (map_of server_databases (fd_technology f))} else {})"
proof (cases "unexported dumped f")
  case False
  then have "note_finding dumped f m = m" by (auto simp: note_finding_def unexported_def split: option.splits)
  then show ?thesis using False by simp
next
  case True
  then obtain label where l: "map_of server_databases (fd_technology f) = Some label"
      "fd_kind f = ''database''" "finding_key f \<notin> set dumped" by (auto simp: unexported_def)
  show ?thesis
  proof (cases "fd_service f = [] \<and> map_of m label \<noteq> None")
    case True
    then have "label \<in> set (map fst m)" by (auto simp: map_of_eq_None_iff)
    then show ?thesis using True l \<open>unexported dumped f\<close> by (auto simp: note_finding_def)
  next
    case False
    then have "\<exists>v. note_finding dumped f m = AList.update label v m" using l by (auto simp: note_finding_def)
    moreover have "set (map fst (AList.update label v m)) = insert label (set (map fst m))" for v
      by (auto simp: update_keys)
    ultimately show ?thesis using \<open>unexported dumped f\<close> l(1) by (elim exE) simp
  qed
qed

lemma note_finding_services:
  assumes "unexported dumped f" "map_of server_databases (fd_technology f) = Some label" "fd_service f \<noteq> []"
  shows "fd_service f \<in> set (services_of (note_finding dumped f m) label)"
  using assms by (simp add: note_finding_def unexported_def services_of_def update_conv)

lemma note_finding_keeps: "set (services_of m label) \<subseteq> set (services_of (note_finding dumped f m) label)"
  by (auto simp: note_finding_def services_of_def update_conv split: option.splits)

lemma fold_note_keeps: "set (services_of m label) \<subseteq> set (services_of (fold (note_finding dumped) fs m) label)"
proof (induction fs arbitrary: m)
  case (Cons f fs)
  show ?case unfolding fold_simps(2) by (rule subset_trans[OF note_finding_keeps Cons.IH])
qed simp

lemma fold_note_labels:
  "set (map fst (fold (note_finding dumped) fs m)) = set (map fst m) \<union>
     (\<lambda>f. the (map_of server_databases (fd_technology f))) ` set (filter (unexported dumped) fs)"
proof (induction fs arbitrary: m)
  case (Cons f fs)
  show ?case unfolding fold_simps(2) Cons.IH note_finding_labels by auto
qed simp

lemma fold_note_services:
  assumes "f \<in> set fs" "unexported dumped f" "map_of server_databases (fd_technology f) = Some label" "fd_service f \<noteq> []"
  shows "fd_service f \<in> set (services_of (fold (note_finding dumped) fs m) label)"
  using assms(1)
proof (induction fs arbitrary: m)
  case (Cons g fs)
  show ?case
  proof (cases "f = g")
    case True
    then show ?thesis using note_finding_services[OF assms(2-4), of m] fold_note_keeps by fastforce
  next
    case False
    then show ?thesis using Cons by simp
  qed
qed simp

text \<open>One of the warnings names the engine of a finding and, where it has one, its service.\<close>

definition names_finding :: "string list \<Rightarrow> string \<Rightarrow> blueprint \<Rightarrow> finding \<Rightarrow> bool" where
  "names_finding dumped pid b f =
     (\<exists>label. map_of server_databases (fd_technology f) = Some label \<and>
        (let names = services_of (fold (note_finding dumped) (bp_findings b) []) label in
         (fd_service f = [] \<or> fd_service f \<in> set names) \<and>
         consistency_warning label names \<in> set (database_consistency_warnings pid (Some b) dumped)))"

lemma consistency_warnings_core:
  assumes "pid \<noteq> []"
  shows "(database_consistency_warnings pid (Some b) dumped = [] \<longleftrightarrow>
      filter (unexported dumped) (bp_findings b) = []) \<and>
    list_all (names_finding dumped pid b) (filter (unexported dumped) (bp_findings b))"
proof -
  let ?m = "fold (note_finding dumped) (bp_findings b) []"
  have labels: "set (map fst ?m) = (\<lambda>f. the (map_of server_databases (fd_technology f))) ` set (filter (unexported dumped) (bp_findings b))"
    using fold_note_labels[of dumped "bp_findings b" "[]"] by simp
  have eq: "database_consistency_warnings pid (Some b) dumped =
      map (\<lambda>label. consistency_warning label (services_of ?m label)) (sort_strings (map fst ?m))"
    using assms by (simp add: database_consistency_warnings_def Let_def)
  have "map h (sort_strings ks) = [] \<longleftrightarrow> set ks = {}" for h :: "string \<Rightarrow> string" and ks
    by simp
  then have "database_consistency_warnings pid (Some b) dumped = [] \<longleftrightarrow> set (map fst ?m) = {}"
    unfolding eq by blast
  then have first: "database_consistency_warnings pid (Some b) dumped = [] \<longleftrightarrow> filter (unexported dumped) (bp_findings b) = []"
    unfolding labels by (auto simp: filter_empty_conv)
  have "\<exists>label. map_of server_databases (fd_technology f) = Some label \<and>
      (fd_service f = [] \<or> fd_service f \<in> set (services_of ?m label)) \<and>
      consistency_warning label (services_of ?m label) \<in> set (database_consistency_warnings pid (Some b) dumped)"
    if f: "f \<in> set (filter (unexported dumped) (bp_findings b))" for f
  proof -
    obtain label where l: "map_of server_databases (fd_technology f) = Some label"
      using f by (auto simp: unexported_def)
    then have "label \<in> set (map fst ?m)" unfolding labels using f by force
    then have "consistency_warning label (services_of ?m label) \<in> set (database_consistency_warnings pid (Some b) dumped)"
      unfolding eq by (simp add: set_sort_strings)
    moreover have "fd_service f = [] \<or> fd_service f \<in> set (services_of ?m label)"
      using fold_note_services[OF _ _ l, of "bp_findings b" dumped "[]"] f by auto
    ultimately show ?thesis using l by blast
  qed
  then have "list_all (names_finding dumped pid b) (filter (unexported dumped) (bp_findings b))"
    unfolding list_all_iff names_finding_def Let_def by blast
  with first show ?thesis by blast
qed

lemma consistency_warnings_empty:
  "pid \<noteq> [] \<Longrightarrow> database_consistency_warnings pid (Some b) dumped = [] \<longleftrightarrow>
     filter (unexported dumped) (bp_findings b) = []"
  using consistency_warnings_core by blast

lemma dump_databases_held:
  assumes "dump_databases w docker pid (Some b) cs staging verify st = (rs, st')"
    "distinct (map (finding_path staging) (filter exportable (bp_findings b)))"
  shows "list_all (holds_dump staging (dxs_dump st')) rs"
  using dump_databases_Some[OF assms(1)] dump_findings_outcome[OF _ assms(2)] by auto

text \<open>The results of the exports lie in the dump directory, one level below the staging directory.\<close>

lemma dump_databases_below:
  assumes "dump_databases w docker pid bp cs staging verify st = (rs, st')" "abs_clean staging" "r \<in> set rs"
  shows "\<exists>name. path_segs (path_join [staging, df_path (dr_file r)]) = path_segs staging @ [dump_directory, name]"
proof -
  obtain b :: blueprint where b: "dump_findings w (service_containers cs) staging verify (bp_findings b) st = (rs, st')"
    using dump_databases_Some[OF assms(1)] assms(3) by (auto simp: that)
  obtain f where f: "exportable f" "df_path (dr_file r) = dump_file_path (export_target f)"
    using dump_findings_paths[OF b assms(3)] by blast
  show ?thesis
    unfolding f(2) using dump_file_path_segs[OF assms(2), of "export_target f"] f(1)
    by (simp add: export_target_def exportable_def dump_engines_def)
qed

section \<open>Properties\<close>

text \<open>
  Every export listed by a run is in the staged tree: when the exports go to different files, each
  result names a file that holds a dump of exactly the recorded, non-zero size when all exports are
  done, whatever the later ones did.
\<close>

theorem dump_databases_present:
  assumes "dump_databases w docker pid (Some b) cs staging verify st = (rs, st')"
    "distinct (map (finding_path staging) (filter exportable (bp_findings b)))"
  shows "list_all (holds_dump staging (dxs_dump st')) rs"
  by (rule dump_databases_held[OF assms])

text \<open>
  The snapshot describes itself: every server database the analyzer is sure enough about is listed
  in the manifest, either as an export with the path of its dump or as copied files only.
\<close>

theorem manifest_lists_every_database:
  assumes "dump_databases w docker pid (Some b) cs staging verify st = (rs, st')" "pid \<noteq> []"
    "f \<in> set (bp_findings b)" "fd_kind f = ''database''" "fd_technology f \<noteq> ''sqlite''" "fd_confidence f \<noteq> Possible"
    "CHR '':'' \<notin> set (fd_technology f)"
  shows "\<exists>e\<in>set (manifest_entries pid (Some b) rs volumes).
    dd_technology e = fd_technology f \<and> dd_service e = fd_service f \<and>
    (dd_level e = Exported \<and> (\<exists>r\<in>set rs. dd_path e = df_path (dr_file r)) \<or> dd_level e = Files_Only)"
proof (cases "finding_key f \<in> set (dumped_keys rs)")
  case False
  then have "files_only_entry f \<in> set (manifest_entries pid (Some b) rs volumes)"
    using assms(2-6) by (simp add: manifest_entries_def)
  then show ?thesis by (intro bexI[of _ "files_only_entry f"]) (simp add: files_only_entry_def)
next
  case True
  then show ?thesis using manifest_lists_exports[OF assms(1) True assms(7), of pid "Some b" volumes] by blast
qed

text \<open>
  Silence is earned: a project with an analysis gets no consistency warning exactly when every
  server database found in it was exported; and every database that was not is named with its engine
  and its service in one of the warnings.
\<close>

theorem consistency_warnings_complete:
  assumes "pid \<noteq> []"
  shows "(database_consistency_warnings pid (Some b) dumped = [] \<longleftrightarrow>
      filter (unexported dumped) (bp_findings b) = []) \<and>
    list_all (names_finding dumped pid b) (filter (unexported dumped) (bp_findings b))"
  by (rule consistency_warnings_core[OF assms])

text \<open>A project with a PostgreSQL and a Redis service, and containers that answer.\<close>

definition sample_finding :: "string \<Rightarrow> string \<Rightarrow> finding" where
  "sample_finding technology service =
     \<lparr>fd_id = [], fd_kind = ''database'', fd_technology = technology, fd_service = service, fd_confidence = Confirmed,
      fd_evidence = [], fd_recommendation = [], fd_consistency = [], fd_warnings = [], fd_data_mount = None\<rparr>"

definition sample_blueprint :: "finding list \<Rightarrow> blueprint" where
  "sample_blueprint fs =
     \<lparr>bp_schema_version = 1, bp_project_id = ''p1'', bp_fingerprint = [], bp_analyzed_at = 0, bp_confirmed_at = None,
      bp_drifted = False, bp_findings = fs, bp_steps = [], bp_warnings = [], bp_matches = []\<rparr>"

definition sample_container :: "string \<Rightarrow> string \<Rightarrow> container" where
  "sample_container i service = \<lparr>ctr_id = i, ctr_name = i, ctr_service = service, ctr_image = ''img'', ctr_image_id = [],
     ctr_state = ''running'', ctr_status = [], ctr_created = 0, ctr_labels = [],
     ctr_mounts = []\<rparr>"

definition broken_world :: dump_world where
  "broken_world = \<lparr>dw_exec = \<lambda>h rq. \<lparr>rp_stdout = [], rp_error = None, rp_code = 1, rp_stderr = ''refused''\<rparr>,
     dw_mkdir_fault = None, dw_open_fault = None, dw_sync_fault = None, dw_stat_fault = None,
     dw_remove_fault = None\<rparr>"

definition sample_dumps_world :: dumps_world where
  "sample_dumps_world =
     \<lparr>dx_env = \<lambda>c k. Inr [], dx_dump = \<lambda>c. if c = ''c2'' then broken_world else quiet_world ''SQL'',
      dx_daemon = sample_daemon, dx_random = \<lambda>k. Inr ''pw'', dx_rounds = \<lambda>k. [None], dx_cwd = \<lambda>p. None\<rparr>"

definition no_exports :: dumps_state where
  "no_exports = \<lparr>dxs_dump = no_dumps, dxs_calls = [], dxs_warnings = []\<rparr>"

definition sample_findings :: "finding list" where
  "sample_findings = [sample_finding ''postgresql'' ''db'', sample_finding ''redis'' ''cache'']"

definition sample_exports :: "dump_result list \<times> dumps_state" where
  "sample_exports = dump_databases sample_dumps_world True ''p1'' (Some (sample_blueprint sample_findings))
     [sample_container ''c1'' ''db''] ''/stage/shop'' False no_exports"

lemma sample_exports_run:
  "dump_databases sample_dumps_world True ''p1'' (Some (sample_blueprint sample_findings))
     [sample_container ''c1'' ''db''] ''/stage/shop'' False no_exports = (fst sample_exports, snd sample_exports)"
  by (simp add: sample_exports_def)

theorem dump_databases_present_witness:
  "list_all (holds_dump ''/stage/shop'' (dxs_dump (snd sample_exports))) (fst sample_exports) \<and>
   map dr_key (fst sample_exports) = [''db:postgresql'']"
proof -
  have f: "filter exportable (bp_findings (sample_blueprint sample_findings)) = [sample_finding ''postgresql'' ''db'']"
    by (simp add: sample_blueprint_def sample_findings_def sample_finding_def exportable_def dump_engines_def)
  have d: "distinct (map (finding_path ''/stage/shop'') (filter exportable (bp_findings (sample_blueprint sample_findings))))"
    unfolding f by simp
  have "map dr_key (fst sample_exports) = [''db:postgresql'']" by code_simp
  then show ?thesis using dump_databases_present[OF sample_exports_run d] by simp
qed

theorem manifest_lists_every_database_witness:
  "\<exists>e\<in>set (manifest_entries ''p1'' (Some (sample_blueprint sample_findings)) (fst sample_exports) []).
    dd_technology e = ''redis'' \<and> dd_service e = ''cache''"
proof -
  have m: "sample_finding ''redis'' ''cache'' \<in> set (bp_findings (sample_blueprint sample_findings))"
    by (simp add: sample_blueprint_def sample_findings_def)
  have s: "fd_technology (sample_finding ''redis'' ''cache'') = ''redis''" "fd_kind (sample_finding ''redis'' ''cache'') = ''database''"
      "fd_confidence (sample_finding ''redis'' ''cache'') \<noteq> Possible" "fd_service (sample_finding ''redis'' ''cache'') = ''cache''"
    by (simp_all add: sample_finding_def)
  show ?thesis
    using manifest_lists_every_database[OF sample_exports_run _ m, of "[]"] by (auto simp: s)
qed

theorem consistency_warnings_complete_witness:
  "database_consistency_warnings ''p1'' (Some (sample_blueprint sample_findings)) [''db:postgresql''] =
     [consistency_warning ''Redis'' [''cache'']] \<and>
   filter (unexported [''db:postgresql'']) (bp_findings (sample_blueprint sample_findings)) \<noteq> []"
proof -
  have w: "database_consistency_warnings ''p1'' (Some (sample_blueprint sample_findings)) [''db:postgresql''] =
     [consistency_warning ''Redis'' [''cache'']]"
    by code_simp
  then show ?thesis
    using consistency_warnings_complete[of "''p1''" "sample_blueprint sample_findings" "[''db:postgresql'']"] by simp
qed

text \<open>
  Two services whose names differ only in a character that is not kept in a file name write to the
  same dump. When the second export fails, the dump of the first is gone, and the run still lists it.
\<close>

lemma colliding_services_lose_a_dump:
  "map dr_key (fst (dump_databases sample_dumps_world True ''p1''
       (Some (sample_blueprint [sample_finding ''postgresql'' ''db.1'', sample_finding ''postgresql'' ''db-1'']))
       [sample_container ''c1'' ''db.1'', sample_container ''c2'' ''db-1''] ''/stage/shop'' False no_exports)) = [''db.1:postgresql'']"
  "dst_files (dxs_dump (snd (dump_databases sample_dumps_world True ''p1''
       (Some (sample_blueprint [sample_finding ''postgresql'' ''db.1'', sample_finding ''postgresql'' ''db-1'']))
       [sample_container ''c1'' ''db.1'', sample_container ''c2'' ''db-1''] ''/stage/shop'' False no_exports))) = []"
  by code_simp+

text \<open>
  The manifest says of an engine it can export that it is not exported yet, whenever the export
  failed.
\<close>

lemma failed_export_called_unsupported:
  "map dd_note (manifest_entries ''p1'' (Some (sample_blueprint [sample_finding ''postgresql'' ''db''])) [] []) = [files_only_note]"
  by code_simp

end
