(* ===== verification/Engine_Errors.thy ===== *)
theory Engine_Errors
  imports Go_Numbers
begin

text \<open>
  How a failure of the backup tool is classified (\<open>internal/backup/errors.go\<close>) and which versions of
  it are accepted (\<open>internal/backup/version.go\<close>).
\<close>

section \<open>Kinds of failure\<close>

datatype error_kind =
  Kind_Unknown | Repository_Not_Found | Repository_Exists | Wrong_Password | Repository_Locked | Network
| Permission | No_Space | Kind_Cancelled | Incomplete_Read | Engine_Missing | Engine_Unsupported

fun error_kind_text :: "error_kind \<Rightarrow> string" where
  "error_kind_text Kind_Unknown = ''unknown''"
| "error_kind_text Repository_Not_Found = ''repository_not_found''"
| "error_kind_text Repository_Exists = ''repository_exists''"
| "error_kind_text Wrong_Password = ''wrong_password''"
| "error_kind_text Repository_Locked = ''repository_locked''"
| "error_kind_text Network = ''network''"
| "error_kind_text Permission = ''permission''"
| "error_kind_text No_Space = ''no_space''"
| "error_kind_text Kind_Cancelled = ''cancelled''"
| "error_kind_text Incomplete_Read = ''incomplete_read''"
| "error_kind_text Engine_Missing = ''engine_missing''"
| "error_kind_text Engine_Unsupported = ''engine_unsupported''"

definition retryable :: "error_kind \<Rightarrow> bool" where
  "retryable k = (k = Repository_Locked \<or> k = Network \<or> k = No_Space)"

text \<open>What the error wraps: the state of a context that is done, or anything else.\<close>

datatype engine_cause = Context_Cancelled | Context_Deadline | Other_Cause string

record engine_error =
  ee_kind :: error_kind
  ee_op :: string
  ee_exit :: int
  ee_output :: string
  ee_cause :: engine_cause

definition engine_error_text :: "engine_error \<Rightarrow> string" where
  "engine_error_text e = ''restic '' @ ee_op e @ '': '' @ error_kind_text (ee_kind e) @
     (if ee_exit e \<noteq> 0 then '' (exit '' @ show_int (ee_exit e) @ '')'' else []) @
     (if ee_output e \<noteq> [] then '': '' @ ee_output e else [])"

definition contains_any :: "string \<Rightarrow> string list \<Rightarrow> bool" where
  "contains_any haystack needles = list_ex (str_contains haystack) needles"

definition classify_output :: "string \<Rightarrow> error_kind" where
  "classify_output output =
     (let lower = to_lower output in
      if contains_any lower [''wrong password'', ''invalid password'', ''bad password''] then Wrong_Password
      else if contains_any lower [''config file already exists'',
          ''repository master key and config already initialized'', ''already initialized''] then Repository_Exists
      else if contains_any lower [''unable to open config file'', ''repository does not exist'',
          ''no such file or directory) is not a valid repository''] then Repository_Not_Found
      else if contains_any lower [''unable to create lock'', ''repository is already locked''] then Repository_Locked
      else if contains_any lower [''no space left'', ''not enough space'', ''quota exceeded''] then No_Space
      else if contains_any lower [''permission denied'', ''operation not permitted''] then Permission
      else if contains_any lower [''connection refused'', ''no such host'', ''network is unreachable'',
          ''i/o timeout'', ''connection reset'', ''dial tcp'', ''tls handshake''] then Network
      else if contains_any lower [''context canceled'', ''interrupt''] then Kind_Cancelled
      else Kind_Unknown)"

definition classify :: "int \<Rightarrow> string \<Rightarrow> error_kind" where
  "classify exit_code output =
     (if exit_code = 3 then Incomplete_Read
      else if exit_code = 10 then Repository_Not_Found
      else if exit_code = 11 then Repository_Locked
      else if exit_code = 12 then Wrong_Password
      else if exit_code = 130 then Kind_Cancelled
      else classify_output output)"

lemma classify_output_no_special:
  "classify_output out \<noteq> Incomplete_Read" "classify_output out \<noteq> Engine_Missing"
  "classify_output out \<noteq> Engine_Unsupported"
  by (simp_all add: classify_output_def Let_def)

lemma classify_incomplete_read: "classify code out = Incomplete_Read \<longleftrightarrow> code = 3"
  by (simp add: classify_def classify_output_no_special)

lemma classify_engine [simp]: "classify code out \<noteq> Engine_Missing" "classify code out \<noteq> Engine_Unsupported"
  by (simp_all add: classify_def classify_output_no_special)

section \<open>Versions\<close>

datatype restic_version = Restic_Version (major: int) (minor: int) (patch: int)

definition older_than :: "restic_version \<Rightarrow> restic_version \<Rightarrow> bool" where
  "older_than v w =
     (if major v \<noteq> major w then major v < major w
      else if minor v \<noteq> minor w then minor v < minor w
      else patch v < patch w)"

text \<open>Versions are ordered by \<open>older_than\<close>, and every two of them are comparable.\<close>

instantiation restic_version :: linorder
begin

definition less_restic_version :: "restic_version \<Rightarrow> restic_version \<Rightarrow> bool" where
  "less_restic_version v w = older_than v w"

definition less_eq_restic_version :: "restic_version \<Rightarrow> restic_version \<Rightarrow> bool" where
  "less_eq_restic_version v w = (older_than v w \<or> v = w)"

instance
proof
  fix u v w :: restic_version
  show "v < w \<longleftrightarrow> v \<le> w \<and> \<not> w \<le> v"
    by (cases v; cases w) (auto simp: less_restic_version_def less_eq_restic_version_def older_than_def)
  show "v \<le> v" by (simp add: less_eq_restic_version_def)
  show "u \<le> v \<Longrightarrow> v \<le> w \<Longrightarrow> u \<le> w"
    by (cases u; cases v; cases w) (auto simp: less_eq_restic_version_def older_than_def split: if_splits)
  show "v \<le> w \<Longrightarrow> w \<le> v \<Longrightarrow> v = w"
    by (cases v; cases w) (auto simp: less_eq_restic_version_def older_than_def split: if_splits)
  show "v \<le> w \<or> w \<le> v"
    by (cases v; cases w) (auto simp: less_eq_restic_version_def older_than_def)
qed

end

definition minimum_restic_version :: restic_version where
  "minimum_restic_version = Restic_Version 0 17 0"

definition version_text :: "restic_version \<Rightarrow> string" where
  "version_text v = show_int (major v) @ ''.'' @ show_int (minor v) @ ''.'' @ show_int (patch v)"

text \<open>
  The pattern \<open>restic\s+v?(\d+)\.(\d+)(?:\.(\d+))?\<close> at one position; an absent third group is empty.
  No repetition can be shortened to make the rest match, so a single scan decides.
\<close>

definition re_space :: string where
  "re_space = map char_of [9::nat, 10, 12, 13, 32]"

definition version_at :: "string \<Rightarrow> (string \<times> string \<times> string) option" where
  "version_at s =
     (let r = drop 6 s; r1 = dropWhile (\<lambda>c. c \<in> set re_space) r; r2 = trim_prefix r1 ''v'';
          a = takeWhile is_digit r2; r3 = dropWhile is_digit r2;
          b = takeWhile is_digit (tl r3); r4 = dropWhile is_digit (tl r3)
      in if has_prefix s ''restic'' \<and> r1 \<noteq> r \<and> a \<noteq> [] \<and> has_prefix r3 ''.'' \<and> b \<noteq> []
         then Some (a, b, if has_prefix r4 ''.'' then takeWhile is_digit (tl r4) else [])
         else None)"

fun find_version :: "string \<Rightarrow> (string \<times> string \<times> string) option" where
  "find_version [] = None"
| "find_version (c # s) = (case version_at (c # s) of Some m \<Rightarrow> Some m | None \<Rightarrow> find_version s)"

definition parse_restic_version :: "string \<Rightarrow> restic_version option" where
  "parse_restic_version output =
     (case find_version output of
        None \<Rightarrow> None
      | Some (a, b, c) \<Rightarrow> Some (Restic_Version (atoi_clamped a) (atoi_clamped b) (if c \<noteq> [] then atoi_clamped c else 0)))"

lemma version_examples:
  "parse_restic_version ''restic 0.19.1 compiled with go1.26.5 on darwin/arm64'' = Some (Restic_Version 0 19 1)"
  "parse_restic_version ''restic v0.17'' = Some (Restic_Version 0 17 0)"
  "parse_restic_version ''rustic 0.7.0'' = None"
  by code_simp+

end
