(* ===== verification/Restic_Engine.thy ===== *)
theory Restic_Engine
  imports Engine_Errors
begin

text \<open>
  The engine that runs the restic binary (\<open>internal/backup/restic.go\<close>, \<open>internal/backup/engine.go\<close>).
  What a run of the binary does is an input that may depend on all runs before it: the lines its
  reader received, the chunks written to the captured streams, the way it ended and the state of the
  context. Decoded JSON is an input as well. The state keeps the cached version probe and the log of
  all runs with their arguments and environment.
\<close>

section \<open>Data\<close>

record repository_config =
  rc_kind :: string
  rc_location :: string
  rc_password :: string
  rc_s3_key :: string
  rc_s3_secret :: string

record snapshot_request =
  sq_repository :: repository_config
  sq_paths :: "string list"
  sq_excludes :: "string list"
  sq_tags :: "string list"
  sq_host :: string

record restore_request =
  rq_repository :: repository_config
  rq_snapshot :: string
  rq_target :: string
  rq_include :: "string list"

record retention_policy =
  keep_last :: int
  keep_hourly :: int
  keep_daily :: int
  keep_weekly :: int
  keep_monthly :: int
  keep_yearly :: int
  keep_within :: int
  keep_tags :: "string list"
  only_tags :: "string list"
  group_by :: string

record progress_report =
  pr_percent :: int
  pr_files_done :: int
  pr_total_files :: int
  pr_bytes_done :: int
  pr_total_bytes :: int
  pr_current_files :: "string list"

record backup_summary =
  bu_snapshot_id :: string
  bu_files_new :: int
  bu_files_changed :: int
  bu_files_unmodified :: int
  bu_data_added :: int
  bu_total_files :: int
  bu_total_bytes :: int

record snapshot_result =
  sp_id :: string
  sp_files_new :: int
  sp_files_changed :: int
  sp_files_unmodified :: int
  sp_data_added :: int
  sp_total_bytes :: int
  sp_total_files :: int
  sp_warnings :: "string list"

record repository_snapshot =
  rs_id :: string
  rs_short_id :: string
  rs_time :: string
  rs_host :: string
  rs_tags :: "string list"
  rs_paths :: "string list"

record restore_result =
  rt_files :: int
  rt_bytes :: int
  rt_warnings :: "string list"

record verification_result =
  vn_ok :: bool
  vn_errors :: "string list"
  vn_checks :: "string list"
  vn_files_listed :: int
  vn_bytes_in_snapshot :: int

text \<open>One run of the binary as the engine sees it.\<close>

datatype wait_error = Exited_With int | Wait_Failed

record restic_process =
  px_pipe_fault :: "string option"
  px_start_fault :: "engine_cause option"
  px_done_at_start :: bool
  px_lines :: "string list"
  px_stdout :: "string list"
  px_stderr :: "string list"
  px_wait :: "wait_error option"
  px_context :: "engine_cause option"

type_synonym restic_runs = "(string list \<times> string list) list"

record restic_world =
  rx_process :: "restic_runs \<Rightarrow> string list \<Rightarrow> string list \<Rightarrow> restic_process"
  rx_lookup_fault :: "string option"
  rx_version :: "(string, string) result"
  rx_env :: "string \<Rightarrow> string"
  rx_message_type :: "string \<Rightarrow> string option"
  rx_progress :: "string \<Rightarrow> progress_report option"
  rx_summary :: "string \<Rightarrow> backup_summary \<Rightarrow> backup_summary"
  rx_restored :: "string \<Rightarrow> int \<times> int \<Rightarrow> int \<times> int"
  rx_error :: "string \<Rightarrow> (string \<times> string) option"
  rx_snapshots :: "string \<Rightarrow> (string, repository_snapshot list) result"
  rx_stats :: "string \<Rightarrow> (string, int \<times> int) result"

record restic_state =
  st_probe :: "engine_error option option"
  st_runs :: restic_runs

section \<open>What is kept of the output\<close>

definition max_captured_output :: nat where
  "max_captured_output = 8 * 1024"

definition bounded_write :: "nat \<Rightarrow> string \<Rightarrow> string \<Rightarrow> string" where
  "bounded_write limit p buf =
     (let remaining = limit - length buf in
      if 0 < remaining then (if remaining < length p then buf @ take remaining p else buf @ p) else buf)"

definition captured :: "string list \<Rightarrow> string" where
  "captured chunks = fold (bounded_write max_captured_output) chunks []"

text \<open>Where the chunks break is no matter: the buffer holds the first bytes of the stream.\<close>

lemma bounded_writes: "fold (bounded_write limit) chunks buf = take limit buf @ take (limit - length buf) (concat chunks)"
  if "length buf \<le> limit"
  using that
proof (induction chunks arbitrary: buf)
  case (Cons c cs)
  have "length (bounded_write limit c buf) \<le> limit" using Cons.prems by (auto simp: bounded_write_def Let_def)
  from Cons.IH[OF this] show ?case using Cons.prems by (auto simp: bounded_write_def Let_def)
qed simp

lemma captured_eq: "captured chunks = take max_captured_output (concat chunks)"
  using bounded_writes[of "[]" max_captured_output chunks] by (simp add: captured_def)

lemma captured_bounded: "length (captured chunks) \<le> max_captured_output"
  by (simp add: captured_eq)

record run_result =
  out_stdout :: string
  out_stderr :: string
  out_exit :: int
  out_lines :: "string list"

definition no_output :: run_result where
  "no_output = \<lparr>out_stdout = [], out_stderr = [], out_exit = 0, out_lines = []\<rparr>"

definition tail_of :: "run_result \<Rightarrow> string" where
  "tail_of r = (if out_stderr r \<noteq> [] then trim_space (out_stderr r) else trim_space (out_stdout r))"

section \<open>Secrets\<close>

definition redacted_marker :: string where
  "redacted_marker = ''[redacted]''"

definition redact_one :: "string \<Rightarrow> string \<Rightarrow> string" where
  "redact_one secret output = (if 4 \<le> length secret then replace_all output secret redacted_marker else output)"

definition redact :: "string \<Rightarrow> repository_config \<Rightarrow> string" where
  "redact output c =
     (if output = [] then []
      else fold redact_one [rc_password c, rc_s3_secret c, rc_s3_key c] output)"

definition repository_url :: "repository_config \<Rightarrow> (string, string) result" where
  "repository_url c =
     (let location = trim_space (rc_location c) in
      if location = [] then Inl ''repository location is empty''
      else if rc_kind c = ''local'' then Inr location
      else if rc_kind c = ''sftp'' then Inr (''sftp:'' @ location)
      else if rc_kind c = ''s3'' then Inr (''s3:'' @ location)
      else if rc_kind c = [] then Inl ''repository kind is empty''
      else Inl (''unsupported repository kind '' @ double_quote # rc_kind c @ [double_quote]))"

definition base_environment :: "restic_world \<Rightarrow> string list" where
  "base_environment w =
     [''PATH='' @ rx_env w ''PATH'', ''HOME='' @ rx_env w ''HOME''] @
     (if rx_env w ''TMPDIR'' \<noteq> [] then [''TMPDIR='' @ rx_env w ''TMPDIR''] else [])"

definition environment_for :: "restic_world \<Rightarrow> repository_config \<Rightarrow> string list" where
  "environment_for w c =
     base_environment w @ [''RESTIC_PASSWORD='' @ rc_password c] @
     (if rc_kind c = ''s3''
      then (if rc_s3_key c \<noteq> [] then [''AWS_ACCESS_KEY_ID='' @ rc_s3_key c] else []) @
           (if rc_s3_secret c \<noteq> [] then [''AWS_SECRET_ACCESS_KEY='' @ rc_s3_secret c] else [])
      else [])"

definition secret_env_prefixes :: "string list" where
  "secret_env_prefixes = [''RESTIC_PASSWORD'', ''AWS_SECRET_ACCESS_KEY'', ''AWS_ACCESS_KEY_ID'']"

definition is_secret_env :: "string \<Rightarrow> bool" where
  "is_secret_env name = (name \<in> set secret_env_prefixes)"

definition redact_environment :: "string list \<Rightarrow> string list" where
  "redact_environment env =
     map (\<lambda>entry. case cut_at CHR ''='' entry of
            Some (name, _) \<Rightarrow> if is_secret_env name then name @ ''=[redacted]'' else entry
          | None \<Rightarrow> entry) env"

section \<open>Running the binary\<close>

definition plain_error :: "error_kind \<Rightarrow> string \<Rightarrow> string \<Rightarrow> engine_error" where
  "plain_error k op cause = \<lparr>ee_kind = k, ee_op = op, ee_exit = 0, ee_output = [], ee_cause = Other_Cause cause\<rparr>"

definition probe_version :: "restic_world \<Rightarrow> engine_error option" where
  "probe_version w =
     (case rx_lookup_fault w of
        Some e \<Rightarrow> Some (plain_error Engine_Missing ''version'' (''restic binary not found: '' @ e))
      | None \<Rightarrow>
          (case rx_version w of
             Inl e \<Rightarrow> Some (plain_error Engine_Missing ''version'' e)
           | Inr out \<Rightarrow>
               (case parse_restic_version out of
                  None \<Rightarrow> None
                | Some got \<Rightarrow>
                    if older_than got minimum_restic_version
                    then Some (plain_error Engine_Unsupported ''version''
                      (''restic '' @ version_text got @ '' is too old, need at least '' @ version_text minimum_restic_version))
                    else None)))"

definition ensure_available :: "restic_world \<Rightarrow> restic_state \<Rightarrow> engine_error option \<times> restic_state" where
  "ensure_available w st =
     (case st_probe st of
        Some r \<Rightarrow> (r, st)
      | None \<Rightarrow> (let r = probe_version w in (r, st\<lparr>st_probe := Some r\<rparr>)))"

text \<open>
  \<open>run\<close>: the result and the error, if any. \<open>streamed\<close> says whether a line handler is given; the lines
  it sees are the lines the reader received before the pipe was closed.
\<close>

definition run_process :: "restic_process \<Rightarrow> repository_config \<Rightarrow> string \<Rightarrow> bool \<Rightarrow> run_result \<times> engine_error option" where
  "run_process p c op streamed =
     (case (if streamed then px_pipe_fault p else None) of
        Some e \<Rightarrow> (no_output, Some (plain_error Kind_Unknown op e))
      | None \<Rightarrow>
          (case px_start_fault p of
             Some e \<Rightarrow> (no_output, Some \<lparr>ee_kind = (if px_done_at_start p then Kind_Cancelled else Kind_Unknown), ee_op = op,
                                             ee_exit = 0, ee_output = [], ee_cause = e\<rparr>)
           | None \<Rightarrow>
               (let out = \<lparr>out_stdout = captured (if streamed then concat (map (\<lambda>l. [l, [newline]]) (px_lines p)) else px_stdout p),
                           out_stderr = captured (px_stderr p), out_exit = 0,
                           out_lines = (if streamed then px_lines p else [])\<rparr>
                in case px_wait p of
                     None \<Rightarrow> (out, None)
                   | Some e \<Rightarrow>
                       (let code = (case e of Exited_With n \<Rightarrow> n | Wait_Failed \<Rightarrow> 0); out1 = out\<lparr>out_exit := code\<rparr> in
                        case px_context p of
                          Some why \<Rightarrow>
                            (out1, Some \<lparr>ee_kind = Kind_Cancelled, ee_op = op, ee_exit = code, ee_output = [], ee_cause = why\<rparr>)
                        | None \<Rightarrow>
                            (let output = redact (tail_of out1) c in
                             (out1, Some \<lparr>ee_kind = classify code output, ee_op = op, ee_exit = code, ee_output = output,
                                          ee_cause = Other_Cause ''exit status''\<rparr>))))))"

definition run_restic :: "restic_world \<Rightarrow> repository_config \<Rightarrow> string \<Rightarrow> string list \<Rightarrow> bool \<Rightarrow> restic_state
    \<Rightarrow> run_result \<times> engine_error option \<times> restic_state" where
  "run_restic w c op args streamed st =
     (let (missing, st1) = ensure_available w st in
      case missing of
        Some e \<Rightarrow> (no_output, Some e, st1)
      | None \<Rightarrow>
          (case repository_url c of
             Inl e \<Rightarrow> (no_output, Some (plain_error Kind_Unknown op e), st1)
           | Inr url \<Rightarrow>
               (let argv = [''--repo'', url] @ args; env = environment_for w c;
                    (out, err) = run_process (rx_process w (st_runs st1) argv env) c op streamed
                in (out, err, st1\<lparr>st_runs := st_runs st1 @ [(argv, env)]\<rparr>))))"

section \<open>Operations\<close>

definition init_repository :: "restic_world \<Rightarrow> repository_config \<Rightarrow> restic_state \<Rightarrow> engine_error option \<times> restic_state" where
  "init_repository w c st = (let (_, err, st1) = run_restic w c ''init'' [''init''] False st in (err, st1))"

definition list_snapshots :: "restic_world \<Rightarrow> repository_config \<Rightarrow> restic_state
    \<Rightarrow> (engine_error, repository_snapshot list) result \<times> restic_state" where
  "list_snapshots w c st =
     (let (out, err, st1) = run_restic w c ''snapshots'' [''snapshots'', ''--json''] False st in
      case err of
        Some e \<Rightarrow> (Inl e, st1)
      | None \<Rightarrow>
          (case rx_snapshots w (out_stdout out) of
             Inl e \<Rightarrow> (Inl (plain_error Kind_Unknown ''snapshots'' (''decode snapshot list: '' @ e)), st1)
           | Inr snaps \<Rightarrow> (Inr snaps, st1)))"

definition backup_args :: "snapshot_request \<Rightarrow> string list" where
  "backup_args q =
     [''backup'', ''--json''] @ concat (map (\<lambda>t. [''--tag'', t]) (sq_tags q)) @
     concat (map (\<lambda>x. [''--exclude'', x]) (sq_excludes q)) @
     (if sq_host q \<noteq> [] then [''--host'', sq_host q] else []) @ [''--''] @ sq_paths q"

text \<open>The line handler of a backup: the summary, the warnings, and what progress was reported.\<close>

definition decode_message_type :: "restic_world \<Rightarrow> string \<Rightarrow> string" where
  "decode_message_type w line = (case rx_message_type w line of None \<Rightarrow> [] | Some t \<Rightarrow> t)"

definition decode_error_message :: "restic_world \<Rightarrow> string \<Rightarrow> string" where
  "decode_error_message w line =
     (case rx_error w line of
        None \<Rightarrow> []
      | Some (message, item) \<Rightarrow> if message = [] then [] else if item \<noteq> [] then item @ '': '' @ message else message)"

definition on_backup_line :: "restic_world \<Rightarrow> string \<Rightarrow> backup_summary \<times> string list \<times> progress_report list
    \<Rightarrow> backup_summary \<times> string list \<times> progress_report list" where
  "on_backup_line w line = (\<lambda>(summary, warnings, reports).
     (let t = decode_message_type w line in
      if t = ''status'' then
        (case rx_progress w line of Some p \<Rightarrow> (summary, warnings, reports @ [p]) | None \<Rightarrow> (summary, warnings, reports))
      else if t = ''summary'' then (rx_summary w line summary, warnings, reports)
      else if t = ''error'' then
        (let m = decode_error_message w line in (summary, if m \<noteq> [] then warnings @ [m] else warnings, reports))
      else (summary, warnings, reports)))"

definition no_summary :: backup_summary where
  "no_summary = \<lparr>bu_snapshot_id = [], bu_files_new = 0, bu_files_changed = 0, bu_files_unmodified = 0, bu_data_added = 0,
     bu_total_files = 0, bu_total_bytes = 0\<rparr>"

definition read_backup :: "restic_world \<Rightarrow> string list \<Rightarrow> backup_summary \<times> string list \<times> progress_report list" where
  "read_backup w lines = fold (on_backup_line w) lines (no_summary, [], [])"

definition result_of_summary :: "backup_summary \<Rightarrow> string list \<Rightarrow> snapshot_result" where
  "result_of_summary s warnings =
     \<lparr>sp_id = bu_snapshot_id s, sp_files_new = bu_files_new s, sp_files_changed = bu_files_changed s,
      sp_files_unmodified = bu_files_unmodified s, sp_data_added = bu_data_added s, sp_total_bytes = bu_total_bytes s,
      sp_total_files = bu_total_files s, sp_warnings = warnings\<rparr>"

definition unread_warning :: string where
  "unread_warning = ''some files could not be read and were skipped''"

definition create_snapshot :: "restic_world \<Rightarrow> snapshot_request \<Rightarrow> restic_state
    \<Rightarrow> (engine_error, snapshot_result) result \<times> restic_state" where
  "create_snapshot w q st =
     (if sq_paths q = [] then (Inl (plain_error Kind_Unknown ''backup'' ''no paths to back up''), st)
      else
        (let (out, err, st1) = run_restic w (sq_repository q) ''backup'' (backup_args q) True st;
             (summary, warnings, _) = read_backup w (out_lines out)
         in case err of
              Some e \<Rightarrow>
                if ee_kind e \<noteq> Incomplete_Read then (Inl e, st1)
                else if bu_snapshot_id summary = []
                then (Inl \<lparr>ee_kind = Kind_Unknown, ee_op = ''backup'', ee_exit = 0, ee_output = redact (tail_of out) (sq_repository q),
                           ee_cause = Other_Cause ''restic reported no snapshot id''\<rparr>, st1)
                else (Inr (result_of_summary summary (warnings @ [unread_warning])), st1)
            | None \<Rightarrow>
                if bu_snapshot_id summary = []
                then (Inl \<lparr>ee_kind = Kind_Unknown, ee_op = ''backup'', ee_exit = 0, ee_output = redact (tail_of out) (sq_repository q),
                           ee_cause = Other_Cause ''restic reported no snapshot id''\<rparr>, st1)
                else (Inr (result_of_summary summary warnings), st1)))"

definition restore_args :: "restore_request \<Rightarrow> string list" where
  "restore_args q =
     [''restore'', ''--json'', ''--target'', rq_target q] @ concat (map (\<lambda>i. [''--include'', i]) (rq_include q)) @
     [''--'', if rq_snapshot q = [] then ''latest'' else rq_snapshot q]"

definition read_restore :: "restic_world \<Rightarrow> string list \<Rightarrow> int \<times> int" where
  "read_restore w lines = fold (\<lambda>l s. if decode_message_type w l = ''summary'' then rx_restored w l s else s) lines (0, 0)"

definition restore_snapshot :: "restic_world \<Rightarrow> restore_request \<Rightarrow> restic_state
    \<Rightarrow> (engine_error, restore_result) result \<times> restic_state" where
  "restore_snapshot w q st =
     (if rq_target q = [] then (Inl (plain_error Kind_Unknown ''restore'' ''no restore target path''), st)
      else
        (let (out, err, st1) = run_restic w (rq_repository q) ''restore'' (restore_args q) True st in
         case err of
           Some e \<Rightarrow> (Inl e, st1)
         | None \<Rightarrow> (let (files, bytes) = read_restore w (out_lines out)
                   in (Inr \<lparr>rt_files = files, rt_bytes = bytes, rt_warnings = []\<rparr>, st1))))"

text \<open>The failures that keep a check from being a verdict on the repository.\<close>

definition check_not_run :: "error_kind \<Rightarrow> bool" where
  "check_not_run k = (k = Wrong_Password \<or> k = Repository_Not_Found \<or> k = Engine_Missing \<or> k = Kind_Cancelled)"

definition verify_repository :: "restic_world \<Rightarrow> repository_config \<Rightarrow> restic_state
    \<Rightarrow> (engine_error, verification_result) result \<times> restic_state" where
  "verify_repository w c st =
     (let (out, err, st1) = run_restic w c ''check'' [''check''] False st in
      case err of
        Some e \<Rightarrow>
          if check_not_run (ee_kind e) then (Inl e, st1)
          else (Inr \<lparr>vn_ok = False, vn_errors = [redact (tail_of out) c], vn_checks = [], vn_files_listed = 0,
                     vn_bytes_in_snapshot = 0\<rparr>, st1)
      | None \<Rightarrow> (Inr \<lparr>vn_ok = True, vn_errors = [], vn_checks = [''repository structure and index integrity''],
                       vn_files_listed = 0, vn_bytes_in_snapshot = 0\<rparr>, st1))"

definition short_id :: "string \<Rightarrow> string" where
  "short_id i = (if 8 < length i then take 8 i else i)"

definition stats_args :: "string \<Rightarrow> string list" where
  "stats_args i = [''stats'', ''--mode'', ''restore-size'', ''--json'', i]"

definition failed_verification :: "string list \<Rightarrow> string \<Rightarrow> verification_result" where
  "failed_verification checks e = \<lparr>vn_ok = False, vn_errors = [e], vn_checks = checks, vn_files_listed = 0, vn_bytes_in_snapshot = 0\<rparr>"

definition judge_stats :: "string \<Rightarrow> string list \<Rightarrow> (string, int \<times> int) result \<Rightarrow> verification_result" where
  "judge_stats i checks r =
     (case r of
        Inl e \<Rightarrow> failed_verification checks (''snapshot '' @ short_id i @ '' reported unreadable statistics: '' @ e)
      | Inr (nbytes, nfiles) \<Rightarrow>
          \<lparr>vn_ok = (nfiles \<noteq> 0),
           vn_errors = (if nfiles = 0 then [''snapshot '' @ short_id i @ '' is readable but contains no files; nothing was backed up''] else []),
           vn_checks = checks @ [''snapshot '' @ short_id i @ '' readable ('' @ show_int nfiles @ '' files, '' @ show_int nbytes @ '' bytes)''],
           vn_files_listed = nfiles, vn_bytes_in_snapshot = nbytes\<rparr>)"

definition verify_snapshot :: "restic_world \<Rightarrow> repository_config \<Rightarrow> string \<Rightarrow> restic_state
    \<Rightarrow> (engine_error, verification_result) result \<times> restic_state" where
  "verify_snapshot w c i st =
     (if i = [] then (Inl (plain_error Kind_Unknown ''verify-snapshot'' ''no snapshot id given''), st)
      else
        (let (structure, st1) = verify_repository w c st in
         case structure of
           Inl e \<Rightarrow> (Inl e, st1)
         | Inr v \<Rightarrow>
             if \<not> vn_ok v then (Inr v, st1)
             else
               (let (out, err, st2) = run_restic w c ''stats'' (stats_args i) False st1 in
                case err of
                  Some e \<Rightarrow>
                    if check_not_run (ee_kind e) then (Inl e, st2)
                    else (Inr (failed_verification (vn_checks v)
                      (''snapshot '' @ short_id i @ '' could not be read back: '' @ redact (tail_of out) c)), st2)
                | None \<Rightarrow> (Inr (judge_stats i (vn_checks v) (rx_stats w (trim_space (out_stdout out)))), st2))))"

section \<open>Retention\<close>

definition policy_is_zero :: "retention_policy \<Rightarrow> bool" where
  "policy_is_zero p =
     (keep_last p = 0 \<and> keep_hourly p = 0 \<and> keep_daily p = 0 \<and> keep_weekly p = 0 \<and> keep_monthly p = 0 \<and>
      keep_yearly p = 0 \<and> keep_within p = 0)"

text \<open>
  \<open>int(d.Hours())\<close> of a positive duration in nanoseconds. The hours are a \<open>float64\<close>, whole hours plus
  the fraction of the rest, so a rest within rounding distance of the next hour counts as that hour.
\<close>

definition ns_per_hour :: int where
  "ns_per_hour = 3600 * 1000000000"

definition whole_hours :: "int \<Rightarrow> int" where
  "whole_hours d =
     (let h = d div ns_per_hour; n = d mod ns_per_hour in
      if 0 < h \<and> (2 ^ 54 - 2 ^ bit_length (nat h) - 1) * ns_per_hour \<le> 2 ^ 54 * n then h + 1 else h)"

definition format_duration :: "int \<Rightarrow> string" where
  "format_duration d =
     (let days = whole_hours d div 24 in
      if 0 < days \<and> d mod (24 * ns_per_hour) = 0 then show_int days @ ''d'' else show_int (whole_hours d) @ ''h'')"

definition keep_rule :: "string \<Rightarrow> int \<Rightarrow> string list" where
  "keep_rule flag value = (if 0 < value then [flag, show_int value] else [])"

definition counting_rules :: "retention_policy \<Rightarrow> (string \<times> int) list" where
  "counting_rules p =
     [(''--keep-last'', keep_last p), (''--keep-hourly'', keep_hourly p), (''--keep-daily'', keep_daily p),
      (''--keep-weekly'', keep_weekly p), (''--keep-monthly'', keep_monthly p), (''--keep-yearly'', keep_yearly p)]"

definition forget_args :: "retention_policy \<Rightarrow> string list" where
  "forget_args p =
     [''forget''] @ concat (map (\<lambda>t. [''--tag'', t]) (only_tags p)) @ [''--group-by'', group_by p] @
     concat (map (\<lambda>(flag, value). keep_rule flag value) (counting_rules p)) @
     (if 0 < keep_within p then [''--keep-within'', format_duration (keep_within p)] else []) @
     concat (map (\<lambda>t. [''--keep-tag'', t]) (keep_tags p))"

definition apply_retention :: "restic_world \<Rightarrow> repository_config \<Rightarrow> retention_policy \<Rightarrow> restic_state
    \<Rightarrow> engine_error option \<times> restic_state" where
  "apply_retention w c p st =
     (if policy_is_zero p
      then (Some (plain_error Kind_Unknown ''forget'' ''refusing to apply a retention policy with no keep rules''), st)
      else (let (_, err, st1) = run_restic w c ''forget'' (forget_args p) False st in (err, st1)))"

definition prune_repository :: "restic_world \<Rightarrow> repository_config \<Rightarrow> restic_state \<Rightarrow> engine_error option \<times> restic_state" where
  "prune_repository w c st = (let (_, err, st1) = run_restic w c ''prune'' [''prune''] False st in (err, st1))"

section \<open>One run\<close>

lemma no_output_sel [simp]: "out_stdout no_output = []" "out_stderr no_output = []" "out_lines no_output = []"
  by (simp_all add: no_output_def)

text \<open>What an attempt adds to the log: nothing, or one run of the binary with its arguments and environment.\<close>

lemma run_restic_log:
  "\<exists>calls. st_runs (snd (snd (run_restic w c op args streamed st))) = st_runs st @ calls \<and>
     (calls = [] \<or> (\<exists>url. repository_url c = Inr url \<and> calls = [([''--repo'', url] @ args, environment_for w c)]))"
  by (auto simp: run_restic_def ensure_available_def Let_def split: option.splits sum.splits prod.splits)

lemma run_restic_bounded:
  "length (out_stdout (fst (run_restic w c op args streamed st))) \<le> max_captured_output"
  "length (out_stderr (fst (run_restic w c op args streamed st))) \<le> max_captured_output"
  by (auto simp: run_restic_def ensure_available_def Let_def run_process_def captured_bounded
      split: option.splits sum.splits prod.splits wait_error.splits)

text \<open>A run without an error is a process that exited with zero, with its output captured.\<close>

lemma run_restic_success:
  assumes "run_restic w c op args streamed st = (out, None, st')"
  shows "\<exists>url p. repository_url c = Inr url \<and>
     p = rx_process w (st_runs st) ([''--repo'', url] @ args) (environment_for w c) \<and>
     px_start_fault p = None \<and> px_wait p = None \<and>
     (\<not> streamed \<longrightarrow> out_stdout out = captured (px_stdout p)) \<and>
     out_lines out = (if streamed then px_lines p else []) \<and>
     st_runs st' = st_runs st @ [([''--repo'', url] @ args, environment_for w c)]"
  using assms
  by (auto simp: run_restic_def ensure_available_def Let_def run_process_def
      split: option.splits sum.splits prod.splits wait_error.splits if_splits)

section \<open>Redaction\<close>

text \<open>The secrets redaction can hide: long enough, and not to be found in the marker itself.\<close>

definition redactable :: "string \<Rightarrow> bool" where
  "redactable s = (4 \<le> length s \<and> CHR ''['' \<notin> set s \<and> CHR '']'' \<notin> set s \<and> \<not> str_contains ''redacted'' s)"

definition secrets_of :: "repository_config \<Rightarrow> string list" where
  "secrets_of c = [rc_password c, rc_s3_secret c, rc_s3_key c]"

lemma redact_one_removes: "redactable s \<Longrightarrow> \<not> str_contains (redact_one s out) s"
  using replace_all_removes[of s "''redacted''" out]
  by (auto simp: redactable_def redact_one_def redacted_marker_def str_contains_def)

lemma redact_one_keeps: "redactable s \<Longrightarrow> \<not> str_contains out s \<Longrightarrow> \<not> str_contains (redact_one t out) s"
  using replace_all_keeps_absent[of s "''redacted''" out t]
  by (auto simp: redactable_def redact_one_def redacted_marker_def str_contains_def)

lemma redact_hides:
  assumes "s \<in> set (secrets_of c)" "redactable s"
  shows "\<not> str_contains (redact out c) s"
proof (cases "out = []")
  case True
  then show ?thesis using assms(2) by (auto simp: redact_def redactable_def str_contains_def)
next
  case False
  consider "s = rc_password c" | "s = rc_s3_secret c" | "s = rc_s3_key c" using assms(1) by (auto simp: secrets_of_def)
  then show ?thesis
    by cases (use False assms(2) redact_one_removes redact_one_keeps in \<open>auto simp: redact_def\<close>)
qed

lemma run_process_error_redacted:
  assumes "run_process p c op streamed = (out, Some e)" "s \<in> set (secrets_of c)" "redactable s"
  shows "\<not> str_contains (ee_output e) s"
proof -
  have none: "\<not> str_contains [] s" using assms(3) by (auto simp: redactable_def str_contains_def)
  show ?thesis
    using assms(1) none redact_hides[OF assms(2,3)]
    by (auto simp: run_process_def plain_error_def Let_def split: option.splits if_splits)
qed

lemma probe_version_output: "probe_version w = Some e \<Longrightarrow> ee_output e = []"
  by (auto simp: probe_version_def plain_error_def split: option.splits sum.splits if_splits)

definition probed :: "restic_world \<Rightarrow> restic_state \<Rightarrow> bool" where
  "probed w st = (st_probe st = None \<or> st_probe st = Some (probe_version w))"

lemma run_restic_error_redacted:
  assumes "run_restic w c op args streamed st = (out, Some e, st')" "probed w st" "s \<in> set (secrets_of c)" "redactable s"
  shows "\<not> str_contains (ee_output e) s"
proof -
  have none: "\<not> str_contains [] s" using assms(4) by (auto simp: redactable_def str_contains_def)
  show ?thesis
    using assms(1,2) none probe_version_output[of w e] run_process_error_redacted[OF _ assms(3,4)]
    by (fastforce simp: run_restic_def ensure_available_def probed_def plain_error_def Let_def
        split: option.splits sum.splits prod.splits if_splits)
qed

lemma probed_run [simp]: "probed w st \<Longrightarrow> probed w (snd (snd (run_restic w c op args streamed st)))"
  by (auto simp: run_restic_def ensure_available_def probed_def Let_def split: option.splits sum.splits prod.splits)

section \<open>Properties\<close>

text \<open>
  Every operation of the engine, and what it shows of a failure: the error, or the errors listed by a
  verification.
\<close>

datatype engine_call =
  Init_Call
| List_Call
| Backup_Call snapshot_request
| Restore_Call restore_request
| Check_Call
| Verify_Call string
| Forget_Call retention_policy
| Prune_Call

definition failure_of :: "(engine_error, 'a) result \<Rightarrow> engine_error option" where
  "failure_of r = (case r of Inl e \<Rightarrow> Some e | Inr _ \<Rightarrow> None)"

definition listed_errors :: "(engine_error, verification_result) result \<Rightarrow> string list" where
  "listed_errors r = (case r of Inl _ \<Rightarrow> [] | Inr v \<Rightarrow> vn_errors v)"

fun engine_shows :: "restic_world \<Rightarrow> repository_config \<Rightarrow> engine_call \<Rightarrow> restic_state \<Rightarrow> engine_error option \<times> string list" where
  "engine_shows w c Init_Call st = (fst (init_repository w c st), [])"
| "engine_shows w c List_Call st = (failure_of (fst (list_snapshots w c st)), [])"
| "engine_shows w c (Backup_Call q) st = (failure_of (fst (create_snapshot w (q\<lparr>sq_repository := c\<rparr>) st)), [])"
| "engine_shows w c (Restore_Call q) st = (failure_of (fst (restore_snapshot w (q\<lparr>rq_repository := c\<rparr>) st)), [])"
| "engine_shows w c Check_Call st =
     (failure_of (fst (verify_repository w c st)), listed_errors (fst (verify_repository w c st)))"
| "engine_shows w c (Verify_Call i) st =
     (failure_of (fst (verify_snapshot w c i st)), listed_errors (fst (verify_snapshot w c i st)))"
| "engine_shows w c (Forget_Call p) st = (fst (apply_retention w c p st), [])"
| "engine_shows w c Prune_Call st = (fst (prune_repository w c st), [])"

text \<open>The words of the engine itself before what restic printed.\<close>

fun own_words :: "engine_call \<Rightarrow> string set" where
  "own_words (Verify_Call i) =
     {[], ''snapshot '' @ short_id i @ '' could not be read back: '',
      ''snapshot '' @ short_id i @ '' reported unreadable statistics: '',
      ''snapshot '' @ short_id i @ '' is readable but contains no files; nothing was backed up''}"
| "own_words _ = {[]}"

definition says_nothing_of :: "string \<Rightarrow> string set \<Rightarrow> string \<Rightarrow> bool" where
  "says_nothing_of s own m \<longleftrightarrow> (\<exists>w\<in>own. \<exists>told. m = w @ told \<and> \<not> str_contains told s)"

lemma verify_repository_redacted:
  assumes "s \<in> set (secrets_of c)" "redactable s" "probed w st" "verify_repository w c st = (r, st')"
  shows "(\<forall>e. failure_of r = Some e \<longrightarrow> \<not> str_contains (ee_output e) s) \<and>
    (\<forall>m\<in>set (listed_errors r). \<not> str_contains m s) \<and> probed w st'"
proof -
  obtain out err st1 where run: "run_restic w c ''check'' [''check''] False st = (out, err, st1)"
    by (cases "run_restic w c ''check'' [''check''] False st")
  have "probed w st1" using probed_run[OF assms(3), of c "''check''" "[''check'']" False] run by simp
  moreover have "err = Some e \<Longrightarrow> \<not> str_contains (ee_output e) s" for e
    using run_restic_error_redacted[OF _ assms(3,1,2)] run by blast
  ultimately show ?thesis
    using assms(4) redact_hides[OF assms(1,2)] run
    by (auto simp: verify_repository_def Let_def failure_of_def listed_errors_def split: option.splits if_splits)
qed

lemma verify_snapshot_redacted:
  assumes "s \<in> set (secrets_of c)" "redactable s" "probed w st" "\<forall>out e. rx_stats w out = Inl e \<longrightarrow> \<not> str_contains e s"
  shows "(\<forall>e. failure_of (fst (verify_snapshot w c i st)) = Some e \<longrightarrow> \<not> str_contains (ee_output e) s) \<and>
    (\<forall>m\<in>set (listed_errors (fst (verify_snapshot w c i st))). says_nothing_of s (own_words (Verify_Call i)) m)"
proof (cases "i = []")
  case True
  then show ?thesis using assms(2)
    by (auto simp: verify_snapshot_def plain_error_def failure_of_def listed_errors_def redactable_def str_contains_def)
next
  case False
  obtain v st1 where v: "verify_repository w c st = (v, st1)" by fastforce
  note first = verify_repository_redacted[OF assms(1-3) v]
  have quiet: "\<not> str_contains m s \<Longrightarrow> says_nothing_of s (own_words (Verify_Call i)) m" for m
    by (auto simp: says_nothing_of_def)
  have none: "\<not> str_contains [] s" using assms(2) by (auto simp: redactable_def str_contains_def)
  show ?thesis
  proof (cases "\<exists>ok. v = Inr ok \<and> vn_ok ok")
    case False
    then have "fst (verify_snapshot w c i st) = v"
      using \<open>i \<noteq> []\<close> v by (auto simp: verify_snapshot_def split: sum.splits)
    then show ?thesis using first quiet by simp
  next
    case True
    then obtain ok where ok: "v = Inr ok" "vn_ok ok" by blast
    obtain out err st2 where run: "run_restic w c ''stats'' (stats_args i) False st1 = (out, err, st2)"
      by (cases "run_restic w c ''stats'' (stats_args i) False st1")
    have e: "err = Some e \<Longrightarrow> \<not> str_contains (ee_output e) s" for e
      using run_restic_error_redacted[OF _ _ assms(1,2)] run first by blast
    have own: "w' \<in> own_words (Verify_Call i) \<Longrightarrow> \<not> str_contains t s \<Longrightarrow> says_nothing_of s (own_words (Verify_Call i)) (w' @ t)" for w' t
      unfolding says_nothing_of_def by blast
    have "fst (verify_snapshot w c i st) =
        (case err of
           Some e \<Rightarrow> if check_not_run (ee_kind e) then Inl e
             else Inr (failed_verification (vn_checks ok) (''snapshot '' @ short_id i @ '' could not be read back: '' @ redact (tail_of out) c))
         | None \<Rightarrow> Inr (judge_stats i (vn_checks ok) (rx_stats w (trim_space (out_stdout out)))))"
      using \<open>i \<noteq> []\<close> v ok run by (simp add: verify_snapshot_def split: option.split)
    moreover have "says_nothing_of s (own_words (Verify_Call i)) (''snapshot '' @ short_id i @ '' could not be read back: '' @ redact (tail_of out) c)"
      using own[of "''snapshot '' @ short_id i @ '' could not be read back: ''" "redact (tail_of out) c"] redact_hides[OF assms(1,2)]
      by simp
    moreover have "\<forall>m\<in>set (vn_errors (judge_stats i (vn_checks ok) (rx_stats w (trim_space (out_stdout out))))).
        says_nothing_of s (own_words (Verify_Call i)) m"
    proof (cases "rx_stats w (trim_space (out_stdout out))")
      case (Inl x)
      then show ?thesis
        using own[of "''snapshot '' @ short_id i @ '' reported unreadable statistics: ''" x] assms(4)
        by (simp add: judge_stats_def failed_verification_def)
    next
      case (Inr x)
      then show ?thesis
        using own[of "''snapshot '' @ short_id i @ '' is readable but contains no files; nothing was backed up''" "[]"] none
        by (cases x) (simp add: judge_stats_def)
    qed
    ultimately show ?thesis using e
      by (auto simp: failure_of_def listed_errors_def failed_verification_def split: option.splits)
  qed
qed

text \<open>
  C15. No complete credential of a repository reaches an error of the engine, whichever operation failed and
  whatever restic printed: neither the output attached to the error, nor what a verification adds to its
  own words in the errors it lists, contains the password or an S3 key. This holds for credentials of at least
  four characters that hold no bracket and are not part of the word in the marker; the errors of the JSON
  decoder are taken not to quote them. A credential that is cut off by the limit on captured output is
  not recognised, and its beginning stays.
\<close>

theorem engine_errors_redacted:
  assumes "s \<in> {rc_password c, rc_s3_secret c, rc_s3_key c}" "redactable s" "probed w st"
    "\<forall>out e. rx_stats w out = Inl e \<longrightarrow> \<not> str_contains e s"
  shows "(case fst (engine_shows w c call st) of None \<Rightarrow> True | Some e \<Rightarrow> \<not> str_contains (ee_output e) s) \<and>
    list_all (\<lambda>m. \<exists>own\<in>own_words call. \<exists>told. m = own @ told \<and> \<not> str_contains told s) (snd (engine_shows w c call st))"
proof -
  have none: "\<not> str_contains [] s" using assms(2) by (auto simp: redactable_def str_contains_def)
  have sec: "s \<in> set (secrets_of c)" using assms(1) by (auto simp: secrets_of_def)
  note run = run_restic_error_redacted[OF _ assms(3) sec assms(2)]
  note hide = redact_hides[OF sec assms(2)]
  have "(\<forall>e. fst (engine_shows w c call st) = Some e \<longrightarrow> \<not> str_contains (ee_output e) s) \<and>
    (\<forall>m\<in>set (snd (engine_shows w c call st)). says_nothing_of s (own_words call) m)"
  proof (cases call)
    case (Verify_Call i)
    then show ?thesis using verify_snapshot_redacted[OF sec assms(2,3,4), of i] by simp
  next
    case Check_Call
    then show ?thesis
      using verify_repository_redacted[OF sec assms(2,3), of "fst (verify_repository w c st)" "snd (verify_repository w c st)"]
      by (auto simp: says_nothing_of_def)
  next
    case Init_Call
    then show ?thesis using run by (auto simp: init_repository_def split: prod.splits)
  next
    case Prune_Call
    then show ?thesis using run by (auto simp: prune_repository_def split: prod.splits)
  next
    case (Forget_Call p)
    then show ?thesis using run none by (auto simp: apply_retention_def plain_error_def split: prod.splits)
  next
    case List_Call
    then show ?thesis using run none
      by (auto simp: list_snapshots_def plain_error_def failure_of_def split: prod.splits option.splits sum.splits)
  next
    case (Backup_Call q)
    then show ?thesis using run none hide
      by (auto simp: create_snapshot_def plain_error_def failure_of_def Let_def split: prod.splits option.splits sum.splits if_splits)
  next
    case (Restore_Call q)
    then show ?thesis using run none
      by (auto simp: restore_snapshot_def plain_error_def failure_of_def split: prod.splits option.splits sum.splits if_splits)
  qed
  then show ?thesis by (auto simp: says_nothing_of_def list_all_iff split: option.split)
qed

text \<open>
  C16. A snapshot is only reported when restic wrote one: its identifier is not empty and the process
  ended with zero, or with the code for files it could not read, which then shows as a warning beside
  the files the output names; what was backed up is exactly the requested paths, all of them behind
  the end of the options.
\<close>

theorem create_snapshot_sound:
  assumes "create_snapshot w q st = (Inr res, st')" "probed w st"
  shows "sp_id res \<noteq> [] \<and> sq_paths q \<noteq> [] \<and>
    (\<exists>url p opts. repository_url (sq_repository q) = Inr url \<and>
       st_runs st' = st_runs st @ [([''--repo'', url] @ opts @ [''--''] @ sq_paths q, environment_for w (sq_repository q))] \<and>
       p = rx_process w (st_runs st) ([''--repo'', url] @ opts @ [''--''] @ sq_paths q) (environment_for w (sq_repository q)) \<and>
       (px_wait p = None \<or> px_wait p = Some (Exited_With 3)) \<and>
       sp_warnings res = fst (snd (read_backup w (px_lines p))) @ (if px_wait p = None then [] else [unread_warning]))"
proof -
  let ?c = "sq_repository q"
  obtain out err st1 where run: "run_restic w ?c ''backup'' (backup_args q) True st = (out, err, st1)"
    by (cases "run_restic w ?c ''backup'' (backup_args q) True st")
  obtain summary warnings reports where read: "read_backup w (out_lines out) = (summary, warnings, reports)"
    by (cases "read_backup w (out_lines out)")
  have paths: "sq_paths q \<noteq> []" and id: "bu_snapshot_id summary \<noteq> []" and st': "st' = st1"
    and res: "res = result_of_summary summary (if err = None then warnings else warnings @ [unread_warning])"
    and kind: "\<forall>e. err = Some e \<longrightarrow> ee_kind e = Incomplete_Read"
    using assms(1) run read by (auto simp: create_snapshot_def Let_def split: if_splits option.splits)
  obtain url where url: "repository_url ?c = Inr url"
      "st_runs st1 = st_runs st @ [([''--repo'', url] @ backup_args q, environment_for w ?c)]"
      and p: "run_process (rx_process w (st_runs st) ([''--repo'', url] @ backup_args q) (environment_for w ?c)) ?c ''backup'' True = (out, err)"
    using run kind assms(2)
    by (fastforce simp: run_restic_def ensure_available_def probed_def probe_version_def plain_error_def Let_def
        split: option.splits sum.splits prod.splits if_splits)
  let ?p = "rx_process w (st_runs st) ([''--repo'', url] @ backup_args q) (environment_for w ?c)"
  have lines: "out_lines out = px_lines ?p" and wait: "(err = None \<and> px_wait ?p = None) \<or> (err \<noteq> None \<and> px_wait ?p = Some (Exited_With 3))"
    using p kind
    by (auto simp: run_process_def plain_error_def Let_def classify_incomplete_read
        split: option.splits if_splits wait_error.splits)
  obtain opts where opts: "backup_args q = opts @ [''--''] @ sq_paths q" by (simp add: backup_args_def)
  show ?thesis
    using paths id st' res url wait lines read unfolding opts
    by (intro conjI exI[of _ url] exI[of _ "?p"] exI[of _ opts]) (auto simp: result_of_summary_def opts)
qed

text \<open>What a passed structure check and a read-back of one snapshot stand for.\<close>

lemma verify_repository_passed:
  assumes "verify_repository w c st = (Inr v, st1)" "vn_ok v"
  shows "\<exists>url. repository_url c = Inr url \<and> px_wait (rx_process w (st_runs st) [''--repo'', url, ''check''] (environment_for w c)) = None \<and>
    st_runs st1 = st_runs st @ [([''--repo'', url, ''check''], environment_for w c)]"
proof -
  obtain out err st2 where run: "run_restic w c ''check'' [''check''] False st = (out, err, st2)"
    by (cases "run_restic w c ''check'' [''check''] False st")
  have "err = None" "st1 = st2" using assms run by (auto simp: verify_repository_def Let_def split: option.splits if_splits)
  then show ?thesis using run_restic_success[OF run[unfolded \<open>err = None\<close>]] by auto
qed

lemma verify_snapshot_passed:
  assumes "verify_snapshot w c i st = (Inr v, st')" "vn_ok v"
  shows "i \<noteq> [] \<and> (\<exists>url check stats p. repository_url c = Inr url \<and> check = [''--repo'', url, ''check''] \<and>
    stats = [''--repo'', url] @ stats_args i \<and>
    st_runs st' = st_runs st @ [(check, environment_for w c), (stats, environment_for w c)] \<and>
    px_wait (rx_process w (st_runs st) check (environment_for w c)) = None \<and>
    p = rx_process w (st_runs st @ [(check, environment_for w c)]) stats (environment_for w c) \<and> px_wait p = None \<and>
    rx_stats w (trim_space (captured (px_stdout p))) = Inr (vn_bytes_in_snapshot v, vn_files_listed v) \<and>
    vn_files_listed v \<noteq> 0 \<and> vn_errors v = [])"
proof -
  obtain sres st1 where s1: "verify_repository w c st = (sres, st1)" by (cases "verify_repository w c st")
  have i: "i \<noteq> []" using assms(1) by (auto simp: verify_snapshot_def)
  obtain v1 where v1: "sres = Inr v1" using assms(1) i s1 by (cases sres) (auto simp: verify_snapshot_def)
  have ok: "vn_ok v1" using assms i s1 v1 by (auto simp: verify_snapshot_def split: if_splits)
  obtain out err st2 where run: "run_restic w c ''stats'' (stats_args i) False st1 = (out, err, st2)"
    by (cases "run_restic w c ''stats'' (stats_args i) False st1")
  have err: "err = None" "st' = st2" "v = judge_stats i (vn_checks v1) (rx_stats w (trim_space (out_stdout out)))"
    using assms i s1 v1 ok run
    by (auto simp: verify_snapshot_def failed_verification_def Let_def split: option.splits if_splits)
  obtain url where url: "repository_url c = Inr url"
      "px_wait (rx_process w (st_runs st) [''--repo'', url, ''check''] (environment_for w c)) = None"
      "st_runs st1 = st_runs st @ [([''--repo'', url, ''check''], environment_for w c)]"
    using verify_repository_passed[OF s1[unfolded v1] ok] by auto
  note two = run_restic_success[OF run[unfolded err(1)]]
  have stats: "rx_stats w (trim_space (out_stdout out)) = Inr (vn_bytes_in_snapshot v, vn_files_listed v)"
      "vn_files_listed v \<noteq> 0" "vn_errors v = []"
    using err(3) assms(2) by (auto simp: judge_stats_def failed_verification_def split: sum.splits)
  show ?thesis using i url two stats err(2) by (auto simp: stats_args_def)
qed

text \<open>
  C17. A snapshot is only called verified when it was read back: an accepted verification is two runs
  of restic, the check of the repository and the statistics of this very snapshot, both of which ended
  with zero, and the statistics count at least one file.
\<close>

theorem verify_snapshot_honest:
  assumes "verify_snapshot w c i st = (Inr v, st')" "vn_ok v"
  shows "i \<noteq> [] \<and> (\<exists>url check stats p. repository_url c = Inr url \<and> check = [''--repo'', url, ''check''] \<and>
    stats = [''--repo'', url] @ stats_args i \<and>
    st_runs st' = st_runs st @ [(check, environment_for w c), (stats, environment_for w c)] \<and>
    px_wait (rx_process w (st_runs st) check (environment_for w c)) = None \<and>
    p = rx_process w (st_runs st @ [(check, environment_for w c)]) stats (environment_for w c) \<and> px_wait p = None \<and>
    rx_stats w (trim_space (captured (px_stdout p))) = Inr (vn_bytes_in_snapshot v, vn_files_listed v) \<and>
    vn_files_listed v \<noteq> 0 \<and> vn_errors v = [])"
  using assms by (rule verify_snapshot_passed)

section \<open>The rules of a retention\<close>

text \<open>What restic reads in a duration this engine renders: days, or hours.\<close>

definition duration_of :: "string \<Rightarrow> int option" where
  "duration_of s =
     (if has_suffix s ''d'' then map_option (\<lambda>n. n * 24 * ns_per_hour) (parse_digits (butlast s))
      else if has_suffix s ''h'' then map_option (\<lambda>n. n * ns_per_hour) (parse_digits (butlast s))
      else None)"

lemma whole_hours_cases:
  assumes "0 < d" "d < 2 ^ 63"
  shows "whole_hours d = d div ns_per_hour \<or> (whole_hours d = d div ns_per_hour + 1 \<and> d mod ns_per_hour \<noteq> 0)"
proof -
  let ?h = "d div ns_per_hour"
  have "(2 ^ 54 - 2 ^ bit_length (nat ?h) - 1) * ns_per_hour > 0"
  proof -
    have "nat ?h < 2 ^ 53" using assms by (simp add: ns_per_hour_def nat_less_iff)
    then have "bit_length (nat ?h) \<le> 53" by (rule bit_length_le)
    then have "(2::int) ^ bit_length (nat ?h) \<le> 2 ^ 53" by (intro power_increasing) auto
    then show ?thesis by (simp add: ns_per_hour_def)
  qed
  then show ?thesis by (auto simp: whole_hours_def Let_def)
qed

lemma duration_hours: "0 \<le> h \<Longrightarrow> duration_of (show_int h @ ''h'') = Some (h * ns_per_hour)"
  by (simp add: duration_of_def has_suffix_def parse_show_int)

lemma duration_days: "0 \<le> k \<Longrightarrow> duration_of (show_int k @ ''d'') = Some (k * 24 * ns_per_hour)"
  by (simp add: duration_of_def has_suffix_def parse_show_int)

text \<open>
  The window of a retention is what was asked for: read back, the duration handed to restic is the
  requested one whenever that is a whole number of hours, and otherwise less than an hour away.
\<close>

theorem retention_window:
  assumes "0 < d" "d < 2 ^ 63"
  shows "\<exists>v. duration_of (format_duration d) = Some v \<and> \<bar>v - d\<bar> < ns_per_hour \<and> (d mod ns_per_hour = 0 \<longrightarrow> v = d)"
proof -
  let ?h = "d div ns_per_hour" let ?n = "d mod ns_per_hour"
  have ns: "0 < ns_per_hour" by (simp add: ns_per_hour_def)
  have split: "?h * ns_per_hour = d - ?n" "0 \<le> ?n" "?n < ns_per_hour" "0 \<le> ?h"
    using ns assms(1) by (simp_all add: pos_imp_zdiv_nonneg_iff minus_mod_eq_div_mult)
  have w: "0 \<le> whole_hours d" using whole_hours_cases[OF assms] split(4) by auto
  show ?thesis
  proof (cases "0 < whole_hours d div 24 \<and> d mod (24 * ns_per_hour) = 0")
    case True
    then obtain k where k: "d = 24 * ns_per_hour * k" by (auto simp: mod_eq_0_iff_dvd dvd_def)
    then have "?n = 0" "?h = 24 * k" using ns by simp_all
    then have "whole_hours d = 24 * k" using whole_hours_cases[OF assms] by simp
    then show ?thesis using True k ns duration_days[of k] by (simp add: format_duration_def Let_def)
  next
    case False
    have f: "duration_of (format_duration d) = Some (whole_hours d * ns_per_hour)"
      by (simp only: format_duration_def Let_def if_not_P[OF False] duration_hours[OF w])
    from whole_hours_cases[OF assms] show ?thesis
    proof (elim disjE conjE)
      assume "whole_hours d = ?h"
      then have "whole_hours d * ns_per_hour = d - ?n" using split(1) by simp
      then show ?thesis using f split by simp
    next
      assume up: "whole_hours d = ?h + 1" "?n \<noteq> 0"
      then have "whole_hours d * ns_per_hour = d - ?n + ns_per_hour" using split(1) by (simp add: algebra_simps)
      then show ?thesis using f up(2) split by simp
    qed
  qed
qed

text \<open>
  A retention never prunes without a rule and never outside its plan: a policy without keep rules
  is refused before anything runs; otherwise the one run is a forget that is limited to every tag of
  the plan, with the grouping stated, and, unless a rule is negative, with at least one rule that keeps
  something.
\<close>

theorem retention_guarded:
  assumes "apply_retention w c p st = (r, st')" "(argv, env) \<in> set (drop (length (st_runs st)) (st_runs st'))"
  shows "\<not> policy_is_zero p \<and> st_runs st' = st_runs st @ [(argv, env)] \<and>
    (\<exists>url rules. repository_url c = Inr url \<and>
       argv = [''--repo'', url, ''forget''] @ concat (map (\<lambda>t. [''--tag'', t]) (only_tags p)) @ [''--group-by'', group_by p] @ rules \<and>
       (list_all (\<lambda>n. 0 \<le> n) [keep_last p, keep_hourly p, keep_daily p, keep_weekly p, keep_monthly p, keep_yearly p, keep_within p] \<longrightarrow>
          (\<exists>flag v. prefix ''--keep-'' flag \<and> flag \<noteq> ''--keep-tag'' \<and> sublist [flag, v] rules)))"
proof -
  have nz: "\<not> policy_is_zero p" using assms by (auto simp: apply_retention_def)
  obtain out err st1 where run: "run_restic w c ''forget'' (forget_args p) False st = (out, err, st1)"
    by (cases "run_restic w c ''forget'' (forget_args p) False st")
  have st': "st' = st1" using assms(1) nz run by (simp add: apply_retention_def)
  obtain url where url: "repository_url c = Inr url"
      "st_runs st1 = st_runs st @ [([''--repo'', url] @ forget_args p, environment_for w c)]"
    using run_restic_log[of w c "''forget''" "forget_args p" False st] run assms(2) st' by auto
  let ?rules = "concat (map (\<lambda>(flag, value). keep_rule flag value) (counting_rules p)) @
     (if 0 < keep_within p then [''--keep-within'', format_duration (keep_within p)] else []) @
     concat (map (\<lambda>t. [''--keep-tag'', t]) (keep_tags p))"
  have rule: "\<exists>flag v. prefix ''--keep-'' flag \<and> flag \<noteq> ''--keep-tag'' \<and> sublist [flag, v] ?rules"
    if pos: "list_all (\<lambda>n. 0 \<le> n) [keep_last p, keep_hourly p, keep_daily p, keep_weekly p, keep_monthly p, keep_yearly p, keep_within p]"
  proof -
    have "keep_within p \<noteq> 0 \<or> (\<exists>(f, v) \<in> set (counting_rules p). v \<noteq> 0)"
      using nz by (auto simp: policy_is_zero_def counting_rules_def)
    then have "0 < keep_within p \<or> (\<exists>f v. (f, v) \<in> set (counting_rules p) \<and> 0 < v)"
    proof (elim disjE bexE)
      show "keep_within p \<noteq> 0 \<Longrightarrow> ?thesis" using pos by simp
      fix x assume x: "x \<in> set (counting_rules p)" "case x of (f, v) \<Rightarrow> v \<noteq> 0"
      moreover have "\<forall>x\<in>set (counting_rules p). 0 \<le> snd x" using pos by (simp add: counting_rules_def)
      ultimately have "(fst x, snd x) \<in> set (counting_rules p) \<and> 0 < snd x" by (cases x) auto
      then show ?thesis by blast
    qed
    then show ?thesis
    proof (elim disjE exE conjE)
      assume "0 < keep_within p"
      then show ?thesis
        by (intro exI[of _ "''--keep-within''"] exI[of _ "format_duration (keep_within p)"]) (auto simp: sublist_def)
    next
      fix f v assume fv: "(f, v) \<in> set (counting_rules p)" "0 < v"
      have "prefix ''--keep-'' f \<and> f \<noteq> ''--keep-tag''" using fv(1) by (auto simp: counting_rules_def)
      moreover have "sublist [f, show_int v] (concat (map (\<lambda>(flag, value). keep_rule flag value) (counting_rules p)) @ ys)" for ys
        using split_list[OF fv(1)] fv(2) by (force simp: keep_rule_def sublist_def)
      ultimately show ?thesis by blast
    qed
  qed
  have args: "[''--repo'', url] @ forget_args p =
      [''--repo'', url, ''forget''] @ concat (map (\<lambda>t. [''--tag'', t]) (only_tags p)) @ [''--group-by'', group_by p] @ ?rules"
    by (simp add: forget_args_def)
  have new: "(argv, env) = ([''--repo'', url] @ forget_args p, environment_for w c)" using assms(2) st' url(2) by simp
  show ?thesis using nz url st' new args rule by (intro conjI exI[of _ url] exI[of _ ?rules]) auto
qed

section \<open>A repository\<close>

definition sample_config :: repository_config where
  "sample_config = \<lparr>rc_kind = ''local'', rc_location = ''/srv/repo'', rc_password = ''correct horse'', rc_s3_key = [], rc_s3_secret = []\<rparr>"

definition fresh_restic :: restic_state where
  "fresh_restic = \<lparr>st_probe = None, st_runs = []\<rparr>"

text \<open>A binary that answers every run the same way, and whose only JSON line is its summary.\<close>

definition restic_saying :: "restic_process \<Rightarrow> restic_world" where
  "restic_saying p =
     \<lparr>rx_process = \<lambda>log argv env. p, rx_lookup_fault = None, rx_version = Inr ''restic 0.17.3'', rx_env = \<lambda>k. [],
      rx_message_type = \<lambda>l. if l = ''{summary}'' then Some ''summary'' else None, rx_progress = \<lambda>l. None,
      rx_summary = \<lambda>l s. s\<lparr>bu_snapshot_id := ''abc''\<rparr>, rx_restored = \<lambda>l s. (3, 12), rx_error = \<lambda>l. None,
      rx_snapshots = \<lambda>s. Inr [], rx_stats = \<lambda>s. Inr (12, 3)\<rparr>"

definition calm_process :: restic_process where
  "calm_process = \<lparr>px_pipe_fault = None, px_start_fault = None, px_done_at_start = False, px_lines = [''{summary}''],
     px_stdout = [], px_stderr = [], px_wait = None, px_context = None\<rparr>"

definition failing_process :: "int \<Rightarrow> string \<Rightarrow> restic_process" where
  "failing_process code text = calm_process\<lparr>px_stderr := [text], px_wait := Some (Exited_With code)\<rparr>"

definition sample_backup :: snapshot_request where
  "sample_backup = \<lparr>sq_repository = sample_config, sq_paths = [''/stage/shop''], sq_excludes = [], sq_tags = [''shop''], sq_host = []\<rparr>"

definition weekly_policy :: retention_policy where
  "weekly_policy = \<lparr>keep_last = 7, keep_hourly = 0, keep_daily = 0, keep_weekly = 0, keep_monthly = 0, keep_yearly = 0,
     keep_within = 0, keep_tags = [], only_tags = [''plan:1''], group_by = []\<rparr>"

theorem engine_errors_redacted_witness:
  "(case fst (engine_shows (restic_saying (failing_process 1 ''bad: correct horse'')) sample_config (Backup_Call sample_backup) fresh_restic) of
      None \<Rightarrow> False | Some e \<Rightarrow> \<not> str_contains (ee_output e) ''correct horse'' \<and> ee_output e = ''bad: [redacted]'')"
proof -
  let ?w = "restic_saying (failing_process 1 ''bad: correct horse'')"
  have s: "''correct horse'' \<in> {rc_password sample_config, rc_s3_secret sample_config, rc_s3_key sample_config}"
    by (simp add: sample_config_def)
  have r: "redactable ''correct horse''" by code_simp
  have p: "probed ?w fresh_restic" by (simp add: probed_def fresh_restic_def)
  have d: "\<forall>out e. rx_stats ?w out = Inl e \<longrightarrow> \<not> str_contains e ''correct horse''" by (simp add: restic_saying_def)
  have out: "case fst (engine_shows ?w sample_config (Backup_Call sample_backup) fresh_restic) of
      None \<Rightarrow> False | Some e \<Rightarrow> ee_output e = ''bad: [redacted]''"
    by code_simp
  show ?thesis
    using engine_errors_redacted[OF s r p d, of "Backup_Call sample_backup"] out by (simp split: option.splits)
qed

theorem create_snapshot_sound_witness:
  "\<exists>res st'. create_snapshot (restic_saying calm_process) sample_backup fresh_restic = (Inr res, st') \<and> sp_id res \<noteq> []"
proof -
  let ?r = "create_snapshot (restic_saying calm_process) sample_backup fresh_restic"
  have "is_ok (fst ?r)" by code_simp
  then obtain res where r: "?r = (Inr res, snd ?r)" by (auto simp: is_ok_iff prod_eq_iff)
  have "probed (restic_saying calm_process) fresh_restic" by (simp add: probed_def fresh_restic_def)
  from create_snapshot_sound[OF r this] show ?thesis using r by blast
qed

theorem verify_snapshot_honest_witness:
  "\<exists>v st'. verify_snapshot (restic_saying calm_process) sample_config ''abc'' fresh_restic = (Inr v, st') \<and> vn_files_listed v \<noteq> 0"
proof -
  let ?r = "verify_snapshot (restic_saying calm_process) sample_config ''abc'' fresh_restic"
  have "is_ok (fst ?r)" "vn_ok (projr (fst ?r))" by code_simp+
  then obtain v where r: "?r = (Inr v, snd ?r)" "vn_ok v" by (auto simp: is_ok_iff prod_eq_iff)
  from verify_snapshot_honest[OF r] show ?thesis using r by blast
qed

theorem retention_window_witness: "duration_of (format_duration (72 * ns_per_hour)) = Some (72 * ns_per_hour)"
proof -
  have "(0::int) < 72 * ns_per_hour" "72 * ns_per_hour < (2::int) ^ 63" by (simp_all add: ns_per_hour_def)
  from retention_window[OF this] show ?thesis by (auto simp: ns_per_hour_def)
qed

theorem retention_guarded_witness:
  "\<exists>argv env. st_runs (snd (apply_retention (restic_saying calm_process) sample_config weekly_policy fresh_restic)) = [(argv, env)] \<and>
     take 5 argv = [''--repo'', ''/srv/repo'', ''forget'', ''--tag'', ''plan:1'']"
proof -
  let ?r = "apply_retention (restic_saying calm_process) sample_config weekly_policy fresh_restic"
  have r: "?r = (fst ?r, snd ?r)" by simp
  have "length (st_runs (snd ?r)) = 1" by code_simp
  then obtain argv env where one: "st_runs (snd ?r) = [(argv, env)]" by (cases "st_runs (snd ?r)") auto
  then have "(argv, env) \<in> set (drop (length (st_runs fresh_restic)) (st_runs (snd ?r)))" by (simp add: fresh_restic_def)
  moreover have "repository_url sample_config = Inr ''/srv/repo''" by code_simp
  ultimately show ?thesis using retention_guarded[OF r, of argv env] one by (auto simp: weekly_policy_def)
qed

section \<open>What the engine gets wrong\<close>

text \<open>
  A check that could not run because the repository is locked is reported as a failed verification of
  the repository, not as an error.
\<close>

lemma locked_repository_called_damaged:
  "\<exists>v st'. verify_repository (restic_saying (failing_process 11 ''locked'')) sample_config fresh_restic = (Inr v, st') \<and>
     \<not> vn_ok v \<and> vn_errors v = [''locked'']"
proof -
  let ?r = "verify_repository (restic_saying (failing_process 11 ''locked'')) sample_config fresh_restic"
  have "is_ok (fst ?r)" "\<not> vn_ok (projr (fst ?r))" "vn_errors (projr (fst ?r)) = [''locked'']" by code_simp+
  then show ?thesis by (auto simp: is_ok_iff prod_eq_iff)
qed

text \<open>The list of snapshots is decoded from the captured output, so a longer list is cut in the middle.\<close>

lemma list_snapshots_reads_a_prefix:
  assumes "run_restic w c ''snapshots'' [''snapshots'', ''--json''] False st = (out, None, st1)"
  shows "fst (list_snapshots w c st) =
      (case rx_snapshots w (out_stdout out) of
         Inl e \<Rightarrow> Inl (plain_error Kind_Unknown ''snapshots'' (''decode snapshot list: '' @ e)) | Inr snaps \<Rightarrow> Inr snaps)"
    "length (out_stdout out) \<le> 8192"
  using assms run_restic_bounded(1)[of w c "''snapshots''" "[''snapshots'', ''--json'']" False st]
  by (auto simp: list_snapshots_def max_captured_output_def split: sum.splits)

text \<open>
  \<open>Wait\<close> closes the pipe when the process exits, whether or not its last line was read: a backup whose
  summary line was lost is reported as having written nothing.
\<close>

lemma lost_summary_hides_a_snapshot:
  "\<not> is_ok (fst (create_snapshot (restic_saying (calm_process\<lparr>px_lines := []\<rparr>)) sample_backup fresh_restic))"
  by code_simp

text \<open>A secret that is cut off where the captured output ends keeps its first part.\<close>

lemma cut_secret_survives_redaction:
  assumes "x \<notin> set (rc_password c)" "rc_s3_secret c = []" "rc_s3_key c = []" "8 < length (rc_password c)"
  shows "\<exists>rest. redact (captured [replicate 8184 x @ rc_password c]) c = rest @ take 8 (rc_password c)"
proof -
  let ?p = "rc_password c"
  have cap: "captured [replicate 8184 x @ ?p] = replicate 8184 x @ take 8 ?p"
    by (simp add: captured_eq max_captured_output_def)
  have "\<not> sublist ?p (replicate 8184 x @ take 8 ?p)"
  proof
    assume "sublist ?p (replicate 8184 x @ take 8 ?p)"
    then obtain a b where ab: "replicate 8184 x @ take 8 ?p = a @ ?p @ b" by (auto simp: sublist_def)
    have len: "length a + length ?p + length b = 8192" using arg_cong[OF ab, of length] assms(4) by simp
    then have "length a < 8184" using assms(4) by simp
    then have "(replicate 8184 x @ take 8 ?p) ! length a = x" by (simp add: nth_append)
    moreover have "(a @ ?p @ b) ! length a = ?p ! 0" using assms(4) by (cases ?p) auto
    ultimately have "x = ?p ! 0" using ab by simp
    then show False using assms(1,4) by (metis length_greater_0_conv less_zeroE list.size(3) nth_mem)
  qed
  then have "redact (captured [replicate 8184 x @ ?p]) c = replicate 8184 x @ take 8 ?p"
    using assms(2,3) by (simp add: redact_def cap redact_one_def replace_all_absent)
  then show ?thesis by blast
qed

text \<open>A retention window that is no whole number of hours is shortened: snapshots of ninety minutes are kept for one hour.\<close>

lemma window_is_shortened: "format_duration (90 * 60 * 1000000000) = ''1h''" "format_duration (30 * 60 * 1000000000) = ''0h''"
  by code_simp+

text \<open>A policy whose only rule is negative is no empty policy, and a forget without any rule is run.\<close>

lemma negative_rule_runs_without_rules:
  "forget_args (weekly_policy\<lparr>keep_last := -1, only_tags := []\<rparr>) = [''forget'', ''--group-by'', []]"
  "\<not> policy_is_zero (weekly_policy\<lparr>keep_last := -1, only_tags := []\<rparr>)"
  by code_simp+

end
