(* ===== verification/Backup_Runner.thy ===== *)
theory Backup_Runner
  imports Backup_Dumps Events Restic_Engine
begin

text \<open>
  One backup run from staging to its recorded outcome (\<open>execute\<close> and its helpers in
  \<open>internal/backuprun/runner.go\<close>). The stager, the backup engine, the clock, identifiers and failing
  statements are inputs; the state holds the two tables, the audit trail with its live feed, and what
  is on disk below the staging root.
\<close>

section \<open>Inputs and state\<close>

text \<open>An error of a step, with what is asked of it and of the context when it arrives.\<close>

record step_error =
  se_text :: string
  se_canceled :: bool
  se_kind_cancelled :: bool
  se_context_done :: bool

text \<open>
  What is on disk below the staging root when the engine reads it: the paths the stager has made and the
  exports with their contents.
\<close>

type_synonym staged_tree = "string list \<times> (string \<times> string) list"

text \<open>
  The stager answers with its result and with every path it has made, wherever that is, also when it
  fails. An update of the row on the way may fail because the run was cancelled; the last one is made with a
  context of its own, so its failure is an input of its own. The clock is read for the verification, for the end
  of the run and for the event.
\<close>

record exec_world =
  ew_clear_fault :: "string option"
  ew_remove_fault :: "string option"
  ew_cancelled :: "nat \<Rightarrow> bool"
  ew_stage :: "nat \<Rightarrow> backup_source \<Rightarrow> string \<Rightarrow> (step_error, stage_result) result \<times> string list"
  ew_dumps :: dumps_world
  ew_docker :: bool
  ew_containers :: "container list"
  ew_blueprint :: "nat \<Rightarrow> blueprint option"
  ew_snapshot :: "staged_tree \<Rightarrow> string list \<Rightarrow> string list \<Rightarrow> (step_error, snapshot_result) result"
  ew_verify :: "string \<Rightarrow> (step_error, verification) result"
  ew_update_fault :: "nat \<Rightarrow> bool"
  ew_final_fault :: bool
  ew_insert_fault :: bool
  ew_uuid :: string
  ew_verified_at :: instant
  ew_ended_at :: instant
  ew_event_at :: instant
  ew_emit_fault :: bool
  ew_event_id :: string

record exec_state =
  xs_rows :: run_table
  xs_updates :: nat
  xs_snapshots :: snapshot_table
  xs_recorder :: recorder
  xs_dirs :: "string list"
  xs_dump :: dump_state
  xs_calls :: calls

datatype ending = End_Cancelled | End_Failed string | End_Completed snapshot

section \<open>Helpers\<close>

definition was_cancelled :: "step_error \<Rightarrow> bool" where
  "was_cancelled e = (se_canceled e \<or> se_kind_cancelled e \<or> se_context_done e)"

definition end_of :: "string \<Rightarrow> step_error \<Rightarrow> ending" where
  "end_of what e = (if was_cancelled e then End_Cancelled else End_Failed (what @ '': '' @ se_text e))"

definition persist :: "exec_world \<Rightarrow> run \<Rightarrow> exec_state \<Rightarrow> exec_state" where
  "persist w r st =
     st\<lparr>xs_rows := update_run (ew_update_fault w (xs_updates st)) r (xs_rows st), xs_updates := Suc (xs_updates st)\<rparr>"

definition prefix_warnings :: "backup_source \<Rightarrow> string list \<Rightarrow> string list" where
  "prefix_warnings s ws =
     map (\<lambda>t. (if bs_kind s = Source_Bind then ''bind mount'' else ''named volume'') @ '' '' @ bs_name s @ '': '' @ t) ws"

definition persist_detached :: "exec_world \<Rightarrow> run \<Rightarrow> exec_state \<Rightarrow> exec_state" where
  "persist_detached w r st = st\<lparr>xs_rows := update_run (ew_final_fault w) r (xs_rows st)\<rparr>"

text \<open>Whether a path is a directory or lies below it.\<close>

definition below :: "string \<Rightarrow> string \<Rightarrow> bool" where
  "below dir p = prefix (path_segs dir) (path_segs p)"

definition remove_tree :: "string \<Rightarrow> exec_state \<Rightarrow> exec_state" where
  "remove_tree dir st =
     st\<lparr>xs_dirs := filter (\<lambda>p. \<not> below dir p) (xs_dirs st),
        xs_dump := (xs_dump st)\<lparr>dst_files := filter (\<lambda>(p, c). \<not> below dir p) (dst_files (xs_dump st))\<rparr>\<rparr>"

definition add_paths :: "string list \<Rightarrow> exec_state \<Rightarrow> exec_state" where
  "add_paths ps st = st\<lparr>xs_dirs := fold append_new ps (xs_dirs st)\<rparr>"

section \<open>Staging\<close>

record progress =
  pg_run :: run
  pg_volumes :: "volume_manifest list"
  pg_paths :: "string list"

definition volume_entry :: "backup_source \<Rightarrow> string \<Rightarrow> stage_result \<Rightarrow> volume_manifest" where
  "volume_entry s dest r =
     \<lparr>vm_name = bs_name s, vm_kind = bs_kind s, vm_mounted_at = bs_mounted_at s, vm_path = dest, vm_files = sr_files r,
      vm_bytes = sr_bytes r, vm_ownership = sr_ownership r, vm_preserved = sr_preserved r, vm_sqlite = sr_sqlite r,
      vm_warnings = sr_warnings r\<rparr>"

definition count_staged :: "backup_source \<Rightarrow> stage_result \<Rightarrow> run \<Rightarrow> run" where
  "count_staged s r n =
     n\<lparr>rn_files_total := wrap64 (rn_files_total n + sr_files r), rn_bytes_total := wrap64 (rn_bytes_total n + sr_bytes r),
       rn_warnings := rn_warnings n @ prefix_warnings s (sr_warnings r)\<rparr>"

definition stage_dest :: "string \<Rightarrow> backup_source \<Rightarrow> string" where
  "stage_dest dir s = path_join [dir, path_segment (bs_name s)]"

definition add_staged :: "string \<Rightarrow> backup_source \<Rightarrow> stage_result \<Rightarrow> progress \<Rightarrow> progress" where
  "add_staged dir s r p =
     \<lparr>pg_run = count_staged s r (pg_run p), pg_volumes = pg_volumes p @ [volume_entry s (stage_dest dir s) r],
      pg_paths = pg_paths p @ [stage_dest dir s]\<rparr>"

fun stage_sources :: "exec_world \<Rightarrow> string \<Rightarrow> nat \<Rightarrow> backup_source list \<Rightarrow> progress \<Rightarrow> exec_state
    \<Rightarrow> (ending, unit) result \<times> progress \<times> exec_state" where
  "stage_sources w dir i [] p st = (Inr (), p, st)"
| "stage_sources w dir i (s # ss) p st =
     (if ew_cancelled w i then (Inl End_Cancelled, p, st)
      else (let dest = stage_dest dir s; (answer, made) = ew_stage w i s dest; st1 = add_paths made st in
            case answer of
              Inl e \<Rightarrow> (Inl (end_of (''staging volume '' @ in_quotes (bs_name s)) e), p, st1)
            | Inr r \<Rightarrow>
                (let p1 = add_staged dir s r p
                 in stage_sources w dir (Suc i) ss p1 (persist w (pg_run p1) st1))))"

section \<open>Databases\<close>

definition exports_of :: "exec_world \<Rightarrow> string \<Rightarrow> bool \<Rightarrow> run \<Rightarrow> exec_state \<Rightarrow> dump_result list \<times> dumps_state" where
  "exports_of w dir verify r st =
     dump_databases (ew_dumps w) (ew_docker w) (rn_project_id r) (ew_blueprint w 0) (ew_containers w) dir verify
       \<lparr>dxs_dump = xs_dump st, dxs_calls = xs_calls st, dxs_warnings = rn_warnings r\<rparr>"

definition export_phase :: "exec_world \<Rightarrow> string \<Rightarrow> bool \<Rightarrow> progress \<Rightarrow> exec_state
    \<Rightarrow> database_dump list \<times> progress \<times> exec_state" where
  "export_phase w dir verify p st =
     (let (rs, ds) = exports_of w dir verify (pg_run p) st;
          r1 = (pg_run p)\<lparr>rn_warnings := dxs_warnings ds,
                 rn_bytes_total := fold (\<lambda>x n. wrap64 (n + int (df_bytes (dr_file x)))) rs (rn_bytes_total (pg_run p))\<rparr>;
          paths = pg_paths p @ (if rs = [] then [] else [path_join [dir, dump_directory]]);
          databases = manifest_entries (rn_project_id r1) (ew_blueprint w 1) rs (pg_volumes p);
          st1 = persist w r1 (st\<lparr>xs_dump := dxs_dump ds, xs_calls := dxs_calls ds\<rparr>);
          r2 = r1\<lparr>rn_warnings := rn_warnings r1 @
                 database_consistency_warnings (rn_project_id r1) (ew_blueprint w 2) (dumped_keys rs)\<rparr>
      in (databases, p\<lparr>pg_run := r2, pg_paths := paths\<rparr>, st1))"

section \<open>Snapshot, verification and record\<close>

definition snapshot_tags :: "run \<Rightarrow> string list" where
  "snapshot_tags r = [''back-orbit'', ''project:'' @ rn_project_name r]"

definition shortfall_warning :: "int \<Rightarrow> int \<Rightarrow> string" where
  "shortfall_warning kept staged_bytes = ''the snapshot would restore '' @ show_int kept @ '' bytes but '' @
     show_int staged_bytes @ '' were staged; '' @ show_int (wrap64 (staged_bytes - kept)) @ '' bytes did not make it in''"

definition check_shortfall :: "verification \<Rightarrow> run \<Rightarrow> run" where
  "check_shortfall v r =
     (if 0 < vf_bytes_in_snapshot v \<and> vf_bytes_in_snapshot v < rn_bytes_total r
      then r\<lparr>rn_warnings := rn_warnings r @ [shortfall_warning (vf_bytes_in_snapshot v) (rn_bytes_total r)]\<rparr>
      else r)"

definition snapshot_record :: "exec_world \<Rightarrow> run \<Rightarrow> manifest \<Rightarrow> snapshot_result \<Rightarrow> verification \<Rightarrow> snapshot" where
  "snapshot_record w r m res v =
     \<lparr>sn_id = ew_uuid w, sn_run_id = rn_id r, sn_repository_id = rn_repository_id r, sn_restic_id = sp_id res,
      sn_manifest = m, sn_size_bytes = sp_total_bytes res, sn_files_count = sp_total_files res,
      sn_verified_at = Some (ew_verified_at w), sn_verification = v, sn_created_at = ew_verified_at w\<rparr>"

text \<open>What follows a snapshot the engine reports to have written: read it back, then record it.\<close>

definition verify_phase :: "exec_world \<Rightarrow> manifest \<Rightarrow> snapshot_result \<Rightarrow> run \<Rightarrow> exec_state \<Rightarrow> ending \<times> run \<times> exec_state" where
  "verify_phase w m res r st =
     (let r1 = r\<lparr>rn_bytes_added := sp_data_added res, rn_warnings := rn_warnings r @ sp_warnings res, rn_phase := Verifying\<rparr>;
          st1 = persist w r1 st
      in case ew_verify w (sp_id res) of
           Inl e \<Rightarrow> (end_of (''verifying snapshot '' @ sp_id res) e, r1, st1)
         | Inr v \<Rightarrow>
             if \<not> vf_ok v then
               (End_Failed (''snapshot '' @ sp_id res @ '' was written but could not be verified: ['' @
                  join (vf_errors v) '' '' @ '']''), r1, st1)
             else (let r2 = check_shortfall v r1; snap = snapshot_record w r2 m res v in
                   case insert_snapshot (ew_insert_fault w) (xs_rows st1) snap (xs_snapshots st1) of
                     Inl e \<Rightarrow> (End_Failed (''snapshot '' @ sp_id res @ '' was created and verified, but recording it failed''),
                               r2, st1)
                   | Inr snaps \<Rightarrow> (End_Completed snap, r2, st1\<lparr>xs_snapshots := snaps\<rparr>)))"

definition run_manifest :: "run \<Rightarrow> volume_manifest list \<Rightarrow> database_dump list \<Rightarrow> manifest" where
  "run_manifest r volumes databases =
     \<lparr>mf_schema = manifest_schema_version, mf_project = rn_project_name r, mf_created_at = rn_started_at r,
      mf_volumes = volumes, mf_databases = databases\<rparr>"

text \<open>Everything between clearing the staging directory and the outcome.\<close>

definition run_backup :: "exec_world \<Rightarrow> string \<Rightarrow> bool \<Rightarrow> backup_source list \<Rightarrow> run \<Rightarrow> exec_state
    \<Rightarrow> ending \<times> run \<times> exec_state" where
  "run_backup w dir verify sources r st =
     (let r1 = r\<lparr>rn_phase := Staging\<rparr> in
      case stage_sources w dir 0 sources \<lparr>pg_run = r1, pg_volumes = [], pg_paths = []\<rparr> (persist w r1 st) of
        (Inl e, p, st1) \<Rightarrow> (e, pg_run p, st1)
      | (Inr _, p, st1) \<Rightarrow>
          (let (databases, p2, st2) = export_phase w dir verify p st1;
               r2 = (pg_run p2)\<lparr>rn_phase := Snapshotting\<rparr>;
               st3 = persist w r2 st2
           in case ew_snapshot w (xs_dirs st3, dst_files (xs_dump st3)) (pg_paths p2) (snapshot_tags r2) of
                Inl e \<Rightarrow> (end_of ''creating the snapshot'' e, r2, st3)
              | Inr res \<Rightarrow> verify_phase w (run_manifest r2 (pg_volumes p2) databases) res r2 st3))"

section \<open>The outcome\<close>

definition finish_run :: "exec_world \<Rightarrow> ending \<Rightarrow> run \<Rightarrow> run" where
  "finish_run w e r =
     (case e of
        End_Cancelled \<Rightarrow> r\<lparr>rn_status := Cancelled, rn_phase := Finished,
          rn_error := ''cancelled before a verified snapshot was recorded'', rn_ended_at := Some (ew_ended_at w)\<rparr>
      | End_Failed t \<Rightarrow> r\<lparr>rn_status := Failed, rn_phase := Finished, rn_error := t, rn_ended_at := Some (ew_ended_at w)\<rparr>
      | End_Completed snap \<Rightarrow> r\<lparr>rn_status := (if rn_warnings r \<noteq> [] then Completed_With_Warnings else Completed),
          rn_phase := Finished, rn_ended_at := Some (ew_ended_at w)\<rparr>)"

definition outcome_event :: "ending \<Rightarrow> run \<Rightarrow> string \<Rightarrow> event" where
  "outcome_event e r actor =
     (let who = [(''project'', Meta_String (rn_project_name r)), (''projectId'', Meta_String (rn_project_id r))] in
      case e of
        End_Cancelled \<Rightarrow> event_of ''backup.cancelled'' actor ''backup_run'' (rn_id r) who
      | End_Failed t \<Rightarrow> event_of ''backup.failed'' actor ''backup_run'' (rn_id r) (who @ [(''error'', Meta_String (rn_error r))])
      | End_Completed snap \<Rightarrow> event_of ''backup.completed'' actor ''backup_run'' (rn_id r)
          (who @ [(''snapshot'', Meta_String (sn_restic_id snap)), (''files'', Meta_Number (rn_files_total r)),
                  (''warnings'', Meta_Number (int (length (rn_warnings r)))), (''verified'', Meta_Bool True)]))"

definition finish :: "exec_world \<Rightarrow> string \<Rightarrow> ending \<times> run \<times> exec_state \<Rightarrow> run \<times> exec_state" where
  "finish w actor = (\<lambda>(e, r, st).
     (let r1 = finish_run w e r; st1 = persist_detached w r1 st
      in (r1, st1\<lparr>xs_recorder := emit (ew_emit_fault w) (ew_event_id w) (ew_event_at w) (outcome_event e r1 actor) (xs_recorder st1)\<rparr>)))"

definition work_dir :: "string \<Rightarrow> run \<Rightarrow> string" where
  "work_dir root r = path_join [root, path_segment (rn_project_name r)]"

definition execute :: "exec_world \<Rightarrow> string \<Rightarrow> bool \<Rightarrow> backup_source list \<Rightarrow> run \<Rightarrow> string \<Rightarrow> exec_state \<Rightarrow> run \<times> exec_state" where
  "execute w root verify sources r actor st =
     (let dir = work_dir root r in
      case ew_clear_fault w of
        Some e \<Rightarrow> finish w actor (End_Failed (''clearing the staging directory: '' @ e), r, st)
      | None \<Rightarrow>
          (let (r1, st1) = finish w actor (run_backup w dir verify sources r (remove_tree dir st))
           in (r1, if ew_remove_fault w = None then remove_tree dir st1 else st1)))"

section \<open>Lemmas: what each step leaves alone\<close>

lemma persist_sel [simp]:
  "xs_snapshots (persist w r st) = xs_snapshots st" "xs_recorder (persist w r st) = xs_recorder st"
  "xs_dirs (persist w r st) = xs_dirs st" "xs_dump (persist w r st) = xs_dump st"
  "map rn_id (xs_rows (persist w r st)) = map rn_id (xs_rows st)"
  by (simp_all add: persist_def)

lemma persist_detached_sel [simp]:
  "xs_snapshots (persist_detached w r st) = xs_snapshots st" "xs_recorder (persist_detached w r st) = xs_recorder st"
  "xs_dirs (persist_detached w r st) = xs_dirs st" "xs_dump (persist_detached w r st) = xs_dump st"
  "map rn_id (xs_rows (persist_detached w r st)) = map rn_id (xs_rows st)"
  by (simp_all add: persist_detached_def)

lemma remove_tree_sel [simp]:
  "xs_snapshots (remove_tree d st) = xs_snapshots st" "xs_recorder (remove_tree d st) = xs_recorder st"
  "xs_rows (remove_tree d st) = xs_rows st" "xs_updates (remove_tree d st) = xs_updates st"
  by (simp_all add: remove_tree_def)

lemma set_add_paths: "set (xs_dirs (add_paths ps st)) = set (xs_dirs st) \<union> set ps"
proof -
  have "set (fold append_new ps ds) = set ds \<union> set ps" for ds by (induction ps arbitrary: ds) auto
  then show ?thesis by (simp add: add_paths_def)
qed

lemma add_paths_sel [simp]:
  "xs_snapshots (add_paths ps st) = xs_snapshots st" "xs_recorder (add_paths ps st) = xs_recorder st"
  "xs_rows (add_paths ps st) = xs_rows st" "xs_dump (add_paths ps st) = xs_dump st"
  by (simp_all add: add_paths_def)

text \<open>
  A step of a run moves neither the snapshots nor the audit trail, and keeps the identity of the run
  and of the rows.
\<close>

definition quiet_step :: "run \<Rightarrow> exec_state \<Rightarrow> run \<Rightarrow> exec_state \<Rightarrow> bool" where
  "quiet_step r st r' st' =
     (xs_snapshots st' = xs_snapshots st \<and> xs_recorder st' = xs_recorder st \<and>
      map rn_id (xs_rows st') = map rn_id (xs_rows st) \<and> rn_id r' = rn_id r \<and>
      rn_project_id r' = rn_project_id r \<and> rn_project_name r' = rn_project_name r \<and>
      rn_repository_id r' = rn_repository_id r)"

lemma quiet_refl [simp]: "quiet_step r st r st"
  by (simp add: quiet_step_def)

lemma quiet_trans: "quiet_step a s b t \<Longrightarrow> quiet_step b t c u \<Longrightarrow> quiet_step a s c u"
  by (simp add: quiet_step_def)

text \<open>One source staged: its result is taken up, and what the stager has made is on disk.\<close>

lemma stage_sources_step:
  assumes "stage_sources w dir i (s # ss) p st = (x, p', st')"
  obtains (stopped) e where "x = Inl e" "p' = p" "xs_snapshots st' = xs_snapshots st"
        "xs_recorder st' = xs_recorder st" "xs_rows st' = xs_rows st"
    | (staged) answer made where "ew_stage w i s (stage_dest dir s) = (Inr answer, made)"
        "stage_sources w dir (Suc i) ss (add_staged dir s answer p)
           (persist w (pg_run (add_staged dir s answer p)) (add_paths made st)) = (x, p', st')"
proof (cases "ew_cancelled w i")
  case True
  then show thesis using assms by (intro stopped) auto
next
  case False
  obtain answer made where a: "ew_stage w i s (stage_dest dir s) = (answer, made)" by fastforce
  show thesis
  proof (cases answer)
    case (Inl e)
    then show thesis using assms False a by (intro stopped) (auto simp: Let_def)
  next
    case (Inr r)
    then show thesis using assms False a by (intro staged[of r made]) (auto simp: Let_def)
  qed
qed

lemma stage_sources_quiet:
  "stage_sources w dir i ss p st = (x, p', st') \<Longrightarrow> quiet_step (pg_run p) st (pg_run p') st'"
proof (induction ss arbitrary: i p st)
  case (Cons s ss)
  from Cons.prems show ?case
  proof (cases rule: stage_sources_step)
    case stopped
    then show ?thesis by (simp add: quiet_step_def)
  next
    case (staged r made)
    let ?p1 = "add_staged dir s r p"
    have "quiet_step (pg_run p) st (pg_run ?p1) (persist w (pg_run ?p1) (add_paths made st))"
      by (simp add: quiet_step_def add_staged_def count_staged_def)
    then show ?thesis using Cons.IH[OF staged(2)] by (rule quiet_trans)
  qed
qed auto

lemma export_phase_quiet:
  "export_phase w dir verify p st = (dbs, p', st') \<Longrightarrow> quiet_step (pg_run p) st (pg_run p') st'"
  by (auto simp: export_phase_def Let_def quiet_step_def split: prod.splits)

text \<open>A run ends with a snapshot exactly when one was read back and recorded.\<close>

definition records_outcome :: "exec_world \<Rightarrow> run \<Rightarrow> snapshot_table \<Rightarrow> ending \<Rightarrow> snapshot_table \<Rightarrow> bool" where
  "records_outcome w r snaps e snaps' =
     (case e of
        End_Completed snap \<Rightarrow> snaps' = snaps @ [snap] \<and> sn_run_id snap = rn_id r \<and> vf_ok (sn_verification snap) \<and>
          ew_verify w (sn_restic_id snap) = Inr (sn_verification snap)
      | _ \<Rightarrow> snaps' = snaps)"

lemma records_outcome_end [simp]: "records_outcome w r snaps (end_of what x) snaps"
  by (simp add: records_outcome_def end_of_def)

lemma records_outcome_failed [simp]: "records_outcome w r snaps (End_Failed t) snaps"
  by (simp add: records_outcome_def)

lemma verify_phase_outcome:
  assumes "verify_phase w m res r st = (e, r', st')"
  shows "records_outcome w r (xs_snapshots st) e (xs_snapshots st') \<and> xs_recorder st' = xs_recorder st \<and>
    map rn_id (xs_rows st') = map rn_id (xs_rows st) \<and> rn_id r' = rn_id r"
proof -
  let ?r1 = "r\<lparr>rn_bytes_added := sp_data_added res, rn_warnings := rn_warnings r @ sp_warnings res, rn_phase := Verifying\<rparr>"
  show ?thesis
  proof (cases "ew_verify w (sp_id res)")
    case (Inl x)
    then show ?thesis using assms by (auto simp: verify_phase_def Let_def)
  next
    case (Inr v)
    have same: "rn_id (check_shortfall v ?r1) = rn_id r" by (simp add: check_shortfall_def)
    show ?thesis
    proof (cases "vf_ok v")
      case False
      then show ?thesis using assms Inr by (auto simp: verify_phase_def Let_def)
    next
      case True
      show ?thesis
        using assms Inr True same
        by (auto simp: verify_phase_def Let_def records_outcome_def snapshot_record_def insert_snapshot_def
            split: sum.splits if_splits)
    qed
  qed
qed

lemma records_outcome_quiet:
  assumes "records_outcome w r2 (xs_snapshots s2) e snaps" "quiet_step r s r2 s2"
  shows "records_outcome w r (xs_snapshots s) e snaps"
  using assms by (auto simp: records_outcome_def quiet_step_def split: ending.splits)

lemma stage_sources_end:
  "stage_sources w dir i ss p st = (Inl e, p', st') \<Longrightarrow> \<exists>t. e = End_Cancelled \<or> e = End_Failed t"
proof (induction ss arbitrary: i p st)
  case (Cons s ss)
  then show ?case by (fastforce simp: Let_def end_of_def split: if_splits sum.splits prod.splits)
qed simp

lemma run_backup_outcome:
  assumes "run_backup w dir verify sources r st = (e, r', st')"
  shows "records_outcome w r (xs_snapshots st) e (xs_snapshots st') \<and> xs_recorder st' = xs_recorder st \<and>
    map rn_id (xs_rows st') = map rn_id (xs_rows st) \<and> rn_id r' = rn_id r"
proof -
  let ?r1 = "r\<lparr>rn_phase := Staging\<rparr>"
  let ?p0 = "\<lparr>pg_run = ?r1, pg_volumes = [], pg_paths = []\<rparr>"
  obtain x p st1 where stage: "stage_sources w dir 0 sources ?p0 (persist w ?r1 st) = (x, p, st1)" by (cases "stage_sources w dir 0 sources ?p0 (persist w ?r1 st)")
  have q0: "quiet_step r st (pg_run ?p0) (persist w ?r1 st)" by (simp add: quiet_step_def)
  note q1 = quiet_trans[OF q0 stage_sources_quiet[OF stage]]
  show ?thesis
  proof (cases x)
    case (Inl e1)
    then have "e = e1" "r' = pg_run p" "st' = st1" using assms stage by (simp_all add: run_backup_def Let_def)
    then show ?thesis using q1 stage_sources_end[OF stage[unfolded Inl]]
      by (auto simp: records_outcome_def quiet_step_def)
  next
    case (Inr u)
    obtain dbs p2 st2 where exp: "export_phase w dir verify p st1 = (dbs, p2, st2)" by (cases "export_phase w dir verify p st1")
    let ?r2 = "(pg_run p2)\<lparr>rn_phase := Snapshotting\<rparr>"
    let ?st3 = "persist w ?r2 st2"
    have q2: "quiet_step r st ?r2 ?st3"
      using quiet_trans[OF q1 export_phase_quiet[OF exp]] by (simp add: quiet_step_def)
    show ?thesis
    proof (cases "ew_snapshot w (xs_dirs ?st3, dst_files (xs_dump ?st3)) (pg_paths p2) (snapshot_tags ?r2)")
      case (Inl err)
      then have "e = end_of ''creating the snapshot'' err" "r' = ?r2" "st' = ?st3"
        using assms stage Inr exp by (auto simp: run_backup_def Let_def)
      then show ?thesis using q2 by (simp add: quiet_step_def)
    next
      case (Inr res)
      then have v: "verify_phase w (run_manifest ?r2 (pg_volumes p2) dbs) res ?r2 ?st3 = (e, r', st')"
        using assms stage \<open>x = Inr u\<close> exp by (simp add: run_backup_def Let_def)
      note out = verify_phase_outcome[OF v]
      show ?thesis
        using out records_outcome_quiet[OF conjunct1[OF out] q2] q2 by (simp add: quiet_step_def)
    qed
  qed
qed

lemma finish_run_sel [simp]: "rn_id (finish_run w e r) = rn_id r" "rn_ended_at (finish_run w e r) = Some (ew_ended_at w)"
  "rn_warnings (finish_run w e r) = rn_warnings r" "rn_bytes_total (finish_run w e r) = rn_bytes_total r"
  by (cases e; simp add: finish_run_def)+

text \<open>The run and the tables after an execution, whichever way it went.\<close>

lemma execute_cases:
  assumes "execute w root verify sources r actor st = (r', st')"
  obtains e r1 st1 where
    "records_outcome w r (xs_snapshots st) e (xs_snapshots st1)" "xs_recorder st1 = xs_recorder st"
    "map rn_id (xs_rows st1) = map rn_id (xs_rows st)" "rn_id r1 = rn_id r"
    "r' = finish_run w e r1" "xs_snapshots st' = xs_snapshots st1"
    "xs_rows st' = xs_rows (persist_detached w r' st1)"
    "xs_recorder st' = emit (ew_emit_fault w) (ew_event_id w) (ew_event_at w) (outcome_event e r' actor) (xs_recorder st)"
proof (cases "ew_clear_fault w")
  case (Some x)
  let ?e = "End_Failed (''clearing the staging directory: '' @ x)"
  show thesis
    using assms Some that[of ?e st r]
    by (auto simp: execute_def finish_def Let_def)
next
  case None
  obtain e r1 st1 where run: "run_backup w (work_dir root r) verify sources r (remove_tree (work_dir root r) st) = (e, r1, st1)"
    by (cases "run_backup w (work_dir root r) verify sources r (remove_tree (work_dir root r) st)")
  note out = run_backup_outcome[OF run]
  show thesis
    using assms None run out that[of e st1 r1]
    by (auto simp: execute_def finish_def Let_def split: if_splits)
qed

section \<open>Lemmas: what a completed run contains\<close>

text \<open>
  A source that is in the tree: the stager has staged it without an error to the path of its own, the
  manifest says so, and what the stager has made is on disk.
\<close>

definition source_staged :: "exec_world \<Rightarrow> string \<Rightarrow> string list \<Rightarrow> nat \<Rightarrow> backup_source \<Rightarrow> volume_manifest \<Rightarrow> bool" where
  "source_staged w dir tree i s v \<longleftrightarrow>
     (\<exists>sr made. ew_stage w i s (path_join [dir, path_segment (bs_name s)]) = (Inr sr, made) \<and> set made \<subseteq> set tree \<and>
        vm_name v = bs_name s \<and> vm_kind v = bs_kind s \<and> vm_path v = path_join [dir, path_segment (bs_name s)] \<and>
        vm_files v = sr_files sr \<and> vm_bytes v = sr_bytes sr \<and> vm_sqlite v = sr_sqlite sr \<and> vm_warnings v = sr_warnings sr)"

lemma source_staged_mono:
  "source_staged w dir tree i s v \<Longrightarrow> set tree \<subseteq> set tree' \<Longrightarrow> source_staged w dir tree' i s v"
  by (fastforce simp: source_staged_def)

lemma stage_sources_complete:
  "stage_sources w dir i ss p st = (Inr u, p', st') \<Longrightarrow>
   set (xs_dirs st) \<subseteq> set (xs_dirs st') \<and>
   pg_paths p' = pg_paths p @ map (stage_dest dir) ss \<and>
   (\<exists>vs. pg_volumes p' = pg_volumes p @ vs \<and> length vs = length ss \<and>
      (\<forall>k<length ss. source_staged w dir (xs_dirs st') (i + k) (ss ! k) (vs ! k)))"
proof (induction ss arbitrary: i p st)
  case (Cons s ss)
  from Cons.prems show ?case
  proof (cases rule: stage_sources_step)
    case (staged r made)
    obtain vs where ih: "set (xs_dirs (add_paths made st)) \<subseteq> set (xs_dirs st')"
        "pg_paths p' = pg_paths p @ stage_dest dir s # map (stage_dest dir) ss"
        "pg_volumes p' = pg_volumes p @ volume_entry s (stage_dest dir s) r # vs" "length vs = length ss"
        "\<forall>k<length ss. source_staged w dir (xs_dirs st') (Suc i + k) (ss ! k) (vs ! k)"
      using Cons.IH[OF staged(2)] by (auto simp: add_staged_def)
    have "source_staged w dir (xs_dirs st') i s (volume_entry s (stage_dest dir s) r)"
      unfolding source_staged_def
      using staged(1) ih(1) by (intro exI[of _ r] exI[of _ made]) (auto simp: set_add_paths volume_entry_def stage_dest_def)
    then have "source_staged w dir (xs_dirs st') (i + k) ((s # ss) ! k) ((volume_entry s (stage_dest dir s) r # vs) ! k)"
      if "k < length (s # ss)" for k
      using ih(5) that by (cases k) auto
    moreover have "set (xs_dirs st) \<subseteq> set (xs_dirs st')" using ih(1) by (simp add: set_add_paths)
    ultimately show ?thesis using ih(2,3,4) by auto
  qed simp
qed simp

text \<open>Facts about the recorded snapshot of a run that ended without a warning.\<close>

lemma verify_phase_complete:
  assumes "verify_phase w m res r st = (End_Completed snap, r', st')" "rn_warnings r' = []"
  shows "rn_warnings r = [] \<and> sp_warnings res = [] \<and> sn_manifest snap = m \<and> sn_restic_id snap = sp_id res \<and>
    \<not> (0 < vf_bytes_in_snapshot (sn_verification snap) \<and> vf_bytes_in_snapshot (sn_verification snap) < rn_bytes_total r')"
  using assms
  by (auto simp: verify_phase_def Let_def end_of_def check_shortfall_def snapshot_record_def insert_snapshot_def
      split: sum.splits if_splits)

lemma export_phase_complete:
  assumes "export_phase w dir verify p st = (dbs, p', st')" "rn_warnings (pg_run p') = []"
  obtains rs ds where "exports_of w dir verify (pg_run p) st = (rs, ds)"
    "dbs = manifest_entries (rn_project_id (pg_run p)) (ew_blueprint w 1) rs (pg_volumes p)"
    "database_consistency_warnings (rn_project_id (pg_run p)) (ew_blueprint w 2) (dumped_keys rs) = []"
    "pg_paths p' = pg_paths p @ (if rs = [] then [] else [path_join [dir, dump_directory]])"
    "pg_volumes p' = pg_volumes p" "xs_dirs st' = xs_dirs st" "xs_dump st' = dxs_dump ds"
proof -
  obtain rs ds where ex: "exports_of w dir verify (pg_run p) st = (rs, ds)" by fastforce
  then show thesis using that[of rs ds] assms by (auto simp: export_phase_def Let_def)
qed

text \<open>The exports a manifest lists, and one of them in the tree the engine has read.\<close>

definition exports_listed :: "manifest \<Rightarrow> database_dump list" where
  "exports_listed m = filter (\<lambda>d. dd_level d = Exported) (mf_databases m)"

definition dump_in :: "string \<Rightarrow> (string \<times> string) list \<Rightarrow> database_dump \<Rightarrow> bool" where
  "dump_in dir files d \<longleftrightarrow>
     (\<exists>name c. path_segs (path_join [dir, dd_path d]) = path_segs dir @ [''back-orbit-dumps'', name] \<and>
        map_of files (path_join [dir, dd_path d]) = Some c \<and> c \<noteq> [] \<and> dd_bytes d = int (length c))"

text \<open>
  What a recorded snapshot has to hold. The engine was given the path of every source, in order, and the
  directory of the exports if there are any, and had nothing to add. In the tree it was given every source was
  staged, and every export the manifest lists lies in the directory of the exports, with content and of the
  recorded size. Every server database of the analysis is among the exports, and the snapshot would
  restore at least the bytes that were staged.
\<close>

definition faithful_snapshot :: "exec_world \<Rightarrow> string \<Rightarrow> backup_source list \<Rightarrow> run \<Rightarrow> snapshot \<Rightarrow> bool" where
  "faithful_snapshot w dir sources r s \<longleftrightarrow>
     (let m = sn_manifest s in
      (\<exists>tree files tags res.
         ew_snapshot w (tree, files)
           (map (\<lambda>s. path_join [dir, path_segment (bs_name s)]) sources @
            (if exports_listed m = [] then [] else [path_join [dir, ''back-orbit-dumps'']])) tags = Inr res \<and>
         sp_id res = sn_restic_id s \<and> sp_warnings res = [] \<and>
         length (mf_volumes m) = length sources \<and>
         (\<forall>k<length sources. source_staged w dir tree k (sources ! k) (mf_volumes m ! k)) \<and>
         list_all (dump_in dir files) (exports_listed m)) \<and>
      (\<forall>b f. ew_blueprint w 2 = Some b \<and> f \<in> set (bp_findings b) \<and> fd_kind f = ''database'' \<and>
         map_of server_databases (fd_technology f) \<noteq> None \<longrightarrow>
         (\<exists>e\<in>set (exports_listed m). dd_technology e = fd_technology f \<and> dd_service e = fd_service f)) \<and>
      \<not> (0 < vf_bytes_in_snapshot (sn_verification s) \<and> vf_bytes_in_snapshot (sn_verification s) < rn_bytes_total r))"

text \<open>
  No two sources of a run, and no two exports, share a path below its staging directory, and no source
  is called like the directory of the exports.
\<close>

definition separate_names :: "exec_world \<Rightarrow> string \<Rightarrow> backup_source list \<Rightarrow> bool" where
  "separate_names w dir sources \<longleftrightarrow>
     distinct (path_join [dir, ''back-orbit-dumps''] # map (\<lambda>s. path_join [dir, path_segment (bs_name s)]) sources) \<and>
     (\<forall>b. ew_blueprint w 0 = Some b \<longrightarrow> distinct (map (finding_path dir) (filter exportable (bp_findings b))))"

lemma exports_listed_entries [simp]:
  "exports_listed \<lparr>mf_schema = a, mf_project = b, mf_created_at = t, mf_volumes = vs,
     mf_databases = manifest_entries pid bp rs vs'\<rparr> = map exported_entry rs"
proof -
  have "filter (\<lambda>d. dd_level d = Exported) (map exported_entry rs) = map exported_entry rs"
    by (induction rs) (simp_all add: exported_entry_def)
  moreover have "filter (\<lambda>d. dd_level d = Exported) (concat (map sqlite_entries vs')) = []"
    by (auto simp: filter_empty_conv sqlite_entries_def)
  moreover have "filter (\<lambda>d. dd_level d = Exported) (map files_only_entry fs) = []" for fs
    by (induction fs) (simp_all add: files_only_entry_def)
  ultimately show ?thesis by (simp add: exports_listed_def manifest_entries_def split: option.split)
qed

lemma exports_in_tree:
  assumes "exports_of w dir verify r st = (rs, ds)" "abs_clean dir" "separate_names w dir sources"
  shows "list_all (dump_in dir (dst_files (dxs_dump ds))) (map exported_entry rs)"
proof -
  note run = assms(1)[unfolded exports_of_def]
  have held: "list_all (holds_dump dir (dxs_dump ds)) rs"
  proof (cases "ew_blueprint w 0")
    case None
    then show ?thesis using dump_databases_Some[OF run] by auto
  next
    case (Some b)
    show ?thesis
      using dump_databases_held[OF run[unfolded Some]] assms(3) Some by (simp add: separate_names_def)
  qed
  have "dump_in dir (dst_files (dxs_dump ds)) (exported_entry x)" if x: "x \<in> set rs" for x
  proof -
    have "holds_dump dir (dxs_dump ds) x" using held x by (simp add: list_all_iff)
    moreover obtain name where "path_segs (path_join [dir, df_path (dr_file x)]) = path_segs dir @ [dump_directory, name]"
      using dump_databases_below[OF run assms(2) x] by blast
    ultimately show ?thesis
      by (auto simp: dump_in_def holds_dump_def exported_entry_def staged_def dump_directory_def split: option.splits)
  qed
  then show ?thesis by (simp add: list_all_iff)
qed

lemma server_technology_plain:
  assumes "map_of server_databases t \<noteq> None"
  shows "CHR '':'' \<notin> set t"
proof -
  obtain l where "map_of server_databases t = Some l" using assms by blast
  then have "(t, l) \<in> set server_databases" by (rule map_of_SomeD)
  then show ?thesis by (auto simp: server_databases_def)
qed

lemma run_backup_complete:
  assumes "run_backup w dir verify sources r st = (End_Completed snap, r', st')" "rn_warnings r' = []" "rn_project_id r \<noteq> []"
    "abs_clean dir" "separate_names w dir sources"
  shows "faithful_snapshot w dir sources r' snap"
proof -
  let ?r1 = "r\<lparr>rn_phase := Staging\<rparr>"
  let ?p0 = "\<lparr>pg_run = ?r1, pg_volumes = [], pg_paths = []\<rparr>"
  obtain x p st1 where stage: "stage_sources w dir 0 sources ?p0 (persist w ?r1 st) = (x, p, st1)" by (cases "stage_sources w dir 0 sources ?p0 (persist w ?r1 st)")
  obtain dbs p2 st2 where exp: "export_phase w dir verify p st1 = (dbs, p2, st2)" by (cases "export_phase w dir verify p st1")
  obtain u where u: "x = Inr u"
    using assms(1) stage stage_sources_end[of w dir 0 sources ?p0 "persist w ?r1 st" _ p st1]
    by (cases x) (auto simp: run_backup_def Let_def)
  let ?r2 = "(pg_run p2)\<lparr>rn_phase := Snapshotting\<rparr>"
  let ?m = "run_manifest ?r2 (pg_volumes p2) dbs"
  obtain res where res: "ew_snapshot w (xs_dirs st2, dst_files (xs_dump st2)) (pg_paths p2) (snapshot_tags ?r2) = Inr res"
      "verify_phase w ?m res ?r2 (persist w ?r2 st2) = (End_Completed snap, r', st')"
    using assms(1) stage u exp by (auto simp: run_backup_def Let_def end_of_def split: sum.splits if_splits)
  note v = verify_phase_complete[OF res(2) assms(2)]
  then have quiet: "rn_warnings (pg_run p2) = []" by simp
  obtain rs ds where e: "exports_of w dir verify (pg_run p) st1 = (rs, ds)"
      "dbs = manifest_entries (rn_project_id (pg_run p)) (ew_blueprint w 1) rs (pg_volumes p)"
      "database_consistency_warnings (rn_project_id (pg_run p)) (ew_blueprint w 2) (dumped_keys rs) = []"
      "pg_paths p2 = pg_paths p @ (if rs = [] then [] else [path_join [dir, dump_directory]])"
      "pg_volumes p2 = pg_volumes p" "xs_dirs st2 = xs_dirs st1" "xs_dump st2 = dxs_dump ds"
    by (rule export_phase_complete[OF exp quiet])
  have pid: "rn_project_id (pg_run p) \<noteq> []"
    using stage_sources_quiet[OF stage] assms(3) by (simp add: quiet_step_def)
  have staged: "pg_paths p = map (stage_dest dir) sources" "length (pg_volumes p) = length sources"
      "\<forall>k<length sources. source_staged w dir (xs_dirs st1) k (sources ! k) (pg_volumes p ! k)"
    using stage_sources_complete[OF stage[unfolded u]] by auto
  have m: "sn_manifest snap = ?m" using v by simp
  then have listed: "exports_listed (sn_manifest snap) = map exported_entry rs"
    by (simp add: run_manifest_def e(2))
  have dbs: "\<exists>d\<in>set (exports_listed (sn_manifest snap)). dd_technology d = fd_technology f \<and> dd_service d = fd_service f"
    if f: "ew_blueprint w 2 = Some b" "f \<in> set (bp_findings b)" "fd_kind f = ''database''"
      "map_of server_databases (fd_technology f) \<noteq> None" for b f
  proof -
    have "filter (unexported (dumped_keys rs)) (bp_findings b) = []"
      using e(3) consistency_warnings_empty[OF pid, of b "dumped_keys rs"] f(1) by simp
    then have key: "finding_key f \<in> set (dumped_keys rs)" using f by (auto simp: filter_empty_conv unexported_def)
    have "\<exists>d\<in>set dbs. dd_technology d = fd_technology f \<and> dd_service d = fd_service f \<and> dd_level d = Exported"
      unfolding e(2)
      using manifest_lists_exports[OF e(1)[unfolded exports_of_def] key server_technology_plain[OF f(4)]] by blast
    then show ?thesis unfolding m by (auto simp: exports_listed_def run_manifest_def)
  qed
  have paths: "pg_paths p2 = map (\<lambda>s. path_join [dir, path_segment (bs_name s)]) sources @
      (if exports_listed (sn_manifest snap) = [] then [] else [path_join [dir, ''back-orbit-dumps'']])"
    unfolding e(4) staged(1) listed by (simp add: stage_dest_def[abs_def] dump_directory_def)
  have vols: "mf_volumes (sn_manifest snap) = pg_volumes p" by (simp add: m run_manifest_def e(5))
  have "list_all (dump_in dir (dst_files (xs_dump st2))) (exports_listed (sn_manifest snap))"
    unfolding listed e(7) by (rule exports_in_tree[OF e(1) assms(4,5)])
  then have "\<exists>tree files tags res.
      ew_snapshot w (tree, files) (map (\<lambda>s. path_join [dir, path_segment (bs_name s)]) sources @
         (if exports_listed (sn_manifest snap) = [] then [] else [path_join [dir, ''back-orbit-dumps'']])) tags = Inr res \<and>
      sp_id res = sn_restic_id snap \<and> sp_warnings res = [] \<and> length (mf_volumes (sn_manifest snap)) = length sources \<and>
      (\<forall>k<length sources. source_staged w dir tree k (sources ! k) (mf_volumes (sn_manifest snap) ! k)) \<and>
      list_all (dump_in dir files) (exports_listed (sn_manifest snap))"
    using res(1) v staged(2,3) unfolding paths vols e(6) by metis
  then show ?thesis unfolding faithful_snapshot_def Let_def using v dbs by blast
qed

section \<open>Properties\<close>

text \<open>
  C1. A backup is only called complete when it is one: a run always ends, it ends as completed (with
  or without warnings) exactly when a snapshot was recorded for it, and that snapshot is one the
  engine reported as verified after reading it back. A run without warnings is the only one called
  completed.
\<close>

theorem run_outcome_honest:
  assumes "execute w root verify sources r actor st = (r', st')" "snapshot_for_run (rn_id r) (xs_snapshots st) = None"
  shows "run_done (rn_status r') \<and>
    (rn_status r' \<in> {Completed, Completed_With_Warnings} \<longleftrightarrow> snapshot_for_run (rn_id r) (xs_snapshots st') \<noteq> None) \<and>
    (rn_status r' = Completed \<longrightarrow> rn_warnings r' = []) \<and>
    (case snapshot_for_run (rn_id r) (xs_snapshots st') of
       None \<Rightarrow> True
     | Some s \<Rightarrow> vf_ok (sn_verification s) \<and> ew_verify w (sn_restic_id s) = Inr (sn_verification s))"
  using assms(1)
proof (cases rule: execute_cases)
  case (1 e r1 st1)
  have found: "snapshot_for_run (rn_id r) (xs_snapshots st @ [s]) = Some s" if "sn_run_id s = rn_id r" for s
  proof -
    have "List.find P (xs @ [y]) = Some y" if "List.find P xs = None" "P y" for P and xs :: "snapshot list" and y
      using that by (induction xs) (auto split: if_splits)
    then show ?thesis using assms(2) that by (simp add: snapshot_for_run_def)
  qed
  show ?thesis
  proof (cases e)
    case (End_Completed snap)
    then show ?thesis using 1 found by (simp add: records_outcome_def finish_run_def run_done_def)
  qed (use 1 assms(2) in \<open>simp_all add: records_outcome_def finish_run_def run_done_def\<close>)
qed

definition outcome_action :: "run_status \<Rightarrow> string" where
  "outcome_action s =
     (case s of Cancelled \<Rightarrow> ''backup.cancelled'' | Failed \<Rightarrow> ''backup.failed''
      | Running \<Rightarrow> [] | _ \<Rightarrow> ''backup.completed'')"

text \<open>
  C6. The outcome is on record: when the database accepts the last update, the stored row of the run is
  finished with the status, error and warnings of the run and an end time, and exactly one event with
  the action of that status was added to the audit trail, naming the run.
\<close>

theorem run_outcome_recorded:
  assumes "execute w root verify sources r actor st = (r', st')" "\<not> ew_final_fault w"
    "rn_id r \<in> set (map rn_id (xs_rows st))"
  shows "(case List.find (\<lambda>x. rn_id x = rn_id r) (xs_rows st') of
       None \<Rightarrow> False
     | Some row \<Rightarrow> rn_status row = rn_status r' \<and> rn_error row = rn_error r' \<and> rn_warnings row = rn_warnings r' \<and>
         rn_ended_at row = Some (ew_ended_at w)) \<and>
    (\<exists>ev. ev_action ev = outcome_action (rn_status r') \<and> ev_target_id ev = rn_id r \<and>
       xs_recorder st' = emit (ew_emit_fault w) (ew_event_id w) (ew_event_at w) ev (xs_recorder st))"
  using assms(1)
proof (cases rule: execute_cases)
  case (1 e r1 st1)
  have rid: "rn_id r' = rn_id r" using 1(4,5) by simp
  have "rn_id r \<in> set (map rn_id (xs_rows st1))" using assms(3) 1(3) by simp
  then obtain row where row: "List.find (\<lambda>x. rn_id x = rn_id r) (xs_rows st1) = Some row"
    by (cases "List.find (\<lambda>x. rn_id x = rn_id r) (xs_rows st1)") (auto simp: find_None_iff)
  have "List.find (\<lambda>x. rn_id x = rn_id r) (xs_rows st') = Some (update_columns r' row)"
    unfolding 1(7) persist_detached_def using find_update_run[of r' "xs_rows st1"] row assms(2) by (simp add: rid)
  moreover have "rn_ended_at r' = Some (ew_ended_at w)" unfolding 1(5) by simp
  moreover have "ev_action (outcome_event e r' actor) = outcome_action (rn_status r')"
    "ev_target_id (outcome_event e r' actor) = rn_id r"
    using rid 1(5) by (cases e; simp add: outcome_event_def outcome_action_def event_of_def finish_run_def Let_def)+
  ultimately show ?thesis using 1(8) by auto
qed

text \<open>
  A run leaves nothing behind in its own staging directory: whatever the outcome, once the directory can be
  removed no path and no export is left below it.
\<close>

lemma map_of_filter_keys: "map_of (filter (\<lambda>(k, v). \<not> P k) xs) k = (if P k then None else map_of xs k)"
  by (induction xs) auto

lemma staging_cleaned:
  assumes "execute w root verify sources r actor st = (r', st')" "ew_clear_fault w = None" "ew_remove_fault w = None"
  shows "list_all (\<lambda>p. \<not> below (work_dir root r) p) (xs_dirs st') \<and>
    (\<forall>p. below (work_dir root r) p \<longrightarrow> staged (xs_dump st') p = None)"
  using assms by (auto simp: execute_def Let_def remove_tree_def list_all_iff staged_def map_of_filter_keys split: prod.splits)

text \<open>
  C2. A run called completed, without warnings, is a faithful copy, as long as the names of its sources and
  of its databases do not collide. The engine was given exactly the path of every source and the directory of
  the exports, and had nothing to add. At that moment every source had been staged by the stager under the path the
  manifest names, and every export the manifest lists lay in the directory of the exports, not empty and of
  the recorded size. Every server database the analysis found is among these exports, and the snapshot
  would restore at least the bytes that were staged.
\<close>

theorem completed_run_is_faithful:
  assumes "execute w root verify sources r actor st = (r', st')" "rn_status r' = Completed" "rn_project_id r \<noteq> []"
    "abs_clean root" "separate_names w (path_join [root, path_segment (rn_project_name r)]) sources"
  shows "\<exists>s. xs_snapshots st' = xs_snapshots st @ [s] \<and> sn_run_id s = rn_id r \<and>
    faithful_snapshot w (path_join [root, path_segment (rn_project_name r)]) sources r' s"
proof (cases "ew_clear_fault w")
  case (Some x)
  then have "rn_status r' = Failed" using assms(1) by (auto simp: execute_def finish_def finish_run_def Let_def)
  then show ?thesis using assms(2) by simp
next
  case None
  let ?dir = "work_dir root r"
  obtain e r1 st1 where run: "run_backup w ?dir verify sources r (remove_tree ?dir st) = (e, r1, st1)"
    by (cases "run_backup w ?dir verify sources r (remove_tree ?dir st)")
  have fin: "r' = finish_run w e r1" "xs_snapshots st' = xs_snapshots st1"
    using assms(1) None run by (auto simp: execute_def finish_def Let_def split: if_splits)
  obtain snap where e: "e = End_Completed snap" and quiet: "rn_warnings r1 = []"
    using assms(2) fin(1) by (cases e) (auto simp: finish_run_def split: if_splits)
  have dir: "abs_clean ?dir" unfolding work_dir_def by (rule run_seg.join_clean[OF assms(4)])
  have "faithful_snapshot w ?dir sources r1 snap"
    by (rule run_backup_complete[OF run[unfolded e] quiet assms(3) dir]) (use assms(5) in \<open>simp add: work_dir_def\<close>)
  then have "faithful_snapshot w ?dir sources r' snap"
    unfolding fin(1) faithful_snapshot_def finish_run_sel .
  then show ?thesis
    using run_backup_outcome[OF run] fin(2) e by (auto simp: records_outcome_def work_dir_def)
qed

section \<open>A run\<close>

text \<open>A project with one volume and a PostgreSQL service, backed up without a fault.\<close>

definition sample_exec_world :: exec_world where
  "sample_exec_world =
     \<lparr>ew_clear_fault = None, ew_remove_fault = None, ew_cancelled = \<lambda>i. False,
      ew_stage = \<lambda>i s dest. (Inr \<lparr>sr_files = 2, sr_bytes = 10, sr_ownership = [], sr_preserved = False, sr_sqlite = [], sr_warnings = []\<rparr>,
        [dest, dest @ ''/base'']),
      ew_dumps = sample_dumps_world, ew_docker = True, ew_containers = [sample_container ''c1'' ''db''],
      ew_blueprint = \<lambda>i. Some (sample_blueprint [sample_finding ''postgresql'' ''db'']),
      ew_snapshot = \<lambda>tree paths tags. Inr \<lparr>sp_id = ''abc'', sp_files_new = 3, sp_files_changed = 0, sp_files_unmodified = 0, sp_data_added = 13, sp_total_bytes = 13, sp_total_files = 3, sp_warnings = []\<rparr>,
      ew_verify = \<lambda>i. Inr \<lparr>vf_ok = True, vf_checks = [], vf_errors = [], vf_files_listed = 3, vf_bytes_in_snapshot = 13, vf_duration_ms = 1\<rparr>,
      ew_update_fault = \<lambda>n. False, ew_final_fault = False, ew_insert_fault = False, ew_uuid = ''s1'', ew_verified_at = 8, ew_ended_at = 9, ew_event_at = 9, ew_emit_fault = False, ew_event_id = ''e1''\<rparr>"

definition sample_run :: run where
  "sample_run =
     \<lparr>rn_id = ''r1'', rn_project_id = ''p1'', rn_project_name = ''shop'', rn_repository_id = ''q1'', rn_repository_name = ''disk'',
      rn_trigger = Manual, rn_status = Running, rn_phase = Preparing, rn_volumes = [''data''], rn_files_total = 0,
      rn_bytes_total = 0, rn_bytes_added = 0, rn_warnings = [], rn_error = [], rn_started_at = 1, rn_ended_at = None,
      rn_created_at = 1\<rparr>"

definition sample_source :: backup_source where
  "sample_source = \<lparr>bs_kind = Source_Volume, bs_name = ''data'', bs_mounted_at = ''/var/lib'', bs_services = [''db''], bs_skipped = []\<rparr>"

definition sample_state :: exec_state where
  "sample_state = \<lparr>xs_rows = [sample_run], xs_updates = 0, xs_snapshots = [],
     xs_recorder = \<lparr>audit_rows = [], feed = new_broker\<rparr>, xs_dirs = [''/stage/shop/old'', ''/stage/wiki''],
     xs_dump = no_dumps, xs_calls = []\<rparr>"

definition sample_execution :: "run \<times> exec_state" where
  "sample_execution = execute sample_exec_world ''/stage'' False [sample_source] sample_run ''admin'' sample_state"

lemma sample_execution_run:
  "execute sample_exec_world ''/stage'' False [sample_source] sample_run ''admin'' sample_state =
     (fst sample_execution, snd sample_execution)"
  by (simp add: sample_execution_def)

lemma sample_execution_status:
  "rn_status (fst sample_execution) = Completed" "xs_dirs (snd sample_execution) = [''/stage/wiki'']"
  by code_simp+

theorem run_outcome_honest_witness:
  "run_done (rn_status (fst sample_execution)) \<and> rn_warnings (fst sample_execution) = [] \<and>
   snapshot_for_run ''r1'' (xs_snapshots (snd sample_execution)) \<noteq> None"
proof -
  have "snapshot_for_run (rn_id sample_run) (xs_snapshots sample_state) = None"
    by (simp add: sample_state_def snapshot_for_run_def)
  from run_outcome_honest[OF sample_execution_run this] sample_execution_status(1)
  show ?thesis by (simp add: sample_run_def)
qed

theorem run_outcome_recorded_witness:
  "\<exists>ev. ev_action ev = ''backup.completed'' \<and>
     xs_recorder (snd sample_execution) = emit False ''e1'' 9 ev (xs_recorder sample_state)"
proof -
  have f: "\<not> ew_final_fault sample_exec_world" by (simp add: sample_exec_world_def)
  have i: "rn_id sample_run \<in> set (map rn_id (xs_rows sample_state))" by (simp add: sample_state_def)
  have w: "ew_emit_fault sample_exec_world = False" "ew_event_id sample_exec_world = ''e1''" "ew_event_at sample_exec_world = 9"
    by (simp_all add: sample_exec_world_def)
  obtain ev where "ev_action ev = outcome_action (rn_status (fst sample_execution))"
      "xs_recorder (snd sample_execution) = emit False ''e1'' 9 ev (xs_recorder sample_state)"
    using run_outcome_recorded[OF sample_execution_run f i] unfolding w by blast
  then show ?thesis by (auto simp: sample_execution_status(1) outcome_action_def)
qed

theorem completed_run_is_faithful_witness:
  "\<exists>s. xs_snapshots (snd sample_execution) = [s] \<and>
     faithful_snapshot sample_exec_world ''/stage/shop'' [sample_source] (fst sample_execution) s"
proof -
  have root: "abs_clean ''/stage''" unfolding abs_clean_def by code_simp
  have pid: "rn_project_id sample_run \<noteq> []" by (simp add: sample_run_def)
  have dir: "path_join [''/stage'', path_segment (rn_project_name sample_run)] = ''/stage/shop''" by code_simp
  have f: "filter exportable [sample_finding ''postgresql'' ''db''] = [sample_finding ''postgresql'' ''db'']"
    by (simp add: sample_finding_def exportable_def dump_engines_def)
  have "path_join [''/stage/shop'', ''back-orbit-dumps''] \<noteq> path_join [''/stage/shop'', path_segment (bs_name sample_source)]"
    by code_simp
  then have sep: "separate_names sample_exec_world ''/stage/shop'' [sample_source]"
    by (simp add: separate_names_def sample_exec_world_def sample_blueprint_def f)
  have "xs_snapshots sample_state = []" by (simp add: sample_state_def)
  then show ?thesis
    using completed_run_is_faithful[OF sample_execution_run sample_execution_status(1) pid root] sep
    unfolding dir by auto
qed

end
