(* ===== verification/Run_Registry.thy ===== *)
theory Run_Registry
  imports Prelude "HOL-Library.AList"
begin

text \<open>
  Which runs are under way (\<open>active\<close>, \<open>byProject\<close> in \<open>internal/backuprun/runner.go\<close>, \<open>active\<close>,
  \<open>bySnapshot\<close> in \<open>internal/restore/restore.go\<close>). Both runners reserve a slot under the mutex, give it
  back when the run cannot be recorded or has ended, and can only cancel a run they started. The
  locale \<open>slot_registry\<close> states what the life of a run needs from such a registry; both registries
  are shown to provide it. One step is one critical section of the mutex, in any interleaving.
\<close>

section \<open>The two registries\<close>

record backup_registry =
  active_backups :: "string list"
  by_project :: "(string \<times> string) list"

definition no_backups :: backup_registry where
  "no_backups = \<lparr>active_backups = [], by_project = []\<rparr>"

definition reserve_backup :: "string \<Rightarrow> string \<Rightarrow> backup_registry \<Rightarrow> backup_registry option" where
  "reserve_backup project i s =
     (case map_of (by_project s) project of
        Some _ \<Rightarrow> None
      | None \<Rightarrow> Some (s\<lparr>by_project := AList.update project i (by_project s)\<rparr>))"

definition activate_backup :: "string \<Rightarrow> backup_registry \<Rightarrow> backup_registry" where
  "activate_backup i s = s\<lparr>active_backups := append_new i (active_backups s)\<rparr>"

definition cancel_backup :: "string \<Rightarrow> backup_registry \<Rightarrow> bool" where
  "cancel_backup i s = (i \<in> set (active_backups s))"

definition release_backup :: "string \<Rightarrow> string \<Rightarrow> backup_registry \<Rightarrow> backup_registry" where
  "release_backup project i s =
     (let s1 = s\<lparr>active_backups := filter (\<lambda>x. x \<noteq> i) (active_backups s)\<rparr> in
      if map_of (by_project s1) project = Some i then s1\<lparr>by_project := AList.delete project (by_project s1)\<rparr> else s1)"

record restore_registry =
  active_restores :: "string list"
  by_snapshot :: "(string \<times> string) list"

definition no_restores :: restore_registry where
  "no_restores = \<lparr>active_restores = [], by_snapshot = []\<rparr>"

definition reserve_restore :: "string \<Rightarrow> string \<Rightarrow> restore_registry \<Rightarrow> restore_registry option" where
  "reserve_restore snap i s =
     (case map_of (by_snapshot s) snap of
        Some _ \<Rightarrow> None
      | None \<Rightarrow> Some (s\<lparr>by_snapshot := AList.update snap i (by_snapshot s)\<rparr>))"

definition activate_restore :: "string \<Rightarrow> restore_registry \<Rightarrow> restore_registry" where
  "activate_restore i s = s\<lparr>active_restores := append_new i (active_restores s)\<rparr>"

definition cancel_restore :: "string \<Rightarrow> restore_registry \<Rightarrow> bool" where
  "cancel_restore i s = (i \<in> set (active_restores s))"

definition release_restore :: "string \<Rightarrow> string \<Rightarrow> restore_registry \<Rightarrow> restore_registry" where
  "release_restore snap i s =
     (let s1 = s\<lparr>active_restores := filter (\<lambda>x. x \<noteq> i) (active_restores s)\<rparr> in
      if map_of (by_snapshot s1) snap = Some i then s1\<lparr>by_snapshot := AList.delete snap (by_snapshot s1)\<rparr> else s1)"

section \<open>The life of a run\<close>

datatype stage = Reserved | Started

text \<open>
  The runs under way: the key of the slot, the identifier of the run and how far \<open>Start\<close> got with it.
  A run is reserved with an identifier of its own; recording it fails or succeeds; then it runs until
  its goroutine releases the slot.
\<close>

type_synonym flights = "(string \<times> string \<times> stage) list"

inductive flight_step :: "(string \<Rightarrow> string \<Rightarrow> 's \<Rightarrow> 's option) \<Rightarrow> (string \<Rightarrow> 's \<Rightarrow> 's) \<Rightarrow> (string \<Rightarrow> string \<Rightarrow> 's \<Rightarrow> 's)
    \<Rightarrow> 's \<times> flights \<Rightarrow> 's \<times> flights \<Rightarrow> bool"
  for reserve :: "string \<Rightarrow> string \<Rightarrow> 's \<Rightarrow> 's option" and activate :: "string \<Rightarrow> 's \<Rightarrow> 's"
    and release :: "string \<Rightarrow> string \<Rightarrow> 's \<Rightarrow> 's" where
  step_reserve: "reserve k i s = Some s' \<Longrightarrow> i \<notin> (fst \<circ> snd) ` set fl \<Longrightarrow>
    flight_step reserve activate release (s, fl) (s', (k, i, Reserved) # fl)"
| step_refused: "reserve k i s = None \<Longrightarrow> flight_step reserve activate release (s, fl) (s, fl)"
| step_insert_failed: "(k, i, Reserved) \<in> set fl \<Longrightarrow>
    flight_step reserve activate release (s, fl) (release k i s, filter (\<lambda>x. x \<noteq> (k, i, Reserved)) fl)"
| step_started: "(k, i, Reserved) \<in> set fl \<Longrightarrow>
    flight_step reserve activate release (s, fl) (activate i s, (k, i, Started) # filter (\<lambda>x. x \<noteq> (k, i, Reserved)) fl)"
| step_finished: "(k, i, Started) \<in> set fl \<Longrightarrow>
    flight_step reserve activate release (s, fl) (release k i s, filter (\<lambda>x. x \<noteq> (k, i, Started)) fl)"

inductive_cases flight_stepE: "flight_step reserve activate release (s, fl) (s', fl')"

text \<open>What is reachable from an empty registry.\<close>

inductive flights_reachable :: "(string \<Rightarrow> string \<Rightarrow> 's \<Rightarrow> 's option) \<Rightarrow> (string \<Rightarrow> 's \<Rightarrow> 's)
    \<Rightarrow> (string \<Rightarrow> string \<Rightarrow> 's \<Rightarrow> 's) \<Rightarrow> 's \<Rightarrow> 's \<Rightarrow> flights \<Rightarrow> bool"
  for reserve :: "string \<Rightarrow> string \<Rightarrow> 's \<Rightarrow> 's option" and activate :: "string \<Rightarrow> 's \<Rightarrow> 's"
    and release :: "string \<Rightarrow> string \<Rightarrow> 's \<Rightarrow> 's" and init :: 's where
  reach_init: "flights_reachable reserve activate release init init []"
| reach_step: "flights_reachable reserve activate release init s fl \<Longrightarrow>
    flight_step reserve activate release (s, fl) (s', fl') \<Longrightarrow> flights_reachable reserve activate release init s' fl'"

text \<open>The slots taken are those of the runs under way, the runs that can be cancelled those that started.\<close>

definition slots_match :: "(string \<Rightarrow> string option) \<Rightarrow> (string \<Rightarrow> bool) \<Rightarrow> flights \<Rightarrow> bool" where
  "slots_match holder cancellable fl =
     (distinct (map (fst \<circ> snd) fl) \<and>
      (\<forall>k i. holder k = Some i \<longleftrightarrow> (\<exists>ph. (k, i, ph) \<in> set fl)) \<and>
      (\<forall>i. cancellable i \<longleftrightarrow> (\<exists>k. (k, i, Started) \<in> set fl)))"

lemma flight_unique:
  assumes "distinct (map (fst \<circ> snd) fl)" "(k, i, ph) \<in> set fl" "(k', i, ph') \<in> set fl"
  shows "k' = k \<and> ph' = ph"
proof -
  have "inj_on (fst \<circ> snd) (set fl)" using assms(1) by (simp add: distinct_map)
  from inj_onD[OF this _ assms(2,3)] show ?thesis by simp
qed

section \<open>The interface\<close>

locale slot_registry =
  fixes holder :: "'s \<Rightarrow> string \<Rightarrow> string option"
    and cancellable :: "'s \<Rightarrow> string \<Rightarrow> bool"
    and init :: 's
    and reserve :: "string \<Rightarrow> string \<Rightarrow> 's \<Rightarrow> 's option"
    and activate :: "string \<Rightarrow> 's \<Rightarrow> 's"
    and release :: "string \<Rightarrow> string \<Rightarrow> 's \<Rightarrow> 's"
  assumes holder_init: "holder init k = None"
    and cancellable_init: "\<not> cancellable init i"
    and reserve_None: "reserve k i s = None \<longleftrightarrow> holder s k \<noteq> None"
    and holder_reserve: "reserve k i s = Some s' \<Longrightarrow> holder s' = (holder s)(k \<mapsto> i)"
    and cancellable_reserve: "reserve k i s = Some s' \<Longrightarrow> cancellable s' = cancellable s"
    and holder_activate: "holder (activate i s) = holder s"
    and cancellable_activate: "cancellable (activate i s) = (cancellable s)(i := True)"
    and holder_release: "holder (release k i s) = (if holder s k = Some i then (holder s)(k := None) else holder s)"
    and cancellable_release: "cancellable (release k i s) = (cancellable s)(i := False)"
begin

lemma match_release:
  assumes "slots_match (holder s) (cancellable s) fl" "(k, i, ph) \<in> set fl"
  shows "slots_match (holder (release k i s)) (cancellable (release k i s)) (filter (\<lambda>x. x \<noteq> (k, i, ph)) fl)"
proof -
  have d: "distinct (map (fst \<circ> snd) fl)" and h: "\<And>k i. holder s k = Some i \<longleftrightarrow> (\<exists>ph. (k, i, ph) \<in> set fl)"
    and c: "\<And>i. cancellable s i \<longleftrightarrow> (\<exists>k. (k, i, Started) \<in> set fl)"
    using assms(1) by (auto simp: slots_match_def)
  have hk: "holder s k = Some i" using h assms(2) by blast
  have same: "k' = k \<and> ph' = ph" if "(k', i, ph') \<in> set fl" for k' ph'
    using flight_unique[OF d assms(2) that] by simp
  have "distinct (map (fst \<circ> snd) (filter (\<lambda>x. x \<noteq> (k, i, ph)) fl))" using d by (rule distinct_map_filter)
  moreover have "holder (release k i s) k' = Some i' \<longleftrightarrow> (\<exists>ph'. (k', i', ph') \<in> set (filter (\<lambda>x. x \<noteq> (k, i, ph)) fl))" for k' i'
    using h[of k' i'] hk by (auto simp: holder_release dest: same)
  moreover have "cancellable (release k i s) i' \<longleftrightarrow> (\<exists>k'. (k', i', Started) \<in> set (filter (\<lambda>x. x \<noteq> (k, i, ph)) fl))" for i'
    using c[of i'] by (auto simp: cancellable_release dest: same)
  ultimately show ?thesis by (simp add: slots_match_def)
qed

lemma match_reserve:
  assumes "slots_match (holder s) (cancellable s) fl" "reserve k i s = Some s'" "i \<notin> (fst \<circ> snd) ` set fl"
  shows "slots_match (holder s') (cancellable s') ((k, i, Reserved) # fl)"
proof -
  have free: "holder s k = None" using assms(2) reserve_None[of k i s] by auto
  have h: "\<And>k i. holder s k = Some i \<longleftrightarrow> (\<exists>ph. (k, i, ph) \<in> set fl)" using assms(1) by (simp add: slots_match_def)
  have "(k, j, ph) \<notin> set fl" for j ph using free h[of k j] by auto
  then show ?thesis
    using assms by (auto simp: slots_match_def holder_reserve[OF assms(2)] cancellable_reserve[OF assms(2)])
qed

lemma match_activate:
  assumes "slots_match (holder s) (cancellable s) fl" "(k, i, Reserved) \<in> set fl"
  shows "slots_match (holder (activate i s)) (cancellable (activate i s))
    ((k, i, Started) # filter (\<lambda>x. x \<noteq> (k, i, Reserved)) fl)"
proof -
  have d: "distinct (map (fst \<circ> snd) fl)" and h: "\<And>k i. holder s k = Some i \<longleftrightarrow> (\<exists>ph. (k, i, ph) \<in> set fl)"
    and c: "\<And>i. cancellable s i \<longleftrightarrow> (\<exists>k. (k, i, Started) \<in> set fl)"
    using assms(1) by (auto simp: slots_match_def)
  have same: "k' = k \<and> ph' = Reserved" if "(k', i, ph') \<in> set fl" for k' ph'
    using flight_unique[OF d assms(2) that] by simp
  have "distinct (map (fst \<circ> snd) (filter (\<lambda>x. x \<noteq> (k, i, Reserved)) fl))" using d by (rule distinct_map_filter)
  then have "distinct (map (fst \<circ> snd) ((k, i, Started) # filter (\<lambda>x. x \<noteq> (k, i, Reserved)) fl))"
    by (auto dest: same)
  moreover have "holder s k' = Some i' \<longleftrightarrow> (\<exists>ph. (k', i', ph) \<in> set ((k, i, Started) # filter (\<lambda>x. x \<noteq> (k, i, Reserved)) fl))" for k' i'
    using h[of k' i'] assms(2) by auto
  moreover have "((cancellable s)(i := True)) i' \<longleftrightarrow> (\<exists>k'. (k', i', Started) \<in> set ((k, i, Started) # filter (\<lambda>x. x \<noteq> (k, i, Reserved)) fl))" for i'
    using c[of i'] by (auto dest: same)
  ultimately show ?thesis unfolding slots_match_def holder_activate cancellable_activate by blast
qed

lemma match_step:
  assumes "flight_step reserve activate release (s, fl) (s', fl')" "slots_match (holder s) (cancellable s) fl"
  shows "slots_match (holder s') (cancellable s') fl'"
  using assms(1)
  by (cases rule: flight_stepE) (use assms(2) match_release match_reserve match_activate in auto)

lemma match_reachable:
  "flights_reachable reserve activate release init s fl \<Longrightarrow> slots_match (holder s) (cancellable s) fl"
  by (induction rule: flights_reachable.induct)
    (auto simp: slots_match_def[of _ _ "[]"] holder_init cancellable_init intro: match_step)

text \<open>At most one run per slot, no slot without a run, and only started runs can be cancelled.\<close>

lemma one_flight_per_slot:
  assumes "flights_reachable reserve activate release init s fl"
  shows "distinct (map fst fl)" "reserve k i s = None \<longleftrightarrow> k \<in> fst ` set fl"
    "cancellable s i \<longleftrightarrow> (\<exists>k. (k, i, Started) \<in> set fl)"
proof -
  note m = match_reachable[OF assms]
  have d: "distinct (map (fst \<circ> snd) fl)" and h: "\<And>k i. holder s k = Some i \<longleftrightarrow> (\<exists>ph. (k, i, ph) \<in> set fl)"
    using m by (auto simp: slots_match_def)
  have "inj_on fst (set fl)"
  proof (rule inj_onI)
    fix x y assume x: "x \<in> set fl" "y \<in> set fl" "fst x = fst y"
    obtain k i ph where "x = (k, i, ph)" by (cases x) auto
    moreover obtain j ph' where "y = (k, j, ph')" using x(3) calculation by (cases y) auto
    ultimately have "i = j" using h[of k i] h[of k j] x by force
    then have "(fst \<circ> snd) x = (fst \<circ> snd) y" using \<open>x = (k, i, ph)\<close> \<open>y = (k, j, ph')\<close> by simp
    then show "x = y" using d x by (simp add: distinct_map inj_on_def)
  qed
  then show "distinct (map fst fl)" using d by (simp add: distinct_map)
  have "(\<exists>i. holder s k = Some i) \<longleftrightarrow> k \<in> fst ` set fl" using h[of k] by force
  then show "reserve k i s = None \<longleftrightarrow> k \<in> fst ` set fl" unfolding reserve_None by auto
  show "cancellable s i \<longleftrightarrow> (\<exists>k. (k, i, Started) \<in> set fl)" using m by (simp add: slots_match_def)
qed

end

section \<open>Both runners\<close>

interpretation backups: slot_registry "\<lambda>s. map_of (by_project s)" "\<lambda>s i. cancel_backup i s" no_backups
    reserve_backup activate_backup release_backup
  by unfold_locales
    (auto simp: no_backups_def cancel_backup_def reserve_backup_def activate_backup_def release_backup_def
      update_conv' delete_conv' Let_def fun_eq_iff split: option.splits)

interpretation restores: slot_registry "\<lambda>s. map_of (by_snapshot s)" "\<lambda>s i. cancel_restore i s" no_restores
    reserve_restore activate_restore release_restore
  by unfold_locales
    (auto simp: no_restores_def cancel_restore_def reserve_restore_def activate_restore_def release_restore_def
      update_conv' delete_conv' Let_def fun_eq_iff split: option.splits)

section \<open>Properties\<close>

text \<open>
  C11. A project is never backed up twice at once, and never locked out: however starts, failures to
  record, cancellations and ends of runs interleave, at most one run per project is under way, a new
  one is refused exactly while there is one, and cancelling succeeds exactly for the runs that started.
\<close>

theorem one_backup_per_project:
  assumes "flights_reachable reserve_backup activate_backup release_backup no_backups s fl"
  shows "distinct (map fst fl) \<and> (reserve_backup project i s = None \<longleftrightarrow> project \<in> fst ` set fl) \<and>
    (cancel_backup i s \<longleftrightarrow> (\<exists>k. (k, i, Started) \<in> set fl))"
  by (intro conjI) (rule backups.one_flight_per_slot[OF assms])+

text \<open>
  The same for restores, one at a time per snapshot.
\<close>

theorem one_restore_per_snapshot:
  assumes "flights_reachable reserve_restore activate_restore release_restore no_restores s fl"
  shows "distinct (map fst fl) \<and> (reserve_restore snap i s = None \<longleftrightarrow> snap \<in> fst ` set fl) \<and>
    (cancel_restore i s \<longleftrightarrow> (\<exists>k. (k, i, Started) \<in> set fl))"
  by (intro conjI) (rule restores.one_flight_per_slot[OF assms])+

lemma two_restores:
  "\<exists>s. flights_reachable reserve_restore activate_restore release_restore no_restores s
     [(''monday'', ''r2'', Reserved), (''sunday'', ''r1'', Reserved)]"
proof -
  obtain s1 where r1: "reserve_restore ''sunday'' ''r1'' no_restores = Some s1"
    by (simp add: reserve_restore_def no_restores_def)
  obtain s2 where r2: "reserve_restore ''monday'' ''r2'' s1 = Some s2"
    using r1 by (auto simp: reserve_restore_def no_restores_def)
  have "flights_reachable reserve_restore activate_restore release_restore no_restores s1 [(''sunday'', ''r1'', Reserved)]"
    by (rule reach_step[OF reach_init step_reserve[where reserve = reserve_restore, OF r1]]) simp
  from reach_step[OF this step_reserve[where reserve = reserve_restore, OF r2]] show ?thesis by force
qed

theorem one_backup_per_project_witness:
  "\<exists>s. reserve_backup ''p1'' ''r2'' s = None \<and> \<not> cancel_backup ''r1'' s"
proof -
  obtain s1 where r1: "reserve_backup ''p1'' ''r1'' no_backups = Some s1"
    by (simp add: reserve_backup_def no_backups_def)
  have "flights_reachable reserve_backup activate_backup release_backup no_backups s1 [(''p1'', ''r1'', Reserved)]"
    by (rule reach_step[OF reach_init step_reserve[where reserve = reserve_backup, OF r1]]) simp
  from one_backup_per_project[OF this, of "''p1''" "''r2''"] one_backup_per_project[OF this, of "''p1''" "''r1''"]
  show ?thesis by auto
qed

theorem one_restore_per_snapshot_witness:
  "\<exists>s. reserve_restore ''monday'' ''r3'' s = None \<and> reserve_restore ''tuesday'' ''r3'' s \<noteq> None"
proof -
  obtain s where "flights_reachable reserve_restore activate_restore release_restore no_restores s
     [(''monday'', ''r2'', Reserved), (''sunday'', ''r1'', Reserved)]"
    using two_restores by blast
  from one_restore_per_snapshot[OF this, of "''monday''" "''r3''"] one_restore_per_snapshot[OF this, of "''tuesday''" "''r3''"]
  show ?thesis by auto
qed

end
