(* ===== verification/Restore_Run.thy ===== *)
theory Restore_Run
  imports Backup_Runner Run_Registry
begin

text \<open>
  Restores (\<open>internal/restore/restore.go\<close>, \<open>internal/restore/database.go\<close>): the preview, the
  extraction into a directory of its own, and the replay of one database export into the service it
  came from. The engine, Docker, identifiers, the clock and failing statements are inputs; a restored
  tree is the list of its files with the segments of their paths.
\<close>

section \<open>Data\<close>

record restore_item =
  ri_kind :: source_kind
  ri_name :: string
  ri_source :: string
  ri_target :: string
  ri_files :: int
  ri_bytes :: int

record preview =
  pv_snapshot_id :: string
  pv_project :: string
  pv_mode :: string
  pv_supported :: bool
  pv_destructive :: bool
  pv_bytes :: int
  pv_files :: int
  pv_items :: "restore_item list"
  pv_warnings :: "string list"
  pv_blockers :: "string list"

datatype restore_status = Restore_Running | Restore_Completed | Restore_Failed | Restore_Cancelled

record restore_run =
  rr_id :: string
  rr_snapshot_id :: string
  rr_project :: string
  rr_mode :: string
  rr_status :: restore_status
  rr_target :: string
  rr_files :: int
  rr_bytes :: int
  rr_warnings :: "string list"
  rr_error :: string
  rr_started_at :: instant
  rr_ended_at :: "instant option"
  rr_created_at :: instant

datatype restore_error =
  Restore_Not_Found
| Unsupported
| Restore_Already_Running string
| Not_Confirmed
| No_Docker
| No_Export string
| Service_Not_Found string
| Project_Lookup_Failed string
| Engine_Config_Failed string
| Target_Not_Created string
| Restore_Insert_Failed

type_synonym extracted = "(string list \<times> string) list"

record restore_world =
  vw_snapshot :: "string \<Rightarrow> (restore_error, snapshot) result"
  vw_engine_config :: "string \<Rightarrow> (string, unit) result"
  vw_run_id :: string
  vw_now :: instant
  vw_mkdir_fault :: "string option"
  vw_insert_fault :: bool
  vw_update_fault :: bool
  vw_emit_fault :: bool
  vw_event_id :: string
  vw_docker :: bool
  vw_project :: "string \<Rightarrow> (string, container list) result"
  vw_env :: "string \<Rightarrow> string \<Rightarrow> (string, string) result"
  vw_daemon :: daemon
  vw_restore :: "string \<Rightarrow> string list \<Rightarrow> (step_error, extracted \<times> int \<times> int \<times> string list) result"
  vw_load_cancelled :: bool

record restore_state =
  vs_registry :: restore_registry
  vs_rows :: "restore_run list"
  vs_recorder :: recorder
  vs_dirs :: "string list"
  vs_calls :: calls

section \<open>The preview\<close>

definition preview_item :: "volume_manifest \<Rightarrow> restore_item" where
  "preview_item v = \<lparr>ri_kind = vm_kind v, ri_name = vm_name v, ri_source = vm_path v, ri_target = vm_name v,
     ri_files = vm_files v, ri_bytes = vm_bytes v\<rparr>"

definition preview_of :: "snapshot \<Rightarrow> string \<Rightarrow> string \<Rightarrow> (restore_error, preview) result" where
  "preview_of s mode new_name =
     (let m = (if mode = [] then ''extract'' else mode);
          p = \<lparr>pv_snapshot_id = sn_id s, pv_project = mf_project (sn_manifest s), pv_mode = m, pv_supported = False,
               pv_destructive = False, pv_bytes = sn_size_bytes s, pv_files = sn_files_count s,
               pv_items = map preview_item (mf_volumes (sn_manifest s)), pv_warnings = [], pv_blockers = []\<rparr>
      in if m = ''extract'' then Inr (p\<lparr>pv_supported := True, pv_warnings := [''isolated_extraction'']\<rparr>)
         else if m = ''in_place'' then Inr (p\<lparr>pv_destructive := True, pv_blockers := [''project_bundle_required'']\<rparr>)
         else if m = ''clone'' then Inr (p\<lparr>pv_destructive := True,
           pv_blockers := (if trim_space new_name = [] then [''project_name_required''] else []) @ [''project_bundle_required'']\<rparr>)
         else Inl Unsupported)"

definition preview_restore :: "restore_world \<Rightarrow> string \<Rightarrow> string \<Rightarrow> string \<Rightarrow> (restore_error, preview) result" where
  "preview_restore w snap mode new_name = bind_result (vw_snapshot w snap) (\<lambda>s. preview_of s mode new_name)"

section \<open>The table\<close>

definition insert_restore :: "bool \<Rightarrow> restore_run \<Rightarrow> restore_run list \<Rightarrow> (restore_error, restore_run list) result" where
  "insert_restore fault r rows =
     (if fault \<or> rr_id r \<in> set (map rr_id rows) then Inl Restore_Insert_Failed else Inr (rows @ [r]))"

definition update_restore :: "bool \<Rightarrow> restore_run \<Rightarrow> restore_run list \<Rightarrow> restore_run list" where
  "update_restore fault r rows =
     (if fault then rows
      else map (\<lambda>row. if rr_id row = rr_id r
             then row\<lparr>rr_status := rr_status r, rr_files := rr_files r, rr_bytes := rr_bytes r, rr_warnings := rr_warnings r,
                      rr_error := rr_error r, rr_ended_at := rr_ended_at r\<rparr> else row) rows)"

definition close_interrupted_restores :: "instant \<Rightarrow> restore_run list \<Rightarrow> restore_run list" where
  "close_interrupted_restores now rows =
     map (\<lambda>r. if rr_status r = Restore_Running
               then r\<lparr>rr_status := Restore_Failed, rr_error := ''Back-Orbit stopped while this restore was running.'',
                      rr_ended_at := Some now\<rparr> else r) rows"

definition restore_by_id :: "string \<Rightarrow> restore_run list \<Rightarrow> (restore_error, restore_run) result" where
  "restore_by_id i rows = (case List.find (\<lambda>r. rr_id r = i) rows of None \<Rightarrow> Inl Restore_Not_Found | Some r \<Rightarrow> Inr r)"

definition newer_restore :: "restore_run \<Rightarrow> restore_run \<Rightarrow> bool" where
  "newer_restore a b = str_less (rfc3339_nano (rr_created_at b)) (rfc3339_nano (rr_created_at a))"

definition list_restores :: "int \<Rightarrow> restore_run list \<Rightarrow> restore_run list" where
  "list_restores limit rows =
     (let n = (if limit \<le> 0 \<or> limit > 100 then 25 else limit) in take (nat n) (sort_by newer_restore rows))"

section \<open>Starting\<close>

definition new_restore :: "restore_world \<Rightarrow> string \<Rightarrow> snapshot \<Rightarrow> string \<Rightarrow> restore_run" where
  "new_restore w root s mode =
     \<lparr>rr_id = vw_run_id w, rr_snapshot_id = sn_id s, rr_project = mf_project (sn_manifest s), rr_mode = mode,
      rr_status = Restore_Running, rr_target = path_join [root, vw_run_id w], rr_files = 0, rr_bytes = 0, rr_warnings = [],
      rr_error = [], rr_started_at = vw_now w, rr_ended_at = None, rr_created_at = vw_now w\<rparr>"

text \<open>Reserve the snapshot, make the directory, record the run, announce it.\<close>

definition launch_restore :: "restore_world \<Rightarrow> restore_run \<Rightarrow> event \<Rightarrow> restore_state
    \<Rightarrow> (restore_error, restore_run) result \<times> restore_state" where
  "launch_restore w r ev st =
     (case reserve_restore (rr_snapshot_id r) (rr_id r) (vs_registry st) of
        None \<Rightarrow> (Inl (Restore_Already_Running (the (map_of (by_snapshot (vs_registry st)) (rr_snapshot_id r)))), st)
      | Some reg \<Rightarrow>
          (case vw_mkdir_fault w of
             Some e \<Rightarrow> (Inl (Target_Not_Created e), st\<lparr>vs_registry := release_restore (rr_snapshot_id r) (rr_id r) reg\<rparr>)
           | None \<Rightarrow>
               (let st1 = st\<lparr>vs_registry := reg, vs_dirs := append_new (rr_target r) (vs_dirs st)\<rparr> in
                case insert_restore (vw_insert_fault w) r (vs_rows st1) of
                  Inl e \<Rightarrow> (Inl e, st1\<lparr>vs_registry := release_restore (rr_snapshot_id r) (rr_id r) reg\<rparr>)
                | Inr rows \<Rightarrow>
                    (Inr r, st1\<lparr>vs_registry := activate_restore (rr_id r) reg, vs_rows := rows,
                       vs_recorder := emit (vw_emit_fault w) (vw_event_id w) (vw_now w) ev (vs_recorder st1)\<rparr>))))"

definition extract_started :: "string \<Rightarrow> restore_run \<Rightarrow> event" where
  "extract_started actor r =
     event_of ''restore.started'' actor ''restore_run'' (rr_id r)
       [(''snapshotId'', Meta_String (rr_snapshot_id r)), (''mode'', Meta_String (rr_mode r))]"

definition start_restore :: "restore_world \<Rightarrow> string \<Rightarrow> string \<Rightarrow> string \<Rightarrow> string \<Rightarrow> string \<Rightarrow> restore_state
    \<Rightarrow> (restore_error, restore_run) result \<times> restore_state" where
  "start_restore w root snap mode new_name actor st =
     (case preview_restore w snap mode new_name of
        Inl e \<Rightarrow> (Inl e, st)
      | Inr p \<Rightarrow>
          if \<not> pv_supported p \<or> pv_mode p \<noteq> ''extract'' then (Inl Unsupported, st)
          else (case vw_snapshot w snap of
             Inl e \<Rightarrow> (Inl e, st)
           | Inr s \<Rightarrow>
               (case vw_engine_config w (sn_repository_id s) of
                  Inl e \<Rightarrow> (Inl (Engine_Config_Failed e), st)
                | Inr _ \<Rightarrow>
                    (let r = new_restore w root s (pv_mode p) in launch_restore w r (extract_started actor r) st))))"

section \<open>Extracting\<close>

fun restore_action :: "restore_status \<Rightarrow> string" where
  "restore_action Restore_Failed = ''restore.failed''"
| "restore_action Restore_Cancelled = ''restore.cancelled''"
| "restore_action _ = ''restore.completed''"

fun restore_status_name :: "restore_status \<Rightarrow> string" where
  "restore_status_name Restore_Running = ''running''"
| "restore_status_name Restore_Completed = ''completed''"
| "restore_status_name Restore_Failed = ''failed''"
| "restore_status_name Restore_Cancelled = ''cancelled''"

text \<open>What every restore ends with: the row, the event, and the slot.\<close>

definition end_restore :: "restore_world \<Rightarrow> string \<Rightarrow> (string \<times> meta_value) list \<Rightarrow> restore_run \<Rightarrow> restore_state \<Rightarrow> restore_state" where
  "end_restore w actor extra r st =
     st\<lparr>vs_rows := update_restore (vw_update_fault w) r (vs_rows st),
        vs_recorder := emit (vw_emit_fault w) (vw_event_id w) (vw_now w)
          (event_of (restore_action (rr_status r)) actor ''restore_run'' (rr_id r)
             ([(''snapshotId'', Meta_String (rr_snapshot_id r)), (''status'', Meta_String (restore_status_name (rr_status r)))] @ extra))
          (vs_recorder st),
        vs_registry := release_restore (rr_snapshot_id r) (rr_id r) (vs_registry st)\<rparr>"

definition run_extract :: "restore_world \<Rightarrow> string \<Rightarrow> snapshot \<Rightarrow> restore_run \<Rightarrow> restore_state \<Rightarrow> restore_run \<times> restore_state" where
  "run_extract w actor s r st =
     (let r1 = (case vw_restore w (sn_restic_id s) [] of
          Inl e \<Rightarrow> r\<lparr>rr_ended_at := Some (vw_now w), rr_error := se_text e,
                     rr_status := (if se_canceled e \<or> se_context_done e then Restore_Cancelled else Restore_Failed)\<rparr>
        | Inr (tree, nfiles, nbytes, warns) \<Rightarrow> r\<lparr>rr_ended_at := Some (vw_now w), rr_status := Restore_Completed,
                     rr_files := nfiles, rr_bytes := nbytes, rr_warnings := warns\<rparr>)
      in (r1, end_restore w actor [] r1 st))"

section \<open>Replaying a database\<close>

definition find_export :: "snapshot \<Rightarrow> string \<Rightarrow> database_dump option" where
  "find_export s service =
     List.find (\<lambda>d. dd_service d = service \<and> dd_level d = Exported \<and> dd_path d \<noteq> []) (mf_databases (sn_manifest s))"

definition find_service_container :: "restore_world \<Rightarrow> string \<Rightarrow> string \<Rightarrow> (restore_error, container) result" where
  "find_service_container w project service =
     (case vw_project w project of
        Inl e \<Rightarrow> Inl (Project_Lookup_Failed e)
      | Inr cs \<Rightarrow> (case List.find (\<lambda>c. ctr_service c = service) cs of
            None \<Rightarrow> Inl (Service_Not_Found service) | Some c \<Rightarrow> Inr c))"

definition find_extracted :: "string \<Rightarrow> extracted \<Rightarrow> (string list \<times> string) option" where
  "find_extracted name tree =
     List.find (\<lambda>(p, c). p \<noteq> [] \<and> last p = name) (sort_by (\<lambda>a b. segs_less (fst a) (fst b)) tree)"

fun first_env_or_empty :: "restore_world \<Rightarrow> string \<Rightarrow> string list \<Rightarrow> string" where
  "first_env_or_empty w c [] = []"
| "first_env_or_empty w c (k # ks) =
     (case vw_env w c k of Inr v \<Rightarrow> if v \<noteq> [] then v else first_env_or_empty w c ks | Inl _ \<Rightarrow> first_env_or_empty w c ks)"

definition credentials_for :: "restore_world \<Rightarrow> string \<Rightarrow> string \<Rightarrow> string \<times> string" where
  "credentials_for w c technology =
     (first_env_or_empty w c (user_keys technology), first_env_or_empty w c (password_keys technology))"

definition restore_target :: "restore_world \<Rightarrow> database_dump \<Rightarrow> container \<Rightarrow> dump_target" where
  "restore_target w d c =
     (let (user, password) = credentials_for w (ctr_id c) (dd_technology d)
      in \<lparr>dt_technology = dd_technology d, dt_service = dd_service d, dt_container = ctr_id c, dt_user = user, dt_password = password\<rparr>)"

fun load_text :: "load_error \<Rightarrow> string" where
  "load_text (Target_Not_Running s) = ''dbdump: '' @ s @ '' is not running, so there is nothing to restore into''"
| "load_text (Dump_Unreadable e) = ''dbdump: read the dump: '' @ e"
| "load_text Dump_Is_Empty = ''dbdump: the dump is empty; refusing to replace a live database with nothing''"
| "load_text (Restore_Unsupported t) = ''dbdump: restoring '' @ t @ '' is not supported yet''"
| "load_text (Load_User u e) = ''dbdump: refusing database user '' @ in_quotes u @ '': '' @ ident_text e"
| "load_text (Load_Transport tool e) = ''dbdump: run '' @ tool @ '': '' @ e"
| "load_text (Load_Exited tool code e) = ''dbdump: '' @ tool @ '' exited '' @ show_int code @ '': '' @ e"
| "load_text (Result_Unchecked e) = ''dbdump: the load finished but its result could not be checked: '' @ e"
| "load_text (Nothing_Restored e) = ''dbdump: the load left no tables behind, so the database was not restored: '' @ e"
| "load_text (Upload_Failed e) = ''dbdump: place the archive in the container: '' @ e"

definition untouched_message :: string where
  "untouched_message = ''cancelled before the database was touched''"

definition partial_message :: string where
  "partial_message = ''cancelled during the load; the database may hold a partial restore''"

text \<open>The replay itself: status, error, bytes, objects and output, and the calls it made.\<close>

record replay_outcome =
  ro_status :: restore_status
  ro_error :: string
  ro_bytes :: int
  ro_objects :: int
  ro_output :: string

definition replay_end :: "restore_status \<Rightarrow> string \<Rightarrow> replay_outcome" where
  "replay_end status e = \<lparr>ro_status = status, ro_error = e, ro_bytes = 0, ro_objects = 0, ro_output = []\<rparr>"

definition replay_export :: "restore_world \<Rightarrow> snapshot \<Rightarrow> database_dump \<Rightarrow> container \<Rightarrow> calls \<Rightarrow> replay_outcome \<times> calls" where
  "replay_export w s d c log =
     (let name = path_base (dd_path d) in
      case vw_restore w (sn_restic_id s) [''*/'' @ name] of
        Inl e \<Rightarrow>
          if se_canceled e \<or> se_context_done e then (replay_end Restore_Cancelled untouched_message, log)
          else (replay_end Restore_Failed (''extract the export from the snapshot: '' @ se_text e), log)
      | Inr (tree, _, _, _) \<Rightarrow>
          (case find_extracted name tree of
             None \<Rightarrow> (replay_end Restore_Failed
               (''restore: '' @ name @ '' was not in the snapshot where the manifest said it would be''), log)
           | Some (p, content) \<Rightarrow>
               (let (r, log1) = load_dump (vw_daemon w) (restore_target w d c)
                      \<lparr>dd_stat_fault = None, dd_open_fault = None, dd_content = content\<rparr> log
                in case r of
                     Inl e \<Rightarrow>
                       if vw_load_cancelled w then (replay_end Restore_Cancelled partial_message, log1)
                       else (replay_end Restore_Failed (load_text e), log1)
                   | Inr res \<Rightarrow>
                       (\<lparr>ro_status = Restore_Completed, ro_error = [], ro_bytes = int (lr_bytes res),
                         ro_objects = lr_objects res, ro_output = lr_output res\<rparr>, log1))))"

definition run_database_restore :: "restore_world \<Rightarrow> string \<Rightarrow> snapshot \<Rightarrow> database_dump \<Rightarrow> container \<Rightarrow> restore_run
    \<Rightarrow> restore_state \<Rightarrow> restore_run \<times> restore_state" where
  "run_database_restore w actor s d c r st =
     (let (o1, log) = replay_export w s d c (vs_calls st);
          r1 = r\<lparr>rr_status := ro_status o1, rr_error := ro_error o1, rr_bytes := ro_bytes o1,
                 rr_warnings := rr_warnings r @ (if ro_output o1 \<noteq> [] then [ro_output o1] else []),
                 rr_ended_at := Some (vw_now w)\<rparr>;
          st1 = end_restore w actor [(''service'', Meta_String (dd_service d)), (''technology'', Meta_String (dd_technology d)),
                  (''objects'', Meta_Number (ro_objects o1))] r1 (st\<lparr>vs_calls := log\<rparr>)
      in (r1, st1\<lparr>vs_dirs := filter (\<lambda>p. \<not> below (rr_target r) p) (vs_dirs st1)\<rparr>))"

definition replay_started :: "string \<Rightarrow> database_dump \<Rightarrow> restore_run \<Rightarrow> event" where
  "replay_started actor d r =
     event_of ''restore.started'' actor ''restore_run'' (rr_id r)
       [(''snapshotId'', Meta_String (rr_snapshot_id r)), (''mode'', Meta_String ''database''),
        (''service'', Meta_String (dd_service d)), (''technology'', Meta_String (dd_technology d))]"

text \<open>The request, and what it hands to the goroutine when it is accepted.\<close>

definition restore_database :: "restore_world \<Rightarrow> string \<Rightarrow> string \<Rightarrow> string \<Rightarrow> string \<Rightarrow> string \<Rightarrow> restore_state
    \<Rightarrow> (restore_error, restore_run \<times> snapshot \<times> database_dump \<times> container) result \<times> restore_state" where
  "restore_database w root snap service confirm actor st =
     (if confirm = [] \<or> confirm \<noteq> service then (Inl Not_Confirmed, st)
      else if \<not> vw_docker w then (Inl No_Docker, st)
      else case vw_snapshot w snap of
        Inl e \<Rightarrow> (Inl e, st)
      | Inr s \<Rightarrow>
          (case find_export s service of
             None \<Rightarrow> (Inl (No_Export service), st)
           | Some d \<Rightarrow>
               (case find_service_container w (mf_project (sn_manifest s)) service of
                  Inl e \<Rightarrow> (Inl e, st)
                | Inr c \<Rightarrow>
                    (case vw_engine_config w (sn_repository_id s) of
                       Inl e \<Rightarrow> (Inl (Engine_Config_Failed e), st)
                     | Inr _ \<Rightarrow>
                         (let r = new_restore w root s ''database'';
                              (res, st1) = launch_restore w r (replay_started actor d r) st
                          in (bind_result res (\<lambda>run. Inr (run, s, d, c)), st1))))))"

section \<open>Lemmas\<close>

lemma launch_restore_calls [simp]: "vs_calls (snd (launch_restore w r ev st)) = vs_calls st"
  by (simp add: launch_restore_def Let_def split: option.split sum.split)

lemma launch_restore_refused: "fst (launch_restore w r ev st) = Inl e \<Longrightarrow> vs_rows (snd (launch_restore w r ev st)) = vs_rows st"
  by (auto simp: launch_restore_def Let_def split: option.splits sum.splits)

lemma launch_restore_ok:
  assumes "launch_restore w r ev st = (Inr r', st')"
  shows "r' = r \<and> vs_rows st' = vs_rows st @ [r] \<and> map_of (by_snapshot (vs_registry st)) (rr_snapshot_id r) = None"
  using assms
  by (auto simp: launch_restore_def Let_def insert_restore_def reserve_restore_def split: option.splits sum.splits if_splits)

lemma find_exportD:
  assumes "find_export s service = Some d"
  shows "d \<in> set (mf_databases (sn_manifest s)) \<and> dd_service d = service \<and> dd_level d = Exported \<and> dd_path d \<noteq> []"
  using assms by (auto simp: find_export_def find_Some_iff dest: nth_mem)

lemma find_service_containerD:
  "find_service_container w project service = Inr c \<Longrightarrow> ctr_service c = service"
  by (auto simp: find_service_container_def find_Some_iff split: sum.splits option.splits)

lemma restore_database_accepted:
  assumes "restore_database w root snap service confirm actor st = (Inr (r, s, d, c), st')"
  shows "confirm = service \<and> service \<noteq> [] \<and> vw_snapshot w snap = Inr s \<and> find_export s service = Some d \<and>
    find_service_container w (mf_project (sn_manifest s)) service = Inr c \<and> r = new_restore w root s ''database'' \<and>
    vs_rows st' = vs_rows st @ [r] \<and> vs_calls st' = vs_calls st"
proof -
  have acc: "\<not> (confirm = [] \<or> confirm \<noteq> service)" "vw_docker w"
    using assms by (auto simp: restore_database_def split: if_splits)
  then obtain s' d' c' where p: "vw_snapshot w snap = Inr s'" "find_export s' service = Some d'"
      "find_service_container w (mf_project (sn_manifest s')) service = Inr c'" "is_ok (vw_engine_config w (sn_repository_id s'))"
    using assms by (auto simp: restore_database_def is_ok_def split: sum.splits option.splits)
  let ?r = "new_restore w root s' ''database''"
  obtain res st1 where l: "launch_restore w ?r (replay_started actor d' ?r) st = (res, st1)" by fastforce
  have "bind_result res (\<lambda>run. Inr (run, s', d', c')) = Inr (r, s, d, c)" "st1 = st'"
    using assms acc p l by (auto simp: restore_database_def Let_def is_ok_iff)
  then have "res = Inr r" "s' = s" "d' = d" "c' = c" by (auto simp: bind_result_eq_Inr)
  then show ?thesis
    using acc p l launch_restore_ok[of w ?r "replay_started actor d' ?r" st r st1] launch_restore_calls[of w ?r "replay_started actor d' ?r" st] \<open>st1 = st'\<close>
    by auto
qed

lemma restore_target_sel [simp]:
  "dt_container (restore_target w d c) = ctr_id c" "dt_technology (restore_target w d c) = dd_technology d"
  by (simp_all add: restore_target_def case_prod_beta)

text \<open>The file the engine wrote for the export of this snapshot, by the name the manifest gives it.\<close>

definition export_read :: "restore_world \<Rightarrow> snapshot \<Rightarrow> database_dump \<Rightarrow> string list \<Rightarrow> string \<Rightarrow> bool" where
  "export_read w s d p content \<longleftrightarrow>
     (\<exists>tree n b ws. vw_restore w (sn_restic_id s) [''*/'' @ path_base (dd_path d)] = Inr (tree, n, b, ws) \<and>
        (p, content) \<in> set tree \<and> p \<noteq> [] \<and> last p = path_base (dd_path d))"

lemma find_extracted_mem:
  "find_extracted name tree = Some (p, content) \<Longrightarrow> (p, content) \<in> set tree \<and> p \<noteq> [] \<and> last p = name"
proof -
  let ?tree = "sort_by (\<lambda>a b. segs_less (fst a) (fst b)) tree"
  assume "find_extracted name tree = Some (p, content)"
  then obtain i where "i < length ?tree" "(p, content) = ?tree ! i" "p \<noteq> [] \<and> last p = name"
    unfolding find_extracted_def find_Some_iff by auto
  moreover from this have "(p, content) \<in> set ?tree" by (metis nth_mem)
  then have "(p, content) \<in> set tree" unfolding set_sort_by .
  ultimately show ?thesis by blast
qed

text \<open>A replay that got as far as the database, and one that did not.\<close>

lemma replay_export_cases:
  assumes "replay_export w s d c log = (o1, log')"
  obtains (untouched) "log' = log" "ro_status o1 \<noteq> Restore_Completed" "ro_error o1 \<noteq> partial_message"
        "ro_error o1 = untouched_message \<longrightarrow> ro_status o1 = Restore_Cancelled"
    | (loaded) r p content where "export_read w s d p content" "load_dump (vw_daemon w) (restore_target w d c)
          \<lparr>dd_stat_fault = None, dd_open_fault = None, dd_content = content\<rparr> log = (r, log')"
        "ro_status o1 = Restore_Completed \<longleftrightarrow> is_ok r" "ro_error o1 \<noteq> untouched_message"
        "\<And>res. r = Inr res \<Longrightarrow> ro_bytes o1 = int (lr_bytes res) \<and> ro_objects o1 = lr_objects res"
proof -
  have msgs: "untouched_message \<noteq> partial_message" "partial_message \<noteq> load_text e" "load_text e \<noteq> untouched_message" "load_text e \<noteq> partial_message"
    "''extract the export from the snapshot: '' @ x \<noteq> partial_message" "''restore: '' @ x \<noteq> partial_message"
    "''extract the export from the snapshot: '' @ x \<noteq> untouched_message" "''restore: '' @ x \<noteq> untouched_message"
    "untouched_message \<noteq> []" for e x
    by (cases e; simp add: untouched_message_def partial_message_def)+
  show thesis
  proof (cases "vw_restore w (sn_restic_id s) [''*/'' @ path_base (dd_path d)]")
    case (Inl e)
    then show thesis using assms msgs
      by (intro untouched) (auto simp: replay_export_def replay_end_def Let_def split: if_splits)
  next
    case (Inr x)
    obtain tree n b ws where x: "x = (tree, n, b, ws)" by (cases x)
    show thesis
    proof (cases "find_extracted (path_base (dd_path d)) tree")
      case None
      then show thesis using assms Inr x msgs
        by (intro untouched) (auto simp: replay_export_def replay_end_def Let_def)
    next
      case (Some y)
      obtain q content where y: "y = (q, content)" by (cases y)
      obtain r log1 where l: "load_dump (vw_daemon w) (restore_target w d c)
          \<lparr>dd_stat_fault = None, dd_open_fault = None, dd_content = content\<rparr> log = (r, log1)" by fastforce
      have ex: "export_read w s d q content"
        using find_extracted_mem[OF Some[unfolded y]] Inr x by (auto simp: export_read_def)
      show thesis
      proof (cases r)
        case (Inl e)
        then have "o1 = replay_end Restore_Cancelled partial_message \<or> o1 = replay_end Restore_Failed (load_text e)" "log' = log1"
          using assms Inr x Some y l by (auto simp: replay_export_def Let_def split: if_splits)
        then show thesis using l Inl msgs ex by (intro loaded[of q content r]) (auto simp: replay_end_def)
      next
        case (Inr res)
        then have "o1 = \<lparr>ro_status = Restore_Completed, ro_error = [], ro_bytes = int (lr_bytes res),
            ro_objects = lr_objects res, ro_output = lr_output res\<rparr>" "log' = log1"
          using assms \<open>vw_restore w _ _ = Inr x\<close> x Some y l by (auto simp: replay_export_def Let_def)
        then show thesis using l Inr msgs ex by (intro loaded[of q content r]) auto
      qed
    qed
  qed
qed

section \<open>Properties\<close>

text \<open>
  C3. A live database is only ever replaced on an explicit, matching request: a replay is accepted
  only when the confirmation names the service and the snapshot holds an export of it; then every call
  of the replay goes to the container of that service, and a request that is refused, or a plain
  restore, makes no call to any container at all.
\<close>

theorem database_restore_guarded:
  assumes "restore_database w root snap service confirm actor st = (x, st1)"
  shows "vs_calls st1 = vs_calls st \<and>
    (case x of
       Inl e \<Rightarrow> vs_rows st1 = vs_rows st
     | Inr (r, s, d, c) \<Rightarrow>
         confirm = service \<and> service \<noteq> [] \<and> d \<in> set (mf_databases (sn_manifest s)) \<and> dd_service d = service \<and>
         dd_level d = Exported \<and> ctr_service c = service \<and>
         only_touches (ctr_id c) (vs_calls st1) (vs_calls (snd (run_database_restore w actor s d c r st1))))"
proof (cases x)
  case (Inl e)
  have "vs_calls st1 = vs_calls st \<and> vs_rows st1 = vs_rows st"
    using assms Inl launch_restore_refused
    by (auto simp: restore_database_def Let_def bind_result_def case_prod_beta prod_eq_iff
        split: if_splits sum.splits option.splits)
  then show ?thesis using Inl by simp
next
  case (Inr y)
  obtain r s d c where y: "y = (r, s, d, c)" by (cases y)
  note acc = restore_database_accepted[OF assms[unfolded Inr y]]
  obtain o1 log where rep: "replay_export w s d c (vs_calls st1) = (o1, log)" by fastforce
  have "only_touches (ctr_id c) (vs_calls st1) log"
    using rep
  proof (cases rule: replay_export_cases)
    case (loaded l p content)
    then show ?thesis
      using load_dump_touches[of "restore_target w d c" "vs_calls st1" "vw_daemon w"
          "\<lparr>dd_stat_fault = None, dd_open_fault = None, dd_content = content\<rparr>"] by simp
  qed simp
  moreover have "vs_calls (snd (run_database_restore w actor s d c r st1)) = log"
    by (simp add: run_database_restore_def rep end_restore_def Let_def)
  ultimately show ?thesis using acc find_exportD[of s service d] find_service_containerD Inr y by auto
qed


text \<open>
  Only an extraction is ever started as a plain restore: every accepted start has the mode
  \<open>extract\<close> and a directory of its own below the restore root, and a start, accepted or not, talks to
  no container.
\<close>

theorem plain_restore_only_extracts:
  assumes "start_restore w root snap mode new_name actor st = (x, st')" "abs_clean root" "normal_seg (vw_run_id w)"
  shows "vs_calls st' = vs_calls st \<and>
    (case x of
       Inl e \<Rightarrow> vs_rows st' = vs_rows st
     | Inr r \<Rightarrow> rr_mode r = ''extract'' \<and> vs_rows st' = vs_rows st @ [r] \<and>
         path_segs (rr_target r) = path_segs root @ [vw_run_id w])"
proof -
  consider (early) e where "x = Inl e" "st' = st"
    | (go) s ev where "launch_restore w (new_restore w root s ''extract'') ev st = (x, st')"
    using assms(1) by (auto simp: start_restore_def Let_def split: sum.splits if_splits)
  then show ?thesis
  proof cases
    case (go s ev)
    let ?r = "new_restore w root s ''extract''"
    have n: "\<forall>y\<in>set [vw_run_id w]. normal_seg y" using assms(3) by simp
    have "path_join [root, vw_run_id w] = render_path True (path_segs root @ [vw_run_id w])"
      using path_join_root_segs[OF assms(2) n] by simp
    moreover have "\<forall>y\<in>set (path_segs root @ [vw_run_id w]). normal_seg y" using abs_clean_segs[OF assms(2)] n by auto
    ultimately have segs: "path_segs (path_join [root, vw_run_id w]) = path_segs root @ [vw_run_id w]"
      by (simp only: path_segs_render)
    have calls: "vs_calls st' = vs_calls st" using launch_restore_calls[of w ?r ev st] unfolding go by simp
    show ?thesis
    proof (cases x)
      case (Inl e)
      then show ?thesis using go launch_restore_refused[of w ?r ev st e] calls by simp
    next
      case (Inr r)
      then show ?thesis
        using launch_restore_ok[OF go[unfolded Inr]] calls segs by (simp add: new_restore_def)
    qed
  qed simp
qed

section \<open>Restores\<close>

definition sample_export :: database_dump where
  "sample_export = \<lparr>dd_technology = ''postgresql'', dd_service = ''db'', dd_level = Exported,
     dd_path = ''back-orbit-dumps/db-postgresql.sql'', dd_command = [], dd_user = ''app'', dd_bytes = 3, dd_note = [], dd_check = None\<rparr>"

definition sample_snapshot :: "string \<Rightarrow> snapshot" where
  "sample_snapshot i =
     \<lparr>sn_id = i, sn_run_id = ''r1'', sn_repository_id = ''q1'', sn_restic_id = ''abc'',
      sn_manifest = \<lparr>mf_schema = 1, mf_project = ''shop'', mf_created_at = 0, mf_volumes = [], mf_databases = [sample_export]\<rparr>,
      sn_size_bytes = 3, sn_files_count = 1, sn_verified_at = None,
      sn_verification = \<lparr>vf_ok = True, vf_checks = [], vf_errors = [], vf_files_listed = 1, vf_bytes_in_snapshot = 3, vf_duration_ms = 1\<rparr>,
      sn_created_at = 0\<rparr>"

definition sample_restore_world :: restore_world where
  "sample_restore_world =
     \<lparr>vw_snapshot = \<lambda>i. Inr (sample_snapshot i), vw_engine_config = \<lambda>i. Inr (), vw_run_id = ''v1'', vw_now = 7,
      vw_mkdir_fault = None, vw_insert_fault = False, vw_update_fault = False, vw_emit_fault = False, vw_event_id = ''e1'',
      vw_docker = True, vw_project = \<lambda>p. Inr [sample_container ''c1'' ''db''], vw_env = \<lambda>c k. Inr [], vw_daemon = sample_daemon,
      vw_restore = \<lambda>i inc. Inr ([([''stage'', ''shop'', ''app-data'', ''db-postgresql.sql''], ''OLD''),
          ([''stage'', ''shop'', ''back-orbit-dumps'', ''db-postgresql.sql''], ''SQL'')], 2, 6, []),
      vw_load_cancelled = False\<rparr>"

definition no_restore_state :: restore_state where
  "no_restore_state = \<lparr>vs_registry = no_restores, vs_rows = [], vs_recorder = \<lparr>audit_rows = [], feed = new_broker\<rparr>,
     vs_dirs = [], vs_calls = []\<rparr>"

definition sample_replay :: "restore_run \<times> restore_state" where
  "sample_replay = run_database_restore sample_restore_world ''admin'' (sample_snapshot ''s1'') sample_export
     (sample_container ''c1'' ''db'') (new_restore sample_restore_world ''/restore'' (sample_snapshot ''s1'') ''database'') no_restore_state"

theorem database_restore_guarded_witness:
  "vs_calls (snd (restore_database sample_restore_world ''/restore'' ''s1'' ''db'' ''wiki'' ''admin'' no_restore_state)) = []"
proof -
  let ?s = "restore_database sample_restore_world ''/restore'' ''s1'' ''db'' ''wiki'' ''admin'' no_restore_state"
  have "?s = (fst ?s, snd ?s)" by simp
  from database_restore_guarded[OF this] show ?thesis by (simp add: no_restore_state_def)
qed


theorem plain_restore_only_extracts_witness:
  "vs_calls (snd (start_restore sample_restore_world ''/restore'' ''s1'' [] [] ''admin'' no_restore_state)) = [] \<and>
   is_ok (fst (start_restore sample_restore_world ''/restore'' ''s1'' [] [] ''admin'' no_restore_state))"
proof -
  let ?s = "start_restore sample_restore_world ''/restore'' ''s1'' [] [] ''admin'' no_restore_state"
  have run: "?s = (fst ?s, snd ?s)" by simp
  have root: "abs_clean ''/restore''" unfolding abs_clean_def by code_simp
  have n: "normal_seg (vw_run_id sample_restore_world)" by (simp add: sample_restore_world_def normal_seg_def)
  have "is_ok (fst ?s)" by code_simp
  then show ?thesis using plain_restore_only_extracts[OF run root n] by (simp add: no_restore_state_def)
qed

text \<open>
  The replay looks for the export by its file name alone. A file of the same name in a staged volume
  whose directory sorts first is loaded into the live database in its place.
\<close>

lemma replay_loads_the_wrong_file:
  "find_extracted ''db-postgresql.sql'' (fst (projr (vw_restore sample_restore_world ''abc'' [''*/db-postgresql.sql'']))) =
     Some ([''stage'', ''shop'', ''app-data'', ''db-postgresql.sql''], ''OLD'')"
  "\<exists>rq. Call_Exec ''c1'' rq \<in> set (vs_calls (snd sample_replay)) \<and> rq_stdin rq = Some ''OLD''"
proof -
  show "find_extracted ''db-postgresql.sql'' (fst (projr (vw_restore sample_restore_world ''abc'' [''*/db-postgresql.sql'']))) =
     Some ([''stage'', ''shop'', ''app-data'', ''db-postgresql.sql''], ''OLD'')"
    by code_simp
  have "hd (vs_calls (snd sample_replay)) = Call_Exec ''c1'' \<lparr>rq_cmd = psql_command ''postgres'', rq_env = [], rq_stdin = Some ''OLD''\<rparr>"
    by code_simp
  moreover have "vs_calls (snd sample_replay) \<noteq> []" by code_simp
  ultimately have "Call_Exec ''c1'' \<lparr>rq_cmd = psql_command ''postgres'', rq_env = [], rq_stdin = Some ''OLD''\<rparr> \<in> set (vs_calls (snd sample_replay))"
    using hd_in_set by metis
  then show "\<exists>rq. Call_Exec ''c1'' rq \<in> set (vs_calls (snd sample_replay)) \<and> rq_stdin rq = Some ''OLD''" by force
qed

text \<open>
  The slot of a replay is the snapshot, not the service: two snapshots of one project can be replayed
  into the same container at once.
\<close>

lemma replays_of_one_service_overlap:
  "\<exists>r1 r2 s1 s2 st1 st2.
     restore_database sample_restore_world ''/restore'' ''sunday'' ''db'' ''db'' ''admin'' no_restore_state =
       (Inr (r1, s1, sample_export, sample_container ''c1'' ''db''), st1) \<and>
     restore_database (sample_restore_world\<lparr>vw_run_id := ''v2''\<rparr>) ''/restore'' ''monday'' ''db'' ''db'' ''admin'' st1 =
       (Inr (r2, s2, sample_export, sample_container ''c1'' ''db''), st2) \<and>
     cancel_restore ''v1'' (vs_registry st2) \<and> cancel_restore ''v2'' (vs_registry st2)"
proof -
  let ?a = "restore_database sample_restore_world ''/restore'' ''sunday'' ''db'' ''db'' ''admin'' no_restore_state"
  let ?b = "restore_database (sample_restore_world\<lparr>vw_run_id := ''v2''\<rparr>) ''/restore'' ''monday'' ''db'' ''db'' ''admin'' (snd ?a)"
  have "snd (snd (projr (fst ?a))) = (sample_export, sample_container ''c1'' ''db'')" "is_ok (fst ?a)" by code_simp+
  moreover have "snd (snd (projr (fst ?b))) = (sample_export, sample_container ''c1'' ''db'')" "is_ok (fst ?b)" by code_simp+
  moreover have "cancel_restore ''v1'' (vs_registry (snd ?b))" "cancel_restore ''v2'' (vs_registry (snd ?b))" by code_simp+
  ultimately show ?thesis by (force simp: is_ok_iff prod_eq_iff)
qed

text \<open>A run that cannot be recorded leaves the directory it made behind.\<close>

lemma refused_restore_leaves_directory:
  "vs_dirs (snd (start_restore (sample_restore_world\<lparr>vw_insert_fault := True\<rparr>) ''/restore'' ''s1'' [] [] ''admin'' no_restore_state)) =
     [''/restore/v1'']"
  by code_simp

end
