(* ===== verification/Backup_Start.thy ===== *)
theory Backup_Start
  imports Backup_Runner Run_Registry
begin

text \<open>
  Starting a backup (\<open>Start\<close> in \<open>internal/backuprun/runner.go\<close>): the checks before anything is
  recorded, the reservation of the project, the run row and the event. The project service, the
  repository service, identifiers and the clock are inputs. The execution that follows is
  \<open>execute\<close>.
\<close>

record start_request =
  sq_project :: string
  sq_repository :: string
  sq_actor :: string
  sq_trigger :: "run_trigger option"
  sq_verify :: bool

record repository_name =
  rp_id :: string
  rp_name :: string

datatype start_error =
  Start_Project project_error
| Start_Repository string
| Start_Engine_Config string
| Nothing_To_Back_Up bool
| Already_Running string
| Start_Insert store_error

record start_world =
  tw_project :: "(project_error, project_detail) result"
  tw_repository :: "(string, repository_name) result"
  tw_engine_config :: "(string, unit) result"
  tw_run_id :: string
  tw_now :: instant
  tw_insert_fault :: bool
  tw_emit_fault :: bool
  tw_event_id :: string

record start_state =
  ss_registry :: backup_registry
  ss_rows :: run_table
  ss_recorder :: recorder

definition new_run :: "start_world \<Rightarrow> start_request \<Rightarrow> project_detail \<Rightarrow> repository_name \<Rightarrow> run" where
  "new_run w q p repo =
     \<lparr>rn_id = tw_run_id w, rn_project_id = pr_id (pd_record p), rn_project_name = pr_name (pd_record p),
      rn_repository_id = rp_id repo, rn_repository_name = rp_name repo,
      rn_trigger = (case sq_trigger q of None \<Rightarrow> Manual | Some t \<Rightarrow> t), rn_status = Running, rn_phase = Preparing,
      rn_volumes = map bs_name (filter backupable (pd_sources p)), rn_files_total = 0, rn_bytes_total = 0, rn_bytes_added = 0,
      rn_warnings = [], rn_error = [], rn_started_at = tw_now w, rn_ended_at = None, rn_created_at = tw_now w\<rparr>"

definition started_event :: "start_request \<Rightarrow> run \<Rightarrow> event" where
  "started_event q r =
     event_of ''backup.started'' (sq_actor q) ''backup_run'' (rn_id r)
       [(''project'', Meta_String (rn_project_name r)), (''projectId'', Meta_String (rn_project_id r)),
        (''repository'', Meta_String (rn_repository_name r)), (''volumes'', Meta_Number (int (length (rn_volumes r))))]"

text \<open>The critical part: reserve the project, record the run, make it cancellable, tell the audit trail.\<close>

definition launch :: "start_world \<Rightarrow> start_request \<Rightarrow> run \<Rightarrow> start_state \<Rightarrow> (start_error, run) result \<times> start_state" where
  "launch w q r st =
     (case reserve_backup (rn_project_id r) (rn_id r) (ss_registry st) of
        None \<Rightarrow> (Inl (Already_Running (the (map_of (by_project (ss_registry st)) (rn_project_id r)))), st)
      | Some reg \<Rightarrow>
          (case insert_run (tw_insert_fault w) r (ss_rows st) of
             Inl e \<Rightarrow> (Inl (Start_Insert e), st\<lparr>ss_registry := release_backup (rn_project_id r) (rn_id r) reg\<rparr>)
           | Inr rows \<Rightarrow>
               (Inr r, \<lparr>ss_registry = activate_backup (rn_id r) reg, ss_rows = rows,
                 ss_recorder = emit (tw_emit_fault w) (tw_event_id w) (tw_now w) (started_event q r) (ss_recorder st)\<rparr>)))"

definition start_backup :: "start_world \<Rightarrow> start_request \<Rightarrow> start_state \<Rightarrow> (start_error, run) result \<times> start_state" where
  "start_backup w q st =
     (case tw_project w of
        Inl e \<Rightarrow> (Inl (Start_Project e), st)
      | Inr p \<Rightarrow>
          (case tw_repository w of
             Inl e \<Rightarrow> (Inl (Start_Repository e), st)
           | Inr repo \<Rightarrow>
               (case tw_engine_config w of
                  Inl e \<Rightarrow> (Inl (Start_Engine_Config e), st)
                | Inr _ \<Rightarrow>
                    if filter backupable (pd_sources p) = [] then (Inl (Nothing_To_Back_Up (pd_docker_available p)), st)
                    else launch w q (new_run w q p repo) st)))"

section \<open>Lemmas\<close>

lemma release_after_reserve:
  assumes "reserve_backup k i s = Some s'" "\<not> cancel_backup i s"
  shows "release_backup k i s' = s"
proof -
  have free: "map_of (by_project s) k = None" using assms(1) by (auto simp: reserve_backup_def split: option.splits)
  then have k: "k \<notin> set (map fst (by_project s))" by (simp add: map_of_eq_None_iff)
  have s': "s' = s\<lparr>by_project := AList.update k i (by_project s)\<rparr>"
    using assms(1) free by (simp add: reserve_backup_def)
  have "AList.delete k (AList.update k i (by_project s)) = by_project s" using k by (simp add: delete_update_fresh)
  moreover have "filter (\<lambda>x. x \<noteq> i) (active_backups s) = active_backups s"
    using assms(2) by (auto simp: cancel_backup_def filter_id_conv)
  ultimately show ?thesis by (simp add: s' release_backup_def Let_def update_conv')
qed

section \<open>Properties\<close>

text \<open>
  C9. A start is all or nothing: a refused start leaves the registry, the runs and the audit trail as
  they were; an accepted one takes the free slot of the project, makes the run cancellable and records
  it as running over exactly the sources that can be backed up, of which there is one at least.
\<close>

theorem start_backup_atomic:
  assumes "start_backup w q st = (r, st')" "\<not> cancel_backup (tw_run_id w) (ss_registry st)"
  shows "case r of
      Inl e \<Rightarrow> st' = st
    | Inr run \<Rightarrow> rn_status run = Running \<and> ss_rows st' = ss_rows st @ [run] \<and> rn_volumes run \<noteq> [] \<and>
        (case tw_project w of Inl _ \<Rightarrow> False | Inr p \<Rightarrow> rn_volumes run = map bs_name (filter backupable (pd_sources p))) \<and>
        map_of (by_project (ss_registry st)) (rn_project_id run) = None \<and>
        map_of (by_project (ss_registry st')) (rn_project_id run) = Some (rn_id run) \<and>
        cancel_backup (rn_id run) (ss_registry st') \<and>
        ss_recorder st' = emit (tw_emit_fault w) (tw_event_id w) (tw_now w) (started_event q run) (ss_recorder st)"
proof -
  consider (early) e where "r = Inl e" "st' = st"
    | (launch) p repo where "tw_project w = Inr p" "filter backupable (pd_sources p) \<noteq> []"
        "launch w q (new_run w q p repo) st = (r, st')"
    using assms(1) by (auto simp: start_backup_def split: sum.splits if_splits)
  then show ?thesis
  proof cases
    case (launch p repo)
    let ?r = "new_run w q p repo"
    have rid: "rn_id ?r = tw_run_id w" by (simp add: new_run_def)
    show ?thesis
    proof (cases "reserve_backup (rn_project_id ?r) (rn_id ?r) (ss_registry st)")
      case None
      then show ?thesis using launch(3) by (auto simp: launch_def)
    next
      case (Some reg)
      note undo = release_after_reserve[OF Some] 
      have holds: "map_of (by_project (ss_registry st)) (rn_project_id ?r) = None"
          "map_of (by_project reg) (rn_project_id ?r) = Some (rn_id ?r)"
        using Some by (auto simp: reserve_backup_def update_conv' split: option.splits)
      show ?thesis
      proof (cases "insert_run (tw_insert_fault w) ?r (ss_rows st)")
        case (Inl e)
        then have "r = Inl (Start_Insert e)" "st' = st\<lparr>ss_registry := release_backup (rn_project_id ?r) (rn_id ?r) reg\<rparr>"
          using launch(3) Some by (auto simp: launch_def)
        then show ?thesis using undo assms(2) by (simp add: rid)
      next
        case (Inr rows)
        then have "rows = ss_rows st @ [?r]" by (auto simp: insert_run_def split: if_splits)
        moreover have "r = Inr ?r" "ss_rows st' = rows" "ss_registry st' = activate_backup (rn_id ?r) reg"
            "ss_recorder st' = emit (tw_emit_fault w) (tw_event_id w) (tw_now w) (started_event q ?r) (ss_recorder st)"
          using launch(3) Some Inr by (auto simp: launch_def)
        ultimately show ?thesis using holds launch(1,2)
          by (simp add: new_run_def activate_backup_def cancel_backup_def)
      qed
    qed
  qed simp
qed

definition sample_detail :: project_detail where
  "sample_detail =
     \<lparr>pd_record = \<lparr>pr_id = ''p1'', pr_name = ''shop'', pr_compose_path = [], pr_compose_files = [], pr_source = Project_Discovered,
        pr_status = Status_Unprotected, pr_created_at = 0, pr_updated_at = 0\<rparr>,
      pd_docker_available = True, pd_containers = [], pd_volumes = [], pd_networks = [], pd_warning = [],
      pd_sources = [sample_source, sample_source\<lparr>bs_name := ''/proc'', bs_skipped := ''kernel''\<rparr>]\<rparr>"

definition sample_start :: start_world where
  "sample_start = \<lparr>tw_project = Inr sample_detail, tw_repository = Inr \<lparr>rp_id = ''q1'', rp_name = ''disk''\<rparr>, tw_engine_config = Inr (),
     tw_run_id = ''r1'', tw_now = 5, tw_insert_fault = False, tw_emit_fault = False, tw_event_id = ''e1''\<rparr>"

definition sample_request :: start_request where
  "sample_request = \<lparr>sq_project = ''p1'', sq_repository = ''q1'', sq_actor = ''admin'', sq_trigger = None, sq_verify = False\<rparr>"

definition idle_state :: start_state where
  "idle_state = \<lparr>ss_registry = no_backups, ss_rows = [], ss_recorder = \<lparr>audit_rows = [], feed = new_broker\<rparr>\<rparr>"

theorem start_backup_atomic_witness:
  "case fst (start_backup sample_start sample_request idle_state) of
     Inl _ \<Rightarrow> False
   | Inr run \<Rightarrow> rn_volumes run = [''data''] \<and>
       cancel_backup (rn_id run) (ss_registry (snd (start_backup sample_start sample_request idle_state)))"
proof -
  let ?s = "start_backup sample_start sample_request idle_state"
  have run: "?s = (fst ?s, snd ?s)" by simp
  have free: "\<not> cancel_backup (tw_run_id sample_start) (ss_registry idle_state)"
    by (simp add: cancel_backup_def idle_state_def no_backups_def)
  have ok: "is_ok (fst ?s)"
    by (simp add: start_backup_def sample_start_def sample_detail_def sample_source_def backupable_def launch_def new_run_def
        reserve_backup_def idle_state_def no_backups_def insert_run_def)
  have p: "tw_project sample_start = Inr sample_detail" by (simp add: sample_start_def)
  have v: "map bs_name (filter backupable (pd_sources sample_detail)) = [''data'']"
    by (simp add: sample_detail_def sample_source_def backupable_def)
  show ?thesis using start_backup_atomic[OF run free] ok by (auto simp: p v is_ok_iff)
qed

text \<open>
  The slot is taken per project, the staging directory per sanitised name: two projects with different
  names can hold a slot each and still stage into, and clear, the same directory.
\<close>

lemma projects_share_staging:
  "work_dir ''/stage'' (sample_run\<lparr>rn_id := ''r1'', rn_project_id := ''p1'', rn_project_name := ''shop''\<rparr>) =
   work_dir ''/stage'' (sample_run\<lparr>rn_id := ''r2'', rn_project_id := ''p2'', rn_project_name := ''shop-''\<rparr>)"
  "\<exists>s. flights_reachable reserve_backup activate_backup release_backup no_backups s
     [(''p2'', ''r2'', Reserved), (''p1'', ''r1'', Reserved)]"
proof -
  show "work_dir ''/stage'' (sample_run\<lparr>rn_id := ''r1'', rn_project_id := ''p1'', rn_project_name := ''shop''\<rparr>) =
   work_dir ''/stage'' (sample_run\<lparr>rn_id := ''r2'', rn_project_id := ''p2'', rn_project_name := ''shop-''\<rparr>)"
    using path_segment_collisions(2) by (simp add: work_dir_def)
  obtain s1 where r1: "reserve_backup ''p1'' ''r1'' no_backups = Some s1"
    by (simp add: reserve_backup_def no_backups_def)
  obtain s2 where r2: "reserve_backup ''p2'' ''r2'' s1 = Some s2"
    using r1 by (auto simp: reserve_backup_def no_backups_def)
  have "flights_reachable reserve_backup activate_backup release_backup no_backups s1 [(''p1'', ''r1'', Reserved)]"
    by (rule reach_step[OF reach_init step_reserve[where reserve = reserve_backup, OF r1]]) simp
  from reach_step[OF this step_reserve[where reserve = reserve_backup, OF r2]]
  show "\<exists>s. flights_reachable reserve_backup activate_backup release_backup no_backups s
     [(''p2'', ''r2'', Reserved), (''p1'', ''r1'', Reserved)]" by force
qed

end
