(* ===== verification/Docker_Stream.thy ===== *)
theory Docker_Stream
  imports Go_Strings
begin

text \<open>
  The framed output of a Docker command (\<open>internal/docker/exec.go\<close>, \<open>helper.go\<close>): every chunk is
  preceded by a header of eight bytes, the stream it belongs to, three zeroes and its length. A
  connection is the list of pieces its reads deliver and how it ends: \<open>None\<close> for a clean end,
  \<open>Some e\<close> for a read error. A writer is what it already took and the piece it is given, answered
  with how many bytes it took before it failed, if it did.
\<close>

section \<open>Reading from a connection\<close>

type_synonym write_fault = "string \<Rightarrow> string \<Rightarrow> (nat \<times> string) option"

definition no_fault :: write_fault where
  "no_fault taken p = None"

text \<open>\<open>io.ReadFull\<close>: what arrives, up to the wanted number of bytes, and the rest of the connection.\<close>

fun read_full :: "nat \<Rightarrow> string list \<Rightarrow> string \<times> string list" where
  "read_full n [] = ([], [])"
| "read_full n (c # cs) =
     (if n = 0 then ([], c # cs)
      else if n < length c then (take n c, drop n c # cs)
      else (case read_full (n - length c) cs of (got, rest) \<Rightarrow> (c @ got, rest)))"

definition copy_buffer :: nat where
  "copy_buffer = 32 * 1024"

text \<open>The pieces in which \<open>io.CopyN\<close> passes on the next \<open>n\<close> bytes, and the rest of the connection.\<close>

function copy_pieces :: "nat \<Rightarrow> string list \<Rightarrow> string list \<times> string list" where
  "copy_pieces n [] = ([], [])"
| "copy_pieces n (c # cs) =
     (if n = 0 then ([], c # cs)
      else if length c \<le> min n copy_buffer
      then (case copy_pieces (n - length c) cs of (ps, rest) \<Rightarrow> (c # ps, rest))
      else (case copy_pieces (n - min n copy_buffer) (drop (min n copy_buffer) c # cs) of
              (ps, rest) \<Rightarrow> (take (min n copy_buffer) c # ps, rest)))"
  by pat_completeness auto
termination
  by (relation "measures [\<lambda>(n, cs). length cs, \<lambda>(n, cs). n]") (auto simp: copy_buffer_def)

section \<open>Writing\<close>

definition max_exec_stderr :: nat where
  "max_exec_stderr = 16 * 1024"

definition short_write :: string where
  "short_write = ''short write''"

fun copy_out :: "write_fault \<Rightarrow> string \<Rightarrow> string list \<Rightarrow> string \<times> string option" where
  "copy_out w taken [] = (taken, None)"
| "copy_out w taken (p # ps) =
     (if p = [] then copy_out w taken ps
      else case w taken p of
             None \<Rightarrow> copy_out w (taken @ p) ps
           | Some (k, e) \<Rightarrow> (taken @ take k p, Some e))"

text \<open>
  \<open>boundedWriter.Write\<close>: the bytes it passes on, what remains of its budget and the number of bytes
  it says it took. A piece that does not fit is cut first, and the cut length is reported.
\<close>

definition bounded_stderr_write :: "nat \<Rightarrow> string \<Rightarrow> string \<times> nat \<times> nat" where
  "bounded_stderr_write remaining p =
     (if remaining = 0 then ([], 0, length p)
      else (let q = (if remaining < length p then take remaining p else p)
            in (q, remaining - length q, length q)))"

fun copy_bounded :: "nat \<Rightarrow> string \<Rightarrow> string list \<Rightarrow> string \<times> string option" where
  "copy_bounded remaining taken [] = (taken, None)"
| "copy_bounded remaining taken (p # ps) =
     (if p = [] then copy_bounded remaining taken ps
      else (case bounded_stderr_write remaining p of
              (q, left, said) \<Rightarrow>
                if said \<noteq> length p then (taken @ q, Some short_write)
                else copy_bounded left (taken @ q) ps))"

section \<open>Taking the stream apart\<close>

fun be_value :: "nat \<Rightarrow> string \<Rightarrow> nat" where
  "be_value acc [] = acc"
| "be_value acc (c # cs) = be_value (acc * 256 + of_char c) cs"

definition frame_size :: "string \<Rightarrow> nat" where
  "frame_size header = be_value 0 (take 4 (drop 4 header))"

lemma read_full_length: "read_full n cs = (got, rest) \<Longrightarrow> got @ concat rest = concat cs \<and> length got \<le> n"
proof (induction n cs arbitrary: got rest rule: read_full.induct)
  case (2 n c cs)
  obtain g r where gr: "read_full (n - length c) cs = (g, r)" by fastforce
  show ?case
  proof (cases "n = 0 \<or> n < length c")
    case True
    then show ?thesis using "2.prems" by (auto split: if_splits)
  next
    case False
    then have "got = c @ g" "rest = r" using "2.prems" gr by auto
    moreover have "g @ concat r = concat cs \<and> length g \<le> n - length c" using "2.IH"[OF _ _ gr] False by simp
    ultimately show ?thesis using False by auto
  qed
qed simp

lemma read_full_short: "read_full n cs = (got, rest) \<Longrightarrow> length got < n \<Longrightarrow> got = concat cs \<and> rest = []"
proof (induction n cs arbitrary: got rest rule: read_full.induct)
  case (2 n c cs)
  obtain g r where gr: "read_full (n - length c) cs = (g, r)" by fastforce
  have f: "n \<noteq> 0" "\<not> n < length c" using "2.prems" by (auto split: if_splits)
  then have "got = c @ g" "rest = r" using "2.prems"(1) gr by auto
  then show ?case using "2.IH"[OF _ _ gr] f "2.prems"(2) by auto
qed simp

lemma copy_pieces_concat:
  "copy_pieces n cs = (ps, rest) \<Longrightarrow> concat ps @ concat rest = concat cs \<and> length (concat ps) \<le> n \<and>
     (length (concat ps) < n \<longrightarrow> rest = [])"
proof (induction n cs arbitrary: ps rest rule: copy_pieces.induct)
  case (2 n c cs)
  let ?k = "min n copy_buffer"
  consider (zero) "n = 0" | (whole) "n \<noteq> 0" "length c \<le> ?k" | (cut) "n \<noteq> 0" "\<not> length c \<le> ?k" by blast
  then show ?case
  proof cases
    case zero
    then show ?thesis using "2.prems" by auto
  next
    case whole
    obtain q r where qr: "copy_pieces (n - length c) cs = (q, r)" by fastforce
    have "ps = c # q" "rest = r" using "2.prems" whole qr by auto
    then show ?thesis using "2.IH"(1)[OF whole qr] whole by auto
  next
    case cut
    obtain q r where qr: "copy_pieces (n - ?k) (drop ?k c # cs) = (q, r)" by fastforce
    have e: "ps = take ?k c # q" "rest = r" using "2.prems" cut qr by auto
    have "concat q @ concat r = drop ?k c @ concat cs" using "2.IH"(2)[OF cut qr] by simp
    moreover have "length (concat q) \<le> n - ?k" "length (concat q) < n - ?k \<longrightarrow> r = []"
      using "2.IH"(2)[OF cut qr] by simp_all
    moreover have "length (take ?k c) = ?k" using cut(2) unfolding length_take by linarith
    ultimately show ?thesis using e by auto
  qed
qed simp

text \<open>
  How a connection ends after its last bytes: with \<open>io.EOF\<close>, with \<open>io.ErrUnexpectedEOF\<close> (a body cut off
  before its announced end), or with another error. A partial header turns the first into the second, and
  both count as the end where a header is expected; inside a frame only \<open>io.EOF\<close> does.
\<close>

datatype read_end = Read_EOF | Read_Cut | Read_Error string

fun header_end :: "read_end \<Rightarrow> string option" where
  "header_end (Read_Error e) = Some e"
| "header_end _ = None"

fun frame_end :: "read_end \<Rightarrow> string option" where
  "frame_end Read_EOF = None"
| "frame_end Read_Cut = Some ''unexpected EOF''"
| "frame_end (Read_Error e) = Some e"

text \<open>\<open>demultiplex\<close>: what reached standard output, what reached the error buffer, and the error.\<close>

function demultiplex :: "write_fault \<Rightarrow> string list \<Rightarrow> read_end \<Rightarrow> string \<Rightarrow> string \<Rightarrow> string \<times> string \<times> string option" where
  "demultiplex w cs fin out err =
     (case read_full 8 cs of
        (header, rest) \<Rightarrow>
          if length header < 8 then (out, err, header_end fin)
          else if frame_size header = 0 then demultiplex w rest fin out err
          else (case copy_pieces (frame_size header) rest of
                  (ps, rest') \<Rightarrow>
                    (let copied = (if of_char (hd header) = (2 :: nat)
                                   then (case copy_bounded max_exec_stderr err ps of (err', f) \<Rightarrow> (out, err', f))
                                   else (case copy_out w out ps of (out', f) \<Rightarrow> (out', err, f)))
                     in (case copied of
                           (out', err', f) \<Rightarrow>
                             if f \<noteq> None then (out', err', f)
                             else if length (concat ps) < frame_size header then (out', err', frame_end fin)
                             else demultiplex w rest' fin out' err'))))"
  by pat_completeness auto
termination
proof (relation "measure (\<lambda>(w, cs, fin, out, err). length (concat cs))", goal_cases)
  case 1
  show ?case by simp
next
  case (2 w cs fin out err header rest)
  have "header @ concat rest = concat cs" "\<not> length header < 8" using 2 read_full_length by auto
  then have "length (concat cs) = length header + length (concat rest)" by (metis length_append)
  then show ?case using \<open>\<not> length header < 8\<close> by (cases header) simp_all
next
  case (3 w cs fin out err header rest ps rest' copied out' zz err' f)
  have "header @ concat rest = concat cs" using read_full_length[OF 3(1)[symmetric]] by simp
  moreover have "concat ps @ concat rest' = concat rest" using copy_pieces_concat[OF 3(4)[symmetric]] by simp
  ultimately have "concat cs = header @ concat ps @ concat rest'" by simp
  then have "length (concat cs) = length header + length (concat ps) + length (concat rest')"
    by simp
  then show ?case using 3(2,3) by (cases header) auto
qed

declare demultiplex.simps [simp del]

text \<open>\<open>demultiplexDockerStream\<close>: the headers taken out of output that was read whole.\<close>

function strip_frames :: "string \<Rightarrow> string \<Rightarrow> string" where
  "strip_frames out raw =
     (if length raw < 8 then out @ raw
      else if take 3 (drop 1 raw) \<noteq> [CHR 0x00, CHR 0x00, CHR 0x00] then raw
      else strip_frames (out @ take (frame_size raw) (drop 8 raw)) (drop (frame_size raw) (drop 8 raw)))"
  by pat_completeness auto
termination by (relation "measure (\<lambda>(out, raw). length raw)") auto

declare strip_frames.simps [simp del]


section \<open>What the daemon writes\<close>

definition be_bytes :: "nat \<Rightarrow> string" where
  "be_bytes n = map (\<lambda>k. char_of (n div 256 ^ k)) [3, 2, 1, 0]"

type_synonym frame = "nat \<times> string"

definition encode_frame :: "frame \<Rightarrow> string" where
  "encode_frame f = [char_of (fst f), CHR 0x00, CHR 0x00, CHR 0x00] @ be_bytes (length (snd f)) @ snd f"

definition encode_frames :: "frame list \<Rightarrow> string" where
  "encode_frames fs = concat (map encode_frame fs)"

definition sent_on :: "bool \<Rightarrow> frame list \<Rightarrow> string" where
  "sent_on to_stderr fs = concat (map snd (filter (\<lambda>f. (fst f = 2) = to_stderr) fs))"

text \<open>Frames the daemon can send whose error output arrives in pieces the bounded writer takes.\<close>

definition tame_frame :: "frame \<Rightarrow> bool" where
  "tame_frame f \<longleftrightarrow> fst f < 256 \<and> length (snd f) < 2 ^ 32 \<and> (fst f = 2 \<longrightarrow> length (snd f) \<le> max_exec_stderr)"

lemma be_round_trip: "n < 2 ^ 32 \<Longrightarrow> be_value 0 (be_bytes n) = n"
proof -
  assume "n < 2 ^ 32"
  then have "n div 16777216 < 256" by (simp add: less_mult_imp_div_less)
  then have "n div 16777216 mod 256 = n div 16777216" by simp
  moreover have "n div 16777216 = n div 65536 div 256" "n div 65536 = n div 256 div 256"
    by (simp_all add: div_mult2_eq[symmetric])
  ultimately show ?thesis by (simp add: be_bytes_def of_char_of)
qed

lemma length_be_bytes [simp]: "length (be_bytes n) = 4"
  by (simp add: be_bytes_def)

definition frame_header :: "frame \<Rightarrow> string" where
  "frame_header f = [char_of (fst f), CHR 0x00, CHR 0x00, CHR 0x00] @ be_bytes (length (snd f))"

lemma encode_frame_split: "encode_frame f = frame_header f @ snd f"
  by (simp add: encode_frame_def frame_header_def)

lemma frame_header_simps:
  "length (frame_header f) = 8"
  "fst f < 256 \<Longrightarrow> of_char (hd (frame_header f)) = fst f"
  "length (snd f) < 2 ^ 32 \<Longrightarrow> frame_size (frame_header f @ x) = length (snd f)"
  by (simp_all add: frame_header_def frame_size_def be_round_trip of_char_of)

lemma read_full_exact:
  assumes "concat cs = h @ x" "length h = n"
  shows "\<exists>rest. read_full n cs = (h, rest) \<and> concat rest = x"
proof -
  obtain got rest where r: "read_full n cs = (got, rest)" by fastforce
  have e: "got @ concat rest = h @ x" and "length got \<le> n" using read_full_length[OF r] assms(1) by simp_all
  moreover have "\<not> length got < n"
  proof
    assume "length got < n"
    then have "got = h @ x" using read_full_short[OF r] assms(1) by simp
    then show False using \<open>length got < n\<close> assms(2) by simp
  qed
  ultimately have "length got = length h" using assms(2) by simp
  then show ?thesis using e r by simp
qed

lemma copy_pieces_exact:
  assumes "concat cs = p @ x" "length p = n"
  shows "\<exists>ps rest. copy_pieces n cs = (ps, rest) \<and> concat ps = p \<and> concat rest = x"
proof -
  obtain ps rest where r: "copy_pieces n cs = (ps, rest)" by fastforce
  have e: "concat ps @ concat rest = p @ x" and "length (concat ps) \<le> n"
    using copy_pieces_concat[OF r] assms(1) by simp_all
  moreover have "\<not> length (concat ps) < n"
  proof
    assume l: "length (concat ps) < n"
    then have "rest = []" using copy_pieces_concat[OF r] by simp
    then have "concat ps = p @ x" using e by simp
    then show False using l assms(2) by simp
  qed
  ultimately have "length (concat ps) = length p" using assms(2) by simp
  then show ?thesis using e r by simp
qed

lemma copy_out_no_fault: "copy_out no_fault taken ps = (taken @ concat ps, None)"
  by (induction ps arbitrary: taken) (auto simp: no_fault_def)

lemma copy_bounded_fits: "length (concat ps) \<le> remaining \<Longrightarrow> copy_bounded remaining taken ps = (taken @ concat ps, None)"
  by (induction ps arbitrary: remaining taken) (auto simp: bounded_stderr_write_def Let_def)


section \<open>The stream of a command\<close>

lemma demultiplex_short: "length (concat cs) < 8 \<Longrightarrow> demultiplex w cs fin out err = (out, err, header_end fin)"
proof -
  assume l: "length (concat cs) < 8"
  obtain h r where hr: "read_full 8 cs = (h, r)" by fastforce
  then have "length h < 8" using read_full_length[OF hr] l by (metis le_add1 length_append order_le_less_trans)
  then show ?thesis using hr by (simp add: demultiplex.simps[of w cs])
qed

text \<open>One frame of which all, or only the beginning, arrives.\<close>

lemma demultiplex_frame:
  assumes "concat cs = frame_header f @ x" "tame_frame f" "length x < length (snd f)"
  shows "demultiplex no_fault cs fin out err =
    (if fst f = 2 then (out, err @ x, frame_end fin) else (out @ x, err, frame_end fin))"
proof -
  from assms(2) have f: "fst f < 256" "length (snd f) < 2 ^ 32" "fst f = 2 \<Longrightarrow> length (snd f) \<le> max_exec_stderr"
    by (auto simp: tame_frame_def)
  obtain rest where r: "read_full 8 cs = (frame_header f, rest)" "concat rest = x"
    using read_full_exact[OF assms(1)] frame_header_simps(1) by blast
  obtain ps rest' where p: "copy_pieces (length (snd f)) rest = (ps, rest')" by fastforce
  have "length (concat ps) + length (concat rest') = length x" using copy_pieces_concat[OF p] r(2)
    by (metis length_append)
  then have "length (concat ps) < length (snd f)" using assms(3) by simp
  then have x: "concat ps = x" using copy_pieces_concat[OF p] r(2) by auto
  have b: "fst f = 2 \<Longrightarrow> copy_bounded max_exec_stderr err ps = (err @ x, None)"
    using copy_bounded_fits[of ps max_exec_stderr err] f(3) assms(3) x by simp
  have size: "frame_size (frame_header f) = length (snd f)" using frame_header_simps(3)[OF f(2), of "[]"] by simp
  show ?thesis
    using assms(3) b frame_header_simps(1,2)[of f] f(1)
    by (auto simp: demultiplex.simps[of _ cs] r(1) size p copy_out_no_fault x)
qed

lemma demultiplex_whole_frame:
  assumes "concat cs = frame_header f @ snd f @ x" "tame_frame f"
  shows "\<exists>cs'. concat cs' = x \<and> demultiplex no_fault cs fin out err =
    (if fst f = 2 then demultiplex no_fault cs' fin out (err @ snd f)
     else demultiplex no_fault cs' fin (out @ snd f) err)"
proof -
  from assms(2) have f: "fst f < 256" "length (snd f) < 2 ^ 32" "fst f = 2 \<Longrightarrow> length (snd f) \<le> max_exec_stderr"
    by (auto simp: tame_frame_def)
  obtain rest where r: "read_full 8 cs = (frame_header f, rest)" "concat rest = snd f @ x"
    using read_full_exact[OF assms(1)] frame_header_simps(1) by blast
  have size: "frame_size (frame_header f) = length (snd f)" using frame_header_simps(3)[OF f(2), of "[]"] by simp
  show ?thesis
  proof (cases "snd f = []")
    case True
    then show ?thesis using r size frame_header_simps(1)[of f]
      by (intro exI[of _ rest]) (simp add: demultiplex.simps[of _ cs])
  next
    case False
    obtain ps rest' where p: "copy_pieces (length (snd f)) rest = (ps, rest')" "concat ps = snd f" "concat rest' = x"
      using copy_pieces_exact[OF r(2) refl] by blast
    show ?thesis
      using False f(3) frame_header_simps(1,2)[of f] f(1)
      by (intro exI[of _ rest'])
         (simp add: demultiplex.simps[of _ cs] r(1) size p copy_out_no_fault copy_bounded_fits)
  qed
qed

lemma sent_on_Cons: "sent_on b (f # fs) = (if (fst f = 2) = b then snd f else []) @ sent_on b fs"
  by (simp add: sent_on_def)

text \<open>
  Whatever is cut off, and however the bytes are cut into pieces: what came through is the beginning of
  what was sent, and a clean end of the connection is no error.
\<close>

lemma demultiplex_prefix:
  assumes "\<forall>f\<in>set fs. tame_frame f" "concat cs = take n (encode_frames fs)"
  shows "\<exists>out' err'. demultiplex no_fault cs Read_EOF out err = (out @ out', err @ err', None) \<and>
    prefix out' (sent_on False fs) \<and> prefix err' (sent_on True fs) \<and>
    (length (encode_frames fs) \<le> n \<longrightarrow> out' = sent_on False fs \<and> err' = sent_on True fs)"
  using assms
proof (induction fs arbitrary: cs n out err)
  case Nil
  then have "length (concat cs) < 8"
    by (simp only: encode_frames_def, simp)
  then have "demultiplex no_fault cs Read_EOF out err = (out, err, None)" by (simp add: demultiplex_short)
  then show ?case by (auto simp: sent_on_def)
next
  case (Cons f fs)
  have enc: "encode_frames (f # fs) = frame_header f @ snd f @ encode_frames fs"
    by (simp add: encode_frames_def encode_frame_split)
  have tf: "tame_frame f" using Cons.prems(1) by simp
  consider (header) "n < 8" | (part) "8 \<le> n" "n - 8 < length (snd f)" | (whole) "8 \<le> n" "length (snd f) \<le> n - 8"
    by linarith
  then show ?case
  proof cases
    case header
    then show ?thesis using Cons.prems(2) demultiplex_short[of cs] enc
      by (auto simp: frame_header_simps(1))
  next
    case part
    let ?x = "take (n - 8) (snd f)"
    have "concat cs = frame_header f @ ?x" using Cons.prems(2) part by (simp add: enc frame_header_simps(1))
    from demultiplex_frame[OF this tf, of Read_EOF out err]
    have "demultiplex no_fault cs Read_EOF out err = (if fst f = 2 then (out, err @ ?x, None) else (out @ ?x, err, None))"
      using part by simp
    moreover have "prefix ?x (snd f @ y)" for y by (simp add: prefix_def) (metis append_assoc append_take_drop_id)
    ultimately show ?thesis using part by (auto simp: sent_on_Cons enc frame_header_simps(1))
  next
    case whole
    let ?n = "n - 8 - length (snd f)"
    have "concat cs = frame_header f @ snd f @ take ?n (encode_frames fs)"
      using Cons.prems(2) whole by (simp add: enc frame_header_simps(1))
    from demultiplex_whole_frame[OF this tf, of Read_EOF out err]
    obtain cs' where cs': "concat cs' = take ?n (encode_frames fs)"
      "demultiplex no_fault cs Read_EOF out err =
        (if fst f = 2 then demultiplex no_fault cs' Read_EOF out (err @ snd f)
         else demultiplex no_fault cs' Read_EOF (out @ snd f) err)" by blast
    note IH = Cons.IH[OF _ cs'(1)]
    have l: "length (encode_frames fs) \<le> ?n" if "length (encode_frames (f # fs)) \<le> n"
      using that by (simp add: enc frame_header_simps(1))
    show ?thesis
    proof (cases "fst f = 2")
      case True
      from IH[of out "err @ snd f"] Cons.prems(1) obtain o' e' where
        "demultiplex no_fault cs' Read_EOF out (err @ snd f) = (out @ o', (err @ snd f) @ e', None)"
        "prefix o' (sent_on False fs)" "prefix e' (sent_on True fs)"
        "length (encode_frames fs) \<le> ?n \<longrightarrow> o' = sent_on False fs \<and> e' = sent_on True fs" by auto
      then show ?thesis using True cs'(2) l
        by (intro exI[of _ o'] exI[of _ "snd f @ e'"]) (auto simp: sent_on_Cons)
    next
      case False
      from IH[of "out @ snd f" err] Cons.prems(1) obtain o' e' where
        "demultiplex no_fault cs' Read_EOF (out @ snd f) err = ((out @ snd f) @ o', err @ e', None)"
        "prefix o' (sent_on False fs)" "prefix e' (sent_on True fs)"
        "length (encode_frames fs) \<le> ?n \<longrightarrow> o' = sent_on False fs \<and> e' = sent_on True fs" by auto
      then show ?thesis using False cs'(2) l
        by (intro exI[of _ "snd f @ o'"] exI[of _ e']) (auto simp: sent_on_Cons)
    qed
  qed
qed


text \<open>
  Error output that arrives in one piece larger than the budget is cut, and the cut is reported as a short
  write: the command is then reported as failed to read, whatever its exit code.
\<close>

lemma copy_bounded_burst:
  "max_exec_stderr < length p \<Longrightarrow> copy_bounded max_exec_stderr err [p] = (err @ take max_exec_stderr p, Some short_write)"
  by (auto simp: bounded_stderr_write_def max_exec_stderr_def Let_def)

lemma stderr_burst_fails:
  assumes "max_exec_stderr < length p" "length p \<le> copy_buffer"
  shows "demultiplex w [encode_frame (2, p)] fin out err = (out, err @ take max_exec_stderr p, Some short_write)"
proof -
  let ?f = "(2 :: nat, p)"
  have l: "length (snd ?f) < 2 ^ 32" using assms(2) by (simp add: copy_buffer_def)
  have n: "p \<noteq> []" using assms(1) by auto
  have r: "read_full 8 [encode_frame ?f] = (frame_header ?f, [p])"
    using n by (simp add: encode_frame_split frame_header_simps(1))
  have p: "copy_pieces (length p) [p] = ([p], [])" using n assms(2) by simp
  have size: "frame_size (frame_header ?f) = length p" using frame_header_simps(3)[OF l, of "[]"] by simp
  have hd: "of_char (hd (frame_header ?f)) = (2 :: nat)" using frame_header_simps(2)[of ?f] by simp
  show ?thesis
    using n by (simp only: demultiplex.simps[of _ "[encode_frame ?f]"] r prod.case size p hd
      copy_bounded_burst[OF assms(1)] frame_header_simps(1) Let_def) simp
qed

lemma strip_frames_whole:
  assumes "\<forall>f\<in>set fs. length (snd f) < 2 ^ 32"
  shows "strip_frames out (encode_frames fs) = out @ concat (map snd fs)"
  using assms
proof (induction fs arbitrary: out)
  case Nil
  then show ?case by (simp add: encode_frames_def strip_frames.simps)
next
  case (Cons f fs)
  let ?raw = "frame_header f @ snd f @ encode_frames fs"
  have enc: "encode_frames (f # fs) = ?raw" by (simp add: encode_frames_def encode_frame_split)
  have l: "length (snd f) < 2 ^ 32" using Cons.prems by simp
  have size: "frame_size ?raw = length (snd f)" using frame_header_simps(3)[OF l] by simp
  have z: "take 3 (drop 1 ?raw) = [CHR 0x00, CHR 0x00, CHR 0x00]" by (simp add: frame_header_def eval_nat_numeral)
  have d: "drop 8 ?raw = snd f @ encode_frames fs" by (simp add: frame_header_simps(1))
  have "strip_frames out ?raw = strip_frames (out @ snd f) (encode_frames fs)"
    using frame_header_simps(1)[of f] by (subst strip_frames.simps) (simp only: size z d if_False simp_thms, simp)
  then show ?case using Cons by (simp add: enc)
qed

end
