(* ===== verification/Docker_Client.thy ===== *)
theory Docker_Client
  imports Docker_Stream Docker_Model Db_Dump Volume_Staging
begin

text \<open>
  The Docker client (\<open>internal/docker/client.go\<close>, \<open>exec.go\<close>, \<open>helper.go\<close>) as far as it drives
  containers: helper containers, commands inside a container, their output and exit code. What the
  daemon answers is an input; what is sent is returned as the list of requests, in order.
\<close>

section \<open>Requests and replies\<close>

record container_request =
  cq_image :: string
  cq_source :: string
  cq_mount_path :: string
  cq_writable :: bool
  cq_env :: "string list"
  cq_command :: "string list"
  cq_server :: bool
  cq_purpose :: string

text \<open>The body of a create request; a missing key is \<open>None\<close>.\<close>

record create_body =
  cb_image :: string
  cb_entrypoint :: "string list option"
  cb_cmd :: "string list option"
  cb_helper_label :: string
  cb_auto_remove :: bool
  cb_network_mode :: string
  cb_binds :: "string list option"
  cb_env :: "string list option"

record exec_body =
  eb_attach_stdin :: bool
  eb_cmd :: "string list"
  eb_user :: "string option"
  eb_env :: "string list option"

datatype docker_call =
  Get string
| Post string
| Put_Tar string string
| Delete string
| Create_Container create_body
| Create_Exec string exec_body
| Start_Exec string
| Hijack_Exec string

text \<open>
  A reply: the request could not be built, nobody answered, or a status with the body as text and as
  the JSON decoder sees it.
\<close>

datatype 'a http_reply = Not_Sent string | No_Answer string | Answered int string "(string, 'a) result"

definition refused :: "int \<Rightarrow> bool" where
  "refused code \<longleftrightarrow> 400 \<le> code"

definition error_detail :: "string \<Rightarrow> string" where
  "error_detail body = trim_space (take 4096 body)"

definition accept :: "string \<Rightarrow> string \<Rightarrow> string \<Rightarrow> 'a http_reply \<Rightarrow> (string, (string, 'a) result) result" where
  "accept build ask back r =
     (case r of
        Not_Sent e \<Rightarrow> Inl (build @ e)
      | No_Answer e \<Rightarrow> Inl (ask @ e)
      | Answered code body decoded \<Rightarrow>
          if refused code then Inl (back @ show_int code @ '': '' @ error_detail body) else Inr decoded)"

definition get_json :: "string \<Rightarrow> 'a http_reply \<Rightarrow> (string, 'a) result" where
  "get_json path r =
     (case accept ''build request: '' (''request '' @ path @ '': '') (''docker API '' @ path @ '' returned status '') r of
        Inl e \<Rightarrow> Inl e
      | Inr (Inl e) \<Rightarrow> Inl (''decode response from '' @ path @ '': '' @ e)
      | Inr (Inr v) \<Rightarrow> Inr v)"

definition wrap_error :: "string \<Rightarrow> (string, 'a) result \<Rightarrow> (string, 'a) result" where
  "wrap_error what r = (case r of Inl e \<Rightarrow> Inl (what @ e) | Inr v \<Rightarrow> Inr v)"

section \<open>Connecting\<close>

datatype dialer = Dial_Unix string | Dial_Tcp string

record endpoint =
  ep_dial :: "dialer option"
  ep_base_url :: string
  ep_host :: string

definition new_client :: "string \<Rightarrow> endpoint option" where
  "new_client host =
     (if has_prefix host ''unix://'' then
        Some \<lparr>ep_dial = Some (Dial_Unix (trim_prefix host ''unix://'')), ep_base_url = ''http://docker'', ep_host = host\<rparr>
      else if has_prefix host ''tcp://'' then
        Some \<lparr>ep_dial = Some (Dial_Tcp (trim_prefix host ''tcp://'')), ep_base_url = ''http://'' @ trim_prefix host ''tcp://'',
              ep_host = host\<rparr>
      else if has_prefix host ''http://'' \<or> has_prefix host ''https://'' then
        Some \<lparr>ep_dial = None, ep_base_url = host, ep_host = host\<rparr>
      else None)"

text \<open>\<open>Status\<close>: the two version headers come with the reply.\<close>

definition daemon_status :: "endpoint \<Rightarrow> (string \<times> string) http_reply \<Rightarrow> docker_status" where
  "daemon_status ep r =
     (let down = (\<lambda>e. \<lparr>ds_connected = False, ds_host = ep_host ep, ds_server_version = [], ds_api_version = [], ds_error = e\<rparr>)
      in case r of
           Not_Sent e \<Rightarrow> down e
         | No_Answer e \<Rightarrow> down e
         | Answered code body headers \<Rightarrow>
             if refused code then down (''docker daemon returned status '' @ show_int code)
             else (let (server, api) = (case headers of Inl _ \<Rightarrow> ([], []) | Inr h \<Rightarrow> h)
                   in \<lparr>ds_connected = True, ds_host = ep_host ep, ds_server_version = server, ds_api_version = api,
                       ds_error = []\<rparr>))"

section \<open>Helper containers\<close>

definition dangerous_bind_sources :: "string list" where
  "dangerous_bind_sources = [''/var/run/docker.sock'', ''/run/docker.sock'', ''/proc'', ''/sys'', ''/dev'']"

definition names_or_holds :: "string \<Rightarrow> string \<Rightarrow> bool" where
  "names_or_holds clean forbidden \<longleftrightarrow> clean = forbidden \<or> has_prefix clean (forbidden @ ''/'')"

definition check_helper_source :: "string \<Rightarrow> string option" where
  "check_helper_source source =
     (if source = [] then None
      else if \<not> has_prefix source ''/'' then None
      else if path_clean source = ''/'' then Some ''docker: refusing to mount the host root directory''
      else (case find (names_or_holds (path_clean source)) dangerous_bind_sources of
              None \<Rightarrow> None
            | Some forbidden \<Rightarrow> Some (''docker: refusing to mount '' @ source @ '': '' @ forbidden @
                '' is not something Back-Orbit will read into a backup'')))"

definition bind_of :: "container_request \<Rightarrow> string" where
  "bind_of rq = cq_source rq @ '':'' @ cq_mount_path rq @ '':'' @ (if cq_writable rq then ''rw'' else ''ro'')"

definition create_body_of :: "container_request \<Rightarrow> create_body" where
  "create_body_of rq =
     \<lparr>cb_image = cq_image rq,
      cb_entrypoint = (if cq_server rq then None
                       else Some (if cq_command rq = [] then [''/bin/true''] else cq_command rq)),
      cb_cmd = (if cq_server rq then None else Some []),
      cb_helper_label = cq_purpose rq,
      cb_auto_remove = False,
      cb_network_mode = ''none'',
      cb_binds = (if cq_source rq = [] then None else Some [bind_of rq]),
      cb_env = (if cq_env rq = [] then None else Some (cq_env rq))\<rparr>"

definition check_container_request :: "container_request \<Rightarrow> string option" where
  "check_container_request rq =
     (if cq_image rq = [] then Some ''docker: helper container needs an image''
      else if (cq_source rq = []) \<noteq> (cq_mount_path rq = [])
      then Some ''docker: a helper container needs both a source and a mount path, or neither''
      else check_helper_source (cq_source rq))"

definition create_helper_container ::
  "(docker_call \<Rightarrow> string http_reply) \<Rightarrow> container_request \<Rightarrow> (string, string) result \<times> docker_call list" where
  "create_helper_container daemon rq =
     (case check_container_request rq of
        Some e \<Rightarrow> (Inl e, [])
      | None \<Rightarrow>
          (let call = Create_Container (create_body_of rq)
           in (case accept ''docker: build create request: '' ''docker: create helper container: ''
                      ''docker: create helper container returned '' (daemon call) of
                 Inl e \<Rightarrow> Inl e
               | Inr (Inl e) \<Rightarrow> Inl (''docker: decode create response: '' @ e)
               | Inr (Inr i) \<Rightarrow> if i = [] then Inl ''docker: daemon returned no container id'' else Inr i,
               [call])))"

definition remove_container :: "(docker_call \<Rightarrow> unit http_reply) \<Rightarrow> string \<Rightarrow> string option \<times> docker_call list" where
  "remove_container daemon i =
     (let call = Delete (''/containers/'' @ i @ ''?force=true&v=true'')
      in (case daemon call of
            Not_Sent e \<Rightarrow> Some (''docker: build remove request: '' @ e)
          | No_Answer e \<Rightarrow> Some (''docker: remove container: '' @ e)
          | Answered code body _ \<Rightarrow>
              if code = 404 then None
              else if refused code then Some (''docker: remove container returned '' @ show_int code)
              else None,
          [call]))"

definition list_helper_containers :: "string list http_reply \<Rightarrow> (string, string list) result" where
  "list_helper_containers r = wrap_error ''docker: list helper containers: '' (get_json ''/containers/json'' r)"

text \<open>\<open>SelfImage\<close>: the host name, then the image tag and the image id the daemon has for it.\<close>

definition self_image :: "(string, string) result \<Rightarrow> (string \<Rightarrow> (string \<times> string) http_reply) \<Rightarrow> (string, string) result" where
  "self_image hostname inspect =
     (case hostname of
        Inl e \<Rightarrow> Inl (''docker: read hostname: '' @ e)
      | Inr h \<Rightarrow>
          (let path = ''/containers/'' @ h @ ''/json''
           in case get_json path (inspect path) of
                Inl e \<Rightarrow> Inl (''docker: inspect own container (is Back-Orbit running in Docker?): '' @ e)
              | Inr (tag, image_id) \<Rightarrow>
                  if tag \<noteq> [] then Inr tag
                  else if image_id \<noteq> [] then Inr image_id
                  else Inl ''docker: could not determine own image''))"

definition max_helper_output :: nat where
  "max_helper_output = 16 * 1024"

text \<open>\<open>containerLogs\<close>: the body as it was read, or the error of reading it.\<close>

definition container_logs :: "string http_reply \<Rightarrow> (string, string) result" where
  "container_logs r =
     (case r of
        Not_Sent e \<Rightarrow> Inl e
      | No_Answer e \<Rightarrow> Inl e
      | Answered code body raw \<Rightarrow>
          if refused code then Inl (''logs returned '' @ show_int code)
          else (case raw of Inl e \<Rightarrow> Inl e | Inr b \<Rightarrow> Inr (strip_frames [] (take max_helper_output b))))"

definition run_helper_container ::
  "(docker_call \<Rightarrow> int http_reply) \<Rightarrow> (docker_call \<Rightarrow> string http_reply) \<Rightarrow> string
   \<Rightarrow> (string, int \<times> string) result \<times> docker_call list" where
  "run_helper_container daemon log_of i =
     (let start = Post (''/containers/'' @ i @ ''/start''); wait = Post (''/containers/'' @ i @ ''/wait'');
          logs = Get (''/containers/'' @ i @ ''/logs?stderr=true&stdout=true'')
      in case accept ''docker: build start request: '' ''docker: start helper container: ''
              ''docker: start helper container returned '' (daemon start) of
           Inl e \<Rightarrow> (Inl e, [start])
         | Inr _ \<Rightarrow>
             (case accept ''docker: build wait request: '' ''docker: wait for helper container: ''
                     ''docker: wait returned '' (daemon wait) of
                Inl e \<Rightarrow> (Inl e, [start, wait])
              | Inr (Inl e) \<Rightarrow> (Inl (''docker: decode wait response: '' @ e), [start, wait])
              | Inr (Inr code) \<Rightarrow>
                  (Inr (code, case container_logs (log_of logs) of
                                Inl e \<Rightarrow> ''(logs unavailable: '' @ e @ '')''
                              | Inr text \<Rightarrow> text),
                   [start, wait, logs])))"

definition start_container :: "unit http_reply \<Rightarrow> string option" where
  "start_container r =
     (case accept ''docker: build start request: '' ''docker: start container: '' ''docker: start container returned '' r of
        Inl e \<Rightarrow> Some e | Inr _ \<Rightarrow> None)"

definition put_archive :: "unit http_reply \<Rightarrow> string option" where
  "put_archive r =
     (case accept ''docker: build upload request: '' ''docker: upload to container: '' ''docker: upload returned '' r of
        Inl e \<Rightarrow> Some e | Inr _ \<Rightarrow> None)"

definition container_archive :: "'a http_reply \<Rightarrow> (string, (string, 'a) result) result" where
  "container_archive r =
     accept ''docker: build archive request: '' ''docker: read container archive: '' ''docker: container archive returned '' r"

section \<open>Commands inside a container\<close>

record exec_options = exec_request +
  rq_user :: string
  rq_has_stdout :: bool

text \<open>What \<open>/exec/<id>/json\<close> says: a command that still runs has no exit code, a JSON null.\<close>

record exec_inspect =
  xi_exit_code :: "int option"
  xi_running :: bool

record exec_stream =
  xs_pieces :: "string list"
  xs_end :: read_end

record exec_host =
  xh_create :: "string \<Rightarrow> exec_body \<Rightarrow> string http_reply"
  xh_start :: "string \<Rightarrow> exec_stream http_reply"
  xh_connect :: "string option"
  xh_write_fault :: "string option"
  xh_answer :: "string \<Rightarrow> (string, int \<times> string \<times> (string \<Rightarrow> exec_stream)) result"
  xh_input_fault :: "string \<Rightarrow> string option"
  xh_inspect :: "string \<Rightarrow> exec_inspect http_reply"
  xh_stdout :: write_fault

definition exec_body_of :: "exec_options \<Rightarrow> exec_body" where
  "exec_body_of rq =
     \<lparr>eb_attach_stdin = (rq_stdin rq \<noteq> None), eb_cmd = rq_cmd rq,
      eb_user = (if rq_user rq = [] then None else Some (rq_user rq)),
      eb_env = (if rq_env rq = [] then None else Some (rq_env rq))\<rparr>"

definition create_exec :: "exec_host \<Rightarrow> string \<Rightarrow> exec_body \<Rightarrow> (string, string) result" where
  "create_exec h c body =
     (case accept ''docker: build exec request: '' ''docker: create exec: '' ''docker: create exec returned ''
             (xh_create h c body) of
        Inl e \<Rightarrow> Inl e
      | Inr (Inl e) \<Rightarrow> Inl (''docker: decode exec response: '' @ e)
      | Inr (Inr i) \<Rightarrow> if i = [] then Inl ''docker: daemon returned no exec id'' else Inr i)"

text \<open>The output of a stream: what reached standard output, and the error or the error output.\<close>

definition read_exec :: "exec_host \<Rightarrow> exec_stream \<Rightarrow> string \<times> (string, string) result" where
  "read_exec h s =
     (case demultiplex (xh_stdout h) (xs_pieces s) (xs_end s) [] [] of
        (out, err, f) \<Rightarrow>
          (out, case f of None \<Rightarrow> Inr err | Some e \<Rightarrow> Inl (''docker: read exec output: '' @ e)))"

definition start_exec :: "exec_host \<Rightarrow> string \<Rightarrow> string \<times> (string, string) result" where
  "start_exec h i =
     (case accept ''docker: build exec start: '' ''docker: start exec: '' ''docker: start exec returned '' (xh_start h i) of
        Inl e \<Rightarrow> ([], Inl e)
      | Inr (Inl e) \<Rightarrow> ([], Inl (''docker: read exec output: '' @ e))
      | Inr (Inr s) \<Rightarrow> read_exec h s)"

definition start_exec_with_stdin :: "endpoint \<Rightarrow> exec_host \<Rightarrow> string \<Rightarrow> string \<Rightarrow> string \<times> (string, string) result" where
  "start_exec_with_stdin ep h i input =
     (if ep_dial ep = None
      then ([], Inl ''docker: this Docker host does not support streaming input to a command'')
      else case xh_connect h of Some e \<Rightarrow> ([], Inl (''docker: connect for exec: '' @ e)) | None \<Rightarrow>
           case xh_write_fault h of Some e \<Rightarrow> ([], Inl (''docker: send exec request: '' @ e)) | None \<Rightarrow>
           case xh_answer h i of Inl e \<Rightarrow> ([], Inl (''docker: read exec response: '' @ e)) | Inr (code, detail, s) \<Rightarrow>
             if refused code
             then ([], Inl (''docker: exec start returned '' @ show_int code @ '': '' @ error_detail detail))
             else (case xh_input_fault h input of
                     Some e \<Rightarrow> ([], Inl (''docker: write command input: '' @ e))
                   | None \<Rightarrow> read_exec h (s input)))"

definition exec_exit_code :: "exec_host \<Rightarrow> string \<Rightarrow> (string, int) result" where
  "exec_exit_code h i =
     (case get_json (''/exec/'' @ i @ ''/json'') (xh_inspect h i) of
        Inl e \<Rightarrow> Inl (''docker: inspect exec: '' @ e)
      | Inr v \<Rightarrow> Inr (case xi_exit_code v of None \<Rightarrow> 0 | Some n \<Rightarrow> n))"

definition exec_failed :: "string \<Rightarrow> string \<Rightarrow> exec_reply" where
  "exec_failed out e = \<lparr>rp_stdout = out, rp_error = Some e, rp_code = 0, rp_stderr = []\<rparr>"

definition run_exec :: "endpoint \<Rightarrow> exec_host \<Rightarrow> string \<Rightarrow> string option \<Rightarrow> string \<times> (string, string) result" where
  "run_exec ep h i input = (case input of Some t \<Rightarrow> start_exec_with_stdin ep h i t | None \<Rightarrow> start_exec h i)"

definition exec_in_container :: "endpoint \<Rightarrow> exec_host \<Rightarrow> string \<Rightarrow> exec_options \<Rightarrow> exec_reply" where
  "exec_in_container ep h c rq =
     (if rq_cmd rq = [] then exec_failed [] ''docker: exec needs a command''
      else if \<not> rq_has_stdout rq then exec_failed [] ''docker: exec needs somewhere to put its output''
      else case create_exec h c (exec_body_of rq) of
             Inl e \<Rightarrow> exec_failed [] e
           | Inr i \<Rightarrow>
               (case run_exec ep h i (rq_stdin rq) of
                  (out, Inl e) \<Rightarrow> exec_failed out e
                | (out, Inr err) \<Rightarrow>
                    (case exec_exit_code h i of
                       Inl e \<Rightarrow> exec_failed out e
                     | Inr code \<Rightarrow> \<lparr>rp_stdout = out, rp_error = None, rp_code = code, rp_stderr = err\<rparr>)))"

definition container_env_value :: "string \<Rightarrow> string \<Rightarrow> string list http_reply \<Rightarrow> (string, string) result" where
  "container_env_value c key r =
     (case get_json (''/containers/'' @ c @ ''/json'') r of
        Inl e \<Rightarrow> Inl (''docker: inspect container: '' @ e)
      | Inr env \<Rightarrow>
          (case find (\<lambda>entry. has_prefix entry (key @ ''='')) env of
             None \<Rightarrow> Inr []
           | Some entry \<Rightarrow> Inr (trim_prefix entry (key @ ''=''))))"


section \<open>What a helper container may be\<close>

definition stays_out_of :: "string list \<Rightarrow> string \<Rightarrow> bool" where
  "stays_out_of forbidden source \<longleftrightarrow>
     path_segs source \<noteq> [] \<and> list_all (\<lambda>f. \<not> prefix (path_segs f) (path_segs source)) forbidden"

text \<open>
  What may be asked of the daemon, written out: the sockets and the kernel directories by name, as segments of
  the path after it was cleaned.
\<close>

definition helper_body_confined :: "container_request \<Rightarrow> create_body \<Rightarrow> bool" where
  "helper_body_confined rq b \<longleftrightarrow>
     cb_network_mode b = ''none'' \<and> \<not> cb_auto_remove b \<and> cb_helper_label b = cq_purpose rq \<and>
     cb_image b = cq_image rq \<and> cb_image b \<noteq> [] \<and> cb_env b = (if cq_env rq = [] then None else Some (cq_env rq)) \<and>
     cb_binds b = (if cq_source rq = [] then None
       else Some [cq_source rq @ '':'' @ cq_mount_path rq @ '':'' @ (if cq_writable rq then ''rw'' else ''ro'')]) \<and>
     (rooted (cq_source rq) \<longrightarrow> path_segs (cq_source rq) \<noteq> [] \<and>
       \<not> prefix [''var'', ''run'', ''docker.sock''] (path_segs (cq_source rq)) \<and>
       \<not> prefix [''run'', ''docker.sock''] (path_segs (cq_source rq)) \<and>
       \<not> prefix [''proc''] (path_segs (cq_source rq)) \<and> \<not> prefix [''sys''] (path_segs (cq_source rq)) \<and>
       \<not> prefix [''dev''] (path_segs (cq_source rq))) \<and>
     cb_entrypoint b = (if cq_server rq then None
                        else Some (if cq_command rq = [] then [''/bin/true''] else cq_command rq))"

fun helper_call_confined :: "container_request \<Rightarrow> docker_call \<Rightarrow> bool" where
  "helper_call_confined rq (Create_Container b) = helper_body_confined rq b"
| "helper_call_confined rq _ = False"

lemma names_or_holds_below:
  assumes "rooted s" "path_segs f \<noteq> []" "f = render_path True (path_segs f)" "prefix (path_segs f) (path_segs s)"
  shows "names_or_holds (path_clean s) f"
proof -
  obtain more where m: "path_segs s = path_segs f @ more" using assms(4) by (auto simp: prefix_def)
  show ?thesis
  proof (cases "more = []")
    case True
    then show ?thesis using assms(1,3) m by (simp add: names_or_holds_def path_clean_rooted)
  next
    case False
    have "path_clean s = f @ ''/'' @ join more ''/''"
      using path_clean_rooted[OF assms(1)] join_append[OF assms(2) False, of "''/''"] m assms(3)
      by (simp add: render_path_def)
    then show ?thesis by (simp add: names_or_holds_def has_prefix_def)
  qed
qed

lemma dangerous_clean:
  "list_all (\<lambda>f. path_segs f \<noteq> [] \<and> f = render_path True (path_segs f)) dangerous_bind_sources"
  by code_simp

lemma check_helper_source_ok:
  assumes "check_helper_source source = None" "rooted source"
  shows "stays_out_of dangerous_bind_sources source"
proof -
  have s: "has_prefix source ''/''" "source \<noteq> []" using assms(2) by (auto simp: rooted_def has_prefix_def)
  then have c: "path_clean source \<noteq> ''/''" "find (names_or_holds (path_clean source)) dangerous_bind_sources = None"
    using assms(1) by (auto simp: check_helper_source_def split: if_splits option.splits)
  then have n: "\<forall>f\<in>set dangerous_bind_sources. \<not> names_or_holds (path_clean source) f"
    by (auto simp: find_None_iff)
  have "path_segs source \<noteq> []" using c(1) assms(2) by (auto simp: path_clean_rooted render_path_def)
  moreover have "\<not> prefix (path_segs f) (path_segs source)" if "f \<in> set dangerous_bind_sources" for f
    using names_or_holds_below[OF assms(2), of f] dangerous_clean n that by (auto simp: list_all_iff)
  ultimately show ?thesis by (simp add: stays_out_of_def list_all_iff)
qed

lemma dangerous_segs:
  "map path_segs dangerous_bind_sources =
     [[''var'', ''run'', ''docker.sock''], [''run'', ''docker.sock''], [''proc''], [''sys''], [''dev'']]"
  by code_simp

lemma stays_out_written:
  assumes "stays_out_of dangerous_bind_sources source"
  shows "path_segs source \<noteq> [] \<and> (\<forall>f\<in>set [[''var'', ''run'', ''docker.sock''], [''run'', ''docker.sock''], [''proc''], [''sys''], [''dev'']].
    \<not> prefix f (path_segs source))"
  using assms unfolding dangerous_segs[symmetric] stays_out_of_def by (simp add: list_all_iff)

text \<open>C22. Whatever is asked for, and whatever the daemon answers: the only request sent creates a container
  without network that is labelled as a helper and mounts at most the one source it was asked for, for writing only
  when that was asked. However its path is spelled, a directory of the host that is mounted is neither the root nor
  at or below one of the two names of the Docker socket, \<open>/proc\<close>, \<open>/sys\<close> or \<open>/dev\<close>. The directories that
  hold the socket, \<open>/run\<close> and \<open>/var/run\<close>, are let through. The image's own entrypoint runs only when a server was asked for.\<close>

theorem helper_containers_confined:
  "list_all (helper_call_confined rq) (snd (create_helper_container daemon rq))"
proof (cases "check_container_request rq")
  case None
  then have "cq_image rq \<noteq> []" "check_helper_source (cq_source rq) = None"
    by (auto simp: check_container_request_def split: if_splits)
  moreover have "rooted (cq_source rq) \<longrightarrow> stays_out_of dangerous_bind_sources (cq_source rq)"
    using check_helper_source_ok[OF calculation(2)] by blast
  ultimately have "helper_body_confined rq (create_body_of rq)"
    using stays_out_written[of "cq_source rq"] by (simp add: helper_body_confined_def create_body_of_def bind_of_def)
  then show ?thesis using None by (simp add: create_helper_container_def Let_def)
qed (simp add: create_helper_container_def)

text \<open>The directories that hold the Docker socket are not on the list.\<close>

lemma socket_parent_accepted: "check_helper_source ''/var/run'' = None" "check_helper_source ''/run'' = None"
  by code_simp+

section \<open>What a command reports\<close>

definition finished :: "int \<Rightarrow> exec_inspect" where
  "finished n = \<lparr>xi_exit_code = Some n, xi_running = False\<rparr>"

definition still_running :: exec_inspect where
  "still_running = \<lparr>xi_exit_code = None, xi_running = True\<rparr>"

text \<open>
  A daemon that runs this command in this container: it is created by the request that carries exactly the command,
  the environment, the user and whether there is input; the output comes after the whole input where there is one,
  in whatever pieces, on a connection that ends cleanly.
\<close>

definition runs_command :: "endpoint \<Rightarrow> exec_host \<Rightarrow> string \<Rightarrow> exec_options \<Rightarrow> string \<Rightarrow> exec_inspect \<Rightarrow> bool" where
  "runs_command ep h c rq bytes v \<longleftrightarrow>
     rq_cmd rq \<noteq> [] \<and> rq_has_stdout rq \<and> xh_stdout h = no_fault \<and>
     (\<exists>i cs. i \<noteq> [] \<and> concat cs = bytes \<and>
        xh_create h c \<lparr>eb_attach_stdin = (rq_stdin rq \<noteq> None), eb_cmd = rq_cmd rq,
          eb_user = (if rq_user rq = [] then None else Some (rq_user rq)),
          eb_env = (if rq_env rq = [] then None else Some (rq_env rq))\<rparr> = Answered 201 [] (Inr i) \<and>
        (case rq_stdin rq of
           None \<Rightarrow> xh_start h i = Answered 200 [] (Inr \<lparr>xs_pieces = cs, xs_end = Read_EOF\<rparr>)
         | Some input \<Rightarrow>
             ep_dial ep \<noteq> None \<and> xh_connect h = None \<and> xh_write_fault h = None \<and> xh_input_fault h input = None \<and>
             (\<exists>s. xh_answer h i = Inr (101, [], s) \<and> s input = \<lparr>xs_pieces = cs, xs_end = Read_EOF\<rparr>)) \<and>
        xh_inspect h i = Answered 200 [] (Inr v))"

lemma exec_of_command:
  assumes "runs_command ep h c rq bytes v"
  shows "\<exists>cs. concat cs = bytes \<and>
    exec_in_container ep h c rq =
      (case demultiplex no_fault cs Read_EOF [] [] of
         (out, err, None) \<Rightarrow> \<lparr>rp_stdout = out, rp_error = None,
            rp_code = (case xi_exit_code v of None \<Rightarrow> 0 | Some n \<Rightarrow> n), rp_stderr = err\<rparr>
       | (out, err, Some e) \<Rightarrow> exec_failed out (''docker: read exec output: '' @ e))"
proof -
  from assms obtain i cs where d: "rq_cmd rq \<noteq> []" "rq_has_stdout rq" "xh_stdout h = no_fault" "i \<noteq> []" "concat cs = bytes"
    "xh_create h c (exec_body_of rq) = Answered 201 [] (Inr i)" "xh_inspect h i = Answered 200 [] (Inr v)"
    and how: "case rq_stdin rq of
           None \<Rightarrow> xh_start h i = Answered 200 [] (Inr \<lparr>xs_pieces = cs, xs_end = Read_EOF\<rparr>)
         | Some input \<Rightarrow>
             ep_dial ep \<noteq> None \<and> xh_connect h = None \<and> xh_write_fault h = None \<and> xh_input_fault h input = None \<and>
             (\<exists>s. xh_answer h i = Inr (101, [], s) \<and> s input = \<lparr>xs_pieces = cs, xs_end = Read_EOF\<rparr>)"
    unfolding runs_command_def exec_body_of_def by blast
  have made: "create_exec h c (exec_body_of rq) = Inr i" using d by (simp add: create_exec_def accept_def refused_def)
  have code: "exec_exit_code h i = Inr (case xi_exit_code v of None \<Rightarrow> 0 | Some n \<Rightarrow> n)"
    using d by (simp add: exec_exit_code_def get_json_def accept_def refused_def)
  have ran: "run_exec ep h i (rq_stdin rq) = read_exec h \<lparr>xs_pieces = cs, xs_end = Read_EOF\<rparr>"
    using how by (cases "rq_stdin rq") (auto simp: run_exec_def start_exec_def start_exec_with_stdin_def accept_def refused_def)
  obtain out err f where m: "demultiplex no_fault cs Read_EOF [] [] = (out, err, f)" by (cases "demultiplex no_fault cs Read_EOF [] []")
  show ?thesis
    using d(1,2,3,5) m by (intro exI[of _ cs]) (auto simp: exec_in_container_def made code ran read_exec_def split: option.split)
qed

definition sendable :: "frame list \<Rightarrow> bool" where
  "sendable fs \<longleftrightarrow> (\<forall>f\<in>set fs. fst f < 256 \<and> length (snd f) < 2 ^ 32) \<and> length (sent_on True fs) \<le> 16 * 1024"

lemma sendable_tame: "sendable fs \<Longrightarrow> \<forall>f\<in>set fs. tame_frame f"
proof
  fix f
  assume s: "sendable fs" and f: "f \<in> set fs"
  have "length (snd f) \<le> length (sent_on True fs)" if "fst f = 2"
    using f that by (auto simp: sent_on_def length_concat intro!: member_le_sum_list)
  then show "tame_frame f" using s f by (auto simp: sendable_def tame_frame_def max_exec_stderr_def)
qed

lemma exec_of_frames:
  assumes "runs_command ep h c rq (encode_frames fs) (finished n)" "sendable fs"
  shows "exec_in_container ep h c rq =
    \<lparr>rp_stdout = sent_on False fs, rp_error = None, rp_code = n, rp_stderr = sent_on True fs\<rparr>"
proof -
  obtain cs where cs: "concat cs = encode_frames fs" and e: "exec_in_container ep h c rq =
      (case demultiplex no_fault cs Read_EOF [] [] of
         (out, err, None) \<Rightarrow> \<lparr>rp_stdout = out, rp_error = None,
            rp_code = (case xi_exit_code (finished n) of None \<Rightarrow> 0 | Some n \<Rightarrow> n), rp_stderr = err\<rparr>
       | (out, err, Some e) \<Rightarrow> exec_failed out (''docker: read exec output: '' @ e))"
    using exec_of_command[OF assms(1)] by blast
  have "concat cs = take (length (encode_frames fs)) (encode_frames fs)" using cs by simp
  from demultiplex_prefix[OF sendable_tame[OF assms(2)] this, of "[]" "[]"]
  have "demultiplex no_fault cs Read_EOF [] [] = (sent_on False fs, sent_on True fs, None)" by auto
  then show ?thesis by (simp add: e finished_def)
qed

text \<open>C21. A command run in a container, with input or without: when the daemon creates exactly the requested command in
  that container, frames its output, in whatever pieces it arrives, and says how the command ended, the reply is
  exactly that: standard output complete and free of error text, the error output apart, and the exit code.
  This is for error output of at most the 16 KiB the client keeps; beyond that it is bounded.\<close>

theorem exec_round_trip:
  assumes "runs_command ep h c rq (encode_frames fs) (finished n)" "sendable fs"
  shows "exec_in_container ep h c rq =
    \<lparr>rp_stdout = sent_on False fs, rp_error = None, rp_code = n, rp_stderr = sent_on True fs\<rparr>"
  using assms by (rule exec_of_frames)

definition sample_frames :: "frame list" where
  "sample_frames = [(1, ''CREATE ''), (2, ''notice''), (1, []), (1, ''TABLE'')]"

definition sample_exec_host :: "string list \<Rightarrow> exec_inspect \<Rightarrow> exec_host" where
  "sample_exec_host cs v =
     \<lparr>xh_create = \<lambda>c body. Answered 201 [] (Inr ''e1''),
      xh_start = \<lambda>i. Answered 200 [] (Inr \<lparr>xs_pieces = cs, xs_end = Read_EOF\<rparr>),
      xh_connect = None, xh_write_fault = None, xh_answer = \<lambda>i. Inr (101, [], \<lambda>input. \<lparr>xs_pieces = cs, xs_end = Read_EOF\<rparr>), xh_input_fault = \<lambda>t. None,
      xh_inspect = \<lambda>i. Answered 200 [] (Inr v), xh_stdout = no_fault\<rparr>"

definition sample_exec :: exec_options where
  "sample_exec = \<lparr>rq_cmd = [''pg_dumpall''], rq_env = [], rq_stdin = None, rq_user = [], rq_has_stdout = True\<rparr>"

definition sample_load :: exec_options where
  "sample_load = \<lparr>rq_cmd = [''psql''], rq_env = [], rq_stdin = Some ''SELECT 1'', rq_user = [], rq_has_stdout = True\<rparr>"

definition sample_endpoint :: endpoint where
  "sample_endpoint = \<lparr>ep_dial = Some (Dial_Unix ''/run/docker.sock''), ep_base_url = ''http://docker'', ep_host = ''http://docker''\<rparr>"

lemma sample_runs_command:
  "concat cs = bytes \<Longrightarrow> rq_cmd rq \<noteq> [] \<Longrightarrow> rq_has_stdout rq \<Longrightarrow> runs_command sample_endpoint (sample_exec_host cs v) c rq bytes v"
  by (auto simp: runs_command_def sample_exec_host_def sample_endpoint_def split: option.split)

theorem exec_round_trip_witness:
  "exec_in_container sample_endpoint (sample_exec_host [take 5 (encode_frames sample_frames), drop 5 (encode_frames sample_frames)]
     (finished 3)) ''c1'' sample_load =
   \<lparr>rp_stdout = ''CREATE TABLE'', rp_error = None, rp_code = 3, rp_stderr = ''notice''\<rparr>"
proof -
  have s: "sent_on False sample_frames = ''CREATE TABLE''" "sent_on True sample_frames = ''notice''"
    by (simp_all add: sent_on_def sample_frames_def)
  have t: "sendable sample_frames" unfolding sendable_def s(2) by (simp add: sample_frames_def)
  have "runs_command sample_endpoint (sample_exec_host [take 5 (encode_frames sample_frames), drop 5 (encode_frames sample_frames)] (finished 3))
     ''c1'' sample_load (encode_frames sample_frames) (finished 3)"
    by (rule sample_runs_command) (simp_all add: sample_load_def)
  from exec_round_trip[OF this t] show ?thesis unfolding s .
qed

text \<open>
  A stream that ends cleanly in the middle while the command still runs is reported like a command that
  ended with exit code 0: the beginning of the output, no error.
\<close>

lemma cut_stream_accepted:
  assumes "runs_command ep h c rq (take k (encode_frames fs)) still_running" "\<forall>f\<in>set fs. tame_frame f"
  shows "rp_error (exec_in_container ep h c rq) = None \<and> rp_code (exec_in_container ep h c rq) = 0 \<and>
    prefix (rp_stdout (exec_in_container ep h c rq)) (sent_on False fs)"
proof -
  obtain cs where cs: "concat cs = take k (encode_frames fs)" and e: "exec_in_container ep h c rq =
      (case demultiplex no_fault cs Read_EOF [] [] of
         (out, err, None) \<Rightarrow> \<lparr>rp_stdout = out, rp_error = None,
            rp_code = (case xi_exit_code still_running of None \<Rightarrow> 0 | Some n \<Rightarrow> n), rp_stderr = err\<rparr>
       | (out, err, Some e) \<Rightarrow> exec_failed out (''docker: read exec output: '' @ e))"
    using exec_of_command[OF assms(1)] by blast
  from demultiplex_prefix[OF assms(2) cs, of "[]" "[]"] obtain out err where
    "demultiplex no_fault cs Read_EOF [] [] = (out, err, None)" "prefix out (sent_on False fs)" by auto
  then show ?thesis by (simp add: e still_running_def)
qed

text \<open>Error output of more than 16 KiB in one frame turns a finished command into a failed one.\<close>

lemma burst_fails_command:
  assumes "max_exec_stderr < length p" "length p \<le> copy_buffer"
  shows "rp_error (exec_in_container ep (sample_exec_host [encode_frame (2, p)] (finished 0)) c sample_exec) =
    Some (''docker: read exec output: '' @ short_write)"
  using stderr_burst_fails[OF assms, of no_fault Read_EOF "[]" "[]"]
  by (simp add: exec_in_container_def create_exec_def accept_def refused_def run_exec_def start_exec_def
      read_exec_def sample_exec_host_def sample_exec_def exec_failed_def)

section \<open>A dump through the client\<close>

text \<open>The exporters' commands carried by the client, to one container.\<close>

definition docker_world :: "endpoint \<Rightarrow> exec_host \<Rightarrow> string \<Rightarrow> dump_world \<Rightarrow> dump_world" where
  "docker_world ep h c w =
     w\<lparr>dw_exec := \<lambda>log rq. exec_in_container ep h c
         \<lparr>rq_cmd = rq_cmd rq, rq_env = rq_env rq, rq_stdin = rq_stdin rq, rq_user = [], rq_has_stdout = True\<rparr>\<rparr>"

text \<open>An export carried by the client: when the daemon frames the tool's output and reports how it
  ended, the export succeeds exactly when the tool exited with 0 and wrote something, and then the file in
  the staging tree is the tool's standard output, byte for byte; otherwise no file is left.\<close>

theorem dump_is_tool_output:
  assumes "runs_command ep h c \<lparr>rq_cmd = rq_cmd rq, rq_env = rq_env rq, rq_stdin = rq_stdin rq, rq_user = [], rq_has_stdout = True\<rparr>
      (encode_frames fs) (finished n)" "sendable fs"
    and "dw_open_fault w = None" "dw_sync_fault w = None" "dw_stat_fault w = None" "dw_remove_fault w = None"
  shows "(case run_export (docker_world ep h c w) rq tool redact absolute st of
            (Inr bytes, st') \<Rightarrow> n = 0 \<and> bytes = length (sent_on False fs) \<and> bytes > 0 \<and>
               map_of (dst_files st') absolute = Some (sent_on False fs)
          | (Inl e, st') \<Rightarrow> (n \<noteq> 0 \<or> sent_on False fs = []) \<and> map_of (dst_files st') absolute = None)"
proof -
  let ?rq = "\<lparr>rq_cmd = rq_cmd rq, rq_env = rq_env rq, rq_stdin = rq_stdin rq, rq_user = [], rq_has_stdout = True\<rparr>"
  have "exec_in_container ep h c ?rq =
      \<lparr>rp_stdout = sent_on False fs, rp_error = None, rp_code = n, rp_stderr = sent_on True fs\<rparr>"
    by (rule exec_of_frames[OF assms(1,2)])
  then show ?thesis using assms(3-6)
    by (auto simp: run_export_def docker_world_def exec_in_def Let_def remove_failed_dump_def update_conv' delete_conv')
qed

definition sample_dump_world :: dump_world where
  "sample_dump_world = \<lparr>dw_exec = \<lambda>log rq. exec_failed [] [], dw_mkdir_fault = None, dw_open_fault = None,
     dw_sync_fault = None, dw_stat_fault = None, dw_remove_fault = None\<rparr>"

theorem dump_is_tool_output_witness:
  "\<exists>st'. run_export (docker_world sample_endpoint (sample_exec_host [encode_frames sample_frames] (finished 0)) ''c1'' sample_dump_world)
     \<lparr>rq_cmd = [''pg_dumpall''], rq_env = [], rq_stdin = None\<rparr> ''pg_dumpall'' (\<lambda>s. s) ''/d.sql'' \<lparr>dst_files = [], dst_log = []\<rparr> =
     (Inr 12, st') \<and> map_of (dst_files st') ''/d.sql'' = Some ''CREATE TABLE''"
proof -
  have out: "sent_on False sample_frames = ''CREATE TABLE''" by (simp add: sent_on_def sample_frames_def)
  have "sent_on True sample_frames = ''notice''" by (simp add: sent_on_def sample_frames_def)
  then have t: "sendable sample_frames" by (simp add: sendable_def sample_frames_def)
  have "runs_command sample_endpoint (sample_exec_host [encode_frames sample_frames] (finished 0)) ''c1''
      \<lparr>rq_cmd = rq_cmd \<lparr>rq_cmd = [''pg_dumpall''], rq_env = [], rq_stdin = None\<rparr>, rq_env = rq_env \<lparr>rq_cmd = [''pg_dumpall''], rq_env = [], rq_stdin = None\<rparr>,
       rq_stdin = rq_stdin \<lparr>rq_cmd = [''pg_dumpall''], rq_env = [], rq_stdin = None\<rparr>, rq_user = [], rq_has_stdout = True\<rparr>
      (encode_frames sample_frames) (finished 0)"
    by (rule sample_runs_command) simp_all
  note p = dump_is_tool_output[OF this t, where w = sample_dump_world and tool = "''pg_dumpall''" and redact = "\<lambda>s. s"
      and absolute = "''/d.sql''" and st = "\<lparr>dst_files = [], dst_log = []\<rparr>"]
  have faults: "dw_open_fault sample_dump_world = None" "dw_sync_fault sample_dump_world = None"
    "dw_remove_fault sample_dump_world = None" "dw_stat_fault sample_dump_world = None" by (simp_all add: sample_dump_world_def)
  obtain r st' where e: "run_export (docker_world sample_endpoint (sample_exec_host [encode_frames sample_frames] (finished 0)) ''c1'' sample_dump_world)
     \<lparr>rq_cmd = [''pg_dumpall''], rq_env = [], rq_stdin = None\<rparr> ''pg_dumpall'' (\<lambda>s. s) ''/d.sql'' \<lparr>dst_files = [], dst_log = []\<rparr> = (r, st')"
    by fastforce
  have n: "length ''CREATE TABLE'' = 12" by simp
  show ?thesis
  proof (cases r)
    case (Inl err)
    then show ?thesis using p e by (simp add: out faults)
  next
    case (Inr bytes)
    then show ?thesis using p e by (simp only: out faults n) simp
  qed
qed

end
