(* ===== verification/Docker_Listing.thy ===== *)
theory Docker_Listing
  imports Docker_Client Go_Sort
begin

text \<open>
  Compose projects as the daemon's container, volume and network lists show them
  (\<open>internal/docker/client.go\<close>, \<open>wire.go\<close>). The map of projects under construction and the order in which
  their names were first seen are one list of projects.
\<close>

section \<open>Wire format\<close>

type_synonym labels = "(string \<times> string) list"

record mount_summary =
  ms_type :: string
  ms_name :: string
  ms_source :: string
  ms_destination :: string
  ms_rw :: bool

record container_summary =
  su_id :: string
  su_names :: "string list"
  su_image :: string
  su_image_id :: string
  su_created :: int
  su_state :: string
  su_status :: string
  su_labels :: labels
  su_mounts :: "mount_summary list"

definition label_of :: "labels \<Rightarrow> string \<Rightarrow> string" where
  "label_of ls k = (case map_of ls k of None \<Rightarrow> [] | Some v \<Rightarrow> v)"

definition label_project :: string where
  "label_project = ''com.docker.compose.project''"

definition label_service :: string where
  "label_service = ''com.docker.compose.service''"

definition label_working_dir :: string where
  "label_working_dir = ''com.docker.compose.project.working_dir''"

definition label_config_files :: string where
  "label_config_files = ''com.docker.compose.project.config_files''"

definition trim_leading_slash :: "string \<Rightarrow> string" where
  "trim_leading_slash s = (case s of [] \<Rightarrow> [] | c # cs \<Rightarrow> if c = CHR ''/'' then cs else s)"

definition to_mount_type :: "string \<Rightarrow> string" where
  "to_mount_type t = (if t \<in> {''volume'', ''bind'', ''tmpfs''} then t else ''other'')"

definition to_mount :: "mount_summary \<Rightarrow> mount" where
  "to_mount m = \<lparr>mnt_type = to_mount_type (ms_type m), mnt_name = ms_name m, mnt_source = ms_source m,
     mnt_destination = ms_destination m, mnt_read_only = (\<not> ms_rw m)\<rparr>"

definition to_container :: "container_summary \<Rightarrow> container" where
  "to_container cs =
     \<lparr>ctr_id = su_id cs,
      ctr_name = (case su_names cs of [] \<Rightarrow> su_id cs | n # _ \<Rightarrow> trim_leading_slash n),
      ctr_service = label_of (su_labels cs) label_service,
      ctr_image = su_image cs, ctr_image_id = su_image_id cs, ctr_state = su_state cs, ctr_status = su_status cs,
      ctr_created = su_created cs, ctr_labels = su_labels cs, ctr_mounts = map to_mount (su_mounts cs)\<rparr>"

definition split_config_files :: "string \<Rightarrow> string list" where
  "split_config_files v =
     (if v = [] then [] else filter (\<lambda>p. p \<noteq> []) (map trim_space (split_on CHR '','' v)))"

section \<open>Grouping\<close>

definition project_of :: "container_summary \<Rightarrow> string" where
  "project_of s = label_of (su_labels s) label_project"

definition new_project :: "container_summary \<Rightarrow> compose_project" where
  "new_project s =
     \<lparr>cp_name = project_of s, cp_working_dir = label_of (su_labels s) label_working_dir,
      cp_config_files = split_config_files (label_of (su_labels s) label_config_files),
      cp_containers = [], cp_volumes = [], cp_networks = []\<rparr>"

definition append_container :: "container_summary \<Rightarrow> compose_project \<Rightarrow> compose_project" where
  "append_container s p = p\<lparr>cp_containers := cp_containers p @ [to_container s]\<rparr>"

fun add_to_project :: "container_summary \<Rightarrow> compose_project list \<Rightarrow> compose_project list" where
  "add_to_project s [] = [append_container s (new_project s)]"
| "add_to_project s (p # ps) =
     (if cp_name p = project_of s then append_container s p # ps else p # add_to_project s ps)"

fun group_containers :: "container_summary list \<Rightarrow> compose_project list \<Rightarrow> compose_project list" where
  "group_containers [] ps = ps"
| "group_containers (s # ss) ps =
     (if project_of s = [] then group_containers ss ps else group_containers ss (add_to_project s ps))"

section \<open>Volumes and networks\<close>

fun volumes_by_name :: "volume list \<Rightarrow> (string \<times> volume) list \<Rightarrow> (string \<times> volume) list" where
  "volumes_by_name [] m = m"
| "volumes_by_name (v # vs) m = volumes_by_name vs (AList.update (vol_name v) v m)"

definition volume_mount :: "mount \<Rightarrow> bool" where
  "volume_mount m \<longleftrightarrow> mnt_type m = ''volume'' \<and> mnt_name m \<noteq> []"

definition referenced_volumes :: "container list \<Rightarrow> string list" where
  "referenced_volumes cs = remdups (map mnt_name (filter volume_mount (concat (map ctr_mounts cs))))"

definition fill_volumes :: "(string \<times> volume) list \<Rightarrow> compose_project \<Rightarrow> compose_project" where
  "fill_volumes known p =
     (let cs = sort_by (\<lambda>a b. str_less (ctr_name a) (ctr_name b)) (cp_containers p)
      in p\<lparr>cp_containers := cs,
           cp_volumes := sort_by (\<lambda>a b. str_less (vol_name a) (vol_name b))
             (cp_volumes p @ List.map_filter (map_of known) (referenced_volumes cs))\<rparr>)"

definition fill_networks :: "network list \<Rightarrow> compose_project \<Rightarrow> compose_project" where
  "fill_networks ns p =
     p\<lparr>cp_networks := sort_by (\<lambda>a b. str_less (net_name a) (net_name b)) (cp_networks p @ ns)\<rparr>"

fun complete_projects ::
  "(string \<times> volume) list \<Rightarrow> (string \<Rightarrow> network list http_reply) \<Rightarrow> compose_project list
   \<Rightarrow> (string, compose_project list) result" where
  "complete_projects known networks [] = Inr []"
| "complete_projects known networks (p # ps) =
     (case get_json ''/networks'' (networks (cp_name p)) of
        Inl e \<Rightarrow> Inl (''list networks for project '' @ [double_quote] @ cp_name p @ [double_quote] @ '': '' @ e)
      | Inr ns \<Rightarrow>
          bind_result (complete_projects known networks ps)
            (\<lambda>rest. Inr (fill_networks ns (fill_volumes known p) # rest)))"

record compose_replies =
  cr_containers :: "string \<Rightarrow> container_summary list http_reply"
  cr_volumes :: "volume list http_reply"
  cr_networks :: "string \<Rightarrow> network list http_reply"

text \<open>\<open>composeProjects\<close>: the filter is a label, or a label and its value.\<close>

definition compose_projects :: "compose_replies \<Rightarrow> string \<Rightarrow> (string, compose_project list) result" where
  "compose_projects r label_filter =
     (case get_json ''/containers/json'' (cr_containers r label_filter) of
        Inl e \<Rightarrow> Inl (''list containers: '' @ e)
      | Inr summaries \<Rightarrow>
          (let projects = group_containers summaries []
           in if projects = [] then Inr []
              else (case get_json ''/volumes'' (cr_volumes r) of
                      Inl e \<Rightarrow> Inl (''list volumes: '' @ e)
                    | Inr vs \<Rightarrow>
                        complete_projects (volumes_by_name vs []) (cr_networks r)
                          (sort_by (\<lambda>a b. str_less (cp_name a) (cp_name b)) projects))))"

definition list_compose_projects :: "compose_replies \<Rightarrow> (string, compose_project list) result" where
  "list_compose_projects r = compose_projects r label_project"

datatype lookup_error = Project_Not_Found | Lookup_Failed string

definition get_compose_project :: "compose_replies \<Rightarrow> string \<Rightarrow> (lookup_error, compose_project) result" where
  "get_compose_project r name =
     (case compose_projects r (label_project @ ''='' @ name) of
        Inl e \<Rightarrow> Inl (Lookup_Failed e)
      | Inr [] \<Rightarrow> Inl Project_Not_Found
      | Inr (p # _) \<Rightarrow> Inr p)"

section \<open>What the grouping computes\<close>

definition of_project :: "string \<Rightarrow> container_summary list \<Rightarrow> container_summary list" where
  "of_project name ss = filter (\<lambda>s. project_of s = name) ss"

text \<open>The project of a name, told without the loop: the first container gives its settings.\<close>

definition described :: "container_summary list \<Rightarrow> string \<Rightarrow> compose_project" where
  "described ss name = (new_project (hd (of_project name ss)))\<lparr>cp_containers := map to_container (of_project name ss)\<rparr>"

definition project_names :: "container_summary list \<Rightarrow> string list" where
  "project_names ss = remdups (filter (\<lambda>n. n \<noteq> []) (map project_of ss))"

definition grouped :: "container_summary list \<Rightarrow> compose_project list \<Rightarrow> bool" where
  "grouped seen ps \<longleftrightarrow> distinct (map cp_name ps) \<and> set (map cp_name ps) = set (map project_of seen) - {[]} \<and>
     (\<forall>p\<in>set ps. p = described seen (cp_name p))"

lemma of_project_snoc: "of_project n (ss @ [s]) = of_project n ss @ (if project_of s = n then [s] else [])"
  by (simp add: of_project_def)

lemma described_other: "project_of s \<noteq> n \<Longrightarrow> described (ss @ [s]) n = described ss n"
  by (simp add: described_def of_project_snoc)

lemma described_same:
  "project_of s = n \<Longrightarrow> of_project n ss \<noteq> [] \<Longrightarrow> described (ss @ [s]) n = append_container s (described ss n)"
  by (simp add: described_def of_project_snoc append_container_def)

lemma described_new: "of_project (project_of s) ss = [] \<Longrightarrow> described (ss @ [s]) (project_of s) = append_container s (new_project s)"
  by (simp add: described_def of_project_snoc append_container_def new_project_def)

lemma name_append_container [simp]: "cp_name (append_container s p) = cp_name p"
  by (simp add: append_container_def)

lemma name_new_project [simp]: "cp_name (new_project s) = project_of s"
  by (simp add: new_project_def)

lemma names_add_to_project:
  "map cp_name (add_to_project s ps) = append_new (project_of s) (map cp_name ps)"
  by (induction ps) (auto simp: append_new_def)

lemma add_to_project_mem:
  "distinct (map cp_name ps) \<Longrightarrow> p \<in> set (add_to_project s ps) \<Longrightarrow>
   (p \<in> set ps \<and> cp_name p \<noteq> project_of s) \<or>
   (\<exists>q\<in>set ps. cp_name q = project_of s \<and> p = append_container s q) \<or>
   (project_of s \<notin> set (map cp_name ps) \<and> p = append_container s (new_project s))"
proof (induction ps)
  case (Cons q ps)
  show ?case
  proof (cases "cp_name q = project_of s")
    case True
    then have "cp_name p \<noteq> project_of s" if "p \<in> set ps" using Cons.prems(1) that by force
    then show ?thesis using True Cons.prems(2) by auto
  next
    case False
    then show ?thesis using Cons by auto
  qed
qed simp

lemma of_project_seen: "of_project n ss = [] \<longleftrightarrow> n \<notin> set (map project_of ss)"
  by (auto simp: of_project_def filter_empty_conv)

lemma grouped_step:
  assumes "grouped seen ps" "project_of s \<noteq> []"
  shows "grouped (seen @ [s]) (add_to_project s ps)"
proof -
  have d: "distinct (map cp_name ps)" and n: "set (map cp_name ps) = set (map project_of seen) - {[]}"
    and e: "\<And>p. p \<in> set ps \<Longrightarrow> p = described seen (cp_name p)" using assms(1) unfolding grouped_def by blast+
  have "p = described (seen @ [s]) (cp_name p)" if p: "p \<in> set (add_to_project s ps)" for p
    using add_to_project_mem[OF d p]
  proof (elim disjE conjE bexE)
    assume "p \<in> set ps" "cp_name p \<noteq> project_of s"
    then show ?thesis using e described_other by metis
  next
    fix q assume q: "q \<in> set ps" "cp_name q = project_of s" "p = append_container s q"
    then have "project_of s \<in> set (map project_of seen)" using n by (metis DiffD1 image_eqI set_map)
    then have "of_project (project_of s) seen \<noteq> []" by (simp only: of_project_seen simp_thms)
    then show ?thesis using e[OF q(1)] q described_same[of s "project_of s" seen] by simp
  next
    assume "project_of s \<notin> set (map cp_name ps)" "p = append_container s (new_project s)"
    then show ?thesis using n assms(2) described_new[of s seen] of_project_seen[of "project_of s" seen] by auto
  qed
  moreover have "set (map cp_name (add_to_project s ps)) = set (map project_of (seen @ [s])) - {[]}"
    using n assms(2) by (auto simp: names_add_to_project)
  moreover have "distinct (map cp_name (add_to_project s ps))" using d by (simp add: names_add_to_project)
  ultimately show ?thesis unfolding grouped_def by blast
qed

lemma grouped_skip:
  assumes "grouped seen ps" "project_of s = []"
  shows "grouped (seen @ [s]) ps"
proof -
  have "p = described (seen @ [s]) (cp_name p)" if "p \<in> set ps" for p
  proof -
    have "cp_name p \<noteq> []" "p = described seen (cp_name p)" using assms(1) that unfolding grouped_def by auto
    then show ?thesis using described_other[of s "cp_name p" seen] assms(2) by metis
  qed
  then show ?thesis using assms unfolding grouped_def by auto
qed

lemma group_containers_grouped: "grouped seen ps \<Longrightarrow> grouped (seen @ ss) (group_containers ss ps)"
proof (induction ss arbitrary: seen ps)
  case (Cons s ss)
  then show ?case using grouped_step[of seen ps s] grouped_skip[of seen ps s] Cons.IH[of "seen @ [s]"] by auto
qed simp


text \<open>The listing told without its loops: every project name once, in order, each with what belongs to it.\<close>

fun traverse :: "('a \<Rightarrow> ('e, 'b) result) \<Rightarrow> 'a list \<Rightarrow> ('e, 'b list) result" where
  "traverse f [] = Inr []"
| "traverse f (x # xs) = bind_result (f x) (\<lambda>y. bind_result (traverse f xs) (\<lambda>ys. Inr (y # ys)))"

definition project_view ::
  "compose_replies \<Rightarrow> volume list \<Rightarrow> container_summary list \<Rightarrow> string \<Rightarrow> (string, compose_project) result" where
  "project_view r vs ss name =
     bind_result (wrap_error (''list networks for project '' @ [double_quote] @ name @ [double_quote] @ '': '')
         (get_json ''/networks'' (cr_networks r name)))
       (\<lambda>ns. Inr (fill_networks ns (fill_volumes (volumes_by_name vs []) (described ss name))))"

definition projects_view :: "compose_replies \<Rightarrow> string \<Rightarrow> (string, compose_project list) result" where
  "projects_view r label_filter =
     bind_result (wrap_error ''list containers: '' (get_json ''/containers/json'' (cr_containers r label_filter)))
       (\<lambda>ss. if unique_sorted (map project_of ss) = [] then Inr []
             else bind_result (wrap_error ''list volumes: '' (get_json ''/volumes'' (cr_volumes r)))
               (\<lambda>vs. traverse (project_view r vs ss) (unique_sorted (map project_of ss))))"

lemma sorted_groups:
  "sort_by (\<lambda>a b. str_less (cp_name a) (cp_name b)) (group_containers ss []) =
   map (described ss) (unique_sorted (map project_of ss))"
proof -
  let ?lt = "\<lambda>a b. str_less (cp_name a) (cp_name b)" and ?g = "group_containers ss []"
  let ?s = "sort_by ?lt ?g"
  have "grouped [] []" by (simp add: grouped_def)
  from group_containers_grouped[OF this, of ss] have g: "grouped ss ?g" by simp
  have mono: "ordered_by str_less (map cp_name xs)" if "ordered_by ?lt xs" for xs
    using that by (induction xs) auto
  have "map cp_name ?s = unique_sorted (map project_of ss)"
  proof (rule ordered_by_unique)
    show "ordered_by str_less (map cp_name ?s)" by (rule mono, rule ordered_sort_by, rule weak_order_str_less)
    show "ordered_by str_less (unique_sorted (map project_of ss))" by (rule ordered_unique_sorted)
    have "distinct (map cp_name ?s)" using g by (intro distinct_sort_by) (simp add: grouped_def)
    moreover have "set (map cp_name ?s) = set (unique_sorted (map project_of ss))" using g by (simp add: grouped_def)
    ultimately show "mset (map cp_name ?s) = mset (unique_sorted (map project_of ss))"
      using set_eq_iff_mset_eq_distinct distinct_unique_sorted by blast
  qed simp
  then have "map (described ss) (unique_sorted (map project_of ss)) = map (\<lambda>p. described ss (cp_name p)) ?s"
    by (metis map_map comp_apply map_eq_conv)
  also have "\<dots> = ?s" using g by (intro map_idI) (simp add: grouped_def)
  finally show ?thesis by simp
qed

lemma groups_empty: "group_containers ss [] = [] \<longleftrightarrow> unique_sorted (map project_of ss) = []"
  using sorted_groups[of ss] by (metis length_0_conv length_map length_sort_by)

lemma complete_projects_traverse:
  "complete_projects (volumes_by_name vs []) (cr_networks r) (map (described ss) names) = traverse (project_view r vs ss) names"
  if "\<forall>n\<in>set names. cp_name (described ss n) = n"
  using that
  by (induction names) (auto simp: project_view_def wrap_error_def split: sum.split)

lemma name_described: "n \<in> set (map project_of ss) \<Longrightarrow> cp_name (described ss n) = n"
proof -
  assume "n \<in> set (map project_of ss)"
  then have "of_project n ss \<noteq> []" by (simp only: of_project_seen simp_thms)
  then have "hd (of_project n ss) \<in> set (of_project n ss)" by simp
  then show ?thesis by (simp add: described_def of_project_def)
qed

text \<open>The loop computes the view, error by error.\<close>

lemma compose_projects_view: "compose_projects r label_filter = projects_view r label_filter"
proof (cases "get_json ''/containers/json'' (cr_containers r label_filter)")
  case (Inr ss)
  have "\<forall>n\<in>set (unique_sorted (map project_of ss)). cp_name (described ss n) = n"
    using name_described by fastforce
  from complete_projects_traverse[OF this] show ?thesis
    using Inr groups_empty[of ss]
    by (simp add: compose_projects_def projects_view_def wrap_error_def sorted_groups split: sum.split)
qed (simp add: compose_projects_def projects_view_def wrap_error_def)


lemma traverse_set: "traverse f xs = Inr ys \<Longrightarrow> y \<in> set ys \<Longrightarrow> \<exists>x\<in>set xs. f x = Inr y"
  by (induction xs arbitrary: ys) (auto simp: bind_result_eq_Inr)

lemma view_name: "project_view r vs ss n = Inr p \<Longrightarrow> cp_name p = cp_name (described ss n)"
  by (auto simp: project_view_def bind_result_eq_Inr fill_networks_def fill_volumes_def Let_def)

text \<open>A looked-up project carries the name asked for, provided the daemon honours the label filter.\<close>

lemma get_compose_project_name:
  assumes "get_compose_project r name = Inr p"
    and "cr_containers r (label_project @ ''='' @ name) = Answered code body (Inr ss)" "\<not> refused code"
    and "\<forall>s\<in>set ss. project_of s = name"
  shows "cp_name p = name"
proof -
  define fl where "fl = label_project @ ''='' @ name"
  have g: "get_json ''/containers/json'' (cr_containers r fl) = Inr ss"
    using assms(2,3) by (simp add: get_json_def accept_def fl_def)
  from assms(1) obtain ps where ps: "compose_projects r fl = Inr (p # ps)"
    unfolding get_compose_project_def fl_def[symmetric] by (auto split: sum.splits list.splits)
  from ps[unfolded compose_projects_view] obtain vs where
    "traverse (project_view r vs ss) (unique_sorted (map project_of ss)) = Inr (p # ps)"
    by (auto simp: projects_view_def g wrap_error_def bind_result_eq_Inr split: if_splits)
  from traverse_set[OF this, of p] obtain n where n: "n \<in> set (unique_sorted (map project_of ss))"
    "project_view r vs ss n = Inr p" by auto
  then have "n \<in> set (map project_of ss)" by simp
  then show ?thesis using view_name[OF n(2)] name_described[of n ss] assms(4) by auto
qed

end
