(* ===== verification/Repository_Locations.thy ===== *)
theory Repository_Locations
  imports Go_Files Go_Numbers
begin

text \<open>
  Where a local repository may live and what deleting its data removes
  (\<open>internal/repositories/locations.go\<close>, \<open>purge.go\<close>). Probing asks the file system through inputs, since
  permissions decide the answers; the deletion works on the modelled tree with its symbolic links.
\<close>

section \<open>Probing a directory\<close>

datatype probe_error = Absent | Denied | Not_A_Directory | Other_Error string

text \<open>The answers of \<open>os.Stat\<close> (whether it is a directory), of creating a probe file and of removing it.\<close>

record probe_world =
  pw_stat :: "string \<Rightarrow> (probe_error, bool) result"
  pw_create :: "string \<Rightarrow> probe_error option"
  pw_remove :: "string \<Rightarrow> probe_error option"
  pw_uid :: nat
  pw_cwd :: "(string, string) result"

partial_function (option) nearest_existing ::
  "(string \<Rightarrow> (probe_error, bool) result) \<Rightarrow> string \<Rightarrow> (probe_error, string) result option" where
  "nearest_existing stat current =
     (case stat current of
        Inr _ \<Rightarrow> Some (Inr current)
      | Inl e \<Rightarrow>
          if e \<noteq> Absent then Some (Inl e)
          else if path_dir current = current then Some (Inl Absent)
          else nearest_existing stat (path_dir current))"

declare nearest_existing.simps [code]

definition probe_dir :: "probe_world \<Rightarrow> string \<Rightarrow> probe_error option" where
  "probe_dir w target =
     (case pw_stat w target of
        Inl e \<Rightarrow> Some e
      | Inr False \<Rightarrow> Some Not_A_Directory
      | Inr True \<Rightarrow> (case pw_create w target of Some e \<Rightarrow> Some e | None \<Rightarrow> pw_remove w target))"

text \<open>\<open>probeWritable\<close>: the directory that was probed and the error.\<close>

definition probe_writable :: "probe_world \<Rightarrow> string \<Rightarrow> (string \<times> probe_error option) option" where
  "probe_writable w path =
     (case nearest_existing (pw_stat w) path of
        None \<Rightarrow> None
      | Some (Inl e) \<Rightarrow> Some (path, Some e)
      | Some (Inr target) \<Rightarrow> Some (target, probe_dir w target))"

fun describe_unwritable :: "probe_world \<Rightarrow> string \<Rightarrow> probe_error \<Rightarrow> string" where
  "describe_unwritable w path Denied = ''Back-Orbit cannot write to '' @ path @ ''. It runs as uid '' @ show_nat (pw_uid w) @
     '', so that directory, or the volume mounted at it, has to be writable by that user''"
| "describe_unwritable w path Absent = path @
     '' does not exist and neither does any directory above it, so nothing is mounted there''"
| "describe_unwritable w path Not_A_Directory = path @ '' exists but is not a directory''"
| "describe_unwritable w path (Other_Error e) = path @ '' is not usable: '' @ e"

section \<open>Locations\<close>

definition clean_abs :: "probe_world \<Rightarrow> string \<Rightarrow> string" where
  "clean_abs w path =
     (if path = [] then []
      else if rooted path then path_clean path
      else case pw_cwd w of Inl _ \<Rightarrow> path_clean path | Inr wd \<Rightarrow> path_join [wd, path])"

definition within_or_equal :: "string \<Rightarrow> string \<Rightarrow> bool" where
  "within_or_equal child parent \<longleftrightarrow> child = parent \<or> has_prefix child (parent @ ''/'')"

record locations =
  lo_data_dir :: string
  lo_backup_dir :: string

definition new_locations :: "probe_world \<Rightarrow> string \<Rightarrow> string \<Rightarrow> locations" where
  "new_locations w data_dir backup_dir = \<lparr>lo_data_dir = clean_abs w data_dir, lo_backup_dir = clean_abs w backup_dir\<rparr>"

datatype location_error = Inside_Data_Dir string | Contains_Data_Dir string | Not_Writable string

definition refuse_inside_data_dir :: "probe_world \<Rightarrow> locations \<Rightarrow> string \<Rightarrow> location_error option" where
  "refuse_inside_data_dir w l path =
     (if lo_data_dir l = [] then None
      else let p = clean_abs w path in
           if within_or_equal p (lo_data_dir l) then Some (Inside_Data_Dir p)
           else if within_or_equal (lo_data_dir l) p then Some (Contains_Data_Dir p)
           else None)"

definition alternative_hint :: "locations \<Rightarrow> string" where
  "alternative_hint l =
     (if lo_backup_dir l = [] then ''Mount a writable directory into the container and use a path inside it.''
      else ''Use a path inside '' @ lo_backup_dir l @ '', which your deployment provides for backups.'')"

text \<open>\<open>validateLocalPath\<close>; \<open>None\<close> outside would mean that the search for an existing directory does not end.\<close>

definition validate_local_path :: "probe_world \<Rightarrow> locations \<Rightarrow> string \<Rightarrow> location_error option option" where
  "validate_local_path w l path =
     (case refuse_inside_data_dir w l path of
        Some e \<Rightarrow> Some (Some e)
      | None \<Rightarrow>
          (case probe_writable w (clean_abs w path) of
             None \<Rightarrow> None
           | Some (probed, None) \<Rightarrow> Some None
           | Some (probed, Some e) \<Rightarrow>
               Some (Some (Not_Writable (describe_unwritable w probed e @ ''. '' @ alternative_hint l)))))"

record suggestion =
  sg_path :: string
  sg_writable :: bool
  sg_detail :: string
  sg_recommended :: bool

definition suggest_locations :: "probe_world \<Rightarrow> locations \<Rightarrow> suggestion list option" where
  "suggest_locations w l =
     (if lo_backup_dir l = [] then Some []
      else map_option (\<lambda>(probed, e). case e of
             Some err \<Rightarrow> [\<lparr>sg_path = lo_backup_dir l, sg_writable = False, sg_detail = describe_unwritable w probed err,
                          sg_recommended = True\<rparr>]
           | None \<Rightarrow> [\<lparr>sg_path = lo_backup_dir l, sg_writable = True, sg_detail = [], sg_recommended = True\<rparr>])
        (probe_writable w (lo_backup_dir l)))"

section \<open>Deleting a repository's data\<close>

datatype purge_error = Resolve_Failed fs_error | Not_A_Repository string | Delete_Failed string

definition max_eval_links :: nat where
  "max_eval_links = 255"

definition eval_symlinks :: "file_system \<Rightarrow> string \<Rightarrow> (fs_error, string list) result" where
  "eval_symlinks fs path =
     (case walk max_eval_links fs True [] (split_on CHR ''/'' path) of
        Inl e \<Rightarrow> Inl e
      | Inr q \<Rightarrow> (case node_at fs q of None \<Rightarrow> Inl Not_Exist | Some _ \<Rightarrow> Inr q))"

definition is_empty_dir :: "file_system \<Rightarrow> string list \<Rightarrow> bool" where
  "is_empty_dir fs q \<longleftrightarrow> \<not> list_ex (\<lambda>(p, n). strict_prefix q p) (fs_nodes fs)"

definition verify_restic_layout :: "file_system \<Rightarrow> string list \<Rightarrow> purge_error option" where
  "verify_restic_layout fs q =
     (case stat_node fs True (q @ [''config'']) of
        Inl _ \<Rightarrow> Some (Not_A_Repository ''config'')
      | Inr Directory \<Rightarrow> Some (Not_A_Repository ''config'')
      | Inr _ \<Rightarrow>
          (case stat_node fs True (q @ [''keys'']) of
             Inr Directory \<Rightarrow> None
           | _ \<Rightarrow> Some (Not_A_Repository ''keys'')))"

text \<open>\<open>os.RemoveAll\<close>: everything, or the entries it got to before it failed.\<close>

definition remove_all :: "(string \<times> (string list \<Rightarrow> bool)) option \<Rightarrow> string list \<Rightarrow> file_system \<Rightarrow> string option \<times> file_system" where
  "remove_all fault q fs =
     (case fault of
        None \<Rightarrow> (None, fs\<lparr>fs_nodes := filter (\<lambda>(p, n). \<not> prefix q p) (fs_nodes fs)\<rparr>)
      | Some (e, kept) \<Rightarrow> (Some e, fs\<lparr>fs_nodes := filter (\<lambda>(p, n). prefix q p \<longrightarrow> kept p) (fs_nodes fs)\<rparr>))"

definition purge_local_repository :: "(string \<times> (string list \<Rightarrow> bool)) option \<Rightarrow> string \<Rightarrow> file_system
    \<Rightarrow> (purge_error, bool) result \<times> file_system" where
  "purge_local_repository fault path fs =
     (case eval_symlinks fs path of
        Inl Not_Exist \<Rightarrow> (Inr False, fs)
      | Inl e \<Rightarrow> (Inl (Resolve_Failed e), fs)
      | Inr q \<Rightarrow>
          if node_at fs q \<noteq> Some Directory then (Inl (Not_A_Repository ''directory''), fs)
          else (let empty = is_empty_dir fs q
                in case (if empty then None else verify_restic_layout fs q) of
                     Some e \<Rightarrow> (Inl e, fs)
                   | None \<Rightarrow>
                       (case remove_all fault q fs of
                          (Some e, fs') \<Rightarrow> (Inl (Delete_Failed e), fs')
                        | (None, fs') \<Rightarrow> (Inr (\<not> empty), fs'))))"

section \<open>The search upwards ends\<close>

lemma render_snoc: "xs \<noteq> [] \<Longrightarrow> render_path True (xs @ [x]) = render_path True xs @ CHR ''/'' # x"
  by (simp add: render_path_def join_append)

lemma path_dir_render:
  assumes "\<forall>s\<in>set (xs @ [x]). normal_seg s"
  shows "path_dir (render_path True (xs @ [x])) = render_path True xs"
proof (cases "xs = []")
  case True
  have "CHR ''/'' \<notin> set x" using assms by (simp add: normal_seg_def)
  then have "last_index_char CHR ''/'' (CHR ''/'' # x) = Some 0" using last_index_char_append[of "CHR ''/''" x "[]"] by simp
  then show ?thesis using True by (simp add: path_dir_def render_path_def path_clean_def path_segs_def)
next
  case False
  have "CHR ''/'' \<notin> set x" using assms by (simp add: normal_seg_def)
  then have l: "last_index_char CHR ''/'' (render_path True (xs @ [x])) = Some (length (render_path True xs))"
    unfolding render_snoc[OF False] by (rule last_index_char_append)
  have "path_segs (render_path True xs @ ''/'') = xs"
    using path_segs_append[of "render_path True xs" "[]"] path_segs_render assms by simp
  then have "path_clean (render_path True xs @ ''/'') = render_path True xs"
    by (simp add: path_clean_def) (simp add: render_path_def)
  then show ?thesis using l by (simp add: path_dir_def render_snoc[OF False])
qed

lemma path_dir_root: "path_dir (render_path True []) = render_path True []"
  by (simp add: render_path_def) code_simp

text \<open>What the search finds from a clean path: the nearest ancestor that exists, or the error that stopped it.\<close>

lemma nearest_from_segs:
  assumes "\<forall>s\<in>set segs. normal_seg s"
  shows "(\<exists>e. nearest_existing stat (render_path True segs) = Some (Inl e)) \<or>
    (\<exists>k \<le> length segs. nearest_existing stat (render_path True segs) = Some (Inr (render_path True (take k segs))) \<and>
      is_ok (stat (render_path True (take k segs))) \<and>
      (\<forall>j. k < j \<and> j \<le> length segs \<longrightarrow> stat (render_path True (take j segs)) = Inl Absent))"
  using assms
proof (induction segs rule: rev_induct)
  case Nil
  then show ?case
    by (cases "stat (render_path True [])") (auto simp: nearest_existing.simps[of stat "render_path True []"] path_dir_root)
next
  case (snoc x xs)
  have normal: "\<forall>s\<in>set xs. normal_seg s" using snoc.prems by simp
  have up: "path_dir (render_path True (xs @ [x])) = render_path True xs" by (rule path_dir_render[OF snoc.prems])
  have other: "render_path True xs \<noteq> render_path True (xs @ [x])" using render_path_inj[OF normal snoc.prems] by simp
  show ?case
  proof (cases "stat (render_path True (xs @ [x]))")
    case (Inr d)
    then show ?thesis
      by (intro disjI2 exI[of _ "length (xs @ [x])"]) (auto simp: nearest_existing.simps[of stat "render_path True (xs @ [x])"])
  next
    case (Inl e)
    show ?thesis
    proof (cases "e = Absent")
      case True
      then have step: "nearest_existing stat (render_path True (xs @ [x])) = nearest_existing stat (render_path True xs)"
        using Inl other up by (simp add: nearest_existing.simps[of stat "render_path True (xs @ [x])"])
      from snoc.IH[OF normal] show ?thesis
      proof (elim disjE exE conjE)
        fix e assume "nearest_existing stat (render_path True xs) = Some (Inl e)"
        then show ?thesis using step by auto
      next
        fix k assume k: "k \<le> length xs" "nearest_existing stat (render_path True xs) = Some (Inr (render_path True (take k xs)))"
          "is_ok (stat (render_path True (take k xs)))"
          "\<forall>j. k < j \<and> j \<le> length xs \<longrightarrow> stat (render_path True (take j xs)) = Inl Absent"
        have "stat (render_path True (take j (xs @ [x]))) = Inl Absent" if "k < j" "j \<le> length (xs @ [x])" for j
          using k(4) that Inl True by (cases "j \<le> length xs") auto
        then show ?thesis using k(1-3) step by (intro disjI2 exI[of _ k]) auto
      qed
    next
      case False
      then show ?thesis using Inl by (simp add: nearest_existing.simps[of stat "render_path True (xs @ [x])"])
    qed
  qed
qed


definition nearest_ancestor :: "(string \<Rightarrow> (probe_error, bool) result) \<Rightarrow> string \<Rightarrow> string \<Rightarrow> bool" where
  "nearest_ancestor stat q p \<longleftrightarrow>
     (\<exists>k \<le> length (path_segs p). q = render_path True (take k (path_segs p)) \<and> is_ok (stat q) \<and>
        (\<forall>j. k < j \<and> j \<le> length (path_segs p) \<longrightarrow> stat (render_path True (take j (path_segs p))) = Inl Absent))"


definition only_srv :: "string \<Rightarrow> (probe_error, bool) result" where
  "only_srv p = (if p \<in> {''/'', ''/srv''} then Inr True else Inl Absent)"

definition sample_probe :: probe_world where
  "sample_probe = \<lparr>pw_stat = only_srv, pw_create = \<lambda>_. None, pw_remove = \<lambda>_. None, pw_uid = 1000, pw_cwd = Inr ''/app''\<rparr>"


section \<open>What a deletion can reach\<close>

lemma map_of_filter_key: "map_of (filter (\<lambda>(p, n). P p) xs) p = (if P p then map_of xs p else None)"
  by (induction xs) auto

lemma node_at_filter:
  "node_at (fs\<lparr>fs_nodes := filter (\<lambda>(p, n). P p) (fs_nodes fs)\<rparr>) p =
   (if p = [] then Some Directory else if P p then node_at fs p else None)"
  by (simp add: node_at_def map_of_filter_key)

text \<open>The directory a deletion may remove: what the location resolves to, if it is empty or looks like a repository.\<close>

definition purgeable :: "file_system \<Rightarrow> string \<Rightarrow> string list \<Rightarrow> bool" where
  "purgeable fs path q \<longleftrightarrow>
     eval_symlinks fs path = Inr q \<and> node_at fs q = Some Directory \<and>
     (is_empty_dir fs q \<or> verify_restic_layout fs q = None)"

lemma purge_cases:
  obtains (refused) e where "purge_local_repository fault path fs = (Inl e, fs)"
  | (nothing) "purge_local_repository fault path fs = (Inr False, fs)" "eval_symlinks fs path = Inl Not_Exist"
  | (failed) q e kept where "fault = Some (e, kept)" "purgeable fs path q"
      "purge_local_repository fault path fs =
         (Inl (Delete_Failed e), fs\<lparr>fs_nodes := filter (\<lambda>(p, n). prefix q p \<longrightarrow> kept p) (fs_nodes fs)\<rparr>)"
  | (removed) q where "purgeable fs path q"
      "purge_local_repository fault path fs =
         (Inr (\<not> is_empty_dir fs q), fs\<lparr>fs_nodes := filter (\<lambda>(p, n). \<not> prefix q p) (fs_nodes fs)\<rparr>)"
proof (cases "eval_symlinks fs path")
  case (Inl e)
  show thesis
  proof (cases "e = Not_Exist")
    case True
    then have "purge_local_repository fault path fs = (Inr False, fs)" "eval_symlinks fs path = Inl Not_Exist"
      using Inl by (simp_all add: purge_local_repository_def)
    then show thesis by (rule that(2))
  next
    case False
    then show thesis using Inl by (intro refused[of "Resolve_Failed e"]) (cases e; simp add: purge_local_repository_def)
  qed
next
  case (Inr q)
  show thesis
  proof (cases "node_at fs q = Some Directory \<and> (is_empty_dir fs q \<or> verify_restic_layout fs q = None)")
    case True
    then have "purgeable fs path q" using Inr by (simp add: purgeable_def)
    then show thesis using True Inr failed removed
      by (cases fault) (auto simp: purge_local_repository_def remove_all_def Let_def)
  next
    case False
    then have "\<exists>e. purge_local_repository fault path fs = (Inl e, fs)"
      using Inr by (cases "verify_restic_layout fs q") (auto simp: purge_local_repository_def Let_def)
    then show thesis using that(1) by blast
  qed
qed

text \<open>
  Deleting changes nothing outside the directory the location resolves to, and nothing at all unless that
  directory is empty or has restic's config file and keys directory; when it reports success the
  directory is gone, and it says that data was deleted exactly when there was any.
\<close>

lemma purge_effect:
  "case purge_local_repository fault path fs of (r, fs') \<Rightarrow>
     (\<forall>p. node_at fs' p = node_at fs p \<or> (\<exists>q. purgeable fs path q \<and> prefix q p)) \<and>
     (case r of
        Inl e \<Rightarrow> True
      | Inr deleted \<Rightarrow>
          (fs' = fs \<and> \<not> deleted \<and> eval_symlinks fs path = Inl Not_Exist) \<or>
          (\<exists>q. purgeable fs path q \<and> deleted = (\<not> is_empty_dir fs q) \<and>
             list_all (\<lambda>(p, n). \<not> prefix q p) (fs_nodes fs')))"
proof (cases rule: purge_cases[of fault path fs])
  case (failed q e kept)
  have "node_at (fs\<lparr>fs_nodes := filter (\<lambda>(p, n). prefix q p \<longrightarrow> kept p) (fs_nodes fs)\<rparr>) p = node_at fs p \<or> prefix q p" for p
    by (simp add: node_at_filter) (simp add: node_at_def)
  then show ?thesis using failed by auto
next
  case (removed q)
  have "node_at (fs\<lparr>fs_nodes := filter (\<lambda>(p, n). \<not> prefix q p) (fs_nodes fs)\<rparr>) p = node_at fs p \<or> prefix q p" for p
    by (simp add: node_at_filter) (simp add: node_at_def)
  moreover have "list_all (\<lambda>(p, n). \<not> prefix q p) (filter (\<lambda>(p, n). \<not> prefix q p) xs)" for xs :: "(string list \<times> file_node) list"
    by (auto simp: list_all_iff)
  ultimately show ?thesis using removed by auto
qed auto

lemma purge_reaches:
  "node_at (snd (purge_local_repository fault path fs)) p = node_at fs p \<or> (\<exists>q. purgeable fs path q \<and> prefix q p)"
  using purge_effect[of fs path fault] by (cases "purge_local_repository fault path fs") auto

lemma purge_says:
  "purge_local_repository fault path fs = (Inr b, fs') \<Longrightarrow> purgeable fs path q \<Longrightarrow> b = (\<not> is_empty_dir fs q)"
  using purge_effect[of fs path fault] by (auto simp: purgeable_def)

section \<open>What the checks miss\<close>

definition sample_locations :: locations where
  "sample_locations = \<lparr>lo_data_dir = ''/data'', lo_backup_dir = ''/backups''\<rparr>"

text \<open>The separator is appended to a root that already ends in one, so the root contains nothing.\<close>

lemma root_contains_nothing: "refuse_inside_data_dir sample_probe sample_locations ''/'' = None"
  by code_simp

definition linked_disk :: file_system where
  "linked_disk =
     \<lparr>fs_nodes = [([''data''], Directory), ([''backups''], Directory), ([''data'', ''r''], Directory),
        ([''data'', ''r'', ''config''], Regular 0), ([''data'', ''r'', ''keys''], Directory),
        ([''backups'', ''main''], Symlink ''/data/r'')],
      fs_data = [(0, ''x'')], fs_next = 1\<rparr>"

text \<open>The data directory is compared with the location as written; the deletion follows the link.\<close>

lemma linked_location_deleted:
  "refuse_inside_data_dir sample_probe sample_locations ''/backups/main'' = None"
  "let (r, fs') = purge_local_repository None ''/backups/main'' linked_disk
   in r = Inr True \<and> node_at fs' [''data'', ''r''] = None \<and> node_at fs' [''backups'', ''main''] = Some (Symlink ''/data/r'')"
  by code_simp+

end
