(* ===== verification/Secret_Crypto.thy ===== *)
theory Secret_Crypto
  imports Go_Strings "HOL-Library.Word"
begin

text \<open>
  The wrapper around key derivation and authenticated encryption (\<open>internal/crypto/crypto.go\<close>).
  Argon2id, XChaCha20-Poly1305 and the random source are outside the program and are parameters;
  what the code relies on is stated as \<open>ideal_crypto\<close>. Random bytes are numbered by the draw.
\<close>

section \<open>Primitives\<close>

record kdf_params =
  kp_time_cost :: "32 word"
  kp_memory_kib :: "32 word"
  kp_parallelism :: "8 word"

record crypto_world =
  cw_argon2 :: "string \<Rightarrow> string \<Rightarrow> kdf_params \<Rightarrow> string"
  cw_seal :: "string \<Rightarrow> string \<Rightarrow> string \<Rightarrow> string \<Rightarrow> string"
  cw_open :: "string \<Rightarrow> string \<Rightarrow> string \<Rightarrow> string \<Rightarrow> string option"
  cw_random :: "nat \<Rightarrow> nat \<Rightarrow> (string, string) result"

datatype crypto_error = Decrypt_Failed | Short_Salt | Weak_Params string | Bad_Key_Length nat | No_Random string

definition key_size :: nat where "key_size = 32"

definition nonce_size :: nat where "nonce_size = 24"

definition salt_size :: nat where "salt_size = 16"

definition default_kdf_params :: kdf_params where
  "default_kdf_params = \<lparr>kp_time_cost = 4, kp_memory_kib = 256 * 1024, kp_parallelism = 4\<rparr>"

definition validate_params :: "kdf_params \<Rightarrow> crypto_error option" where
  "validate_params p =
     (if kp_time_cost p < 1 then Some (Weak_Params ''time cost'')
      else if kp_memory_kib p < 8 * 1024 then Some (Weak_Params ''memory cost'')
      else if kp_parallelism p < 1 then Some (Weak_Params ''parallelism'')
      else None)"

definition derive_key :: "crypto_world \<Rightarrow> string \<Rightarrow> string \<Rightarrow> kdf_params \<Rightarrow> (crypto_error, string) result" where
  "derive_key cw passphrase salt params =
     (if length salt < salt_size then Inl Short_Salt
      else case validate_params params of Some e \<Rightarrow> Inl e | None \<Rightarrow> Inr (cw_argon2 cw passphrase salt params))"

definition random_bytes :: "crypto_world \<Rightarrow> nat \<Rightarrow> nat \<Rightarrow> (crypto_error, string) result" where
  "random_bytes cw draw n = (case cw_random cw draw n of Inl e \<Rightarrow> Inl (No_Random e) | Inr b \<Rightarrow> Inr b)"

definition new_salt :: "crypto_world \<Rightarrow> nat \<Rightarrow> (crypto_error, string) result" where
  "new_salt cw draw = random_bytes cw draw salt_size"

definition new_key :: "crypto_world \<Rightarrow> nat \<Rightarrow> (crypto_error, string) result" where
  "new_key cw draw = random_bytes cw draw key_size"

definition check_key :: "string \<Rightarrow> crypto_error option" where
  "check_key key = (if length key \<noteq> key_size then Some (Bad_Key_Length (length key)) else None)"

text \<open>\<open>Seal\<close>: the ciphertext and the fresh nonce.\<close>

definition seal :: "crypto_world \<Rightarrow> nat \<Rightarrow> string \<Rightarrow> string \<Rightarrow> string \<Rightarrow> (crypto_error, string \<times> string) result" where
  "seal cw draw key plaintext aad =
     (case check_key key of
        Some e \<Rightarrow> Inl e
      | None \<Rightarrow> bind_result (random_bytes cw draw nonce_size) (\<lambda>nonce. Inr (cw_seal cw key nonce aad plaintext, nonce)))"

definition unseal :: "crypto_world \<Rightarrow> string \<Rightarrow> string \<Rightarrow> string \<Rightarrow> string \<Rightarrow> (crypto_error, string) result" where
  "unseal cw key ciphertext nonce aad =
     (case check_key key of
        Some e \<Rightarrow> Inl e
      | None \<Rightarrow>
          if length nonce \<noteq> nonce_size then Inl Decrypt_Failed
          else (case cw_open cw key nonce aad ciphertext of None \<Rightarrow> Inl Decrypt_Failed | Some p \<Rightarrow> Inr p))"

section \<open>What the code relies on\<close>

text \<open>
  Opening gives back what was sealed, and fails for any other key or associated data; derivation
  gives keys of the right size and tells the passphrases in \<open>P\<close> apart; random reads are complete.
\<close>

definition ideal_crypto :: "string set \<Rightarrow> crypto_world \<Rightarrow> bool" where
  "ideal_crypto P cw \<longleftrightarrow>
     (\<forall>key nonce aad p. cw_open cw key nonce aad (cw_seal cw key nonce aad p) = Some p) \<and>
     (\<forall>key nonce aad p key' aad'. (key', aad') \<noteq> (key, aad) \<longrightarrow> cw_open cw key' nonce aad' (cw_seal cw key nonce aad p) = None) \<and>
     (\<forall>pass salt params. length (cw_argon2 cw pass salt params) = key_size) \<and>
     (\<forall>pass\<in>P. \<forall>pass'\<in>P. \<forall>salt params. cw_argon2 cw pass salt params = cw_argon2 cw pass' salt params \<longrightarrow> pass = pass') \<and>
     (\<forall>draw n b. cw_random cw draw n = Inr b \<longrightarrow> length b = n)"

lemma default_params_valid [simp]: "validate_params default_kdf_params = None"
  by (simp add: validate_params_def default_kdf_params_def word_less_nat_alt)

lemma derive_key_ok:
  "derive_key cw pass salt params = Inr k \<longleftrightarrow>
   salt_size \<le> length salt \<and> validate_params params = None \<and> k = cw_argon2 cw pass salt params"
  by (auto simp: derive_key_def split: option.split)

lemma random_bytes_length: "ideal_crypto P cw \<Longrightarrow> random_bytes cw draw n = Inr b \<Longrightarrow> length b = n"
  by (auto simp: random_bytes_def ideal_crypto_def split: sum.splits)

lemma seal_ok:
  assumes "ideal_crypto P cw" "seal cw draw key p aad = Inr (c, nonce)"
  shows "c = cw_seal cw key nonce aad p \<and> length nonce = nonce_size \<and> length key = key_size"
  using assms random_bytes_length[OF assms(1)]
  by (auto simp: seal_def check_key_def bind_result_eq_Inr split: if_splits)

lemma unseal_sealed:
  assumes "ideal_crypto P cw" "length key = key_size" "length nonce = nonce_size"
  shows "unseal cw key (cw_seal cw key nonce aad p) nonce aad = Inr p"
  using assms by (simp add: unseal_def check_key_def ideal_crypto_def)

lemma unseal_other:
  assumes "ideal_crypto P cw" "length key' = key_size" "(key', aad') \<noteq> (key, aad)"
  shows "unseal cw key' (cw_seal cw key nonce aad p) nonce aad' = Inl Decrypt_Failed"
  using assms by (auto simp: unseal_def check_key_def ideal_crypto_def)

lemma argon2_length: "ideal_crypto P cw \<Longrightarrow> length (cw_argon2 cw pass salt params) = key_size"
  by (simp add: ideal_crypto_def)

lemma argon2_other:
  "ideal_crypto P cw \<Longrightarrow> pass \<in> P \<Longrightarrow> pass' \<in> P \<Longrightarrow> pass \<noteq> pass' \<Longrightarrow>
   cw_argon2 cw pass salt params \<noteq> cw_argon2 cw pass' salt params"
  unfolding ideal_crypto_def by blast

section \<open>A concrete instance\<close>

text \<open>Not secret at all, but it meets every law: a ciphertext names its key and its context.\<close>

definition pad_key :: "string \<Rightarrow> string" where
  "pad_key p = (if length p < key_size then p @ CHR ''!'' # replicate (key_size - length p - 1) CHR '' '' else take key_size p)"

definition tally :: "string \<Rightarrow> string" where
  "tally s = replicate (length s) CHR ''x'' @ CHR ''.'' # s"

definition plain_crypto :: crypto_world where
  "plain_crypto =
     \<lparr>cw_argon2 = \<lambda>pass salt params. pad_key pass,
      cw_seal = \<lambda>key nonce aad p. tally key @ tally aad @ p,
      cw_open = \<lambda>key nonce aad c. (if prefix (tally key @ tally aad) c then Some (drop (length (tally key @ tally aad)) c) else None),
      cw_random = \<lambda>draw n. Inr (take n (show_nat draw @ replicate n CHR ''r''))\<rparr>"

definition short_passphrases :: "string set" where
  "short_passphrases = {p. length p < key_size \<and> CHR ''!'' \<notin> set p}"

lemma tally_prefix: "prefix (tally a @ x) (tally b @ y) \<Longrightarrow> a = b \<and> prefix x y"
proof -
  assume p: "prefix (tally a @ x) (tally b @ y)"
  have *: "takeWhile (\<lambda>c. c = CHR ''x'') (replicate n CHR ''x'' @ CHR ''.'' # z) = replicate n CHR ''x''" for n :: nat and z
    by (induction n) auto
  from p obtain r where r: "tally b @ y = (tally a @ x) @ r" by (auto simp: prefix_def)
  then have "takeWhile (\<lambda>c. c = CHR ''x'') (tally b @ y) = takeWhile (\<lambda>c. c = CHR ''x'') (tally a @ x @ r)" by simp
  then have "length b = length a" by (simp add: tally_def * del: takeWhile_append)
  then show ?thesis using p by (auto simp: tally_def prefix_def)
qed

lemma pad_key_prefix: "length p < key_size \<Longrightarrow> CHR ''!'' \<notin> set p \<Longrightarrow> takeWhile (\<lambda>c. c \<noteq> CHR ''!'') (pad_key p) = p"
  by (simp add: pad_key_def takeWhile_append takeWhile_all_not)

lemma plain_crypto_ideal: "ideal_crypto short_passphrases plain_crypto"
  unfolding ideal_crypto_def
proof (intro conjI allI impI ballI)
  fix key nonce aad p key' aad' :: string
  assume "(key', aad') \<noteq> (key, aad)"
  then have "\<not> prefix (tally key' @ tally aad') (tally key @ tally aad @ p)"
    using tally_prefix[of key' "tally aad'" key "tally aad @ p"] tally_prefix[of aad' "[]" aad p] by auto
  then show "cw_open plain_crypto key' nonce aad' (cw_seal plain_crypto key nonce aad p) = None"
    by (simp add: plain_crypto_def)
next
  fix pass pass' salt :: string and params
  assume "pass \<in> short_passphrases" "pass' \<in> short_passphrases"
    "cw_argon2 plain_crypto pass salt params = cw_argon2 plain_crypto pass' salt params"
  then show "pass = pass'" using pad_key_prefix by (simp add: plain_crypto_def short_passphrases_def) metis
qed (auto simp: plain_crypto_def pad_key_def prefix_def)

end
