(* ===== verification/Secret_Store.thy ===== *)
theory Secret_Store
  imports Secret_Crypto Go_Sort "HOL-Library.AList"
begin

text \<open>
  The encrypted secret store (\<open>internal/secrets/store.go\<close>, \<open>unattended.go\<close>). The two tables are the
  key record and a list of rows; the unwrapped data key in memory is \<open>None\<close> while the store is
  locked. Faults of the database, identifiers and the clock are inputs of each call.
\<close>

section \<open>Data\<close>

record key_record =
  kr_salt :: string
  kr_params :: kdf_params
  kr_wrapped :: string
  kr_nonce :: string
  kr_version :: int

record secret_row =
  se_id :: string
  se_kind :: string
  se_name :: string
  se_ciphertext :: string
  se_nonce :: string
  se_version :: int
  se_created :: string
  se_updated :: string

record secret_metadata =
  sm_id :: string
  sm_kind :: string
  sm_name :: string
  sm_version :: int
  sm_created :: string
  sm_updated :: string

record secret_store =
  ss_record :: "key_record option"
  ss_rows :: "secret_row list"
  ss_dek :: "string option"
  ss_version :: int
  ss_draws :: nat

datatype secret_error =
  Store_Locked
| Not_Initialized
| Already_Initialized
| Invalid_Passphrase
| Secret_Not_Found
| Invalid_Kind
| Passphrase_Too_Short
| Empty_Name
| Crypto_Failed crypto_error
| Database_Failed string string
| Not_Decrypted string string crypto_error
| No_Key_File
| Key_File_Unreadable string
| Key_File_Is_Directory
| Key_File_Too_Large
| Key_File_Shared nat
| Key_File_Empty

text \<open>The faults of one call: by statement, and for the updates of a rotation by their index.\<close>

record secret_call =
  sc_fault :: "string \<Rightarrow> string option"
  sc_update_fault :: "nat \<Rightarrow> string option"
  sc_new_id :: string
  sc_now :: string

definition known_kinds :: "string list" where
  "known_kinds = [''system'', ''repository'', ''database'', ''notification'', ''project'']"

definition valid_kind :: "string \<Rightarrow> bool" where
  "valid_kind k \<longleftrightarrow> k \<in> set known_kinds"

definition minimum_passphrase_length :: nat where
  "minimum_passphrase_length = 12"

definition dek_associated_data :: "int \<Rightarrow> string" where
  "dek_associated_data version = ''back-orbit/dek/v'' @ show_int version"

definition secret_associated_data :: "string \<Rightarrow> string \<Rightarrow> string \<Rightarrow> string" where
  "secret_associated_data i kind name = ''back-orbit/secret/'' @ i @ ''/'' @ kind @ ''/'' @ name"

definition new_store :: secret_store where
  "new_store = \<lparr>ss_record = None, ss_rows = [], ss_dek = None, ss_version = 0, ss_draws = 0\<rparr>"

section \<open>Reading the tables\<close>

definition sql :: "secret_call \<Rightarrow> string \<Rightarrow> ('a \<Rightarrow> (secret_error, 'b) result) \<Rightarrow> 'a \<Rightarrow> (secret_error, 'b) result" where
  "sql c what f x = (case sc_fault c what of Some e \<Rightarrow> Inl (Database_Failed what e) | None \<Rightarrow> f x)"

definition lift_crypto :: "(crypto_error, 'a) result \<Rightarrow> (secret_error, 'a) result" where
  "lift_crypto r = (case r of Inl e \<Rightarrow> Inl (Crypto_Failed e) | Inr a \<Rightarrow> Inr a)"

definition is_initialized :: "secret_call \<Rightarrow> secret_store \<Rightarrow> (secret_error, bool) result" where
  "is_initialized c st = sql c ''check initialisation'' Inr (ss_record st \<noteq> None)"

definition is_unlocked :: "secret_store \<Rightarrow> bool" where
  "is_unlocked st \<longleftrightarrow> ss_dek st \<noteq> None"

definition load_key_record :: "secret_call \<Rightarrow> secret_store \<Rightarrow> (secret_error, key_record) result" where
  "load_key_record c st =
     sql c ''read key material'' (\<lambda>r. case r of None \<Rightarrow> Inl Not_Initialized | Some k \<Rightarrow> Inr k) (ss_record st)"

definition current_key :: "secret_store \<Rightarrow> (secret_error, string \<times> int) result" where
  "current_key st = (case ss_dek st of None \<Rightarrow> Inl Store_Locked | Some k \<Rightarrow> Inr (k, ss_version st))"

definition addressed :: "string \<Rightarrow> string \<Rightarrow> secret_row \<Rightarrow> bool" where
  "addressed kind name r \<longleftrightarrow> se_kind r = kind \<and> se_name r = name"

definition find_row :: "secret_call \<Rightarrow> string \<Rightarrow> string \<Rightarrow> string \<Rightarrow> secret_store \<Rightarrow> (secret_error, secret_row) result" where
  "find_row c what kind name st =
     sql c what (\<lambda>rows. case find (addressed kind name) rows of None \<Rightarrow> Inl Secret_Not_Found | Some r \<Rightarrow> Inr r)
       (ss_rows st)"

definition metadata_of :: "secret_row \<Rightarrow> secret_metadata" where
  "metadata_of r = \<lparr>sm_id = se_id r, sm_kind = se_kind r, sm_name = se_name r, sm_version = se_version r,
     sm_created = se_created r, sm_updated = se_updated r\<rparr>"

definition metadata_before :: "secret_metadata \<Rightarrow> secret_metadata \<Rightarrow> bool" where
  "metadata_before a b \<longleftrightarrow> str_less (sm_kind a) (sm_kind b) \<or> (sm_kind a = sm_kind b \<and> str_less (sm_name a) (sm_name b))"

definition list_secrets :: "secret_call \<Rightarrow> secret_store \<Rightarrow> (secret_error, secret_metadata list) result" where
  "list_secrets c st = sql c ''list secrets'' (\<lambda>rows. Inr (sort_by metadata_before (map metadata_of rows))) (ss_rows st)"

section \<open>Passphrase and key\<close>

text \<open>The data key a passphrase unwraps; a failure is always an invalid passphrase.\<close>

definition unwrap_dek :: "crypto_world \<Rightarrow> key_record \<Rightarrow> string \<Rightarrow> (secret_error, string) result" where
  "unwrap_dek cw kek_record kek =
     (case unseal cw kek (kr_wrapped kek_record) (kr_nonce kek_record) (dek_associated_data (kr_version kek_record)) of
        Inl _ \<Rightarrow> Inl Invalid_Passphrase
      | Inr dek \<Rightarrow> Inr dek)"

definition open_record :: "crypto_world \<Rightarrow> secret_call \<Rightarrow> secret_store \<Rightarrow> string
    \<Rightarrow> (secret_error, key_record \<times> string \<times> string) result" where
  "open_record cw c st passphrase =
     bind_result (load_key_record c st) (\<lambda>r.
     bind_result (lift_crypto (derive_key cw passphrase (kr_salt r) (kr_params r))) (\<lambda>kek.
     bind_result (unwrap_dek cw r kek) (\<lambda>dek. Inr (r, kek, dek))))"

definition initialize_store :: "crypto_world \<Rightarrow> secret_call \<Rightarrow> string \<Rightarrow> secret_store
    \<Rightarrow> (secret_error, unit) result \<times> secret_store" where
  "initialize_store cw c passphrase st =
     (if length passphrase < minimum_passphrase_length then (Inl Passphrase_Too_Short, st)
      else case is_initialized c st of
        Inl e \<Rightarrow> (Inl e, st)
      | Inr True \<Rightarrow> (Inl Already_Initialized, st)
      | Inr False \<Rightarrow>
          (let made = bind_result (lift_crypto (new_salt cw (ss_draws st))) (\<lambda>salt.
                bind_result (lift_crypto (derive_key cw passphrase salt default_kdf_params)) (\<lambda>kek.
                bind_result (lift_crypto (new_key cw (Suc (ss_draws st)))) (\<lambda>dek.
                bind_result (lift_crypto (seal cw (Suc (Suc (ss_draws st))) kek dek (dek_associated_data 1))) (\<lambda>(wrapped, nonce).
                  Inr (dek, \<lparr>kr_salt = salt, kr_params = default_kdf_params, kr_wrapped = wrapped, kr_nonce = nonce,
                             kr_version = 1\<rparr>)))));
               st1 = st\<lparr>ss_draws := ss_draws st + 3\<rparr>
           in case made of
                Inl e \<Rightarrow> (Inl e, st1)
              | Inr (dek, r) \<Rightarrow>
                  (case sc_fault c ''persist key material'' of
                     Some e \<Rightarrow> (Inl (Database_Failed ''persist key material'' e), st1)
                   | None \<Rightarrow> (Inr (), st1\<lparr>ss_record := Some r, ss_dek := Some dek, ss_version := 1\<rparr>))))"

definition unlock_store :: "crypto_world \<Rightarrow> secret_call \<Rightarrow> string \<Rightarrow> secret_store
    \<Rightarrow> (secret_error, unit) result \<times> secret_store" where
  "unlock_store cw c passphrase st =
     (case open_record cw c st passphrase of
        Inl e \<Rightarrow> (Inl e, st)
      | Inr (r, kek, dek) \<Rightarrow> (Inr (), st\<lparr>ss_dek := Some dek, ss_version := kr_version r\<rparr>))"

definition lock_store :: "secret_store \<Rightarrow> secret_store" where
  "lock_store st = st\<lparr>ss_dek := None, ss_version := 0\<rparr>"

text \<open>Changing the passphrase: what is written is computed first, then written in one statement.\<close>

definition rewrap :: "crypto_world \<Rightarrow> secret_call \<Rightarrow> string \<Rightarrow> string \<Rightarrow> secret_store
    \<Rightarrow> (secret_error, string \<times> kdf_params \<times> string \<times> string) result" where
  "rewrap cw c current next_pass st =
     (if length next_pass < minimum_passphrase_length then Inl Passphrase_Too_Short
      else bind_result (open_record cw c st current) (\<lambda>(r, kek, dek).
           bind_result (lift_crypto (new_salt cw (ss_draws st))) (\<lambda>salt.
           bind_result (lift_crypto (derive_key cw next_pass salt default_kdf_params)) (\<lambda>new_kek.
           bind_result (lift_crypto (seal cw (Suc (ss_draws st)) new_kek dek (dek_associated_data (kr_version r))))
             (\<lambda>(wrapped, nonce). Inr (salt, default_kdf_params, wrapped, nonce))))))"

definition store_wrapped :: "secret_call \<Rightarrow> string \<times> kdf_params \<times> string \<times> string \<Rightarrow> secret_store
    \<Rightarrow> (secret_error, unit) result \<times> secret_store" where
  "store_wrapped c = (\<lambda>(salt, params, wrapped, nonce) st.
     case sc_fault c ''rewrap key'' of
       Some e \<Rightarrow> (Inl (Database_Failed ''rewrap key'' e), st)
     | None \<Rightarrow> (Inr (), st\<lparr>ss_record := map_option
         (\<lambda>r. r\<lparr>kr_salt := salt, kr_params := params, kr_wrapped := wrapped, kr_nonce := nonce\<rparr>) (ss_record st)\<rparr>))"

definition change_passphrase :: "crypto_world \<Rightarrow> secret_call \<Rightarrow> string \<Rightarrow> string \<Rightarrow> secret_store
    \<Rightarrow> (secret_error, unit) result \<times> secret_store" where
  "change_passphrase cw c current next_pass st =
     (let st1 = st\<lparr>ss_draws := ss_draws st + 2\<rparr>
      in case rewrap cw c current next_pass st of
           Inl e \<Rightarrow> (Inl e, st1)
         | Inr w \<Rightarrow> store_wrapped c w st1)"

section \<open>Secrets\<close>

text \<open>\<open>INSERT \<dots> ON CONFLICT (id) DO UPDATE\<close> under the unique index on kind and name.\<close>

definition rewrite_row :: "secret_row \<Rightarrow> secret_row \<Rightarrow> secret_row" where
  "rewrite_row new r =
     (if se_id r = se_id new
      then r\<lparr>se_ciphertext := se_ciphertext new, se_nonce := se_nonce new, se_version := se_version new,
             se_updated := se_updated new\<rparr>
      else r)"

definition upsert_row :: "secret_row \<Rightarrow> secret_row list \<Rightarrow> (string, secret_row list) result" where
  "upsert_row new rows =
     (if se_id new \<in> set (map se_id rows) then Inr (map (rewrite_row new) rows)
      else if list_ex (addressed (se_kind new) (se_name new)) rows
      then Inl ''UNIQUE constraint failed: secrets.type, secrets.name''
      else Inr (rows @ [new]))"

definition write_secret :: "crypto_world \<Rightarrow> secret_call \<Rightarrow> string \<Rightarrow> string \<Rightarrow> string \<Rightarrow> string \<Rightarrow> string \<Rightarrow> int \<Rightarrow> string
    \<Rightarrow> secret_store \<Rightarrow> (secret_error, secret_metadata) result \<times> secret_store" where
  "write_secret cw c i kind name value dek version created st =
     (let st1 = st\<lparr>ss_draws := Suc (ss_draws st)\<rparr>
      in case seal cw (ss_draws st) dek value (secret_associated_data i kind name) of
           Inl e \<Rightarrow> (Inl (Crypto_Failed e), st1)
         | Inr (ciphertext, nonce) \<Rightarrow>
             (let row = \<lparr>se_id = i, se_kind = kind, se_name = name, se_ciphertext = ciphertext, se_nonce = nonce,
                         se_version = version, se_created = created, se_updated = sc_now c\<rparr>
              in case sc_fault c ''write secret'' of
                   Some e \<Rightarrow> (Inl (Database_Failed ''write secret'' e), st1)
                 | None \<Rightarrow>
                     (case upsert_row row (ss_rows st1) of
                        Inl e \<Rightarrow> (Inl (Database_Failed ''write secret'' e), st1)
                      | Inr rows \<Rightarrow> (Inr (metadata_of row), st1\<lparr>ss_rows := rows\<rparr>))))"

text \<open>The row a value is put into: the existing one, or a new one.\<close>

definition put_with_key :: "crypto_world \<Rightarrow> secret_call \<Rightarrow> string \<times> int \<Rightarrow> string \<Rightarrow> string \<Rightarrow> string \<Rightarrow> secret_store
    \<Rightarrow> (secret_error, secret_metadata) result \<times> secret_store" where
  "put_with_key cw c = (\<lambda>(dek, version) kind name value st.
     (case find_row c ''read secret metadata'' kind name st of
        Inr r \<Rightarrow> write_secret cw c (se_id r) kind name value dek version (se_created r) st
      | Inl Secret_Not_Found \<Rightarrow> write_secret cw c (sc_new_id c) kind name value dek version (sc_now c) st
      | Inl e \<Rightarrow> (Inl e, st)))"

definition put_secret :: "crypto_world \<Rightarrow> secret_call \<Rightarrow> string \<Rightarrow> string \<Rightarrow> string \<Rightarrow> secret_store
    \<Rightarrow> (secret_error, secret_metadata) result \<times> secret_store" where
  "put_secret cw c kind name value st =
     (if \<not> valid_kind kind then (Inl Invalid_Kind, st)
      else if name = [] then (Inl Empty_Name, st)
      else case current_key st of
             Inl e \<Rightarrow> (Inl e, st)
           | Inr k \<Rightarrow> put_with_key cw c k kind name value st)"

definition get_secret :: "crypto_world \<Rightarrow> secret_call \<Rightarrow> string \<Rightarrow> string \<Rightarrow> secret_store \<Rightarrow> (secret_error, string) result" where
  "get_secret cw c kind name st =
     (case current_key st of
        Inl e \<Rightarrow> Inl e
      | Inr (dek, version) \<Rightarrow>
          (case find_row c ''read secret'' kind name st of
             Inl e \<Rightarrow> Inl e
           | Inr r \<Rightarrow>
               (case unseal cw dek (se_ciphertext r) (se_nonce r) (secret_associated_data (se_id r) kind name) of
                  Inl e \<Rightarrow> Inl (Not_Decrypted kind name e)
                | Inr v \<Rightarrow> Inr v)))"

definition delete_secret :: "secret_call \<Rightarrow> string \<Rightarrow> string \<Rightarrow> secret_store \<Rightarrow> (secret_error, unit) result \<times> secret_store" where
  "delete_secret c kind name st =
     (case sc_fault c ''delete secret'' of
        Some e \<Rightarrow> (Inl (Database_Failed ''delete secret'' e), st)
      | None \<Rightarrow> (Inr (), st\<lparr>ss_rows := filter (\<lambda>r. \<not> addressed kind name r) (ss_rows st)\<rparr>))"

section \<open>Rotation\<close>

text \<open>The rows read in the transaction, re-encrypted one by one: identifier, ciphertext and nonce.\<close>

fun reencrypt_rows :: "crypto_world \<Rightarrow> string \<Rightarrow> string \<Rightarrow> nat \<Rightarrow> secret_row list
    \<Rightarrow> (secret_error, (string \<times> string \<times> string) list) result" where
  "reencrypt_rows cw old new draw [] = Inr []"
| "reencrypt_rows cw old new draw (r # rs) =
     (let aad = secret_associated_data (se_id r) (se_kind r) (se_name r)
      in case unseal cw old (se_ciphertext r) (se_nonce r) aad of
           Inl e \<Rightarrow> Inl (Not_Decrypted (se_kind r) (se_name r) e)
         | Inr plaintext \<Rightarrow>
             bind_result (lift_crypto (seal cw draw new plaintext aad)) (\<lambda>(ciphertext, nonce).
             bind_result (reencrypt_rows cw old new (Suc draw) rs) (\<lambda>rest. Inr ((se_id r, ciphertext, nonce) # rest))))"

definition refresh_row :: "int \<Rightarrow> string \<Rightarrow> string \<times> string \<times> string \<Rightarrow> secret_row \<Rightarrow> secret_row" where
  "refresh_row version now = (\<lambda>(i, ciphertext, nonce) r.
     if se_id r = i
     then r\<lparr>se_ciphertext := ciphertext, se_nonce := nonce, se_version := version, se_updated := now\<rparr>
     else r)"

fun apply_updates :: "secret_call \<Rightarrow> int \<Rightarrow> nat \<Rightarrow> (string \<times> string \<times> string) list \<Rightarrow> secret_row list
    \<Rightarrow> (secret_error, secret_row list) result" where
  "apply_updates c version k [] rows = Inr rows"
| "apply_updates c version k (u # us) rows =
     (case sc_update_fault c k of
        Some e \<Rightarrow> Inl (Database_Failed ''rewrite secret during rotation'' e)
      | None \<Rightarrow> apply_updates c version (Suc k) us (map (refresh_row version (sc_now c) u) rows))"

text \<open>What the transaction leaves behind when it commits: the rows, the key record and the new key.\<close>

definition rotation :: "crypto_world \<Rightarrow> secret_call \<Rightarrow> string \<Rightarrow> secret_store
    \<Rightarrow> (secret_error, secret_row list \<times> key_record \<times> string) result" where
  "rotation cw c passphrase st =
     bind_result (open_record cw c st passphrase) (\<lambda>(r, kek, old).
     bind_result (lift_crypto (new_key cw (ss_draws st))) (\<lambda>new.
     bind_result (sql c ''begin rotation'' Inr ()) (\<lambda>_.
     bind_result (sql c ''read secrets for rotation'' Inr ()) (\<lambda>_.
     bind_result (reencrypt_rows cw old new (Suc (ss_draws st)) (ss_rows st)) (\<lambda>updates.
     bind_result (sql c ''iterate secrets for rotation'' Inr ()) (\<lambda>_.
     bind_result (apply_updates c (kr_version r + 1) 0 updates (ss_rows st)) (\<lambda>rows.
     bind_result (lift_crypto (seal cw (Suc (ss_draws st + length (ss_rows st))) kek new (dek_associated_data (kr_version r + 1))))
       (\<lambda>(wrapped, nonce).
     bind_result (sql c ''store rotated key'' Inr ()) (\<lambda>_.
     bind_result (sql c ''commit rotation'' Inr ()) (\<lambda>_.
       Inr (rows, r\<lparr>kr_wrapped := wrapped, kr_nonce := nonce, kr_version := kr_version r + 1\<rparr>, new)))))))))))"

definition rotate_data_key :: "crypto_world \<Rightarrow> secret_call \<Rightarrow> string \<Rightarrow> secret_store
    \<Rightarrow> (secret_error, unit) result \<times> secret_store" where
  "rotate_data_key cw c passphrase st =
     (let st1 = st\<lparr>ss_draws := ss_draws st + length (ss_rows st) + 2\<rparr>
      in case rotation cw c passphrase st of
           Inl e \<Rightarrow> (Inl e, st1)
         | Inr (rows, r, new) \<Rightarrow>
             (Inr (), st1\<lparr>ss_rows := rows, ss_record := Some r, ss_dek := Some new, ss_version := kr_version r\<rparr>))"

section \<open>Unattended unlock\<close>

record key_file =
  kf_stat_fault :: "string option"
  kf_is_dir :: bool
  kf_size :: int
  kf_mode :: nat
  kf_read_fault :: "string option"
  kf_content :: string

definition max_key_file_size :: int where
  "max_key_file_size = 4096"

text \<open>\<open>mode.Perm() & 0o077\<close>: the bits of the group and of everybody else.\<close>

definition shared_bits :: "nat \<Rightarrow> nat" where
  "shared_bits mode = (mode mod 512) mod 64"

definition read_key_file :: "key_file \<Rightarrow> string \<Rightarrow> (secret_error, string) result" where
  "read_key_file f path =
     (if trim_space path = [] then Inl No_Key_File
      else case kf_stat_fault f of Some e \<Rightarrow> Inl (Key_File_Unreadable e) | None \<Rightarrow>
        if kf_is_dir f then Inl Key_File_Is_Directory
        else if kf_size f > max_key_file_size then Inl Key_File_Too_Large
        else if shared_bits (kf_mode f) \<noteq> 0 then Inl (Key_File_Shared (kf_mode f mod 512))
        else case kf_read_fault f of Some e \<Rightarrow> Inl (Key_File_Unreadable e) | None \<Rightarrow>
          (let passphrase = trim_right (kf_content f) [CHR 0x0D, CHR 0x0A]
           in if passphrase = [] then Inl Key_File_Empty else Inr passphrase))"

definition unlock_from_file :: "crypto_world \<Rightarrow> secret_call \<Rightarrow> key_file \<Rightarrow> string \<Rightarrow> secret_store
    \<Rightarrow> (secret_error, unit) result \<times> secret_store" where
  "unlock_from_file cw c f path st =
     (case read_key_file f path of Inl e \<Rightarrow> (Inl e, st) | Inr passphrase \<Rightarrow> unlock_store cw c passphrase st)"

end
