(* ===== verification/Secret_Vault.thy ===== *)
theory Secret_Vault
  imports Secret_Store
begin

text \<open>
  What the secret store promises: a vault that is closed or open under one passphrase and maps a kind
  and a name to a value. Every operation of the store is a step of the vault, or a fault that
  leaves the vault as it was.
\<close>

section \<open>The vault\<close>

record vault =
  va_pass :: "string option"
  va_open :: bool
  va_items :: "string \<times> string \<Rightarrow> string option"

definition empty_vault :: vault where
  "empty_vault = \<lparr>va_pass = None, va_open = False, va_items = \<lambda>_. None\<rparr>"

datatype vault_op =
  Op_Initialize string
| Op_Unlock string
| Op_Lock
| Op_Put string string string
| Op_Get string string
| Op_Delete string string
| Op_Change string string
| Op_Rotate string

datatype vault_answer = Accepted | Value string | Refused secret_error

definition vault_step :: "vault_op \<Rightarrow> vault \<Rightarrow> vault_answer \<times> vault" where
  "vault_step op v = (case op of
     Op_Initialize p \<Rightarrow>
       if length p < minimum_passphrase_length then (Refused Passphrase_Too_Short, v)
       else if va_pass v \<noteq> None then (Refused Already_Initialized, v)
       else (Accepted, v\<lparr>va_pass := Some p, va_open := True\<rparr>)
   | Op_Unlock p \<Rightarrow>
       if va_pass v = None then (Refused Not_Initialized, v)
       else if va_pass v \<noteq> Some p then (Refused Invalid_Passphrase, v)
       else (Accepted, v\<lparr>va_open := True\<rparr>)
   | Op_Lock \<Rightarrow> (Accepted, v\<lparr>va_open := False\<rparr>)
   | Op_Put k n t \<Rightarrow>
       if \<not> valid_kind k then (Refused Invalid_Kind, v)
       else if n = [] then (Refused Empty_Name, v)
       else if \<not> va_open v then (Refused Store_Locked, v)
       else (Accepted, v\<lparr>va_items := (va_items v)((k, n) := Some t)\<rparr>)
   | Op_Get k n \<Rightarrow>
       if \<not> va_open v then (Refused Store_Locked, v)
       else (case va_items v (k, n) of None \<Rightarrow> (Refused Secret_Not_Found, v) | Some t \<Rightarrow> (Value t, v))
   | Op_Delete k n \<Rightarrow> (Accepted, v\<lparr>va_items := (va_items v)((k, n) := None)\<rparr>)
   | Op_Change p q \<Rightarrow>
       if length q < minimum_passphrase_length then (Refused Passphrase_Too_Short, v)
       else if va_pass v = None then (Refused Not_Initialized, v)
       else if va_pass v \<noteq> Some p then (Refused Invalid_Passphrase, v)
       else (Accepted, v\<lparr>va_pass := Some q\<rparr>)
   | Op_Rotate p \<Rightarrow>
       if va_pass v = None then (Refused Not_Initialized, v)
       else if va_pass v \<noteq> Some p then (Refused Invalid_Passphrase, v)
       else (Accepted, v\<lparr>va_open := True\<rparr>))"

section \<open>The same operations on the store\<close>

definition answer_of :: "(secret_error, 'a) result \<Rightarrow> vault_answer" where
  "answer_of r = (case r of Inl e \<Rightarrow> Refused e | Inr _ \<Rightarrow> Accepted)"

definition value_of :: "(secret_error, string) result \<Rightarrow> vault_answer" where
  "value_of r = (case r of Inl e \<Rightarrow> Refused e | Inr t \<Rightarrow> Value t)"

definition store_step :: "crypto_world \<Rightarrow> secret_call \<Rightarrow> vault_op \<Rightarrow> secret_store \<Rightarrow> vault_answer \<times> secret_store" where
  "store_step cw c op st = (case op of
     Op_Initialize p \<Rightarrow> map_prod answer_of id (initialize_store cw c p st)
   | Op_Unlock p \<Rightarrow> map_prod answer_of id (unlock_store cw c p st)
   | Op_Lock \<Rightarrow> (Accepted, lock_store st)
   | Op_Put k n t \<Rightarrow> map_prod answer_of id (put_secret cw c k n t st)
   | Op_Get k n \<Rightarrow> (value_of (get_secret cw c k n st), st)
   | Op_Delete k n \<Rightarrow> map_prod answer_of id (delete_secret c k n st)
   | Op_Change p q \<Rightarrow> map_prod answer_of id (change_passphrase cw c p q st)
   | Op_Rotate p \<Rightarrow> map_prod answer_of id (rotate_data_key cw c p st))"

text \<open>A fault of the database or of the random source; any other refusal is the vault's.\<close>

fun is_fault :: "vault_answer \<Rightarrow> bool" where
  "is_fault (Refused (Database_Failed _ _)) = True"
| "is_fault (Refused (Crypto_Failed (No_Random _))) = True"
| "is_fault _ = False"

section \<open>How a store represents a vault\<close>

definition row_holds :: "crypto_world \<Rightarrow> string \<Rightarrow> secret_row \<Rightarrow> string \<Rightarrow> bool" where
  "row_holds cw dek r t \<longleftrightarrow>
     length (se_nonce r) = nonce_size \<and>
     se_ciphertext r = cw_seal cw dek (se_nonce r) (secret_associated_data (se_id r) (se_kind r) (se_name r)) t"

definition row_key :: "secret_row \<Rightarrow> string \<times> string" where
  "row_key r = (se_kind r, se_name r)"

definition record_opens :: "crypto_world \<Rightarrow> key_record \<Rightarrow> string \<Rightarrow> string \<Rightarrow> bool" where
  "record_opens cw r p dek \<longleftrightarrow>
     salt_size \<le> length (kr_salt r) \<and> validate_params (kr_params r) = None \<and> length (kr_nonce r) = nonce_size \<and>
     kr_wrapped r = cw_seal cw (cw_argon2 cw p (kr_salt r) (kr_params r)) (kr_nonce r) (dek_associated_data (kr_version r)) dek"

definition rows_hold :: "crypto_world \<Rightarrow> string \<Rightarrow> secret_row list \<Rightarrow> (string \<times> string \<Rightarrow> string option) \<Rightarrow> bool" where
  "rows_hold cw dek rows items \<longleftrightarrow>
     distinct (map se_id rows) \<and> distinct (map row_key rows) \<and>
     (\<forall>k. items k \<noteq> None \<longrightarrow> k \<in> row_key ` set rows) \<and>
     (\<forall>r\<in>set rows. \<exists>t. items (row_key r) = Some t \<and> row_holds cw dek r t)"

definition represents :: "crypto_world \<Rightarrow> string set \<Rightarrow> secret_store \<Rightarrow> vault \<Rightarrow> bool" where
  "represents cw P st v \<longleftrightarrow>
     (case ss_record st of
        None \<Rightarrow> va_pass v = None \<and> \<not> va_open v \<and> ss_dek st = None \<and> ss_rows st = [] \<and> va_items v = (\<lambda>_. None)
      | Some r \<Rightarrow>
          \<exists>p dek. va_pass v = Some p \<and> p \<in> P \<and> length dek = key_size \<and> record_opens cw r p dek \<and>
            rows_hold cw dek (ss_rows st) (va_items v) \<and>
            ss_dek st = (if va_open v then Some dek else None) \<and>
            (va_open v \<longrightarrow> ss_version st = kr_version r))"

definition passphrases :: "vault_op \<Rightarrow> string set" where
  "passphrases op = (case op of
     Op_Initialize p \<Rightarrow> {p} | Op_Unlock p \<Rightarrow> {p} | Op_Change p q \<Rightarrow> {p, q} | Op_Rotate p \<Rightarrow> {p} | _ \<Rightarrow> {})"

text \<open>One step done right: the vault's answer and its next state, or a fault and the same state.\<close>

definition follows :: "crypto_world \<Rightarrow> string set \<Rightarrow> vault_op \<Rightarrow> vault \<Rightarrow> vault_answer \<times> secret_store \<Rightarrow> bool" where
  "follows cw P op v = (\<lambda>(a, st').
     (is_fault a \<and> represents cw P st' v) \<or> (a = fst (vault_step op v) \<and> represents cw P st' (snd (vault_step op v))))"

section \<open>Small facts\<close>

lemma represents_someI:
  assumes "ss_record st = Some r" "va_pass v = Some p" "p \<in> P" "length dek = key_size" "record_opens cw r p dek"
    "rows_hold cw dek (ss_rows st) (va_items v)" "ss_dek st = (if va_open v then Some dek else None)"
    "va_open v \<longrightarrow> ss_version st = kr_version r"
  shows "represents cw P st v"
proof -
  have "\<exists>p dek. va_pass v = Some p \<and> p \<in> P \<and> length dek = key_size \<and> record_opens cw r p dek \<and>
      rows_hold cw dek (ss_rows st) (va_items v) \<and> ss_dek st = (if va_open v then Some dek else None) \<and>
      (va_open v \<longrightarrow> ss_version st = kr_version r)" using assms(2-) by blast
  then show ?thesis using assms(1) by (simp only: represents_def option.case)
qed

lemma sql_cases: "sql c what f x = f x \<or> (\<exists>e. sql c what f x = Inl (Database_Failed what e))"
  by (auto simp: sql_def split: option.split)

lemma draws_irrelevant [simp]: "represents cw P (st\<lparr>ss_draws := n\<rparr>) v = represents cw P st v"
  by (cases "ss_record st") (simp_all add: represents_def)

lemma new_key_length: "ideal_crypto P cw \<Longrightarrow> new_key cw draw = Inr k \<Longrightarrow> length k = key_size"
  unfolding new_key_def by (rule random_bytes_length)

lemma new_salt_length: "ideal_crypto P cw \<Longrightarrow> new_salt cw draw = Inr s \<Longrightarrow> length s = salt_size"
  unfolding new_salt_def by (rule random_bytes_length)

lemma random_cases: "(\<exists>b. random_bytes cw draw n = Inr b) \<or> (\<exists>e. random_bytes cw draw n = Inl (No_Random e))"
  by (auto simp: random_bytes_def split: sum.split)

lemma seal_cases:
  assumes "ideal_crypto P cw" "length key = key_size"
  obtains (ok) nonce where "seal cw draw key p aad = Inr (cw_seal cw key nonce aad p, nonce)" "length nonce = nonce_size"
  | (fault) e where "seal cw draw key p aad = Inl (No_Random e)"
  using random_cases[of cw draw nonce_size] random_bytes_length[OF assms(1)] assms(2)
  by (auto simp: seal_def check_key_def)

lemma unwrap_right:
  assumes "ideal_crypto P cw" "record_opens cw r p dek"
  shows "unwrap_dek cw r (cw_argon2 cw p (kr_salt r) (kr_params r)) = Inr dek"
  using assms unseal_sealed[OF assms(1) argon2_length[OF assms(1)]] by (simp add: unwrap_dek_def record_opens_def)

lemma unwrap_wrong:
  assumes "ideal_crypto P cw" "record_opens cw r p dek" "p \<in> P" "q \<in> P" "p \<noteq> q"
  shows "unwrap_dek cw r (cw_argon2 cw q (kr_salt r) (kr_params r)) = Inl Invalid_Passphrase"
  using assms unseal_other[OF assms(1) argon2_length[OF assms(1)]] argon2_other[OF assms(1) assms(4,3)]
  by (auto simp: unwrap_dek_def record_opens_def)

lemma open_record_cases:
  assumes "ideal_crypto P cw" "represents cw P st v" "q \<in> P"
  obtains (fault) e where "open_record cw c st q = Inl (Database_Failed ''read key material'' e)"
  | (none) "open_record cw c st q = Inl Not_Initialized" "va_pass v = None"
  | (wrong) "open_record cw c st q = Inl Invalid_Passphrase" "va_pass v \<noteq> Some q" "va_pass v \<noteq> None"
  | (right) r dek where "open_record cw c st q = Inr (r, cw_argon2 cw q (kr_salt r) (kr_params r), dek)"
      "ss_record st = Some r" "va_pass v = Some q" "length dek = key_size" "record_opens cw r q dek"
      "rows_hold cw dek (ss_rows st) (va_items v)" "ss_dek st = (if va_open v then Some dek else None)"
      "va_open v \<longrightarrow> ss_version st = kr_version r"
proof (cases "ss_record st")
  case None
  then have "va_pass v = None" using assms(2) by (simp add: represents_def)
  then show thesis using None fault none
    by (cases "sc_fault c ''read key material''") (simp_all add: open_record_def load_key_record_def sql_def)
next
  case (Some r)
  then obtain p dek where v: "va_pass v = Some p" "p \<in> P" "length dek = key_size" "record_opens cw r p dek"
    "rows_hold cw dek (ss_rows st) (va_items v)" "ss_dek st = (if va_open v then Some dek else None)"
    "va_open v \<longrightarrow> ss_version st = kr_version r" using assms(2) by (auto simp: represents_def)
  have d: "derive_key cw q (kr_salt r) (kr_params r) = Inr (cw_argon2 cw q (kr_salt r) (kr_params r))"
    using v(4) by (simp add: derive_key_ok record_opens_def)
  show thesis
  proof (cases "sc_fault c ''read key material''")
    case (Some e)
    then show thesis by (intro fault[of e]) (simp add: open_record_def load_key_record_def sql_def)
  next
    case None
    then have o: "open_record cw c st q =
        bind_result (unwrap_dek cw r (cw_argon2 cw q (kr_salt r) (kr_params r)))
          (\<lambda>dek. Inr (r, cw_argon2 cw q (kr_salt r) (kr_params r), dek))"
      using Some by (simp add: open_record_def load_key_record_def sql_def lift_crypto_def d)
    show thesis
    proof (cases "p = q")
      case True
      then show thesis using right[of r dek] v Some o unwrap_right[OF assms(1) v(4)] by simp
    next
      case False
      then show thesis using wrong v o unwrap_wrong[OF assms(1) v(4,2) assms(3) False] by simp
    qed
  qed
qed


lemma find_addressed:
  "find (addressed k n) rows = Some r \<Longrightarrow> r \<in> set rows \<and> se_kind r = k \<and> se_name r = n"
  "find (addressed k n) rows = None \<Longrightarrow> (k, n) \<notin> row_key ` set rows"
  by (auto simp: find_Some_iff find_None_iff addressed_def row_key_def)

lemma same_id: "distinct (map se_id rows) \<Longrightarrow> r \<in> set rows \<Longrightarrow> r' \<in> set rows \<Longrightarrow> se_id r = se_id r' \<Longrightarrow> r = r'"
  by (simp add: distinct_map inj_on_def)

lemma same_key: "distinct (map row_key rows) \<Longrightarrow> r \<in> set rows \<Longrightarrow> r' \<in> set rows \<Longrightarrow> row_key r = row_key r' \<Longrightarrow> r = r'"
  by (simp add: distinct_map inj_on_def)

section \<open>One step at a time\<close>

lemma initialize_follows:
  assumes "ideal_crypto P cw" "represents cw P st v" "p \<in> P"
  shows "follows cw P (Op_Initialize p) v (store_step cw c (Op_Initialize p) st)"
proof (cases "length p < minimum_passphrase_length \<or> sc_fault c ''check initialisation'' \<noteq> None \<or> ss_record st \<noteq> None")
  case True
  have "ss_record st \<noteq> None \<Longrightarrow> va_pass v \<noteq> None" using assms(2) by (auto simp: represents_def)
  then show ?thesis using True assms(2)
    by (cases "sc_fault c ''check initialisation''")
       (auto simp: follows_def store_step_def initialize_store_def vault_step_def answer_of_def is_initialized_def sql_def)
next
  case False
  then have n: "ss_record st = None" "is_initialized c st = Inr False" by (simp_all add: is_initialized_def sql_def)
  then have v: "va_pass v = None" "\<not> va_open v" "ss_rows st = []" "va_items v = (\<lambda>_. None)" "ss_dek st = None"
    using assms(2) by (auto simp: represents_def)
  let ?st1 = "st\<lparr>ss_draws := ss_draws st + 3\<rparr>"
  have r1: "represents cw P ?st1 v" using assms(2) by simp
  have faulty: "follows cw P (Op_Initialize p) v (Refused (Crypto_Failed (No_Random e)), ?st1)" for e
    using r1 by (simp add: follows_def)
  consider (salt) e where "new_salt cw (ss_draws st) = Inl (No_Random e)"
    | (key) salt e where "new_salt cw (ss_draws st) = Inr salt" "new_key cw (Suc (ss_draws st)) = Inl (No_Random e)"
    | (ok) salt dek where "new_salt cw (ss_draws st) = Inr salt" "new_key cw (Suc (ss_draws st)) = Inr dek"
    unfolding new_salt_def new_key_def using random_cases by metis
  then show ?thesis
  proof cases
    case salt
    then show ?thesis using faulty False n
      by (simp add: store_step_def initialize_store_def answer_of_def lift_crypto_def Let_def)
  next
    case key
    from new_salt_length[OF assms(1) key(1)] have d: "derive_key cw p salt default_kdf_params = Inr (cw_argon2 cw p salt default_kdf_params)"
      by (simp add: derive_key_ok)
    show ?thesis using key faulty False n d
      by (simp add: store_step_def initialize_store_def answer_of_def lift_crypto_def Let_def)
  next
    case ok
    note ls = new_salt_length[OF assms(1) ok(1)] and lk = new_key_length[OF assms(1) ok(2)]
    let ?kek = "cw_argon2 cw p salt default_kdf_params"
    have d: "derive_key cw p salt default_kdf_params = Inr ?kek" using ls by (simp add: derive_key_ok)
    show ?thesis
      using assms(1) argon2_length[OF assms(1)]
    proof (cases rule: seal_cases[where draw = "Suc (Suc (ss_draws st))" and key = ?kek and p = dek and aad = "dek_associated_data 1"])
      case (fault e)
      then show ?thesis using ok faulty False n d
        by (simp add: store_step_def initialize_store_def answer_of_def lift_crypto_def Let_def)
    next
      case (ok nonce)
      show ?thesis
      proof (cases "sc_fault c ''persist key material''")
        case (Some e)
        then show ?thesis using ok ls lk \<open>new_salt cw (ss_draws st) = Inr salt\<close> \<open>new_key cw (Suc (ss_draws st)) = Inr dek\<close> r1 False n d
          by (simp add: store_step_def initialize_store_def answer_of_def lift_crypto_def Let_def follows_def)
      next
        case None
        let ?r = "\<lparr>kr_salt = salt, kr_params = default_kdf_params, kr_wrapped = cw_seal cw ?kek nonce (dek_associated_data 1) dek,
            kr_nonce = nonce, kr_version = 1\<rparr>"
        have step: "store_step cw c (Op_Initialize p) st =
            (Accepted, ?st1\<lparr>ss_record := Some ?r, ss_dek := Some dek, ss_version := 1\<rparr>)"
          using None ok \<open>new_salt cw (ss_draws st) = Inr salt\<close> \<open>new_key cw (Suc (ss_draws st)) = Inr dek\<close> False n d
          by (simp add: store_step_def initialize_store_def answer_of_def lift_crypto_def Let_def)
        have "record_opens cw ?r p dek" using ls ok(2) by (simp add: record_opens_def)
        then show ?thesis unfolding step using v False assms(3) lk
          by (simp add: follows_def vault_step_def represents_def rows_hold_def)
      qed
    qed
  qed
qed

lemma unlock_follows:
  assumes "ideal_crypto P cw" "represents cw P st v" "p \<in> P"
  shows "follows cw P (Op_Unlock p) v (store_step cw c (Op_Unlock p) st)"
  using assms(1,2,3)
proof (cases rule: open_record_cases[where c = c])
  case (right r dek)
  then show ?thesis using assms(3)
    by (auto simp: follows_def store_step_def unlock_store_def answer_of_def vault_step_def represents_def)
qed (use assms(2) in \<open>auto simp: follows_def store_step_def unlock_store_def answer_of_def vault_step_def\<close>)

lemma lock_follows:
  assumes "represents cw P st v"
  shows "follows cw P Op_Lock v (store_step cw c Op_Lock st)"
  using assms
  by (cases "ss_record st") (auto simp: follows_def store_step_def lock_store_def vault_step_def represents_def)

lemma get_follows:
  assumes "ideal_crypto P cw" "represents cw P st v"
  shows "follows cw P (Op_Get k n) v (store_step cw c (Op_Get k n) st)"
proof (cases "va_open v")
  case False
  then have "ss_dek st = None" using assms(2) by (auto simp: represents_def split: option.splits)
  then show ?thesis using False assms(2)
    by (simp add: follows_def store_step_def get_secret_def current_key_def value_of_def vault_step_def)
next
  case True
  then obtain dek where d: "length dek = key_size" "rows_hold cw dek (ss_rows st) (va_items v)" "ss_dek st = Some dek"
    using assms(2) by (auto simp: represents_def split: option.splits)
  show ?thesis
  proof (cases "sc_fault c ''read secret''")
    case (Some e)
    then show ?thesis using d assms(2)
      by (simp add: follows_def store_step_def get_secret_def current_key_def value_of_def find_row_def sql_def)
  next
    case None
    show ?thesis
    proof (cases "find (addressed k n) (ss_rows st)")
      case no: None
      then have "va_items v (k, n) = None" using d(2) find_addressed(2)[OF no] unfolding rows_hold_def by blast
      then show ?thesis using no None d True assms(2)
        by (simp add: follows_def store_step_def get_secret_def current_key_def value_of_def find_row_def sql_def vault_step_def)
    next
      case (Some r)
      note r = find_addressed(1)[OF Some]
      then obtain t where t: "va_items v (k, n) = Some t" "row_holds cw dek r t" using d(2)
        unfolding rows_hold_def row_key_def by blast
      then have "unseal cw dek (se_ciphertext r) (se_nonce r) (secret_associated_data (se_id r) k n) = Inr t"
        using unseal_sealed[OF assms(1) d(1)] r by (auto simp: row_holds_def)
      then show ?thesis using Some None d True assms(2) t
        by (simp add: follows_def store_step_def get_secret_def current_key_def value_of_def find_row_def sql_def vault_step_def)
    qed
  qed
qed

lemma rows_hold_delete:
  "rows_hold cw dek rows items \<Longrightarrow>
   rows_hold cw dek (filter (\<lambda>r. \<not> addressed k n r) rows) (items((k, n) := None))"
proof -
  assume h: "rows_hold cw dek rows items"
  let ?rows = "filter (\<lambda>r. \<not> addressed k n r) rows" and ?items = "items((k, n) := None)"
  have keep: "addressed k n r \<longleftrightarrow> row_key r = (k, n)" for r by (auto simp: addressed_def row_key_def)
  have "x \<in> row_key ` set ?rows" if "?items x \<noteq> None" for x
  proof -
    have "x \<noteq> (k, n)" "items x \<noteq> None" using that by (auto split: if_splits)
    then have "x \<in> row_key ` set rows" using h unfolding rows_hold_def by blast
    then show ?thesis using \<open>x \<noteq> (k, n)\<close> keep by auto
  qed
  moreover have "\<exists>t. ?items (row_key r) = Some t \<and> row_holds cw dek r t" if "r \<in> set ?rows" for r
    using that h keep unfolding rows_hold_def by simp
  moreover have "distinct (map se_id ?rows)" "distinct (map row_key ?rows)"
    using h by (simp_all add: rows_hold_def distinct_map_filter)
  ultimately show ?thesis unfolding rows_hold_def by blast
qed

lemma delete_follows:
  assumes "represents cw P st v"
  shows "follows cw P (Op_Delete k n) v (store_step cw c (Op_Delete k n) st)"
proof (cases "sc_fault c ''delete secret''")
  case (Some e)
  then show ?thesis using assms by (simp add: follows_def store_step_def delete_secret_def answer_of_def)
next
  case None
  have "represents cw P (st\<lparr>ss_rows := filter (\<lambda>r. \<not> addressed k n r) (ss_rows st)\<rparr>) (v\<lparr>va_items := (va_items v)((k, n) := None)\<rparr>)"
  proof (cases "ss_record st")
    case None
    then show ?thesis using assms by (simp add: represents_def fun_eq_iff)
  next
    case (Some r)
    then obtain p dek where "va_pass v = Some p" "p \<in> P" "length dek = key_size" "record_opens cw r p dek"
      "rows_hold cw dek (ss_rows st) (va_items v)" "ss_dek st = (if va_open v then Some dek else None)"
      "va_open v \<longrightarrow> ss_version st = kr_version r" using assms by (auto simp: represents_def)
    then show ?thesis using Some rows_hold_delete[of cw dek "ss_rows st" "va_items v" k n]
      by (intro represents_someI[of _ r _ p _ dek]) simp_all
  qed
  then show ?thesis using None by (simp add: follows_def store_step_def delete_secret_def answer_of_def vault_step_def)
qed


lemma seal_row_holds:
  "length dek = key_size \<Longrightarrow> length nonce = nonce_size \<Longrightarrow>
   se_ciphertext r = cw_seal cw dek nonce (secret_associated_data (se_id r) (se_kind r) (se_name r)) t \<Longrightarrow>
   se_nonce r = nonce \<Longrightarrow> row_holds cw dek r t"
  by (simp add: row_holds_def)

text \<open>Putting a row in: the one of that identifier is rewritten, or a new one is added.\<close>

lemma rewrite_row_ids [simp]:
  "se_id (rewrite_row new r) = se_id r" "row_key (rewrite_row new r) = row_key r"
  by (simp_all add: rewrite_row_def row_key_def)

lemma rows_hold_rewrite:
  assumes "rows_hold cw dek rows items" "r \<in> set rows" "se_id new = se_id r" "row_key new = row_key r"
    "row_holds cw dek new t"
  shows "rows_hold cw dek (map (rewrite_row new) rows) (items(row_key r := Some t))"
proof -
  let ?rows = "map (rewrite_row new) rows" and ?items = "items(row_key r := Some t)"
  have d: "distinct (map se_id rows)" "distinct (map row_key rows)" using assms(1) by (simp_all add: rows_hold_def)
  have "\<exists>u. ?items (row_key q) = Some u \<and> row_holds cw dek (rewrite_row new q) u" if q: "q \<in> set rows" for q
  proof (cases "q = r")
    case True
    then have "row_holds cw dek (rewrite_row new q) t" using assms(3-5)
      by (simp add: row_holds_def rewrite_row_def row_key_def)
    then show ?thesis using True by simp
  next
    case False
    then have "se_id q \<noteq> se_id r" "row_key q \<noteq> row_key r" using same_id[OF d(1) q assms(2)] same_key[OF d(2) q assms(2)] by auto
    then show ?thesis using assms(1,3) q by (simp add: rows_hold_def rewrite_row_def)
  qed
  then have "\<forall>q\<in>set rows. \<exists>u. ?items (row_key q) = Some u \<and> row_holds cw dek (rewrite_row new q) u" by blast
  then have "\<forall>q\<in>set ?rows. \<exists>u. ?items (row_key q) = Some u \<and> row_holds cw dek q u"
    by (simp only: set_map ball_simps rewrite_row_ids)
  moreover have "row_key ` set ?rows = row_key ` set rows" by (simp add: image_image)
  moreover have "\<forall>x. ?items x \<noteq> None \<longrightarrow> x \<in> row_key ` set rows"
    using assms(1,2) unfolding rows_hold_def by auto
  moreover have "distinct (map se_id ?rows)" "distinct (map row_key ?rows)" using d by (simp_all add: comp_def)
  ultimately show ?thesis unfolding rows_hold_def by simp
qed

lemma rows_hold_append:
  assumes "rows_hold cw dek rows items" "se_id new \<notin> set (map se_id rows)" "row_key new \<notin> row_key ` set rows"
    "row_holds cw dek new t"
  shows "rows_hold cw dek (rows @ [new]) (items(row_key new := Some t))"
  using assms unfolding rows_hold_def by (auto simp: image_iff)

lemma put_follows:
  assumes "ideal_crypto P cw" "represents cw P st v" "sc_new_id c \<notin> set (map se_id (ss_rows st))"
  shows "follows cw P (Op_Put k n t) v (store_step cw c (Op_Put k n t) st)"
proof (cases "valid_kind k \<and> n \<noteq> [] \<and> va_open v")
  case False
  have "\<not> va_open v \<Longrightarrow> ss_dek st = None" using assms(2) by (auto simp: represents_def split: option.splits)
  then show ?thesis using False assms(2)
    by (auto simp: follows_def store_step_def put_secret_def current_key_def answer_of_def vault_step_def)
next
  case True
  then obtain r0 p dek where d: "ss_record st = Some r0" "va_pass v = Some p" "p \<in> P" "length dek = key_size"
    "record_opens cw r0 p dek" "rows_hold cw dek (ss_rows st) (va_items v)" "ss_dek st = Some dek"
    "ss_version st = kr_version r0"
    using assms(2) by (auto simp: represents_def split: option.splits)
  let ?st1 = "st\<lparr>ss_draws := Suc (ss_draws st)\<rparr>"
  have next_state: "represents cw P (?st1\<lparr>ss_rows := rows\<rparr>) (v\<lparr>va_items := (va_items v)((k, n) := Some t)\<rparr>)"
    if "rows_hold cw dek rows ((va_items v)((k, n) := Some t))" for rows
    using that d True by (intro represents_someI[of _ r0 _ p _ dek]) simp_all
  have good: "follows cw P (Op_Put k n t) v (map_prod answer_of id (write_secret cw c i k n t dek (ss_version st) created st))"
    if rows: "\<And>nonce. length nonce = nonce_size \<Longrightarrow> \<exists>rows. upsert_row
        \<lparr>se_id = i, se_kind = k, se_name = n, se_ciphertext = cw_seal cw dek nonce (secret_associated_data i k n) t,
         se_nonce = nonce, se_version = ss_version st, se_created = created, se_updated = sc_now c\<rparr> (ss_rows st) = Inr rows \<and>
        rows_hold cw dek rows ((va_items v)((k, n) := Some t))" for i created
    using assms(1) d(4)
  proof (cases rule: seal_cases[where draw = "ss_draws st" and key = dek and p = t and aad = "secret_associated_data i k n"])
    case (fault e)
    then show ?thesis using assms(2) by (simp add: follows_def write_secret_def answer_of_def)
  next
    case (ok nonce)
    from rows[OF ok(2)] show ?thesis
      using ok assms(2) True next_state
      by (cases "sc_fault c ''write secret''") (auto simp: follows_def write_secret_def answer_of_def vault_step_def)
  qed
  have step: "store_step cw c (Op_Put k n t) st = map_prod answer_of id (put_with_key cw c (dek, ss_version st) k n t st)"
    using True d by (simp add: store_step_def put_secret_def current_key_def)
  show ?thesis
  proof (cases "sc_fault c ''read secret metadata''")
    case (Some e)
    then show ?thesis unfolding step using assms(2)
      by (simp add: put_with_key_def find_row_def sql_def follows_def answer_of_def)
  next
    case None
    show ?thesis
    proof (cases "find (addressed k n) (ss_rows st)")
      case (Some r)
      note r = find_addressed(1)[OF Some]
      have "\<exists>rows. upsert_row new (ss_rows st) = Inr rows \<and> rows_hold cw dek rows ((va_items v)((k, n) := Some t))"
        if "se_id new = se_id r" "row_key new = (k, n)" "row_holds cw dek new t" for new
        using rows_hold_rewrite[OF d(6), of r new t] that r by (auto simp: upsert_row_def row_key_def)
      then show ?thesis unfolding step using None Some r d(4)
        by (auto simp: put_with_key_def find_row_def sql_def row_key_def row_holds_def intro!: good)
    next
      case no: None
      note r = find_addressed(2)[OF no]
      have nonew: "\<not> list_ex (addressed k n) (ss_rows st)" using r by (auto simp: list_ex_iff addressed_def row_key_def image_iff)
      have "\<exists>rows. upsert_row new (ss_rows st) = Inr rows \<and> rows_hold cw dek rows ((va_items v)((k, n) := Some t))"
        if "se_id new = sc_new_id c" "se_kind new = k" "se_name new = n" "row_holds cw dek new t" for new
        using rows_hold_append[OF d(6), of new t] that assms(3) r nonew by (simp add: upsert_row_def row_key_def)
      then show ?thesis unfolding step using None no d(4)
        by (auto simp: put_with_key_def find_row_def sql_def row_holds_def intro!: good)
    qed
  qed
qed

lemma change_follows:
  assumes "ideal_crypto P cw" "represents cw P st v" "p \<in> P" "q \<in> P"
  shows "follows cw P (Op_Change p q) v (store_step cw c (Op_Change p q) st)"
proof (cases "length q < minimum_passphrase_length")
  case True
  then show ?thesis using assms(2)
    by (simp add: follows_def store_step_def change_passphrase_def rewrap_def answer_of_def vault_step_def)
next
  case False
  let ?st1 = "st\<lparr>ss_draws := ss_draws st + 2\<rparr>"
  show ?thesis using assms(1,2,3)
  proof (cases rule: open_record_cases[where c = c])
    case (right r dek)
    have faulty: ?thesis if "rewrap cw c p q st = Inl (Crypto_Failed (No_Random e))" for e
      using that assms(2) by (simp add: follows_def store_step_def change_passphrase_def answer_of_def)
    show ?thesis
    proof (cases "new_salt cw (ss_draws st)")
      case (Inl e)
      then obtain e' where "e = No_Random e'" using random_cases[of cw "ss_draws st" salt_size] by (auto simp: new_salt_def)
      then show ?thesis using Inl right(1) False
        by (intro faulty[of e']) (simp add: rewrap_def lift_crypto_def)
    next
      case (Inr salt)
      note ls = new_salt_length[OF assms(1) Inr]
      let ?kek = "cw_argon2 cw q salt default_kdf_params"
      have d: "derive_key cw q salt default_kdf_params = Inr ?kek" using ls by (simp add: derive_key_ok)
      show ?thesis using assms(1) argon2_length[OF assms(1)]
      proof (cases rule: seal_cases[where draw = "Suc (ss_draws st)" and key = ?kek and p = dek
            and aad = "dek_associated_data (kr_version r)"])
        case (fault e)
        then show ?thesis using Inr right(1) False d by (intro faulty[of e]) (simp add: rewrap_def lift_crypto_def)
      next
        case (ok nonce)
        let ?w = "cw_seal cw ?kek nonce (dek_associated_data (kr_version r)) dek"
        let ?r = "r\<lparr>kr_salt := salt, kr_params := default_kdf_params, kr_wrapped := ?w, kr_nonce := nonce\<rparr>"
        have w: "rewrap cw c p q st = Inr (salt, default_kdf_params, ?w, nonce)"
          using ok Inr right(1) False d by (simp add: rewrap_def lift_crypto_def)
        have "record_opens cw ?r q dek" using ls ok(2) by (simp add: record_opens_def)
        then have "represents cw P (?st1\<lparr>ss_record := Some ?r\<rparr>) (v\<lparr>va_pass := Some q\<rparr>)"
          using right assms(4) by (intro represents_someI[of _ ?r _ q _ dek]) simp_all
        then show ?thesis using w right(2,3) False assms(2)
          by (cases "sc_fault c ''rewrap key''")
             (simp_all add: follows_def store_step_def change_passphrase_def store_wrapped_def answer_of_def vault_step_def)
      qed
    qed
  qed (use False assms(2) in \<open>auto simp: follows_def store_step_def change_passphrase_def rewrap_def answer_of_def vault_step_def\<close>)
qed


section \<open>Rotating\<close>

text \<open>A computation that fails with faults only.\<close>

definition faults_only :: "(secret_error, 'a) result \<Rightarrow> bool" where
  "faults_only x \<longleftrightarrow> (\<forall>e. x = Inl e \<longrightarrow> is_fault (Refused e))"

lemma faults_only_bind:
  "faults_only x \<Longrightarrow> (\<And>a. x = Inr a \<Longrightarrow> faults_only (f a)) \<Longrightarrow> faults_only (bind_result x f)"
  by (cases x) (auto simp: faults_only_def)

lemma faults_only_simps:
  "faults_only (Inr a)" "faults_only (sql c what Inr x)" "faults_only (lift_crypto (new_key cw draw))"
  using random_cases[of cw draw key_size]
  by (auto simp: faults_only_def sql_def lift_crypto_def new_key_def split: option.splits)

lemma faults_only_seal:
  "ideal_crypto P cw \<Longrightarrow> length key = key_size \<Longrightarrow> faults_only (lift_crypto (seal cw draw key p aad))"
  by (erule seal_cases[where draw = draw and p = p and aad = aad]) (auto simp: faults_only_def lift_crypto_def)

text \<open>An update that re-encrypts the row of its identifier.\<close>

definition update_for :: "crypto_world \<Rightarrow> string \<Rightarrow> (string \<times> string \<Rightarrow> string option) \<Rightarrow> secret_row \<Rightarrow> string \<times> string \<times> string \<Rightarrow> bool" where
  "update_for cw new items r = (\<lambda>(i, ciphertext, nonce).
     i = se_id r \<and> length nonce = nonce_size \<and>
     (\<exists>t. items (row_key r) = Some t \<and>
       ciphertext = cw_seal cw new nonce (secret_associated_data (se_id r) (se_kind r) (se_name r)) t))"

lemma reencrypt_rows_cases:
  assumes "ideal_crypto P cw" "length old = key_size" "length new = key_size"
    "\<forall>r\<in>set rows. \<exists>t. items (row_key r) = Some t \<and> row_holds cw old r t"
  shows "(\<exists>e. reencrypt_rows cw old new draw rows = Inl (Crypto_Failed (No_Random e))) \<or>
    (\<exists>us. reencrypt_rows cw old new draw rows = Inr us \<and> list_all2 (update_for cw new items) rows us)"
  using assms(4)
proof (induction rows arbitrary: draw)
  case (Cons r rs)
  then obtain t where t: "items (row_key r) = Some t" "row_holds cw old r t" by auto
  let ?aad = "secret_associated_data (se_id r) (se_kind r) (se_name r)"
  have u: "unseal cw old (se_ciphertext r) (se_nonce r) ?aad = Inr t"
    using t(2) unseal_sealed[OF assms(1,2)] by (simp add: row_holds_def)
  show ?case using assms(1,3)
  proof (cases rule: seal_cases[where draw = draw and key = new and p = t and aad = ?aad])
    case (ok nonce)
    from Cons.IH[of "Suc draw"] Cons.prems consider
      (f) e where "reencrypt_rows cw old new (Suc draw) rs = Inl (Crypto_Failed (No_Random e))"
    | (g) us where "reencrypt_rows cw old new (Suc draw) rs = Inr us" "list_all2 (update_for cw new items) rs us" by auto
    moreover have "update_for cw new items r (se_id r, cw_seal cw new nonce ?aad t, nonce)"
      using ok(2) t(1) by (simp add: update_for_def)
    ultimately show ?thesis using ok by cases (simp_all add: u Let_def lift_crypto_def)
  qed (simp add: u Let_def lift_crypto_def)
qed simp

lemma refresh_row_ids [simp]:
  "se_id (refresh_row ver now u r) = se_id r" "se_kind (refresh_row ver now u r) = se_kind r"
  "se_name (refresh_row ver now u r) = se_name r" "row_key (refresh_row ver now u r) = row_key r"
  by (cases u, simp add: refresh_row_def row_key_def)+

lemma apply_updates_cases:
  "(\<exists>e. apply_updates c ver k us rows = Inl (Database_Failed ''rewrite secret during rotation'' e)) \<or>
   apply_updates c ver k us rows = Inr (map (\<lambda>r. fold (refresh_row ver (sc_now c)) us r) rows)"
proof (induction us arbitrary: k rows)
  case (Cons u us)
  then show ?case
    using Cons.IH[of "Suc k" "map (refresh_row ver (sc_now c) u) rows"] by (auto simp: comp_def split: option.split)
qed simp

lemma fold_refresh_ids [simp]:
  "se_id (fold (refresh_row ver now) us r) = se_id r" "row_key (fold (refresh_row ver now) us r) = row_key r"
  by (induction us arbitrary: r) simp_all

lemma fold_refresh_other: "se_id r \<notin> fst ` set us \<Longrightarrow> fold (refresh_row ver now) us r = r"
  by (induction us) (auto simp: refresh_row_def)

lemma fold_refresh_holds:
  assumes "length new = key_size" "list_all2 (update_for cw new items) rows us" "distinct (map se_id rows)" "r \<in> set rows"
  shows "\<exists>t. items (row_key r) = Some t \<and> row_holds cw new (fold (refresh_row ver now) us r) t"
  using assms(2-4)
proof (induction rows us rule: list_all2_induct)
  case (Cons q rows u us)
  have ids: "fst ` set us = se_id ` set rows"
    using Cons.hyps(2) by (induction rule: list_all2_induct) (auto simp: update_for_def)
  obtain i ct nonce where u: "u = (i, ct, nonce)" by (cases u)
  show ?case
  proof (cases "r = q")
    case True
    have "se_id q \<notin> fst ` set us" using Cons.prems(1) ids by simp
    moreover have "se_id (refresh_row ver now u q) = se_id q" by simp
    ultimately have "fold (refresh_row ver now) (u # us) r = refresh_row ver now u q"
      using True fold_refresh_other by simp
    then show ?thesis using Cons.hyps(1) True u
      by (auto simp: update_for_def refresh_row_def row_holds_def)
  next
    case False
    then have r: "r \<in> set rows" using Cons.prems(2) by simp
    then have "se_id r \<in> se_id ` set rows" by simp
    then have "se_id r \<noteq> i" using Cons.prems(1) Cons.hyps(1) u by (auto simp: update_for_def)
    then have "refresh_row ver now u r = r" by (simp add: u refresh_row_def)
    then show ?thesis using Cons.IH Cons.prems(1) r by simp
  qed
qed simp

lemma rotate_follows:
  assumes "ideal_crypto P cw" "represents cw P st v" "p \<in> P"
  shows "follows cw P (Op_Rotate p) v (store_step cw c (Op_Rotate p) st)"
  using assms
proof (cases rule: open_record_cases[where c = c])
  case (right r dek)
  let ?st1 = "st\<lparr>ss_draws := ss_draws st + length (ss_rows st) + 2\<rparr>"
  have rows: "distinct (map se_id (ss_rows st))" "distinct (map row_key (ss_rows st))"
    "\<forall>q\<in>set (ss_rows st). \<exists>t. va_items v (row_key q) = Some t \<and> row_holds cw dek q t"
    "\<forall>x. va_items v x \<noteq> None \<longrightarrow> x \<in> row_key ` set (ss_rows st)" using right(6) by (simp_all add: rows_hold_def)
  have faulty: ?thesis if "rotation cw c p st = Inl e" "is_fault (Refused e)" for e
    using that assms(2) by (simp add: follows_def store_step_def rotate_data_key_def answer_of_def)
  show ?thesis
  proof (cases "new_key cw (ss_draws st)")
    case (Inl e)
    then obtain e' where "e = No_Random e'" using random_cases[of cw "ss_draws st" key_size] by (auto simp: new_key_def)
    then show ?thesis using Inl right(1) by (intro faulty[of "Crypto_Failed e"]) (simp_all add: rotation_def lift_crypto_def)
  next
    case (Inr new)
    note lk = new_key_length[OF assms(1) Inr]
    let ?kek = "cw_argon2 cw p (kr_salt r) (kr_params r)" and ?ver = "kr_version r + 1"
    note re = reencrypt_rows_cases[OF assms(1) right(4) lk rows(3), of "Suc (ss_draws st)"]
    show ?thesis
    proof (cases "rotation cw c p st")
      case (Inl e)
      have lifted: "lift_crypto (new_key cw (ss_draws st)) = Inr new" using Inr by (simp add: lift_crypto_def)
      have "faults_only (reencrypt_rows cw dek new (Suc (ss_draws st)) (ss_rows st))" using re by (auto simp: faults_only_def)
      moreover have "faults_only (apply_updates c ?ver 0 us (ss_rows st))" for us
        using apply_updates_cases[of c ?ver 0 us "ss_rows st"] by (auto simp: faults_only_def)
      ultimately have "faults_only (rotation cw c p st)"
        unfolding rotation_def using right(1) lifted
        by (auto intro!: faults_only_bind faults_only_simps faults_only_seal[OF assms(1)] argon2_length[OF assms(1)])
      then have "is_fault (Refused e)" using Inl by (simp add: faults_only_def)
      then show ?thesis using faulty Inl by blast
    next
      case (Inr x)
      then obtain us rows' wrapped nonce where
        re': "reencrypt_rows cw dek new (Suc (ss_draws st)) (ss_rows st) = Inr us"
        and up: "apply_updates c ?ver 0 us (ss_rows st) = Inr rows'"
        and w: "seal cw (Suc (ss_draws st + length (ss_rows st))) ?kek new (dek_associated_data ?ver) = Inr (wrapped, nonce)"
        and x: "x = (rows', r\<lparr>kr_wrapped := wrapped, kr_nonce := nonce, kr_version := ?ver\<rparr>, new)"
        using right(1) \<open>new_key cw (ss_draws st) = Inr new\<close>
        by (auto simp: rotation_def bind_result_eq_Inr lift_crypto_def split: sum.splits)
      let ?r = "r\<lparr>kr_wrapped := wrapped, kr_nonce := nonce, kr_version := ?ver\<rparr>"
      have "record_opens cw ?r p new" using seal_ok[OF assms(1) w] right(5) by (simp add: record_opens_def)
      moreover have "list_all2 (update_for cw new (va_items v)) (ss_rows st) us" using re re' by auto
      then have hold: "\<forall>q\<in>set (ss_rows st). \<exists>t. va_items v (row_key q) = Some t \<and>
          row_holds cw new (fold (refresh_row ?ver (sc_now c)) us q) t"
        using fold_refresh_holds[OF lk _ rows(1)] by blast
      have rows': "rows' = map (\<lambda>q. fold (refresh_row ?ver (sc_now c)) us q) (ss_rows st)"
        using up apply_updates_cases[of c ?ver 0 us "ss_rows st"] by auto
      have "rows_hold cw new rows' (va_items v)" unfolding rows_hold_def
      proof (intro conjI)
        show "distinct (map se_id rows')" "distinct (map row_key rows')" using rows(1,2) by (simp_all add: rows' comp_def)
        show "\<forall>k. va_items v k \<noteq> None \<longrightarrow> k \<in> row_key ` set rows'" using rows(4) by (simp add: rows' image_image)
        show "\<forall>q\<in>set rows'. \<exists>t. va_items v (row_key q) = Some t \<and> row_holds cw new q t"
          using hold unfolding rows' by (simp only: set_map ball_simps fold_refresh_ids)
      qed
      ultimately have "represents cw P (?st1\<lparr>ss_rows := rows', ss_record := Some ?r, ss_dek := Some new, ss_version := ?ver\<rparr>)
          (v\<lparr>va_open := True\<rparr>)"
        using right(3) lk assms(3) by (intro represents_someI[of _ ?r _ p _ new]) simp_all
      then show ?thesis using Inr right(3)
        by (simp add: x follows_def store_step_def rotate_data_key_def answer_of_def vault_step_def)
    qed
  qed
qed (use assms(2) in \<open>auto simp: follows_def store_step_def rotate_data_key_def rotation_def answer_of_def vault_step_def\<close>)


section \<open>Any sequence of calls\<close>

definition usable :: "string set \<Rightarrow> secret_store \<Rightarrow> vault_op \<times> secret_call \<Rightarrow> bool" where
  "usable P st = (\<lambda>(op, c). passphrases op \<subseteq> P \<and> sc_new_id c \<notin> set (map se_id (ss_rows st)))"

lemma step_follows:
  assumes "ideal_crypto P cw" "represents cw P st v" "usable P st (op, c)"
  shows "follows cw P op v (store_step cw c op st)"
  using assms
  by (cases op) (auto simp: usable_def passphrases_def
    intro: initialize_follows unlock_follows lock_follows put_follows get_follows delete_follows change_follows rotate_follows)

fun store_run :: "crypto_world \<Rightarrow> (vault_op \<times> secret_call) list \<Rightarrow> secret_store \<Rightarrow> vault_answer list \<times> secret_store" where
  "store_run cw [] st = ([], st)"
| "store_run cw ((op, c) # calls) st =
     (case store_step cw c op st of
        (a, st') \<Rightarrow> (case store_run cw calls st' of (as, st'') \<Rightarrow> (a # as, st'')))"

text \<open>The answers a vault gives to a sequence of operations, faults aside.\<close>

fun vault_answers :: "(vault_op \<times> secret_call) list \<Rightarrow> vault \<Rightarrow> vault_answer list \<Rightarrow> bool" where
  "vault_answers [] v as = (as = [])"
| "vault_answers ((op, c) # calls) v [] = False"
| "vault_answers ((op, c) # calls) v (a # as) =
     ((is_fault a \<and> vault_answers calls v as) \<or>
      (a = fst (vault_step op v) \<and> vault_answers calls (snd (vault_step op v)) as))"

definition fresh_ids :: "(vault_op \<times> secret_call) list \<Rightarrow> secret_store \<Rightarrow> bool" where
  "fresh_ids calls st \<longleftrightarrow>
     distinct (map (sc_new_id \<circ> snd) calls) \<and> set (map (sc_new_id \<circ> snd) calls) \<inter> set (map se_id (ss_rows st)) = {}"

lemma ids_of_step: "se_id ` set (ss_rows (snd (store_step cw c op st))) \<subseteq> insert (sc_new_id c) (se_id ` set (ss_rows st))"
proof -
  have w: "se_id ` set (ss_rows (snd (write_secret cw c i k n t dek ver cr st))) \<subseteq> insert i (se_id ` set (ss_rows st))"
    for i k n t dek ver cr
    by (auto simp: write_secret_def upsert_row_def Let_def split: sum.split option.split)
  have f: "find (addressed k n) rows = Some r \<Longrightarrow> se_id r \<in> se_id ` set rows" for k n rows r
    using find_addressed(1) by blast
  have u: "apply_updates c v k us rows = Inr rows' \<Longrightarrow> se_id ` set rows' = se_id ` set rows" for v k us rows rows'
    using apply_updates_cases[of c v k us rows] by (auto simp: image_image)
  have "se_id ` set (ss_rows (snd (put_secret cw c k n t st))) \<subseteq> insert (sc_new_id c) (se_id ` set (ss_rows st))" for k n t
    using w[of _ k n t] f[of k n "ss_rows st"]
    by (auto simp: put_secret_def current_key_def put_with_key_def find_row_def sql_def
        split: option.splits sum.split secret_error.split) blast+
  moreover have "se_id ` set (ss_rows (snd (rotate_data_key cw c p st))) \<subseteq> se_id ` set (ss_rows st)" for p
    using u by (auto simp: rotate_data_key_def rotation_def bind_result_eq_Inr Let_def split: sum.split) blast
  ultimately show ?thesis
    by (cases op) (auto 0 3 simp: store_step_def initialize_store_def unlock_store_def lock_store_def delete_secret_def
      change_passphrase_def store_wrapped_def Let_def subset_iff image_iff split: option.split sum.split prod.split bool.split)
qed

lemma run_follows:
  assumes "ideal_crypto P cw" "represents cw P st v" "\<forall>x\<in>set calls. passphrases (fst x) \<subseteq> P" "fresh_ids calls st"
  shows "vault_answers calls v (fst (store_run cw calls st))"
  using assms(2-4)
proof (induction calls arbitrary: st v)
  case (Cons x calls)
  obtain op c where x: "x = (op, c)" by fastforce
  obtain a st' where s: "store_step cw c op st = (a, st')" by fastforce
  obtain as st'' where r: "store_run cw calls st' = (as, st'')" by fastforce
  have "usable P st (op, c)" using Cons.prems(2,3) x by (auto simp: usable_def fresh_ids_def)
  from step_follows[OF assms(1) Cons.prems(1) this] have f: "follows cw P op v (a, st')" by (simp add: s)
  have ids: "se_id ` set (ss_rows st') \<subseteq> insert (sc_new_id c) (se_id ` set (ss_rows st))"
    using ids_of_step[of cw c op st] s by simp
  have disjoint: "n \<notin> N \<Longrightarrow> N \<inter> A = {} \<Longrightarrow> B \<subseteq> insert n A \<Longrightarrow> N \<inter> B = {}" for n :: string and N A B by blast
  have fr: "fresh_ids calls st'"
    using Cons.prems(3) disjoint[OF _ _ ids, of "set (map (sc_new_id \<circ> snd) calls)"] by (simp add: fresh_ids_def x)
  have IH: "vault_answers calls v' as" if "represents cw P st' v'" for v'
    using Cons.IH[OF that _ fr] Cons.prems(2) r by simp
  show ?case using f IH by (auto simp: x s r follows_def)
qed simp

lemma new_store_represents: "represents cw P new_store empty_vault"
  by (simp add: represents_def new_store_def empty_vault_def)

text \<open>C24. The secret store is a vault: over any sequence of calls from a fresh installation, every answer is the
  one of the abstract vault (values come back exactly, a locked store reads and writes nothing, only the
  current passphrase unlocks, changing it or rotating the data key loses nothing), or it is a fault of the
  database or the random source, and then nothing has changed; no secret is ever undecryptable.\<close>

theorem secret_store_refines_vault:
  assumes "ideal_crypto P cw" "\<forall>x\<in>set calls. passphrases (fst x) \<subseteq> P" "distinct (map (sc_new_id \<circ> snd) calls)"
  shows "vault_answers calls empty_vault (fst (store_run cw calls new_store))"
  by (rule run_follows[OF assms(1) new_store_represents assms(2)])
     (use assms(3) in \<open>simp add: fresh_ids_def new_store_def\<close>)

definition calm_call :: "string \<Rightarrow> secret_call" where
  "calm_call i = \<lparr>sc_fault = \<lambda>_. None, sc_update_fault = \<lambda>_. None, sc_new_id = i, sc_now = ''t''\<rparr>"

definition sample_calls :: "(vault_op \<times> secret_call) list" where
  "sample_calls =
     [(Op_Initialize ''correct horse'', calm_call ''1''), (Op_Put ''repository'' ''r1'' ''hunter2'', calm_call ''2''),
      (Op_Change ''correct horse'' ''battery staple'', calm_call ''3''), (Op_Lock, calm_call ''4''),
      (Op_Rotate ''battery staple'', calm_call ''5''), (Op_Get ''repository'' ''r1'', calm_call ''6'')]"

theorem secret_store_refines_vault_witness:
  "vault_answers sample_calls empty_vault (fst (store_run plain_crypto sample_calls new_store))"
  by (rule secret_store_refines_vault[OF plain_crypto_ideal])
     (simp_all add: sample_calls_def calm_call_def passphrases_def short_passphrases_def key_size_def)


section \<open>Calls that overlap\<close>

text \<open>
  The mutex guards the key in memory, not the pair of key and tables. A value sealed with the key fetched
  before a rotation and written after it can no longer be read; a passphrase change prepared before
  a rotation and written after it wraps the old key under the new generation, and no passphrase unlocks
  the store any more.
\<close>

definition filled_store :: secret_store where
  "filled_store = snd (initialize_store plain_crypto (calm_call ''1'') ''correct horse'' new_store)"

definition filled_vault :: vault where
  "filled_vault = \<lparr>va_pass = Some ''correct horse'', va_open = True, va_items = \<lambda>_. None\<rparr>"

lemma filled_represents: "represents plain_crypto short_passphrases filled_store filled_vault"
proof -
  have ok: "fst (initialize_store plain_crypto (calm_call ''1'') ''correct horse'' new_store) = Inr ()" by code_simp
  have p: "''correct horse'' \<in> short_passphrases" by (simp add: short_passphrases_def key_size_def)
  have "fst (store_step plain_crypto (calm_call ''1'') (Op_Initialize ''correct horse'') new_store) = Accepted"
    "snd (store_step plain_crypto (calm_call ''1'') (Op_Initialize ''correct horse'') new_store) = filled_store"
    using ok by (simp_all add: store_step_def filled_store_def answer_of_def)
  then have "represents plain_crypto short_passphrases filled_store (snd (vault_step (Op_Initialize ''correct horse'') empty_vault))"
    using initialize_follows[OF plain_crypto_ideal new_store_represents p, of "calm_call ''1''"]
    by (auto simp: follows_def)
  moreover have "snd (vault_step (Op_Initialize ''correct horse'') empty_vault) = filled_vault"
    by (simp add: vault_step_def empty_vault_def filled_vault_def minimum_passphrase_length_def)
  ultimately show ?thesis by simp
qed

definition rotated_store :: secret_store where
  "rotated_store = snd (rotate_data_key plain_crypto (calm_call ''2'') ''correct horse'' filled_store)"

lemma put_across_rotation_is_lost:
  "case current_key filled_store of
     Inl _ \<Rightarrow> False
   | Inr k \<Rightarrow>
       (let (a, st) = put_with_key plain_crypto (calm_call ''3'') k ''repository'' ''r1'' ''hunter2'' rotated_store
        in is_ok a \<and> get_secret plain_crypto (calm_call ''4'') ''repository'' ''r1'' st =
             Inl (Not_Decrypted ''repository'' ''r1'' Decrypt_Failed))"
  by code_simp

lemma change_across_rotation_locks_out:
  "case rewrap plain_crypto (calm_call ''2'') ''correct horse'' ''battery staple'' filled_store of
     Inl _ \<Rightarrow> False
   | Inr w \<Rightarrow>
       (let (a, st) = store_wrapped (calm_call ''3'') w rotated_store
        in is_ok a \<and>
           fst (unlock_store plain_crypto (calm_call ''4'') ''battery staple'' st) = Inl Invalid_Passphrase \<and>
           fst (unlock_store plain_crypto (calm_call ''4'') ''correct horse'' st) = Inl Invalid_Passphrase)"
  by code_simp

section \<open>What binds a ciphertext to its row\<close>

lemma secret_data_binds:
  assumes "secret_associated_data i kind name = secret_associated_data i' kind' name'"
    and "CHR ''/'' \<notin> set i \<union> set i' \<union> set kind \<union> set kind'"
  shows "i = i' \<and> kind = kind' \<and> name = name'"
proof -
  have cut: "a = b \<and> x = y" if "a @ CHR ''/'' # x = b @ CHR ''/'' # y" "CHR ''/'' \<notin> set a" "CHR ''/'' \<notin> set b"
    for a b x y :: string
    using that
  proof (induction a arbitrary: b)
    case Nil
    then show ?case by (cases b) auto
  next
    case (Cons c a)
    then show ?case by (cases b) auto
  qed
  from assms(1) have e: "i @ CHR ''/'' # (kind @ CHR ''/'' # name) = i' @ CHR ''/'' # (kind' @ CHR ''/'' # name')"
    by (simp add: secret_associated_data_def)
  with cut[OF e] have "i = i'" "kind @ CHR ''/'' # name = kind' @ CHR ''/'' # name'" using assms(2) by auto
  with cut[OF this(2)] show ?thesis using assms(2) by auto
qed

text \<open>The identifier of a row is not bound to be free of slashes, and names may hold them.\<close>

lemma secret_data_ambiguous:
  "secret_associated_data ''u'' ''project'' ''x/database/prod'' = secret_associated_data ''u/project/x'' ''database'' ''prod''"
  by (simp add: secret_associated_data_def)

end
