(* ===== verification/Repositories.thy ===== *)
theory Repositories
  imports Repository_Locations Secret_Vault Restic_Engine Events
begin

text \<open>
  Backup repositories (\<open>internal/repositories/repository.go\<close>, \<open>store.go\<close>, \<open>service.go\<close>): the
  table of destinations, their passwords in the secret store, and the operations that create, delete,
  check and initialise them. Faults of the database, identifiers, clocks and the restic binary are
  inputs of each call.
\<close>

section \<open>The table\<close>

datatype repository_status = Status_Unknown | Status_Uninitialized | Status_Ready | Status_Error

fun status_text :: "repository_status \<Rightarrow> string" where
  "status_text Status_Unknown = ''unknown''"
| "status_text Status_Uninitialized = ''uninitialized''"
| "status_text Status_Ready = ''ready''"
| "status_text Status_Error = ''error''"

record repository =
  re_id :: string
  re_name :: string
  re_kind :: string
  re_location :: string
  re_status :: repository_status
  re_last_error :: string
  re_last_checked :: "instant option"
  re_created :: instant
  re_updated :: instant

datatype repository_error =
  Repository_Missing
| Name_Taken
| Unsupported_Kind string
| Invalid_Config string
| Bad_Location location_error
| Search_Never_Ends
| Repository_Db string string
| Secret_Error secret_error
| Password_Unread string secret_error
| Purge_Error purge_error
| Secret_Left_Behind secret_error
| Deletion_Unrecorded string
| Engine_Error engine_error

definition repository_list :: "repository list \<Rightarrow> repository list" where
  "repository_list rows = sort_by (\<lambda>a b. str_less (re_name a) (re_name b)) rows"

definition repository_get :: "string \<Rightarrow> repository list \<Rightarrow> (repository_error, repository) result" where
  "repository_get i rows = (case find (\<lambda>r. re_id r = i) rows of None \<Rightarrow> Inl Repository_Missing | Some r \<Rightarrow> Inr r)"

definition repository_insert :: "string option \<Rightarrow> repository \<Rightarrow> repository list \<Rightarrow> (repository_error, repository list) result" where
  "repository_insert fault r rows =
     (case fault of
        Some e \<Rightarrow> Inl (Repository_Db ''insert'' e)
      | None \<Rightarrow>
          if re_id r \<in> set (map re_id rows) \<or> re_name r \<in> set (map re_name rows) then Inl Name_Taken
          else Inr (rows @ [r]))"

definition update_status :: "string option \<Rightarrow> string \<Rightarrow> repository_status \<Rightarrow> string \<Rightarrow> instant \<Rightarrow> instant \<Rightarrow> repository list
    \<Rightarrow> (repository_error, repository list) result" where
  "update_status fault i status e checked now rows =
     (case fault of
        Some msg \<Rightarrow> Inl (Repository_Db ''update status'' msg)
      | None \<Rightarrow> Inr (map (\<lambda>r. if re_id r = i
          then r\<lparr>re_status := status, re_last_error := e, re_last_checked := Some checked, re_updated := now\<rparr> else r) rows))"

definition repository_delete :: "string option \<Rightarrow> string \<Rightarrow> repository list \<Rightarrow> (repository_error, repository list) result" where
  "repository_delete fault i rows =
     (case fault of
        Some msg \<Rightarrow> Inl (Repository_Db ''delete'' msg)
      | None \<Rightarrow> Inr (filter (\<lambda>r. re_id r \<noteq> i) rows))"

section \<open>The service\<close>

record repo_state =
  rs_rows :: "repository list"
  rs_secrets :: secret_store
  rs_engine :: restic_state
  rs_disk :: file_system
  rs_recorder :: recorder

text \<open>What one call meets: faults by statement, the calls to the secret store, the clock and identifiers.\<close>

record repo_call =
  pc_fault :: "string \<Rightarrow> string option"
  pc_crypto :: crypto_world
  pc_secret :: secret_call
  pc_delete_secret :: secret_call
  pc_restic :: restic_world
  pc_probe :: probe_world
  pc_remove_fault :: "(string \<times> (string list \<Rightarrow> bool)) option"
  pc_id :: string
  pc_event_id :: string
  pc_audit_fault :: bool
  pc_checked :: instant
  pc_now :: instant

record create_request =
  ct_name :: string
  ct_kind :: string
  ct_location :: string
  ct_password :: string

definition kind_local :: string where "kind_local = ''local''"

definition validate_create :: "create_request \<Rightarrow> repository_error option" where
  "validate_create rq =
     (if trim_space (ct_name rq) = [] then Some (Invalid_Config ''name must not be empty'')
      else if ct_password rq = [] then Some (Invalid_Config ''password must not be empty'')
      else if trim_space (ct_location rq) = [] then Some (Invalid_Config ''location must not be empty'')
      else if ct_kind rq = kind_local
      then (if rooted (trim_space (ct_location rq)) then None
            else Some (Invalid_Config ''a local repository path must be absolute''))
      else if ct_kind rq \<in> {''sftp'', ''s3''} then Some (Unsupported_Kind (ct_kind rq))
      else Some (Unsupported_Kind []))"

definition emit_repo :: "repo_call \<Rightarrow> event \<Rightarrow> repo_state \<Rightarrow> repo_state" where
  "emit_repo c ev st =
     st\<lparr>rs_recorder := emit (pc_audit_fault c) (pc_event_id c) (pc_now c) ev (rs_recorder st)\<rparr>"

definition new_repository :: "repo_call \<Rightarrow> create_request \<Rightarrow> repository" where
  "new_repository c rq =
     \<lparr>re_id = pc_id c, re_name = trim_space (ct_name rq), re_kind = ct_kind rq, re_location = trim_space (ct_location rq),
      re_status = Status_Unknown, re_last_error = [], re_last_checked = None, re_created = pc_now c, re_updated = pc_now c\<rparr>"

definition check_location :: "repo_call \<Rightarrow> locations option \<Rightarrow> create_request \<Rightarrow> repository_error option" where
  "check_location c lo rq =
     (case lo of
        None \<Rightarrow> None
      | Some l \<Rightarrow>
          if ct_kind rq \<noteq> kind_local then None
          else (case validate_local_path (pc_probe c) l (trim_space (ct_location rq)) of
                  None \<Rightarrow> Some Search_Never_Ends
                | Some None \<Rightarrow> None
                | Some (Some e) \<Rightarrow> Some (Bad_Location e)))"

text \<open>\<open>Create\<close>: the password first, then the row; a row that cannot be written takes the password back.\<close>

definition create_repository :: "repo_call \<Rightarrow> locations option \<Rightarrow> string \<Rightarrow> create_request \<Rightarrow> repo_state
    \<Rightarrow> (repository_error, repository) result \<times> repo_state" where
  "create_repository c lo actor rq st =
     (case validate_create rq of Some e \<Rightarrow> (Inl e, st) | None \<Rightarrow>
      case check_location c lo rq of Some e \<Rightarrow> (Inl e, st) | None \<Rightarrow>
        (let r = new_repository c rq
         in case put_secret (pc_crypto c) (pc_secret c) ''repository'' (re_id r) (ct_password rq) (rs_secrets st) of
              (Inl e, ss) \<Rightarrow> (Inl (Secret_Error e), st\<lparr>rs_secrets := ss\<rparr>)
            | (Inr _, ss) \<Rightarrow>
                (case repository_insert (pc_fault c ''insert'') r (rs_rows st) of
                   Inl e \<Rightarrow> (Inl e, st\<lparr>rs_secrets := snd (delete_secret (pc_delete_secret c) ''repository'' (re_id r) ss)\<rparr>)
                 | Inr rows \<Rightarrow>
                     (Inr r, emit_repo c (event_of ''repository.created'' actor ''repository'' (re_id r)
                        [(''name'', Meta_String (re_name r)), (''kind'', Meta_String (re_kind r))])
                        (st\<lparr>rs_secrets := ss, rs_rows := rows\<rparr>)))))"

text \<open>The part of \<open>Delete\<close> that destroys backups: whether data was deleted.\<close>

definition delete_data :: "repo_call \<Rightarrow> locations option \<Rightarrow> repository \<Rightarrow> file_system
    \<Rightarrow> (repository_error, bool) result \<times> file_system" where
  "delete_data c lo r fs =
     (if re_kind r \<noteq> kind_local then (Inl (Unsupported_Kind (re_kind r)), fs)
      else case (case lo of None \<Rightarrow> None | Some l \<Rightarrow> refuse_inside_data_dir (pc_probe c) l (re_location r)) of
             Some e \<Rightarrow> (Inl (Bad_Location e), fs)
           | None \<Rightarrow>
               (case purge_local_repository (pc_remove_fault c) (re_location r) fs of
                  (Inl e, fs') \<Rightarrow> (Inl (Purge_Error e), fs')
                | (Inr b, fs') \<Rightarrow> (Inr b, fs')))"

definition deleted_event :: "string \<Rightarrow> repository \<Rightarrow> bool \<Rightarrow> event" where
  "deleted_event actor r data_deleted =
     event_of ''repository.deleted'' actor ''repository'' (re_id r)
       ([(''name'', Meta_String (re_name r)), (''dataDeleted'', Meta_Bool data_deleted)] @
        (if data_deleted then [(''location'', Meta_String (re_location r))] else []))"

definition announce_deletion :: "repo_call \<Rightarrow> string \<Rightarrow> repository \<Rightarrow> bool \<Rightarrow> repo_state
    \<Rightarrow> (repository_error, unit) result \<times> repo_state" where
  "announce_deletion c actor r data_deleted st =
     (let ev = deleted_event actor r data_deleted
      in if \<not> data_deleted then (Inr (), emit_repo c ev st)
         else case record_event (pc_audit_fault c) (pc_event_id c) (pc_now c) ev (rs_recorder st) of
                (Inl _, rec) \<Rightarrow> (Inl (Deletion_Unrecorded (re_location r)), st\<lparr>rs_recorder := rec\<rparr>)
              | (Inr _, rec) \<Rightarrow> (Inr (), st\<lparr>rs_recorder := rec\<rparr>))"

definition delete_repository :: "repo_call \<Rightarrow> locations option \<Rightarrow> string \<Rightarrow> string \<Rightarrow> bool \<Rightarrow> repo_state
    \<Rightarrow> (repository_error, unit) result \<times> repo_state" where
  "delete_repository c lo actor i with_data st =
     (case repository_get i (rs_rows st) of
        Inl e \<Rightarrow> (Inl e, st)
      | Inr r \<Rightarrow>
          (let (purged, fs) = (if with_data then delete_data c lo r (rs_disk st) else (Inr False, rs_disk st));
               st1 = st\<lparr>rs_disk := fs\<rparr>
           in case purged of
                Inl e \<Rightarrow> (Inl e, st1)
              | Inr data_deleted \<Rightarrow>
                  (case repository_delete (pc_fault c ''delete'') i (rs_rows st1) of
                     Inl e \<Rightarrow> (Inl e, st1)
                   | Inr rows \<Rightarrow>
                       (case delete_secret (pc_secret c) ''repository'' i (rs_secrets st1) of
                          (Inl e, ss) \<Rightarrow> (Inl (Secret_Left_Behind e), st1\<lparr>rs_rows := rows, rs_secrets := ss\<rparr>)
                        | (Inr _, ss) \<Rightarrow>
                            announce_deletion c actor r data_deleted (st1\<lparr>rs_rows := rows, rs_secrets := ss\<rparr>)))))"

text \<open>\<open>engineConfig\<close>: the configuration carries the password for one operation.\<close>

definition engine_config :: "repo_call \<Rightarrow> string \<Rightarrow> repo_state \<Rightarrow> (repository_error, repository_config \<times> repository) result" where
  "engine_config c i st =
     bind_result (repository_get i (rs_rows st)) (\<lambda>r.
       (case get_secret (pc_crypto c) (pc_secret c) ''repository'' (re_id r) (rs_secrets st) of
          Inl Store_Locked \<Rightarrow> Inl (Secret_Error Store_Locked)
        | Inl e \<Rightarrow> Inl (Password_Unread (re_name r) e)
        | Inr password \<Rightarrow>
            Inr (\<lparr>rc_kind = re_kind r, rc_location = re_location r, rc_password = password, rc_s3_key = [], rc_s3_secret = []\<rparr>, r)))"

record check_result =
  ck_status :: repository_status
  ck_snapshots :: nat
  ck_error :: string

definition judge_check :: "(engine_error, repository_snapshot list) result \<Rightarrow> check_result" where
  "judge_check answer =
     (case answer of
        Inr snaps \<Rightarrow> \<lparr>ck_status = Status_Ready, ck_snapshots = length snaps, ck_error = []\<rparr>
      | Inl e \<Rightarrow>
          if ee_kind e = Repository_Not_Found
          then \<lparr>ck_status = Status_Uninitialized, ck_snapshots = 0, ck_error = ''no repository at this location yet''\<rparr>
          else \<lparr>ck_status = Status_Error, ck_snapshots = 0, ck_error = engine_error_text e\<rparr>)"

text \<open>\<open>Check\<close>: a failure to store the status is returned beside the result.\<close>

definition check_repository :: "repo_call \<Rightarrow> string \<Rightarrow> string \<Rightarrow> repo_state
    \<Rightarrow> (repository_error, check_result) result \<times> repo_state" where
  "check_repository c actor i st =
     (case engine_config c i st of
        Inl e \<Rightarrow> (Inl e, st)
      | Inr (config, r) \<Rightarrow>
          (let (answer, eng) = list_snapshots (pc_restic c) config (rs_engine st);
               res = judge_check answer; st1 = st\<lparr>rs_engine := eng\<rparr>
           in case update_status (pc_fault c ''update status'') (re_id r) (ck_status res) (ck_error res) (pc_checked c)
                     (pc_now c) (rs_rows st1) of
                Inl e \<Rightarrow> (Inl e, st1)
              | Inr rows \<Rightarrow>
                  (Inr res, emit_repo c (event_of ''repository.checked'' actor ''repository'' (re_id r)
                     [(''name'', Meta_String (re_name r)), (''status'', Meta_String (status_text (ck_status res)))])
                     (st1\<lparr>rs_rows := rows\<rparr>))))"

definition note_status :: "repo_call \<Rightarrow> repository \<Rightarrow> repository_status \<Rightarrow> string \<Rightarrow> repo_state \<Rightarrow> repo_state" where
  "note_status c r status e st =
     (case update_status (pc_fault c ''update status'') (re_id r) status e (pc_checked c) (pc_now c) (rs_rows st) of
        Inl _ \<Rightarrow> st
      | Inr rows \<Rightarrow> st\<lparr>rs_rows := rows\<rparr>)"

definition initialize_repository :: "repo_call \<Rightarrow> string \<Rightarrow> string \<Rightarrow> repo_state
    \<Rightarrow> (repository_error, unit) result \<times> repo_state" where
  "initialize_repository c actor i st =
     (case engine_config c i st of
        Inl e \<Rightarrow> (Inl e, st)
      | Inr (config, r) \<Rightarrow>
          (let (err, eng) = init_repository (pc_restic c) config (rs_engine st); st1 = st\<lparr>rs_engine := eng\<rparr>
           in case err of
                Some e \<Rightarrow>
                  if ee_kind e = Repository_Exists then (Inr (), note_status c r Status_Ready [] st1)
                  else (Inl (Engine_Error e), note_status c r Status_Error (engine_error_text e) st1)
              | None \<Rightarrow>
                  (case update_status (pc_fault c ''update status'') (re_id r) Status_Ready [] (pc_checked c) (pc_now c) (rs_rows st1) of
                     Inl e \<Rightarrow> (Inl e, st1)
                   | Inr rows \<Rightarrow>
                       (Inr (), emit_repo c (event_of ''repository.initialized'' actor ''repository'' (re_id r)
                          [(''name'', Meta_String (re_name r))]) (st1\<lparr>rs_rows := rows\<rparr>)))))"


section \<open>Sequences of calls\<close>

datatype repo_op =
  Create_Repo string create_request
| Delete_Repo string string bool
| Check_Repo string string
| Init_Repo string string

definition repo_step :: "locations option \<Rightarrow> repo_op \<Rightarrow> repo_call \<Rightarrow> repo_state \<Rightarrow> repo_state" where
  "repo_step lo op c st = (case op of
     Create_Repo actor rq \<Rightarrow> snd (create_repository c lo actor rq st)
   | Delete_Repo actor i with_data \<Rightarrow> snd (delete_repository c lo actor i with_data st)
   | Check_Repo actor i \<Rightarrow> snd (check_repository c actor i st)
   | Init_Repo actor i \<Rightarrow> snd (initialize_repository c actor i st))"

fun repo_run :: "locations option \<Rightarrow> (repo_op \<times> repo_call) list \<Rightarrow> repo_state \<Rightarrow> repo_state" where
  "repo_run lo [] st = st"
| "repo_run lo ((op, c) # calls) st = repo_run lo calls (repo_step lo op c st)"

section \<open>What the rows look like\<close>

text \<open>A row of the table: a name and an absolute local path, both trimmed, away from the data directory.\<close>

definition row_ok :: "locations option \<Rightarrow> repository \<Rightarrow> bool" where
  "row_ok lo r \<longleftrightarrow>
     re_name r \<noteq> [] \<and> trim_space (re_name r) = re_name r \<and>
     re_kind r = kind_local \<and> rooted (re_location r) \<and> trim_space (re_location r) = re_location r \<and>
     (case lo of None \<Rightarrow> True
      | Some l \<Rightarrow> lo_data_dir l = [] \<or>
          (\<not> within_or_equal (path_clean (re_location r)) (lo_data_dir l) \<and>
           \<not> within_or_equal (lo_data_dir l) (path_clean (re_location r))))"

definition rows_ok :: "locations option \<Rightarrow> repository list \<Rightarrow> bool" where
  "rows_ok lo rows \<longleftrightarrow> distinct (map re_id rows) \<and> distinct (map re_name rows) \<and> list_all (row_ok lo) rows"

lemma emit_repo_rows [simp]: "rs_rows (emit_repo c ev st) = rs_rows st" "rs_secrets (emit_repo c ev st) = rs_secrets st"
  "rs_disk (emit_repo c ev st) = rs_disk st"
  by (simp_all add: emit_repo_def)

lemma created_row_ok:
  assumes "validate_create rq = None" "check_location c lo rq = None"
  shows "row_ok lo (new_repository c rq)"
proof -
  have v: "trim_space (ct_name rq) \<noteq> []" "ct_kind rq = kind_local" "rooted (trim_space (ct_location rq))"
    using assms(1) by (auto simp: validate_create_def split: if_splits)
  moreover have "lo_data_dir l = [] \<or> (\<not> within_or_equal (path_clean (trim_space (ct_location rq))) (lo_data_dir l) \<and>
      \<not> within_or_equal (lo_data_dir l) (path_clean (trim_space (ct_location rq))))" if "lo = Some l" for l
  proof -
    have "trim_space (ct_location rq) \<noteq> []" using v(3) by auto
    then have "clean_abs (pc_probe c) (trim_space (ct_location rq)) = path_clean (trim_space (ct_location rq))"
      using v(3) by (simp add: clean_abs_def)
    moreover have "refuse_inside_data_dir (pc_probe c) l (trim_space (ct_location rq)) = None"
      using assms(2) that v(2) by (auto simp: check_location_def validate_local_path_def split: option.splits)
    ultimately show ?thesis by (auto simp: refuse_inside_data_dir_def Let_def split: if_splits)
  qed
  ultimately show ?thesis by (simp add: row_ok_def new_repository_def split: option.split)
qed

lemma row_ok_observed [simp]:
  "row_ok lo (r\<lparr>re_status := s, re_last_error := e, re_last_checked := t, re_updated := n\<rparr>) = row_ok lo r"
  by (cases lo) (simp_all add: row_ok_def)

lemma update_status_rows:
  "update_status f i s e t n rows = Inr rows' \<Longrightarrow> rows_ok lo rows' = rows_ok lo rows \<and> map re_id rows' = map re_id rows"
proof -
  assume "update_status f i s e t n rows = Inr rows'"
  then have r: "rows' = map (\<lambda>r. if re_id r = i then r\<lparr>re_status := s, re_last_error := e, re_last_checked := Some t, re_updated := n\<rparr> else r) rows"
    by (auto simp: update_status_def split: option.splits)
  have "map re_id rows' = map re_id rows" "map re_name rows' = map re_name rows" unfolding r by (induction rows) auto
  moreover have "list_all (row_ok lo) rows' = list_all (row_ok lo) rows" unfolding r
    by (induction rows) auto
  ultimately show ?thesis by (simp add: rows_ok_def)
qed

lemma note_status_rows: "rows_ok lo (rs_rows (note_status c r s e st)) = rows_ok lo (rs_rows st)"
  "map re_id (rs_rows (note_status c r s e st)) = map re_id (rs_rows st)"
  using update_status_rows by (auto simp: note_status_def split: sum.split)

lemma rows_after_check:
  "rows_ok lo (rs_rows (snd (check_repository c actor i st))) = rows_ok lo (rs_rows st) \<and>
   map re_id (rs_rows (snd (check_repository c actor i st))) = map re_id (rs_rows st)"
  using update_status_rows by (auto simp: check_repository_def Let_def split: sum.split prod.split)

lemma rows_after_init:
  "rows_ok lo (rs_rows (snd (initialize_repository c actor i st))) = rows_ok lo (rs_rows st) \<and>
   map re_id (rs_rows (snd (initialize_repository c actor i st))) = map re_id (rs_rows st)"
proof (cases "engine_config c i st")
  case (Inr x)
  obtain config r where x: "x = (config, r)" by fastforce
  obtain err eng where e: "init_repository (pc_restic c) config (rs_engine st) = (err, eng)" by fastforce
  let ?st1 = "st\<lparr>rs_engine := eng\<rparr>"
  note n = note_status_rows[where c = c and r = r and st = ?st1]
  show ?thesis
  proof (cases err)
    case None
    then show ?thesis using Inr x e update_status_rows
      by (auto simp: initialize_repository_def Let_def split: sum.split)
  next
    case (Some er)
    then show ?thesis using Inr x e n by (simp add: initialize_repository_def Let_def)
  qed
qed (simp add: initialize_repository_def)

lemma rows_after_delete:
  "rs_rows (snd (delete_repository c lo actor i wd st)) = rs_rows st \<or>
   rs_rows (snd (delete_repository c lo actor i wd st)) = filter (\<lambda>r. re_id r \<noteq> i) (rs_rows st)"
  by (auto simp: delete_repository_def announce_deletion_def repository_delete_def Let_def
      split: sum.split prod.split option.split)

lemma rows_after_create:
  "rs_rows (snd (create_repository c lo actor rq st)) = rs_rows st \<or>
   (validate_create rq = None \<and> check_location c lo rq = None \<and>
    rs_rows (snd (create_repository c lo actor rq st)) = rs_rows st @ [new_repository c rq] \<and>
    re_id (new_repository c rq) \<notin> set (map re_id (rs_rows st)) \<and>
    re_name (new_repository c rq) \<notin> set (map re_name (rs_rows st)))"
  by (auto simp: create_repository_def repository_insert_def Let_def split: sum.split prod.split option.split)

lemma repo_step_rows: "rows_ok lo (rs_rows st) \<Longrightarrow> rows_ok lo (rs_rows (repo_step lo op c st))"
proof (cases op)
  case (Create_Repo actor rq)
  assume ok: "rows_ok lo (rs_rows st)"
  from rows_after_create[of c lo actor rq st] created_row_ok[of rq c lo] ok show ?thesis
    unfolding Create_Repo repo_step_def repo_op.case by (elim disjE conjE) (simp_all add: rows_ok_def)
next
  case (Delete_Repo actor i wd)
  assume ok: "rows_ok lo (rs_rows st)"
  have "rows_ok lo (filter (\<lambda>r. re_id r \<noteq> i) (rs_rows st))"
    using ok by (auto simp: rows_ok_def distinct_map_filter list_all_iff)
  then show ?thesis using rows_after_delete[of c lo actor i wd st] ok Delete_Repo by (auto simp: repo_step_def)
qed (use rows_after_check rows_after_init in \<open>simp_all add: repo_step_def\<close>)

definition no_repositories :: "secret_store \<Rightarrow> file_system \<Rightarrow> recorder \<Rightarrow> repo_state" where
  "no_repositories ss fs rec =
     \<lparr>rs_rows = [], rs_secrets = ss, rs_engine = \<lparr>st_probe = None, st_runs = []\<rparr>, rs_disk = fs, rs_recorder = rec\<rparr>"



section \<open>Passwords\<close>

lemma get_represented:
  assumes "ideal_crypto P cw" "represents cw P ss v" "va_open v" "va_items v (k, n) = Some t" "sc_fault c ''read secret'' = None"
  shows "get_secret cw c k n ss = Inr t"
proof -
  have "follows cw P (Op_Get k n) v (value_of (get_secret cw c k n ss), ss)"
    using get_follows[OF assms(1,2), of k n c] by (simp add: store_step_def)
  moreover have "\<not> is_fault (value_of (get_secret cw c k n ss))"
    using assms(5) by (auto simp: get_secret_def current_key_def find_row_def sql_def value_of_def split: option.splits sum.splits)
  ultimately have "value_of (get_secret cw c k n ss) = Value t"
    using assms(3,4) by (simp add: follows_def vault_step_def)
  then show ?thesis by (auto simp: value_of_def split: sum.splits)
qed

lemma put_represented:
  assumes "ideal_crypto P cw" "represents cw P ss v" "sc_new_id c \<notin> set (map se_id (ss_rows ss))"
    "put_secret cw c k n t ss = (r, ss')"
  shows "(is_ok r \<and> va_open v \<and> represents cw P ss' (v\<lparr>va_items := (va_items v)((k, n) := Some t)\<rparr>)) \<or>
         (\<not> is_ok r \<and> represents cw P ss' v)"
proof -
  have "follows cw P (Op_Put k n t) v (answer_of r, ss')"
    using put_follows[OF assms(1-3), of k n t] assms(4) by (simp add: store_step_def)
  then show ?thesis
    by (cases r) (auto simp: follows_def vault_step_def answer_of_def split: if_splits)
qed

lemma delete_represented:
  assumes "represents cw P ss v" "delete_secret c k n ss = (r, ss')"
  shows "represents cw P ss' v \<or> represents cw P ss' (v\<lparr>va_items := (va_items v)((k, n) := None)\<rparr>)"
  using delete_follows[OF assms(1), of k n c] assms(2) by (auto simp: store_step_def follows_def vault_step_def)

text \<open>C26. A repository that was created can be used: its engine configuration carries its kind, its trimmed
  location and exactly the password it was created with, which is stored nowhere but in the secret store.\<close>

theorem created_repository_opens:
  assumes "ideal_crypto P (pc_crypto c)" "represents (pc_crypto c) P (rs_secrets st) v"
    and "sc_new_id (pc_secret c) \<notin> set (map se_id (ss_rows (rs_secrets st)))"
    and "create_repository c lo actor rq st = (Inr r, st')"
    and "pc_crypto c' = pc_crypto c" "sc_fault (pc_secret c') ''read secret'' = None"
  shows "engine_config c' (re_id r) st' =
    Inr (\<lparr>rc_kind = kind_local, rc_location = trim_space (ct_location rq), rc_password = ct_password rq,
          rc_s3_key = [], rc_s3_secret = []\<rparr>, r)"
proof -
  obtain pr ss where put: "put_secret (pc_crypto c) (pc_secret c) ''repository'' (pc_id c) (ct_password rq) (rs_secrets st) = (pr, ss)"
    by fastforce
  have id: "re_id (new_repository c rq) = pc_id c" by (simp add: new_repository_def)
  from assms(4) put have r: "r = new_repository c rq" "is_ok pr" "validate_create rq = None"
    "rs_secrets st' = ss" "rs_rows st' = rs_rows st @ [r]" "pc_id c \<notin> set (map re_id (rs_rows st))"
    by (auto simp: create_repository_def repository_insert_def id Let_def split: option.splits sum.splits if_splits)
  from put_represented[OF assms(1-3) put] r(2) have rep: "va_open v"
    "represents (pc_crypto c) P ss (v\<lparr>va_items := (va_items v)((''repository'', pc_id c) := Some (ct_password rq))\<rparr>)" by auto
  have "get_secret (pc_crypto c') (pc_secret c') ''repository'' (pc_id c) (rs_secrets st') = Inr (ct_password rq)"
    using get_represented[OF assms(1) rep(2)] rep(1) assms(5,6) r(4) by simp
  moreover have "find (\<lambda>x. re_id x = pc_id c) (rs_rows st') = Some r"
  proof -
    have "find (\<lambda>x. re_id x = pc_id c) xs = None" if "pc_id c \<notin> set (map re_id xs)" for xs :: "repository list"
      using that unfolding find_None_iff set_map by (metis image_eqI)
    moreover have "find P (xs @ [y]) = (case find P xs of None \<Rightarrow> if P y then Some y else None | Some z \<Rightarrow> Some z)"
      for P and xs :: "repository list" and y by (induction xs) auto
    ultimately show ?thesis using r(1,5,6) id by simp
  qed
  moreover have "re_kind r = kind_local" "re_location r = trim_space (ct_location rq)"
    using r(1,3) by (auto simp: new_repository_def validate_create_def split: if_splits)
  ultimately show ?thesis using r(1) id by (simp add: engine_config_def repository_get_def)
qed

definition passwords_present :: "crypto_world \<Rightarrow> string set \<Rightarrow> repo_state \<Rightarrow> bool" where
  "passwords_present cw P st \<longleftrightarrow>
     (\<exists>v. represents cw P (rs_secrets st) v \<and> (\<forall>r\<in>set (rs_rows st). va_items v (''repository'', re_id r) \<noteq> None))"

definition fresh_call :: "crypto_world \<Rightarrow> repo_call \<Rightarrow> repo_state \<Rightarrow> bool" where
  "fresh_call cw c st \<longleftrightarrow>
     pc_crypto c = cw \<and> pc_id c \<notin> set (map re_id (rs_rows st)) \<and>
     sc_new_id (pc_secret c) \<notin> set (map se_id (ss_rows (rs_secrets st)))"

lemma create_keeps_passwords:
  assumes "ideal_crypto P cw" "passwords_present cw P st" "fresh_call cw c st"
  shows "passwords_present cw P (snd (create_repository c lo actor rq st))"
proof (cases "validate_create rq = None \<and> check_location c lo rq = None")
  case True
  from assms(2) obtain v where v: "represents cw P (rs_secrets st) v"
    "\<forall>r\<in>set (rs_rows st). va_items v (''repository'', re_id r) \<noteq> None" unfolding passwords_present_def by auto
  from assms(3) have f: "pc_crypto c = cw" "pc_id c \<notin> re_id ` set (rs_rows st)"
    "sc_new_id (pc_secret c) \<notin> set (map se_id (ss_rows (rs_secrets st)))" by (simp_all add: fresh_call_def)
  have id: "re_id (new_repository c rq) = pc_id c" by (simp add: new_repository_def)
  obtain pr ss where put: "put_secret cw (pc_secret c) ''repository'' (pc_id c) (ct_password rq) (rs_secrets st) = (pr, ss)"
    by fastforce
  let ?v = "v\<lparr>va_items := (va_items v)((''repository'', pc_id c) := Some (ct_password rq))\<rparr>"
  obtain dr ss2 where del: "delete_secret (pc_delete_secret c) ''repository'' (pc_id c) ss = (dr, ss2)" by fastforce
  have others: "\<forall>r\<in>set (rs_rows st). re_id r \<noteq> pc_id c" using f(2) by (metis image_eqI)
  from put_represented[OF assms(1) v(1) f(3) put] show ?thesis
  proof (elim disjE conjE)
    assume "\<not> is_ok pr" "represents cw P ss v"
    then show ?thesis using True put f(1) id v(2)
      by (cases pr) (auto simp: create_repository_def passwords_present_def Let_def)
  next
    assume ok: "is_ok pr" "represents cw P ss ?v"
    show ?thesis
    proof (cases "repository_insert (pc_fault c ''insert'') (new_repository c rq) (rs_rows st)")
      case (Inl e)
      have "\<exists>v. represents cw P ss2 v \<and> (\<forall>r\<in>set (rs_rows st). va_items v (''repository'', re_id r) \<noteq> None)"
        using delete_represented[OF ok(2) del] v(2) others
        by (elim disjE) (intro exI conjI, assumption, simp)+
      then show ?thesis using True put f(1) id Inl del ok(1)
        by (cases pr) (simp_all add: create_repository_def passwords_present_def Let_def)
    next
      case (Inr rows)
      then have "rows = rs_rows st @ [new_repository c rq]"
        by (auto simp: repository_insert_def split: option.splits if_splits)
      then show ?thesis using True put f(1) id Inr ok v(2)
        by (cases pr) (auto simp: create_repository_def passwords_present_def Let_def intro!: exI[of _ ?v])
    qed
  qed
next
  case False
  then show ?thesis using assms(2)
    by (cases "validate_create rq") (auto simp: create_repository_def split: option.split)
qed

lemma delete_keeps_passwords:
  assumes "passwords_present cw P st"
  shows "passwords_present cw P (snd (delete_repository c lo actor i wd st))"
proof -
  from assms obtain v where v: "represents cw P (rs_secrets st) v"
    "\<forall>r\<in>set (rs_rows st). va_items v (''repository'', re_id r) \<noteq> None" unfolding passwords_present_def by auto
  obtain dr ss where del: "delete_secret (pc_secret c) ''repository'' i (rs_secrets st) = (dr, ss)" by fastforce
  let ?st' = "snd (delete_repository c lo actor i wd st)"
  have "(rs_rows ?st' = rs_rows st \<and> rs_secrets ?st' = rs_secrets st) \<or>
        (rs_rows ?st' = filter (\<lambda>r. re_id r \<noteq> i) (rs_rows st) \<and> rs_secrets ?st' = ss)"
    using del by (auto simp: delete_repository_def announce_deletion_def repository_delete_def Let_def
      split: sum.split prod.split option.split)
  then show ?thesis
  proof (elim disjE conjE)
    assume "rs_rows ?st' = rs_rows st" "rs_secrets ?st' = rs_secrets st"
    then show ?thesis using v unfolding passwords_present_def by auto
  next
    assume e: "rs_rows ?st' = filter (\<lambda>r. re_id r \<noteq> i) (rs_rows st)" "rs_secrets ?st' = ss"
    from delete_represented[OF v(1) del] show ?thesis
      unfolding passwords_present_def e using v(2)
      by (elim disjE) (intro exI conjI, assumption, simp)+
  qed
qed

lemma same_rows_keep_passwords:
  assumes "passwords_present cw P st" "map re_id (rs_rows st') = map re_id (rs_rows st)" "rs_secrets st' = rs_secrets st"
  shows "passwords_present cw P st'"
proof -
  have "re_id ` set (rs_rows st') = re_id ` set (rs_rows st)" using assms(2) by (metis set_map)
  then have same: "\<exists>r0\<in>set (rs_rows st). re_id r0 = re_id r" if "r \<in> set (rs_rows st')" for r
    using that by (metis image_eqI image_iff)
  from assms(1) obtain v where "represents cw P (rs_secrets st) v"
    "\<forall>r\<in>set (rs_rows st). va_items v (''repository'', re_id r) \<noteq> None" unfolding passwords_present_def by auto
  then have "represents cw P (rs_secrets st') v \<and> (\<forall>r\<in>set (rs_rows st'). va_items v (''repository'', re_id r) \<noteq> None)"
    using same assms(3) by metis
  then show ?thesis unfolding passwords_present_def by blast
qed

lemma secrets_after_check: "rs_secrets (snd (check_repository c actor i st)) = rs_secrets st"
  by (auto simp: check_repository_def Let_def split: sum.split prod.split)

lemma secrets_after_init: "rs_secrets (snd (initialize_repository c actor i st)) = rs_secrets st"
  by (auto simp: initialize_repository_def note_status_def Let_def split: sum.split prod.split option.split)



section \<open>Deleting\<close>

lemma record_event_row:
  "record_event f u t ev rec = (Inr (), rec') \<Longrightarrow>
   \<exists>x\<in>set (audit_rows rec'). ev_action x = ev_action ev \<and> ev_target_id x = ev_target_id ev"
  by (auto simp: record_event_def insert_event_def Let_def split: sum.splits if_splits)

lemma delete_disk:
  assumes "delete_repository c lo actor i wd st = (res, st')" "repository_get i (rs_rows st) = Inr r"
  shows "rs_disk st' = (if wd then snd (delete_data c lo r (rs_disk st)) else rs_disk st)"
  using assms by (cases wd)
    (auto simp: delete_repository_def announce_deletion_def Let_def split: sum.splits prod.splits if_splits)

lemma delete_data_confined:
  "node_at (snd (delete_data c lo r fs)) p = node_at fs p \<or>
   (re_kind r = kind_local \<and> (\<exists>q. purgeable fs (re_location r) q \<and> prefix q p))"
proof -
  obtain pr fs' where p: "purge_local_repository (pc_remove_fault c) (re_location r) fs = (pr, fs')" by fastforce
  have "node_at fs' p = node_at fs p \<or> (\<exists>q. purgeable fs (re_location r) q \<and> prefix q p)"
    using purge_reaches[where fault = "pc_remove_fault c" and path = "re_location r" and fs = fs and p = p] p by simp
  then show ?thesis using p by (auto simp: delete_data_def split: option.split sum.split)
qed



section \<open>Examples\<close>

definition sample_call :: "string \<Rightarrow> repo_call" where
  "sample_call i =
     \<lparr>pc_fault = \<lambda>_. None, pc_crypto = plain_crypto, pc_secret = calm_call (i @ ''s''), pc_delete_secret = calm_call (i @ ''d''),
      pc_restic = restic_saying calm_process, pc_probe = sample_probe, pc_remove_fault = None, pc_id = i, pc_event_id = i @ ''e'',
      pc_audit_fault = False, pc_checked = 1, pc_now = 1\<rparr>"

definition sample_create :: create_request where
  "sample_create = \<lparr>ct_name = ''main '', ct_kind = kind_local, ct_location = ''/srv/main'', ct_password = ''hunter2''\<rparr>"

definition ready_state :: repo_state where
  "ready_state = no_repositories filled_store linked_disk \<lparr>audit_rows = [], feed = new_broker\<rparr>"

lemma ready_fresh: "ss_rows filled_store = []" by code_simp

lemma sample_created:
  "\<exists>st'. create_repository (sample_call ''r1'') (Some sample_locations) ''u'' sample_create ready_state =
     (Inr (new_repository (sample_call ''r1'') sample_create), st')"
proof -
  have "fst (create_repository (sample_call ''r1'') (Some sample_locations) ''u'' sample_create ready_state) =
    Inr (new_repository (sample_call ''r1'') sample_create)" by code_simp
  then show ?thesis by (metis prod.collapse)
qed

theorem created_repository_opens_witness:
  "\<exists>st' r. engine_config (sample_call ''r2'') r st' =
     Inr (\<lparr>rc_kind = ''local'', rc_location = ''/srv/main'', rc_password = ''hunter2'', rc_s3_key = [], rc_s3_secret = []\<rparr>,
          new_repository (sample_call ''r1'') sample_create)"
proof -
  obtain st' where c: "create_repository (sample_call ''r1'') (Some sample_locations) ''u'' sample_create ready_state =
     (Inr (new_repository (sample_call ''r1'') sample_create), st')" using sample_created by blast
  have rep: "represents (pc_crypto (sample_call ''r1'')) short_passphrases (rs_secrets ready_state) filled_vault"
    using filled_represents by (simp add: sample_call_def ready_state_def no_repositories_def)
  have loc: "trim_space ''/srv/main'' = ''/srv/main''" by code_simp
  from created_repository_opens[OF _ rep _ c, of "sample_call ''r2''"] plain_crypto_ideal show ?thesis
    by (auto simp: sample_call_def ready_state_def no_repositories_def ready_fresh calm_call_def sample_create_def loc kind_local_def)
qed


definition linked_state :: repo_state where
  "linked_state = ready_state\<lparr>rs_rows := [(new_repository (sample_call ''r1'') sample_create)\<lparr>re_location := ''/data/r''\<rparr>]\<rparr>"


end
