(* ===== verification/Login_Limiter.thy ===== *)
theory Login_Limiter
  imports Go_Time Prelude "HOL-Library.AList" "HOL-Library.Word"
begin

text \<open>
  The throttle of login attempts (\<open>internal/auth/ratelimit.go\<close>). The map of records is an association
  list; the clock is an argument of each call. A block is a point in time, \<open>None\<close> for the zero time.
  Durations are Go's signed 64-bit nanoseconds: the shift of the backoff wraps and the difference of
  two times saturates, as in the code. The mutex makes each operation one step.
\<close>

section \<open>Durations\<close>

definition go_shl :: "int \<Rightarrow> nat \<Rightarrow> int" where
  "go_shl d n = sint (push_bit n (word_of_int d :: 64 word))"

definition time_sub :: "instant \<Rightarrow> instant \<Rightarrow> int" where
  "time_sub t u = max (- (2 ^ 63)) (min (2 ^ 63 - 1) (t - u))"

definition second :: int where "second = 1000000000"
definition minute :: int where "minute = 60 * second"
definition hour :: int where "hour = 60 * minute"

section \<open>The limiter\<close>

record attempt_record =
  at_failures :: int
  at_window_start :: instant
  at_blocked_until :: "instant option"

record limiter =
  lm_records :: "(string \<times> attempt_record) list"
  lm_max_attempts :: int
  lm_window :: int
  lm_max_backoff :: int

definition new_limiter :: "int \<Rightarrow> int \<Rightarrow> int \<Rightarrow> limiter" where
  "new_limiter max_attempts window max_backoff =
     \<lparr>lm_records = [], lm_max_attempts = max_attempts, lm_window = window, lm_max_backoff = max_backoff\<rparr>"

definition blocked_at :: "instant \<Rightarrow> attempt_record \<Rightarrow> bool" where
  "blocked_at now r \<longleftrightarrow> (case at_blocked_until r of None \<Rightarrow> False | Some u \<Rightarrow> now < u)"

definition window_over :: "limiter \<Rightarrow> instant \<Rightarrow> attempt_record \<Rightarrow> bool" where
  "window_over l now r \<longleftrightarrow> time_sub now (at_window_start r) > lm_window l"

definition allow :: "instant \<Rightarrow> string \<Rightarrow> limiter \<Rightarrow> bool \<times> limiter" where
  "allow now key l =
     (case map_of (lm_records l) key of
        None \<Rightarrow> (True, l)
      | Some r \<Rightarrow>
          if blocked_at now r then (False, l)
          else if window_over l now r \<and> at_blocked_until r = None
          then (True, l\<lparr>lm_records := AList.delete key (lm_records l)\<rparr>)
          else (True, l))"

definition backoff :: "limiter \<Rightarrow> int \<Rightarrow> int" where
  "backoff l failures =
     (let b = go_shl (lm_window l) (nat (failures - lm_max_attempts l - 1))
      in if b > lm_max_backoff l \<or> b \<le> 0 then lm_max_backoff l else b)"

definition current_record :: "instant \<Rightarrow> string \<Rightarrow> limiter \<Rightarrow> attempt_record" where
  "current_record now key l =
     (let fresh = \<lparr>at_failures = 0, at_window_start = now, at_blocked_until = None\<rparr>
      in case map_of (lm_records l) key of
           None \<Rightarrow> fresh
         | Some r \<Rightarrow> if window_over l now r then fresh else r)"

definition add_failure :: "limiter \<Rightarrow> instant \<Rightarrow> attempt_record \<Rightarrow> attempt_record" where
  "add_failure l now r =
     (let n = at_failures r + 1
      in if n > lm_max_attempts l
         then r\<lparr>at_failures := n, at_blocked_until := Some (now + backoff l n)\<rparr>
         else r\<lparr>at_failures := n\<rparr>)"

definition record_failure :: "instant \<Rightarrow> string \<Rightarrow> limiter \<Rightarrow> limiter" where
  "record_failure now key l =
     l\<lparr>lm_records := AList.update key (add_failure l now (current_record now key l)) (lm_records l)\<rparr>"

definition record_success :: "string \<Rightarrow> limiter \<Rightarrow> limiter" where
  "record_success key l = l\<lparr>lm_records := AList.delete key (lm_records l)\<rparr>"

section \<open>Sequences of calls\<close>

text \<open>
  A limiter call as the login handler makes it. The two halves of a login are separate steps, since
  the handler holds no lock between them: the password is hashed in between.
\<close>

datatype limiter_step = Ask string instant | Fail string instant | Succeed string instant

fun step_key :: "limiter_step \<Rightarrow> string" where
  "step_key (Ask k _) = k" | "step_key (Fail k _) = k" | "step_key (Succeed k _) = k"

fun step_limiter :: "limiter_step \<Rightarrow> limiter \<Rightarrow> bool \<times> limiter" where
  "step_limiter (Ask k t) l = allow t k l"
| "step_limiter (Fail k t) l = (True, record_failure t k l)"
| "step_limiter (Succeed k t) l = (True, record_success k l)"

text \<open>A guess that is wrong, made from start to end before the next one begins.\<close>

definition wrong_guess :: "string \<Rightarrow> instant \<Rightarrow> limiter \<Rightarrow> bool \<times> limiter" where
  "wrong_guess key now l =
     (case allow now key l of (False, l') \<Rightarrow> (False, l') | (True, l') \<Rightarrow> (True, record_failure now key l'))"

text \<open>Wrong guesses on any keys in turn; the result counts those on \<open>key\<close> that reached the password check.\<close>

fun wrong_guesses :: "string \<Rightarrow> (string \<times> instant) list \<Rightarrow> limiter \<Rightarrow> nat \<times> limiter" where
  "wrong_guesses key [] l = (0, l)"
| "wrong_guesses key ((k, t) # gs) l =
     (let (ok, l1) = wrong_guess k t l; (n, l2) = wrong_guesses key gs l1
      in ((if ok \<and> k = key then Suc n else n), l2))"

text \<open>
  Attempts, right ones included, made one after another: key, time and whether the password is right.
  The result lists the attempts that reached the password check.
\<close>

definition attempt :: "string \<Rightarrow> instant \<Rightarrow> bool \<Rightarrow> limiter \<Rightarrow> bool \<times> limiter" where
  "attempt key now right l =
     (case allow now key l of
        (False, l') \<Rightarrow> (False, l')
      | (True, l') \<Rightarrow> (True, if right then record_success key l' else record_failure now key l'))"

fun attempts :: "(string \<times> instant \<times> bool) list \<Rightarrow> limiter \<Rightarrow> (string \<times> instant) list" where
  "attempts [] l = []"
| "attempts ((k, t, right) # as) l =
     (let (ok, l') = attempt k t right l in (if ok then (k, t) # attempts as l' else attempts as l'))"

definition login_limiter :: limiter where
  "login_limiter = new_limiter 5 (15 * minute) (1 * hour)"


section \<open>Lemmas\<close>

lemma limiter_settings [simp]:
  "lm_window (snd (allow t k l)) = lm_window l"
  "lm_max_attempts (snd (allow t k l)) = lm_max_attempts l"
  "lm_max_backoff (snd (allow t k l)) = lm_max_backoff l"
  "lm_window (record_failure t k l) = lm_window l"
  "lm_max_attempts (record_failure t k l) = lm_max_attempts l"
  "lm_max_backoff (record_failure t k l) = lm_max_backoff l"
  by (auto simp: allow_def record_failure_def split: option.splits)

lemma lookup_after_failure:
  "map_of (lm_records (record_failure t k l)) =
   (map_of (lm_records l))(k \<mapsto> add_failure l t (current_record t k l))"
  by (simp add: record_failure_def update_conv')

lemma lookup_after_allow:
  "map_of (lm_records (snd (allow t k l))) k' =
   (if k' = k \<and> (\<exists>r. map_of (lm_records l) k = Some r \<and> \<not> blocked_at t r \<and> window_over l t r \<and> at_blocked_until r = None)
    then None else map_of (lm_records l) k')"
  by (auto simp: allow_def delete_conv' split: option.splits)

lemma allow_answer:
  "fst (allow t k l) \<longleftrightarrow> (case map_of (lm_records l) k of None \<Rightarrow> True | Some r \<Rightarrow> \<not> blocked_at t r)"
  by (auto simp: allow_def split: option.splits)

lemma backoff_bounds:
  assumes "0 < lm_max_backoff l"
  shows "0 < backoff l n" "backoff l n \<le> lm_max_backoff l"
  using assms by (auto simp: backoff_def Let_def)

lemma current_record_cong:
  "map_of (lm_records l') k = map_of (lm_records l) k \<Longrightarrow> lm_window l' = lm_window l
    \<Longrightarrow> current_record t k l' = current_record t k l"
  by (simp add: current_record_def window_over_def Let_def split: option.split)

lemma add_failure_cong:
  "lm_window l' = lm_window l \<Longrightarrow> lm_max_attempts l' = lm_max_attempts l \<Longrightarrow> lm_max_backoff l' = lm_max_backoff l
    \<Longrightarrow> add_failure l' t r = add_failure l t r"
  by (simp add: add_failure_def backoff_def Let_def)

lemma current_record_after_allow [simp]: "current_record t k (snd (allow t k l)) = current_record t k l"
  by (auto simp: current_record_def lookup_after_allow window_over_def Let_def split: option.split)

lemma wrong_guess_settings [simp]:
  "lm_window (snd (wrong_guess k t l)) = lm_window l"
  "lm_max_attempts (snd (wrong_guess k t l)) = lm_max_attempts l"
  "lm_max_backoff (snd (wrong_guess k t l)) = lm_max_backoff l"
  by (cases "allow t k l"; use limiter_settings[of t k l] in \<open>auto simp: wrong_guess_def split: bool.split\<close>)+

lemma wrong_guess_lookup:
  "map_of (lm_records (snd (wrong_guess k t l))) =
   (if fst (allow t k l) then (map_of (lm_records l))(k \<mapsto> add_failure l t (current_record t k l))
    else map_of (lm_records l))"
proof (cases "allow t k l")
  case (Pair ok l')
  then have l': "l' = snd (allow t k l)" by simp
  show ?thesis
  proof (cases ok)
    case True
    have "map_of (lm_records (record_failure t k l')) = (map_of (lm_records l))(k \<mapsto> add_failure l t (current_record t k l))"
    proof -
      have "add_failure l' t (current_record t k l') = add_failure l t (current_record t k l)"
        unfolding l' by (subst add_failure_cong[of _ l]) simp_all
      moreover have "map_of (lm_records l') k' = map_of (lm_records l) k'" if "k' \<noteq> k" for k'
        using that unfolding l' by (subst lookup_after_allow) simp
      ultimately show ?thesis unfolding lookup_after_failure by auto
    qed
    then show ?thesis using True Pair by (simp add: wrong_guess_def)
  next
    case False
    then have "map_of (lm_records l') = map_of (lm_records l)"
      using Pair by (auto simp: allow_def split: option.splits if_splits)
    then show ?thesis using False Pair by (simp add: wrong_guess_def)
  qed
qed

lemma wrong_guess_answer [simp]: "fst (wrong_guess k t l) = fst (allow t k l)"
  by (auto simp: wrong_guess_def split: prod.split bool.split)


section \<open>The bound on guesses\<close>

lemma go_shl_0 [simp]: "- (2 ^ 63) \<le> d \<Longrightarrow> d < 2 ^ 63 \<Longrightarrow> go_shl d 0 = d"
  by (simp add: go_shl_def signed_of_int signed_take_bit_int_eq_self)

lemma first_backoff:
  assumes "0 < lm_window l" "lm_window l < 2 ^ 63" "lm_window l \<le> lm_max_backoff l"
  shows "backoff l (lm_max_attempts l + 1) = lm_window l"
  using assms by (simp add: backoff_def Let_def)

definition throttling :: "limiter \<Rightarrow> bool" where
  "throttling l \<longleftrightarrow> 1 \<le> lm_max_attempts l \<and> 0 < lm_window l \<and> lm_window l < 2 ^ 63 - 1 \<and>
     lm_window l \<le> lm_max_backoff l"

lemma go_shl_1: "go_shl d (Suc 0) = (2 * d + 2 ^ 63) mod 2 ^ 64 - 2 ^ 63"
proof -
  have "push_bit (Suc 0) (word_of_int d :: 64 word) = word_of_int (2 * d)"
    by (simp add: push_bit_eq_mult mult.commute)
  then show ?thesis
    unfolding go_shl_def by (simp only: signed_of_int) (simp add: signed_take_bit_eq_take_bit_shift take_bit_eq_mod)
qed

lemma second_backoff:
  assumes "throttling l"
  shows "lm_window l \<le> backoff l (2 + lm_max_attempts l)"
proof (cases "2 * lm_window l < 2 ^ 63")
  case True
  then have "go_shl (lm_window l) (Suc 0) = 2 * lm_window l"
    using assms by (simp add: go_shl_1 throttling_def)
  then show ?thesis using assms by (auto simp: backoff_def Let_def throttling_def)
next
  case False
  then have "(2 * lm_window l + 2 ^ 63) mod 2 ^ 64 = 2 * lm_window l + 2 ^ 63 - 2 ^ 64"
    using assms by (simp add: mod_pos_geq mod_pos_pos_trivial throttling_def)
  then have "go_shl (lm_window l) (Suc 0) < 0" using assms by (simp add: go_shl_1 throttling_def)
  then show ?thesis using assms by (auto simp: backoff_def Let_def throttling_def)
qed

lemma window_over_iff:
  "throttling l \<Longrightarrow> window_over l t r \<longleftrightarrow> at_window_start r + lm_window l < t"
  by (auto simp: window_over_def throttling_def time_sub_def)

lemma attempt_settings [simp]:
  "lm_window (snd (attempt k t b l)) = lm_window l"
  "lm_max_attempts (snd (attempt k t b l)) = lm_max_attempts l"
  "lm_max_backoff (snd (attempt k t b l)) = lm_max_backoff l"
  by (cases "allow t k l"; use limiter_settings[of t k l] in \<open>auto simp: attempt_def record_success_def split: bool.split\<close>)+

lemma throttling_attempt [simp]: "throttling (snd (attempt k t b l)) = throttling l"
  by (simp add: throttling_def)

lemma attempt_wrong: "attempt k t False l = wrong_guess k t l"
  by (simp add: attempt_def wrong_guess_def split: prod.split bool.split)

lemma attempt_other:
  "k \<noteq> key \<Longrightarrow> map_of (lm_records (snd (attempt k t b l))) key = map_of (lm_records l) key"
proof (cases b)
  case True
  assume k: "k \<noteq> key"
  obtain ok l' where a: "allow t k l = (ok, l')" by fastforce
  have "map_of (lm_records l') key = map_of (lm_records l) key"
    using k lookup_after_allow[of t k l key] a by simp
  then show ?thesis using k True a by (cases ok) (simp_all add: attempt_def record_success_def delete_conv')
qed (simp add: attempt_wrong wrong_guess_lookup)

text \<open>
  What a record says once \<open>c\<close> attempts at its key have reached the password check since \<open>t0\<close>, up to the
  time \<open>now\<close>: either its window began before \<open>t0\<close>, and then its failures count them, or it began
  later, and the failures of the window before it are fewer than the allowance. A block has a full window to run from the
  last of them.
\<close>

definition record_tracks :: "instant \<Rightarrow> nat \<Rightarrow> instant \<Rightarrow> limiter \<Rightarrow> attempt_record \<Rightarrow> bool" where
  "record_tracks t0 c now l r \<longleftrightarrow>
     (let f = at_failures r; m = lm_max_attempts l; w = lm_window l; ws = at_window_start r
      in ws \<le> now \<and> 1 \<le> f \<and>
         (if f \<le> m then at_blocked_until r = None \<and> int c \<le> (if ws < t0 then f - 1 else m - 1 + f)
          else (f = m + 1 \<or> f = m + 2) \<and> int c \<le> 2 * m \<and>
               (\<exists>u. at_blocked_until r = Some u \<and> ws + (f - m) * w \<le> u \<and> (c = 0 \<or> t0 + w \<le> u))))"

definition tracked :: "instant \<Rightarrow> string \<Rightarrow> nat \<Rightarrow> instant \<Rightarrow> limiter \<Rightarrow> bool" where
  "tracked t0 key c now l \<longleftrightarrow> (now < t0 \<longrightarrow> c = 0) \<and>
     (case map_of (lm_records l) key of None \<Rightarrow> c = 0 | Some r \<Rightarrow> record_tracks t0 c now l r)"

lemma record_tracks_fresh:
  assumes th: "throttling l" and c: "int c < lm_max_attempts l" "t < t0 \<Longrightarrow> c = 0"
  shows "record_tracks t0 (if t0 \<le> t then Suc c else c) t l
    (add_failure l t \<lparr>at_failures = 0, at_window_start = t, at_blocked_until = None\<rparr>)"
  using c th by (auto simp: record_tracks_def add_failure_def Let_def throttling_def)

lemma record_tracks_next:
  assumes th: "throttling l" and r: "record_tracks t0 c now l r" and t: "now \<le> t" "t < t0 + lm_window l"
    and c: "t < t0 \<Longrightarrow> c = 0" and free: "\<not> blocked_at t r" and win: "\<not> window_over l t r"
  shows "record_tracks t0 (if t0 \<le> t then Suc c else c) t l (add_failure l t r)"
proof (cases "at_failures r < lm_max_attempts l")
  case True
  then show ?thesis using r t c by (auto simp: record_tracks_def add_failure_def Let_def)
next
  case False
  show ?thesis
  proof (cases "at_failures r = lm_max_attempts l")
    case True
    moreover have "backoff l (lm_max_attempts l + 1) = lm_window l"
      using first_backoff[of l] th by (simp add: throttling_def)
    ultimately show ?thesis using r t c th
      by (auto simp: record_tracks_def add_failure_def Let_def throttling_def split: if_splits)
  next
    case over: False
    then obtain u where u: "at_blocked_until r = Some u" "at_window_start r \<le> now"
        "at_window_start r + (at_failures r - lm_max_attempts l) * lm_window l \<le> u" "c = 0 \<or> t0 + lm_window l \<le> u"
        "at_failures r = lm_max_attempts l + 1 \<or> at_failures r = lm_max_attempts l + 2"
      using r False by (auto simp: record_tracks_def Let_def split: if_splits)
    have "u \<le> t" using free u by (simp add: blocked_at_def)
    then have "c = 0" using u t by auto
    have end_w: "t \<le> at_window_start r + lm_window l" using win window_over_iff[OF th] by simp
    have f: "at_failures r = lm_max_attempts l + 1"
      using u(3,5) \<open>u \<le> t\<close> end_w th by (auto simp: throttling_def)
    then have "t = at_window_start r + lm_window l" using u(3) \<open>u \<le> t\<close> end_w by simp
    then show ?thesis using f \<open>c = 0\<close> second_backoff[OF th] th t \<open>at_window_start r \<le> now\<close>
      by (auto simp: record_tracks_def add_failure_def Let_def throttling_def)
  qed
qed

lemma record_tracks_settings [simp]:
  "record_tracks t0 c now (snd (attempt k t b l)) = record_tracks t0 c now l"
  "record_tracks t0 c now (snd (wrong_guess k t l)) = record_tracks t0 c now l"
  by (auto simp: record_tracks_def fun_eq_iff)

lemma tracked_step:
  assumes th: "throttling l" and inv: "tracked t0 key c now l" and t: "now \<le> t" "t < t0 + lm_window l"
    and ok: "fst (allow t key l)"
  shows "tracked t0 key (if t0 \<le> t then Suc c else c) t (snd (wrong_guess key t l))"
proof -
  have c: "t < t0 \<Longrightarrow> c = 0" using inv t by (simp add: tracked_def)
  have rec: "map_of (lm_records (snd (wrong_guess key t l))) key = Some (add_failure l t (current_record t key l))"
    using ok by (simp add: wrong_guess_lookup split: option.splits)
  have "record_tracks t0 (if t0 \<le> t then Suc c else c) t l (add_failure l t (current_record t key l))"
  proof (cases "map_of (lm_records l) key")
    case None
    then show ?thesis using record_tracks_fresh[OF th, of c t t0] inv c th
      by (simp add: current_record_def tracked_def throttling_def)
  next
    case (Some r)
    then have r: "record_tracks t0 c now l r" "\<not> blocked_at t r" using inv ok by (simp_all add: tracked_def allow_answer)
    show ?thesis
    proof (cases "window_over l t r")
      case True
      then have "at_window_start r + lm_window l < t" using window_over_iff[OF th] by simp
      then have "int c < lm_max_attempts l"
        using r t th by (auto simp: record_tracks_def Let_def blocked_at_def throttling_def split: if_splits)
      then show ?thesis using record_tracks_fresh[OF th _ c] True Some by (simp add: current_record_def)
    next
      case False
      then show ?thesis using record_tracks_next[OF th r(1) t c r(2)] Some by (simp add: current_record_def)
    qed
  qed
  then show ?thesis using c rec by (simp add: tracked_def)
qed

lemma tracked_later: "tracked t0 key c now l \<Longrightarrow> now \<le> t \<Longrightarrow> tracked t0 key c t l"
  by (auto simp: tracked_def record_tracks_def Let_def split: option.splits)

lemma tracked_other:
  "k \<noteq> key \<Longrightarrow> tracked t0 key c now (snd (attempt k t b l)) = tracked t0 key c now l"
  by (simp add: tracked_def attempt_other split: option.split)

lemma tracked_bound: "throttling l \<Longrightarrow> tracked t0 key c now l \<Longrightarrow> int c \<le> 2 * lm_max_attempts l"
  by (auto simp: tracked_def record_tracks_def Let_def throttling_def split: option.splits if_splits)

definition within :: "instant \<Rightarrow> int \<Rightarrow> string \<Rightarrow> string \<times> instant \<Rightarrow> bool" where
  "within t0 w key = (\<lambda>(k, t). k = key \<and> t0 \<le> t \<and> t < t0 + w)"

lemma attempts_times: "(k, t) \<in> set (attempts as l) \<Longrightarrow> \<exists>b. (k, t, b) \<in> set as"
proof (induction as arbitrary: l)
  case (Cons a as)
  then show ?case by (cases a) (auto simp: split_beta Let_def split: if_splits dest: Cons.IH)
qed simp

lemma none_within_later:
  "\<forall>(k, t, b) \<in> set as. t0 + w \<le> t \<Longrightarrow> filter (within t0 w key) (attempts as l) = []"
  using attempts_times by (fastforce simp: filter_empty_conv within_def)

lemma attempts_count:
  assumes "throttling l" "tracked t0 key c now l" "sorted (now # map (\<lambda>(k, t, b). t) as)"
    "\<forall>t. (key, t, True) \<notin> set as"
  shows "int (c + length (filter (within t0 (lm_window l) key) (attempts as l))) \<le> 2 * lm_max_attempts l"
  using assms
proof (induction as arbitrary: c now l)
  case Nil
  then show ?case using tracked_bound by fastforce
next
  case (Cons a as)
  obtain k t b where a: "a = (k, t, b)" by (cases a)
  have t: "now \<le> t" using Cons.prems(3) a by simp
  show ?case
  proof (cases "t < t0 + lm_window l")
    case False
    then have "\<forall>(k, t, b) \<in> set (a # as). t0 + lm_window l \<le> t" using Cons.prems(3) a by fastforce
    then show ?thesis using none_within_later[of "a # as" t0 "lm_window l" key l] tracked_bound[OF Cons.prems(1,2)]
      by simp
  next
    case True
    let ?l = "snd (attempt k t b l)" and ?hit = "fst (attempt k t b l) \<and> within t0 (lm_window l) key (k, t)"
    have inv: "tracked t0 key (if ?hit then Suc c else c) t ?l"
    proof (cases "k = key")
      case False
      then show ?thesis using tracked_later[OF Cons.prems(2) t] tracked_other[OF False] by (simp add: within_def)
    next
      case key: True
      then have "\<not> b" using Cons.prems(4) a by auto
      then have l: "attempt k t b l = wrong_guess key t l" using key by (simp add: attempt_wrong)
      show ?thesis
      proof (cases "fst (allow t key l)")
        case ok: True
        then show ?thesis using tracked_step[OF Cons.prems(1,2) t True ok] key True unfolding l
          by (simp add: within_def)
      next
        case False
        then show ?thesis using tracked_later[OF Cons.prems(2) t] unfolding l tracked_def
          by (simp add: wrong_guess_lookup split: option.splits)
      qed
    qed
    have "int ((if ?hit then Suc c else c) + length (filter (within t0 (lm_window ?l) key) (attempts as ?l)))
        \<le> 2 * lm_max_attempts ?l"
      using Cons.prems a by (intro Cons.IH[OF _ inv]) auto
    moreover have "length (filter (within t0 (lm_window l) key) (attempts (a # as) l)) =
        (if ?hit then Suc else id) (length (filter (within t0 (lm_window l) key) (attempts as ?l)))"
      by (auto simp: a split_beta Let_def)
    ultimately show ?thesis by (auto split: if_splits)
  qed
qed

text \<open>C30. Attempts are made one after another on any keys, right and wrong ones, for any length of time,
  against a new limiter whose longest block is at least a window. Then of the attempts at a key that
  has not been opened, at most twice the configured number reach the password check within any stretch of
  time as long as a window: the rest of the window that was running, the whole next one, and then a block
  that outlasts the stretch.\<close>

theorem guesses_throttled:
  assumes "throttling (new_limiter m w b)" "sorted (map (\<lambda>(k, t, right). t) as)"
    "\<forall>t. (key, t, True) \<notin> set as"
  shows "int (length (filter (\<lambda>(k, t). k = key \<and> t0 \<le> t \<and> t < t0 + w) (attempts as (new_limiter m w b)))) \<le> 2 * m"
proof (cases as)
  case (Cons a as')
  have "tracked t0 key 0 (fst (snd a)) (new_limiter m w b)" by (simp add: tracked_def new_limiter_def)
  from attempts_count[OF assms(1) this, of as] show ?thesis
    using assms Cons by (simp add: within_def new_limiter_def split_beta)
qed (use assms in \<open>simp add: throttling_def new_limiter_def\<close>)

text \<open>
  An attack on one user name while another user logs in: four guesses at the end of a window, six in the
  next one, and everything after that is refused.
\<close>

definition guess_log :: "(string \<times> instant \<times> bool) list" where
  "guess_log = (''a'', 0, False) # map (\<lambda>i. (if i mod 5 = 4 then ''b'' else ''a'', (if i < 5 then 14 else 16) * minute, i mod 5 = 4)) [0..<15]"

theorem guesses_throttled_witness:
  "length (filter (\<lambda>(k, t). k = ''a'' \<and> 14 * minute \<le> t \<and> t < 14 * minute + 15 * minute)
     (attempts guess_log (new_limiter 5 (15 * minute) hour))) \<le> 10"
proof -
  have "throttling (new_limiter 5 (15 * minute) hour)" "sorted (map (\<lambda>(k, t, right). t) guess_log)" by code_simp+
  moreover have "\<forall>a \<in> set guess_log. fst a = ''a'' \<longrightarrow> \<not> snd (snd a)" by code_simp
  then have "\<forall>t. (''a'', t, True) \<notin> set guess_log" by fastforce
  ultimately show ?thesis
    using guesses_throttled[of 5 "15 * minute" hour guess_log "''a''" "14 * minute"] by simp
qed

lemma guess_log_reaches_the_bound:
  "length (filter (\<lambda>(k, t). k = ''a'' \<and> 14 * minute \<le> t \<and> t < 14 * minute + 15 * minute)
     (attempts guess_log (new_limiter 5 (15 * minute) hour))) = 10"
  by code_simp

section \<open>What the throttle does not do\<close>

text \<open>
  The handler asks, hashes, and records in three steps. Requests that are all asked before the first of
  them is recorded are all let through.
\<close>

fun ask_all :: "(string \<times> instant) list \<Rightarrow> limiter \<Rightarrow> nat \<times> limiter" where
  "ask_all [] l = (0, l)"
| "ask_all ((k, t) # gs) l =
     (let (ok, l1) = allow t k l; (n, l2) = ask_all gs l1 in ((if ok then Suc n else n), l2))"

lemma concurrent_guesses_unbounded:
  "map_of (lm_records l) key = None \<Longrightarrow> fst (ask_all (replicate n (key, t)) l) = n"
  by (induction n) (simp_all add: allow_def split_beta)

text \<open>
  Made one after another, guesses at the login limiter never lengthen the block: by the time it ends
  the window is over too, and the record starts again from zero.
\<close>

definition block_ends_with_window :: "limiter \<Rightarrow> attempt_record \<Rightarrow> bool" where
  "block_ends_with_window l r \<longleftrightarrow>
     at_failures r \<le> lm_max_attempts l + 1 \<and>
     (at_failures r \<le> lm_max_attempts l \<longrightarrow> at_blocked_until r = None) \<and>
     (at_failures r = lm_max_attempts l + 1 \<longrightarrow>
        (\<exists>u. at_blocked_until r = Some u \<and> at_window_start r + lm_window l < u))"

lemma window_over_after:
  "lm_window l < 2 ^ 63 - 1 \<Longrightarrow> at_window_start r + lm_window l < t \<Longrightarrow> window_over l t r"
  by (simp add: window_over_def time_sub_def)

lemma backoff_never_grows_step:
  assumes th: "throttling l" "1 \<le> lm_max_attempts l" "lm_window l < 2 ^ 63 - 1"
    and inv: "\<forall>r. map_of (lm_records l) key = Some r \<longrightarrow> block_ends_with_window l r \<and> at_window_start r < t"
    and r: "map_of (lm_records (snd (wrong_guess key t l))) key = Some r"
  shows "block_ends_with_window l r"
proof (cases "fst (allow t key l)")
  case True
  then have r: "r = add_failure l t (current_record t key l)" using r by (simp add: wrong_guess_lookup split: option.splits)
  show ?thesis
  proof (cases "\<exists>q. map_of (lm_records l) key = Some q \<and> \<not> window_over l t q")
    case True
    then obtain q where q: "map_of (lm_records l) key = Some q" "\<not> window_over l t q" by blast
    then have "at_failures q \<le> lm_max_attempts l"
      using inv \<open>fst (allow t key l)\<close> window_over_after[of l q t] th
      by (fastforce simp: block_ends_with_window_def allow_answer blocked_at_def)
    moreover have "at_failures q = lm_max_attempts l \<Longrightarrow> backoff l (at_failures q + 1) = lm_window l"
      using first_backoff[of l] th by (simp add: throttling_def)
    ultimately show ?thesis using q inv r th
      by (auto simp: block_ends_with_window_def current_record_def add_failure_def Let_def)
  next
    case False
    then have "at_failures (current_record t key l) = 0" "at_blocked_until (current_record t key l) = None"
      by (auto simp: current_record_def Let_def split: option.split)
    then show ?thesis using r th by (simp add: block_ends_with_window_def add_failure_def Let_def)
  qed
next
  case False
  then show ?thesis using r inv by (simp add: wrong_guess_lookup split: option.splits)
qed

text \<open>A failure leaves a record that only a later question about the same key, or its success, removes.\<close>

lemma failures_accumulate:
  assumes "key \<notin> set (map fst gs)" "map_of (lm_records l) key = Some r"
  shows "map_of (lm_records (snd (wrong_guesses k gs l))) key = Some r"
  using assms
proof (induction gs arbitrary: l)
  case (Cons g gs)
  then show ?case using Cons.IH[of "snd (wrong_guess (fst g) (snd g) l)"]
    by (cases g) (auto simp: split_beta Let_def wrong_guess_lookup)
qed simp

end
