(* ===== verification/Password_Hash.thy ===== *)
theory Password_Hash
  imports Go_Numbers Prelude
begin

text \<open>
  Password hashes (\<open>internal/auth/password.go\<close>): the encoded form \<open>$argon2id$v=..$m=..,t=..,p=..$salt$hash\<close>
  that is written and the way it is read back. Argon2id and the random source are parameters
  (\<open>pw_idkey\<close> answers \<open>None\<close> where the library panics); base64 and the scanning of \<open>fmt.Sscanf\<close> are
  the standard library's and are written out. Byte strings are strings.
\<close>

section \<open>Base64 without padding\<close>

definition std_alphabet :: string where
  "std_alphabet = ''ABCDEFGHIJKLMNOPQRSTUVWXYZabcdefghijklmnopqrstuvwxyz0123456789+/''"

definition url_alphabet :: string where
  "url_alphabet = ''ABCDEFGHIJKLMNOPQRSTUVWXYZabcdefghijklmnopqrstuvwxyz0123456789-_''"

fun sextets :: "nat list \<Rightarrow> nat list" where
  "sextets [] = []"
| "sextets [a] = [a div 4, a mod 4 * 16]"
| "sextets [a, b] = [a div 4, a mod 4 * 16 + b div 16, b mod 16 * 4]"
| "sextets (a # b # c # bs) = a div 4 # (a mod 4 * 16 + b div 16) # (b mod 16 * 4 + c div 64) # (c mod 64) # sextets bs"

fun octets :: "nat list \<Rightarrow> nat list option" where
  "octets [] = Some []"
| "octets [x] = None"
| "octets [x, y] = Some [x * 4 + y div 16]"
| "octets [x, y, z] = Some [x * 4 + y div 16, y mod 16 * 16 + z div 4]"
| "octets (x # y # z # w # ds) =
     map_option (\<lambda>bs. (x * 4 + y div 16) # (y mod 16 * 16 + z div 4) # (z mod 4 * 64 + w) # bs) (octets ds)"

definition base64_encode :: "string \<Rightarrow> string \<Rightarrow> string" where
  "base64_encode alphabet s = map (\<lambda>d. alphabet ! d) (sextets (map of_char s))"

text \<open>Line ends are skipped, as the decoder does; the unused bits of a last digit are not looked at.\<close>

definition base64_decode :: "string \<Rightarrow> string \<Rightarrow> string option" where
  "base64_decode alphabet s =
     (let ds = map (\<lambda>c. index_char c alphabet) (filter (\<lambda>c. c \<noteq> CHR 0x0A \<and> c \<noteq> CHR 0x0D) s)
      in if None \<in> set ds then None
         else map_option (map char_of) (octets (map the ds)))"

section \<open>Scanning\<close>

text \<open>\<open>SkipSpace\<close> of \<open>fmt\<close>, for ASCII: a line end is an error.\<close>

fun skip_space :: "string \<Rightarrow> string option" where
  "skip_space [] = Some []"
| "skip_space (c # cs) =
     (if c = CHR 0x0A then None
      else if c \<in> {CHR '' '', CHR 0x09, CHR 0x0B, CHR 0x0C, CHR 0x0D} then skip_space cs
      else Some (c # cs))"

fun expect :: "string \<Rightarrow> string \<Rightarrow> string option" where
  "expect [] s = Some s"
| "expect (x # xs) [] = None"
| "expect (x # xs) (c # cs) = (if c = x then expect xs cs else None)"

definition scan_digits :: "string \<Rightarrow> (int \<times> string) option" where
  "scan_digits s = map_option (\<lambda>n. (n, dropWhile is_digit s)) (parse_digits (takeWhile is_digit s))"

definition scan_uint :: "nat \<Rightarrow> string \<Rightarrow> (int \<times> string) option" where
  "scan_uint bits s =
     Option.bind (Option.bind (skip_space s) scan_digits)
       (\<lambda>(n, rest). if n < 2 ^ bits then Some (n, rest) else None)"

definition scan_int :: "string \<Rightarrow> (int \<times> string) option" where
  "scan_int s =
     Option.bind (skip_space s) (\<lambda>s1.
     Option.bind (if has_prefix s1 ''-'' \<or> has_prefix s1 ''+'' then scan_digits (tl s1) else scan_digits s1) (\<lambda>(n, rest).
       let v = (if has_prefix s1 ''-'' then - n else n)
       in if - (2 ^ 63) \<le> v \<and> v < 2 ^ 63 then Some (v, rest) else None))"

section \<open>Hashing and verifying\<close>

record argon2_params =
  ar_memory_kib :: int
  ar_iterations :: int
  ar_parallelism :: int
  ar_salt_length :: nat
  ar_key_length :: nat

definition default_argon2_params :: argon2_params where
  "default_argon2_params = \<lparr>ar_memory_kib = 64 * 1024, ar_iterations = 3, ar_parallelism = 2,
     ar_salt_length = 16, ar_key_length = 32\<rparr>"

record password_world =
  pw_random :: "nat \<Rightarrow> nat \<Rightarrow> (string, string) result"
  pw_version :: int
  pw_idkey :: "string \<Rightarrow> string \<Rightarrow> int \<Rightarrow> int \<Rightarrow> int \<Rightarrow> nat \<Rightarrow> string option"

datatype password_error =
  No_Salt string
| Hash_Format
| Hash_Version
| Unsupported_Version int
| Hash_Params
| Hash_Salt
| Hash_Digest
| Argon2_Panic

definition id_key :: "password_world \<Rightarrow> string \<Rightarrow> string \<Rightarrow> int \<Rightarrow> int \<Rightarrow> int \<Rightarrow> nat \<Rightarrow> (password_error, string) result" where
  "id_key pw password salt t m p n =
     (case pw_idkey pw password salt t m p n of None \<Rightarrow> Inl Argon2_Panic | Some h \<Rightarrow> Inr h)"

definition encode_hash :: "int \<Rightarrow> argon2_params \<Rightarrow> string \<Rightarrow> string \<Rightarrow> string" where
  "encode_hash version ps salt hash =
     ''$argon2id$v='' @ show_int version @ ''$m='' @ show_int (ar_memory_kib ps) @ '',t='' @ show_int (ar_iterations ps) @
     '',p='' @ show_int (ar_parallelism ps) @ ''$'' @ base64_encode std_alphabet salt @ ''$'' @
     base64_encode std_alphabet hash"

definition hash_password :: "password_world \<Rightarrow> nat \<Rightarrow> string \<Rightarrow> (password_error, string) result" where
  "hash_password pw draw password =
     (case pw_random pw draw (ar_salt_length default_argon2_params) of
        Inl e \<Rightarrow> Inl (No_Salt e)
      | Inr salt \<Rightarrow>
          bind_result (id_key pw password salt (ar_iterations default_argon2_params) (ar_memory_kib default_argon2_params)
                         (ar_parallelism default_argon2_params) (ar_key_length default_argon2_params))
            (\<lambda>h. Inr (encode_hash (pw_version pw) default_argon2_params salt h)))"

definition scan_version :: "string \<Rightarrow> int option" where
  "scan_version s = map_option fst (Option.bind (expect ''v='' s) scan_int)"

definition scan_params :: "string \<Rightarrow> (int \<times> int \<times> int) option" where
  "scan_params s =
     Option.bind (Option.bind (expect ''m='' s) (scan_uint 32)) (\<lambda>(m, s1).
     Option.bind (Option.bind (expect '',t='' s1) (scan_uint 32)) (\<lambda>(t, s2).
     Option.bind (Option.bind (expect '',p='' s2) (scan_uint 8)) (\<lambda>(p, s3). Some (m, t, p))))"

definition decode_hash :: "password_world \<Rightarrow> string \<Rightarrow> (password_error, (int \<times> int \<times> int) \<times> string \<times> string) result" where
  "decode_hash pw encoded =
     (case split_on CHR ''$'' encoded of
        [_, kind, v, ps, salt, hash] \<Rightarrow>
          if kind \<noteq> ''argon2id'' then Inl Hash_Format
          else (case scan_version v of
            None \<Rightarrow> Inl Hash_Version
          | Some version \<Rightarrow>
              if version \<noteq> pw_version pw then Inl (Unsupported_Version version)
              else (case scan_params ps of
                None \<Rightarrow> Inl Hash_Params
              | Some params \<Rightarrow>
                  (case base64_decode std_alphabet salt of
                     None \<Rightarrow> Inl Hash_Salt
                   | Some s \<Rightarrow>
                       (case base64_decode std_alphabet hash of
                          None \<Rightarrow> Inl Hash_Digest
                        | Some h \<Rightarrow> Inr (params, s, h)))))
      | _ \<Rightarrow> Inl Hash_Format)"

definition verify_password :: "password_world \<Rightarrow> string \<Rightarrow> string \<Rightarrow> (password_error, bool) result" where
  "verify_password pw encoded password =
     bind_result (decode_hash pw encoded) (\<lambda>((m, t, p), salt, hash).
     bind_result (id_key pw password salt t m p (length hash)) (\<lambda>candidate. Inr (hash = candidate)))"

section \<open>Base64 gives back what it was given\<close>

lemma quotient_bounds:
  fixes a b :: nat
  assumes "a < 256"
  shows "a div 4 < 64" "a div 16 < 16" "a div 64 < 4" "b mod 4 * 16 + a div 16 < 64" "b mod 16 * 4 + a div 64 < 64"
proof -
  show d: "a div 4 < 64" "a div 16 < 16" "a div 64 < 4" using assms by simp_all
  have "b mod 4 < 4" "b mod 16 < 16" by simp_all
  with d show "b mod 4 * 16 + a div 16 < 64" "b mod 16 * 4 + a div 64 < 64" by linarith+
qed

lemma quotient_parts:
  fixes a b :: nat
  assumes "a < 256"
  shows "(b mod 4 * 16 + a div 16) div 16 = b mod 4" "(b mod 4 * 16 + a div 16) mod 16 = a div 16"
    "(b mod 16 * 4 + a div 64) div 4 = b mod 16" "(b mod 16 * 4 + a div 64) mod 4 = a div 64"
  using quotient_bounds[OF assms] by simp_all

lemma octets_sextets: "\<forall>b \<in> set bs. b < 256 \<Longrightarrow> octets (sextets bs) = Some bs"
proof (induction bs rule: sextets.induct)
  case (3 a b)
  then show ?case using quotient_parts[of b a] by simp
next
  case (4 a b c bs)
  then show ?case using quotient_parts[of b a] quotient_parts[of c b] by simp
qed simp_all

lemma sextets_bound: "\<forall>b \<in> set bs. b < 256 \<Longrightarrow> d \<in> set (sextets bs) \<Longrightarrow> d < 64"
proof (induction bs rule: sextets.induct)
  case (3 a b)
  then show ?case using quotient_bounds(4,5)[of b a] quotient_bounds(1)[of a] by auto
next
  case (4 a b c bs)
  then show ?case using quotient_bounds(4,5)[of b a] quotient_bounds(1)[of a] quotient_bounds(5)[of c b] by auto
qed auto

lemma index_char_nth: "distinct s \<Longrightarrow> i < length s \<Longrightarrow> index_char (s ! i) s = Some i"
  by (induction s arbitrary: i) (auto simp: nth_Cons' split: if_splits)

definition base64_alphabet :: "string \<Rightarrow> bool" where
  "base64_alphabet a \<longleftrightarrow> distinct a \<and> length a = 64 \<and> CHR 0x0A \<notin> set a \<and> CHR 0x0D \<notin> set a"

lemma base64_alphabets [simp]: "base64_alphabet std_alphabet" "base64_alphabet url_alphabet"
  by code_simp+

lemma char_bytes: "\<forall>b \<in> set (map of_char s). (b::nat) < 256"
  by auto

lemma base64_chars:
  assumes "base64_alphabet a"
  shows "set (base64_encode a s) \<subseteq> set a"
proof
  fix c assume "c \<in> set (base64_encode a s)"
  then obtain d where "d \<in> set (sextets (map of_char s))" "c = a ! d"
    unfolding base64_encode_def by auto
  then show "c \<in> set a" using sextets_bound[OF char_bytes] assms by (simp add: base64_alphabet_def)
qed

lemma base64_decode_encode:
  assumes "base64_alphabet a"
  shows "base64_decode a (base64_encode a s) = Some s"
proof -
  let ?ds = "sextets (map of_char s) :: nat list"
  have bound: "\<And>d. d \<in> set ?ds \<Longrightarrow> d < 64" using sextets_bound[OF char_bytes] by blast
  have keep: "filter (\<lambda>c. c \<noteq> CHR 0x0A \<and> c \<noteq> CHR 0x0D) (base64_encode a s) = base64_encode a s"
    using base64_chars[OF assms, of s] assms by (auto simp: filter_id_conv base64_alphabet_def)
  have "map (\<lambda>c. index_char c a) (base64_encode a s) = map Some ?ds"
    using bound assms index_char_nth[of a] by (auto simp: base64_encode_def base64_alphabet_def)
  then show ?thesis unfolding base64_decode_def keep Let_def
    by (simp add: octets_sextets[OF char_bytes] comp_def image_iff)
qed


section \<open>A written hash is read back\<close>

lemma expect_append [simp]: "expect a (a @ b) = Some b"
  by (induction a) auto

lemma has_prefix_Cons: "has_prefix (c # s) [d] \<longleftrightarrow> d = c"
  by (simp add: has_prefix_def)

lemma show_int_decimal:
  assumes "0 \<le> n"
  shows "show_int n \<noteq> []" "list_all is_digit (show_int n)" "parse_digits (show_int n) = Some n"
  using show_nat_digits[of "nat n"] assms by (simp_all add: show_int_def parse_digits_def)

lemma skip_space_digit: "is_digit c \<Longrightarrow> skip_space (c # s) = Some (c # s)"
  by (auto simp: is_digit_def)

lemma scan_digits_show:
  assumes "0 \<le> n" "rest = [] \<or> \<not> is_digit (hd rest)"
  shows "skip_space (show_int n @ rest) = Some (show_int n @ rest)"
    "scan_digits (show_int n @ rest) = Some (n, rest)"
    "\<not> has_prefix (show_int n @ rest) ''-''" "\<not> has_prefix (show_int n @ rest) ''+''"
proof -
  note d = show_int_decimal[OF assms(1)]
  then obtain c cs where c: "show_int n = c # cs" "is_digit c" by (cases "show_int n") auto
  then show "skip_space (show_int n @ rest) = Some (show_int n @ rest)"
    by (simp only: append_Cons skip_space_digit)
  have "takeWhile is_digit (show_int n @ rest) = show_int n" "dropWhile is_digit (show_int n @ rest) = rest"
    using d(2) assms(2) by (cases rest; simp add: list_all_iff)+
  then show "scan_digits (show_int n @ rest) = Some (n, rest)" using d by (simp add: scan_digits_def)
  show "\<not> has_prefix (show_int n @ rest) ''-''" "\<not> has_prefix (show_int n @ rest) ''+''"
    using c by (auto simp: has_prefix_Cons is_digit_def)
qed

lemma scan_uint_show:
  assumes "0 \<le> n" "n < 2 ^ bits" "rest = [] \<or> \<not> is_digit (hd rest)"
  shows "scan_uint bits (show_int n @ rest) = Some (n, rest)"
  using scan_digits_show[OF assms(1,3)] assms(2) by (simp add: scan_uint_def)

lemma scan_version_show: "0 \<le> n \<Longrightarrow> n < 2 ^ 63 \<Longrightarrow> scan_version (''v='' @ show_int n) = Some n"
  using scan_digits_show[of n "[]"] unfolding scan_version_def expect_append by (simp add: scan_int_def)

lemma scan_params_show:
  assumes "0 \<le> m" "m < 2 ^ 32" "0 \<le> t" "t < 2 ^ 32" "0 \<le> p" "p < 2 ^ 8"
  shows "scan_params (''m='' @ show_int m @ '',t='' @ show_int t @ '',p='' @ show_int p) = Some (m, t, p)"
proof -
  have "scan_uint 32 (show_int m @ '',t='' @ show_int t @ '',p='' @ show_int p) = Some (m, '',t='' @ show_int t @ '',p='' @ show_int p)"
    "scan_uint 32 (show_int t @ '',p='' @ show_int p) = Some (t, '',p='' @ show_int p)"
    "scan_uint 8 (show_int p) = Some (p, [])"
    using assms scan_uint_show[of m 32 "'',t='' @ show_int t @ '',p='' @ show_int p"]
      scan_uint_show[of t 32 "'',p='' @ show_int p"] scan_uint_show[of p 8 "[]"]
    by (simp_all add: is_digit_def)
  then show ?thesis unfolding scan_params_def by simp
qed

lemma no_dollar:
  assumes "0 \<le> n"
  shows "CHR ''$'' \<notin> set (show_int n)"
proof
  assume "CHR ''$'' \<in> set (show_int n)"
  then have "is_digit CHR ''$''" using show_int_decimal(2)[OF assms] by (simp add: list_all_iff)
  then show False by (simp add: is_digit_def)
qed

lemma std_no_dollar: "CHR ''$'' \<notin> set (base64_encode std_alphabet s)"
proof
  assume "CHR ''$'' \<in> set (base64_encode std_alphabet s)"
  then have "CHR ''$'' \<in> set std_alphabet" using base64_chars[OF base64_alphabets(1)] by blast
  moreover have "CHR ''$'' \<notin> set std_alphabet" by code_simp
  ultimately show False by simp
qed

definition writable_params :: "argon2_params \<Rightarrow> bool" where
  "writable_params ps \<longleftrightarrow> 0 \<le> ar_memory_kib ps \<and> ar_memory_kib ps < 2 ^ 32 \<and> 0 \<le> ar_iterations ps \<and>
     ar_iterations ps < 2 ^ 32 \<and> 0 \<le> ar_parallelism ps \<and> ar_parallelism ps < 2 ^ 8"

lemma split_step: "c \<notin> set a \<Longrightarrow> split_on c (a @ c # b) = a # split_on c b"
  by (induction a) auto

lemma decode_encode_hash:
  assumes "0 \<le> pw_version pw" "pw_version pw < 2 ^ 63" "writable_params ps"
  shows "decode_hash pw (encode_hash (pw_version pw) ps salt h) =
         Inr ((ar_memory_kib ps, ar_iterations ps, ar_parallelism ps), salt, h)"
proof -
  let ?v = "''v='' @ show_int (pw_version pw)"
    and ?p = "''m='' @ show_int (ar_memory_kib ps) @ '',t='' @ show_int (ar_iterations ps) @ '',p='' @ show_int (ar_parallelism ps)"
    and ?s = "base64_encode std_alphabet salt" and ?h = "base64_encode std_alphabet h"
  note nd = no_dollar assms(3)[unfolded writable_params_def]
  have "encode_hash (pw_version pw) ps salt h =
        [] @ CHR ''$'' # ''argon2id'' @ CHR ''$'' # ?v @ CHR ''$'' # ?p @ CHR ''$'' # ?s @ CHR ''$'' # ?h"
    by (simp add: encode_hash_def)
  moreover have "CHR ''$'' \<notin> set ?v" "CHR ''$'' \<notin> set ?p" using nd assms(1) by auto
  moreover have "CHR ''$'' \<notin> set ''argon2id''" by simp
  ultimately have "split_on CHR ''$'' (encode_hash (pw_version pw) ps salt h) = [[], ''argon2id'', ?v, ?p, ?s, ?h]"
    by (simp only: split_step std_no_dollar split_on_id not_False_eq_True list.set empty_iff)
  moreover have "scan_version ?v = Some (pw_version pw)" using assms by (intro scan_version_show)
  moreover have "scan_params ?p = Some (ar_memory_kib ps, ar_iterations ps, ar_parallelism ps)"
    using assms(3) by (intro scan_params_show) (simp_all add: writable_params_def)
  ultimately show ?thesis
    by (simp only: decode_hash_def list.case base64_decode_encode[OF base64_alphabets(1)] option.case if_False if_True
        not_True_eq_False simp_thms HOL.refl)
qed

lemma default_params_writable [simp]: "writable_params default_argon2_params"
  by (simp add: writable_params_def default_argon2_params_def)

text \<open>C31. A hash that was stored is read back with its salt and digest, and a password is accepted for
  it exactly when Argon2id gives it the stored digest: the password it was made from always is.\<close>

theorem password_hash_round_trip:
  assumes "0 \<le> pw_version pw" "pw_version pw < 2 ^ 63" "pw_random pw draw 16 = Inr salt"
    and "pw_idkey pw password salt 3 65536 2 32 = Some h" "length h = 32"
  shows "\<exists>enc. hash_password pw draw password = Inr enc \<and> verify_password pw enc password = Inr True \<and>
           (\<forall>guess h'. pw_idkey pw guess salt 3 65536 2 32 = Some h' \<longrightarrow> verify_password pw enc guess = Inr (h = h'))"
proof -
  let ?enc = "encode_hash (pw_version pw) default_argon2_params salt h"
  have "hash_password pw draw password = Inr ?enc"
    using assms by (simp add: hash_password_def id_key_def default_argon2_params_def bind_result_def)
  moreover have "verify_password pw ?enc guess = Inr (h = h')" if "pw_idkey pw guess salt 3 65536 2 32 = Some h'" for guess h'
    using that assms(5) decode_encode_hash[OF assms(1,2) default_params_writable, of salt h]
    by (simp add: verify_password_def bind_result_def id_key_def) (simp add: default_argon2_params_def)
  ultimately show ?thesis using assms(4) by (intro exI[of _ ?enc]) simp
qed

text \<open>An instance: the digest is the password's first bytes, the salt is constant.\<close>

definition plain_password_world :: password_world where
  "plain_password_world = \<lparr>pw_random = (\<lambda>draw n. Inr (replicate n CHR ''s'')), pw_version = 19,
     pw_idkey = (\<lambda>p s t m par n. if t < 1 \<or> par < 1 then None else Some (take n (p @ replicate n CHR ''0'')))\<rparr>"

theorem password_hash_round_trip_witness:
  "\<exists>enc. hash_password plain_password_world 0 ''correct horse'' = Inr enc \<and>
     verify_password plain_password_world enc ''correct horse'' = Inr True"
proof -
  let ?h = "take 32 (''correct horse'' @ replicate 32 CHR ''0'')"
  have "pw_idkey plain_password_world ''correct horse'' (replicate 16 CHR ''s'') 3 65536 2 32 = Some ?h"
    "pw_random plain_password_world 0 16 = Inr (replicate 16 CHR ''s'')" "pw_version plain_password_world = 19"
    by (simp_all add: plain_password_world_def)
  moreover have "length ?h = 32" by simp
  ultimately show ?thesis
    using password_hash_round_trip[of plain_password_world 0 "replicate 16 CHR ''s''" "''correct horse''" ?h] by auto
qed

text \<open>
  \<open>Sscanf\<close> stops at the last verb and \<open>Split\<close> does not look at what stands before the first separator,
  so what is read back is not only what is written.
\<close>

lemma decode_accepts_more:
  "decode_hash plain_password_world ''$argon2id$v=19$m=8,t=1,p=1$czA$aA'' = Inr ((8, 1, 1), ''s0'', ''h'')"
  "decode_hash plain_password_world (''x$argon2id$v= 19y$m= 8,t=1,p=1zz$cz'' @ [CHR 0x0A] @ ''A$aA'') =
     Inr ((8, 1, 1), ''s0'', ''h'')"
  by code_simp+

text \<open>A stored cost of zero passes the parser and reaches Argon2id, which panics on it.\<close>

lemma verify_panics_on_zero_cost:
  "verify_password plain_password_world ''$argon2id$v=19$m=8,t=0,p=1$czA$aA'' ''x'' = Inl Argon2_Panic"
  by code_simp

end
