(* ===== verification/Go_Date.thy ===== *)
theory Go_Date
  imports Go_Time Go_Numbers
begin

text \<open>
  Reading back the RFC 3339 texts of \<open>Go_Time\<close>: \<open>time.Parse(time.RFC3339Nano, s)\<close> on its fast path,
  with the field ranges it checks. Texts the fast path refuses (a lenient fallback of the library
  takes a few more, such as a comma before the fraction) are refused here. Every time of the years 0 to
  9999 is read back as it was written.
\<close>

section \<open>The parser\<close>

definition leap_year :: "int \<Rightarrow> bool" where
  "leap_year y \<longleftrightarrow> y mod 4 = 0 \<and> (y mod 100 \<noteq> 0 \<or> y mod 400 = 0)"

definition days_in :: "int \<Rightarrow> int \<Rightarrow> int" where
  "days_in m y = (if m = 2 then (if leap_year y then 29 else 28) else if m \<in> {4, 6, 9, 11} then 30 else 31)"

definition days_of_civil :: "int \<Rightarrow> int \<Rightarrow> int \<Rightarrow> int" where
  "days_of_civil y m d =
     (let y' = (if m \<le> 2 then y - 1 else y);
          era = y' div 400;
          yoe = y' mod 400;
          doy = (153 * (if m > 2 then m - 3 else m + 9) + 2) div 5 + d - 1
      in era * 146097 + (yoe * 365 + yoe div 4 - yoe div 100 + doy) - 719468)"

definition parse_range :: "string \<Rightarrow> int \<Rightarrow> int \<Rightarrow> int option" where
  "parse_range s low high =
     (case parse_digits s of None \<Rightarrow> None | Some n \<Rightarrow> if low \<le> n \<and> n \<le> high then Some n else None)"

definition parse_clock :: "string \<Rightarrow> int option" where
  "parse_clock s =
     Option.bind (parse_range (take 2 s) 0 23) (\<lambda>h.
     Option.bind (parse_range (take 2 (drop 3 s)) 0 59) (\<lambda>m.
     Option.bind (parse_range (take 2 (drop 6 s)) 0 59) (\<lambda>sec.
       if s ! 2 = CHR '':'' \<and> s ! 5 = CHR '':'' then Some ((h * 60 + m) * 60 + sec) else None)))"

definition parse_date :: "string \<Rightarrow> int option" where
  "parse_date s =
     Option.bind (parse_range (take 4 s) 0 9999) (\<lambda>y.
     Option.bind (parse_range (take 2 (drop 5 s)) 1 12) (\<lambda>m.
     Option.bind (parse_range (take 2 (drop 8 s)) 1 (days_in m y)) (\<lambda>d.
       if s ! 4 = CHR ''-'' \<and> s ! 7 = CHR ''-'' then Some (days_of_civil y m d) else None)))"

text \<open>The fraction: digits past the ninth are dropped, missing ones count as zero.\<close>

definition parse_fraction :: "string \<Rightarrow> int \<times> string" where
  "parse_fraction s =
     (case s of
        c # ds \<Rightarrow>
          if c = CHR ''.'' \<and> takeWhile is_digit ds \<noteq> []
          then (digits_value 0 (take 9 (takeWhile is_digit ds @ replicate 9 CHR ''0'')), dropWhile is_digit ds)
          else (0, s)
      | [] \<Rightarrow> (0, s))"

definition parse_zone :: "string \<Rightarrow> int option" where
  "parse_zone s =
     (if s = ''Z'' then Some 0
      else if length s = 6 \<and> (s ! 0 = CHR ''+'' \<or> s ! 0 = CHR ''-'') \<and> s ! 3 = CHR '':''
      then Option.bind (parse_range (take 2 (drop 1 s)) 0 23) (\<lambda>h.
           Option.bind (parse_range (take 2 (drop 4 s)) 0 59) (\<lambda>m.
             Some ((if s ! 0 = CHR ''-'' then -1 else 1) * ((h * 60 + m) * 60))))
      else None)"

definition parse_rfc3339 :: "string \<Rightarrow> instant option" where
  "parse_rfc3339 s =
     (if length s < 19 then None
      else Option.bind (parse_date (take 10 s)) (\<lambda>days.
           Option.bind (parse_clock (take 8 (drop 11 s))) (\<lambda>secs.
             if s ! 10 \<noteq> CHR ''T'' then None
             else let (ns, rest) = parse_fraction (drop 19 s)
                  in map_option (\<lambda>zone. (days * 86400 + secs - zone) * 1000000000 + ns) (parse_zone rest))))"

section \<open>Calendar arithmetic\<close>

text \<open>
  The year of an era from its day: inside a century the quotient by 1460 is the number of leap days
  passed, give or take the one that ends a group of four years.
\<close>

lemma century_year:
  fixes c r :: int
  assumes c: "0 \<le> c" "c \<le> 3" and r: "0 \<le> r" "r < 36524"
  defines "y \<equiv> (r - (24 * c + r) div 1460) div 365"
  shows "0 \<le> y" "y < 100" "0 \<le> r - (365 * y + y div 4)" "r - (365 * y + y div 4) \<le> 365"
    "r - (365 * y + y div 4) = 365 \<Longrightarrow> y mod 4 = 3 \<and> y \<noteq> 99"
proof -
  define k where "k = (24 * c + r) div 1460"
  define s where "s = (r - k) mod 365"
  define j where "j = y div 4"
  define i where "i = y mod 4"
  have y: "y = 4 * j + i" "0 \<le> i" "i \<le> 3" unfolding i_def j_def by simp_all
  have rk: "r = k + 365 * y + s" "0 \<le> s" "s \<le> 364"
    unfolding s_def y_def k_def[symmetric] by simp_all
  have k: "1460 * k \<le> 24 * c + r" "24 * c + r < 1460 * k + 1460"
    unfolding k_def by simp_all
  have k0: "0 \<le> k" "k \<le> 25" using k c r by simp_all
  have "0 \<le> r - k" using k c r k0 by (cases "k = 0") auto
  then show y0: "0 \<le> y" unfolding y_def k_def by simp
  show y99: "y < 100"
  proof (rule ccontr)
    assume "\<not> y < 100"
    then have "36500 + k \<le> r" using rk by linarith
    then show False using k r c by linarith
  qed
  have jk: "j \<le> k" "k \<le> j + 1" using y rk k c k0 y0 y99 by linarith+
  have doy: "r - (365 * y + y div 4) = k + s - j" using rk(1) by (simp add: j_def)
  show "0 \<le> r - (365 * y + y div 4)" "r - (365 * y + y div 4) \<le> 365"
    unfolding doy using jk rk by linarith+
  assume "r - (365 * y + y div 4) = 365"
  then have full: "k = j + 1" "s = 364" using doy jk rk by linarith+
  have "i = 3" using full rk k y c y99 by linarith
  moreover have "y \<noteq> 99" using full rk k r y \<open>i = 3\<close> by linarith
  ultimately show "y mod 4 = 3 \<and> y \<noteq> 99" by (simp add: i_def)
qed


lemma era_year:
  fixes doe :: int
  assumes doe: "0 \<le> doe" "doe < 146097"
  defines "yoe \<equiv> (doe - doe div 1460 + doe div 36524 - doe div 146096) div 365"
  defines "doy \<equiv> doe - (365 * yoe + yoe div 4 - yoe div 100)"
  shows "0 \<le> yoe" "yoe \<le> 399" "0 \<le> doy" "doy \<le> 365" "doy = 365 \<Longrightarrow> leap_year (yoe + 1)"
proof -
  have "0 \<le> yoe \<and> yoe \<le> 399 \<and> 0 \<le> doy \<and> doy \<le> 365 \<and> (doy = 365 \<longrightarrow> leap_year (yoe + 1))"
  proof (cases "doe = 146096")
    case True
    then show ?thesis by (simp add: yoe_def doy_def leap_year_def)
  next
    case False
    define c where "c = doe div 36524"
    define r where "r = doe mod 36524"
    define y where "y = (r - (24 * c + r) div 1460) div 365"
    have d: "doe = 36524 * c + r" and c: "0 \<le> c" "c \<le> 3" and r: "0 \<le> r" "r < 36524"
      using doe False by (simp_all add: c_def r_def)
    note cy = century_year[OF c r, folded y_def]
    have "doe = 1460 * (25 * c) + (24 * c + r)" using d by simp
    then have "doe div 1460 = 25 * c + (24 * c + r) div 1460"
      by (metis div_mult_self4 zero_neq_numeral add.commute)
    moreover have "doe div 146096 = 0" using doe False by simp
    ultimately have "doe - doe div 1460 + doe div 36524 - doe div 146096 = 365 * (100 * c) + (r - (24 * c + r) div 1460)"
      using d c_def by linarith
    then have yoe: "yoe = 100 * c + y" unfolding yoe_def y_def by simp
    have "yoe div 4 = 25 * c + y div 4" unfolding yoe using div_mult_self4[of 4 "25 * c" y] by (simp add: add.commute)
    moreover have "yoe div 100 = c" unfolding yoe using cy(1,2) by simp
    ultimately have doy: "doy = r - (365 * y + y div 4)" unfolding doy_def using yoe d by simp
    have "leap_year (yoe + 1)" if "doy = 365"
    proof -
      have y: "y mod 4 = 3" "y \<noteq> 99" using cy(5) that doy by simp_all
      then have "(yoe + 1) mod 4 = 0" unfolding yoe by presburger
      moreover have "(yoe + 1) mod 100 = y + 1" unfolding yoe using cy(1,2) y(2) mod_mult_self2[of "y + 1" 100 c] by (simp add: algebra_simps)
      ultimately show ?thesis using cy(1) by (simp add: leap_year_def)
    qed
    then show ?thesis using cy c yoe doy by auto
  qed
  then show "0 \<le> yoe" "yoe \<le> 399" "0 \<le> doy" "doy \<le> 365" "doy = 365 \<Longrightarrow> leap_year (yoe + 1)" by blast+
qed

lemma leap_year_era: "leap_year (y + era * 400) = leap_year y"
proof -
  have "(y + 4 * (100 * era)) mod 4 = y mod 4" "(y + 100 * (4 * era)) mod 100 = y mod 100" "(y + 400 * era) mod 400 = y mod 400"
    by (rule mod_mult_self2)+
  then have "(y + era * 400) mod 4 = y mod 4" "(y + era * 400) mod 100 = y mod 100" "(y + era * 400) mod 400 = y mod 400"
    by (simp_all add: mult.commute)
  then show ?thesis by (simp add: leap_year_def)
qed

text \<open>The month and day of a day of a year that begins in March.\<close>

lemma month_day:
  fixes doy :: int
  assumes "0 \<le> doy" "doy \<le> 365"
  defines "mp \<equiv> (5 * doy + 2) div 153"
  defines "m \<equiv> (if mp < 10 then mp + 3 else mp - 9)"
  defines "d \<equiv> doy - (153 * mp + 2) div 5 + 1"
  shows "0 \<le> mp" "mp \<le> 11" "1 \<le> d" "d \<le> (if m = 2 then 29 else if m \<in> {4, 6, 9, 11} then 30 else 31)"
    "m = 2 \<and> d = 29 \<longleftrightarrow> doy = 365"
proof -
  have mp: "153 * mp \<le> 5 * doy + 2" "5 * doy + 2 < 153 * mp + 153" unfolding mp_def by simp_all
  show "0 \<le> mp" "mp \<le> 11" using mp assms by linarith+
  then have "mp = 0 \<or> mp = 1 \<or> mp = 2 \<or> mp = 3 \<or> mp = 4 \<or> mp = 5 \<or> mp = 6 \<or> mp = 7 \<or> mp = 8 \<or> mp = 9 \<or>
    mp = 10 \<or> mp = 11" by presburger
  then show "1 \<le> d" "d \<le> (if m = 2 then 29 else if m \<in> {4, 6, 9, 11} then 30 else 31)" "m = 2 \<and> d = 29 \<longleftrightarrow> doy = 365"
    using mp assms(1,2) by (auto simp: d_def m_def)
qed

lemma civil_date_fields:
  assumes "civil_date days = (y, m, d)"
  shows "days_of_civil y m d = days" "1 \<le> m" "m \<le> 12" "1 \<le> d" "d \<le> days_in m y"
proof -
  define z where "z = days + 719468"
  define era where "era = z div 146097"
  define doe where "doe = z mod 146097"
  define yoe where "yoe = (doe - doe div 1460 + doe div 36524 - doe div 146096) div 365"
  define doy where "doy = doe - (365 * yoe + yoe div 4 - yoe div 100)"
  define mp where "mp = (5 * doy + 2) div 153"
  have m: "m = (if mp < 10 then mp + 3 else mp - 9)"
    and y: "y = yoe + era * 400 + (if m \<le> 2 then 1 else 0)" and d: "d = doy - (153 * mp + 2) div 5 + 1"
    using assms unfolding civil_date_def Let_def z_def[symmetric] era_def[symmetric] doe_def[symmetric] yoe_def[symmetric]
      doy_def[symmetric] mp_def[symmetric] by auto
  have z: "0 \<le> doe" "doe < 146097" "z = era * 146097 + doe" by (simp_all add: doe_def era_def)
  note e = era_year[OF z(1,2), folded yoe_def, folded doy_def]
  note md = month_day[OF e(3,4), folded mp_def, folded m d]
  show m12: "1 \<le> m" "m \<le> 12" and "1 \<le> d" using md m by auto
  have y': "(if m \<le> 2 then y - 1 else y) = yoe + era * 400" using y by auto
  have era: "(yoe + era * 400) div 400 = era" "(yoe + era * 400) mod 400 = yoe" using e(1,2) by simp_all
  have mp': "(if m > 2 then m - 3 else m + 9) = mp" using m md(1,2) by auto
  have "days_of_civil y m d = era * 146097 + (yoe * 365 + yoe div 4 - yoe div 100 + doy) - 719468"
    unfolding days_of_civil_def Let_def y' era mp' using d by simp
  then show "days_of_civil y m d = days" using z(3) by (simp add: doy_def z_def)
  show "d \<le> days_in m y"
  proof (cases "doy = 365")
    case True
    then have "m = 2" "d = 29" using md(5) by auto
    moreover from this y have "leap_year y" using e(5)[OF True] leap_year_era[of "yoe + 1" era] by (simp add: algebra_simps)
    ultimately show ?thesis by (simp add: days_in_def)
  next
    case False
    then have "\<not> (m = 2 \<and> d = 29)" using md(5) by blast
    then show ?thesis using md(4) by (auto simp: days_in_def split: if_splits)
  qed
qed


section \<open>Texts are read back\<close>

lemma length_show_nat: "n < 10 ^ w \<Longrightarrow> 0 < w \<Longrightarrow> length (show_nat n) \<le> w"
proof (induction w arbitrary: n)
  case (Suc w)
  show ?case
  proof (cases "n < 10")
    case False
    then have "0 < w" using Suc.prems(1) by (cases w) auto
    moreover have "n div 10 < 10 ^ w" using Suc.prems(1) by (simp add: less_mult_imp_div_less mult.commute)
    ultimately have "length (show_nat (n div 10)) \<le> w" by (rule Suc.IH[rotated])
    then show ?thesis using False by (simp add: show_nat.simps[of n])
  qed (simp add: show_nat.simps[of n])
qed simp

lemma digits_value_zeros: "digits_value 0 (replicate k CHR ''0'' @ s) = digits_value 0 s"
  by (induction k) auto

lemma pad_zero_digits:
  assumes "n < 10 ^ w" "0 < w"
  shows "length (pad_zero w n) = w" "list_all is_digit (pad_zero w n)" "digits_value 0 (pad_zero w n) = int n"
proof -
  have zero: "is_digit CHR ''0''" by (simp add: is_digit_def)
  show "length (pad_zero w n) = w" using length_show_nat[OF assms] by (simp add: pad_zero_def Let_def)
  show "list_all is_digit (pad_zero w n)" "digits_value 0 (pad_zero w n) = int n"
    using show_nat_digits[of n] zero by (auto simp: pad_zero_def Let_def digits_value_zeros list_all_iff)
qed

lemma parse_range_pad:
  assumes "0 \<le> n" "n < 10 ^ w" "0 < w" "low \<le> n" "n \<le> high"
  shows "parse_range (pad_zero w (nat n)) low high = Some n"
proof -
  have "nat n < 10 ^ w" using assms(1,2) by (simp add: nat_less_iff)
  note p = pad_zero_digits[OF this assms(3)]
  have "pad_zero w (nat n) \<noteq> []" using p(1) assms(3) by (cases "pad_zero w (nat n)") auto
  then show ?thesis using p assms by (simp add: parse_range_def parse_digits_def)
qed

lemma parse_date_text:
  assumes "civil_date days = (y, m, d)" "0 \<le> y" "y \<le> 9999"
  shows "parse_date (pad_zero 4 (nat y) @ ''-'' @ pad_zero 2 (nat m) @ ''-'' @ pad_zero 2 (nat d)) = Some days"
proof -
  note c = civil_date_fields[OF assms(1)]
  have "d < 100" using c(5) by (simp add: days_in_def split: if_splits)
  have "length (pad_zero 4 (nat y)) = 4" "length (pad_zero 2 (nat m)) = 2" "length (pad_zero 2 (nat d)) = 2"
    using assms c \<open>d < 100\<close> by (simp_all add: pad_zero_digits nat_less_iff)
  moreover have "parse_range (pad_zero 4 (nat y)) 0 9999 = Some y" "parse_range (pad_zero 2 (nat m)) 1 12 = Some m"
    "parse_range (pad_zero 2 (nat d)) 1 (days_in m y) = Some d"
    using assms c \<open>d < 100\<close> by (simp_all add: parse_range_pad)
  ultimately show ?thesis using c(1) by (simp add: parse_date_def nth_append)
qed

lemma parse_clock_fields:
  assumes "0 \<le> h" "h \<le> 23" "0 \<le> m" "m \<le> 59" "0 \<le> s" "s \<le> 59"
  shows "parse_clock (pad_zero 2 (nat h) @ '':'' @ pad_zero 2 (nat m) @ '':'' @ pad_zero 2 (nat s)) = Some ((h * 60 + m) * 60 + s)"
proof -
  have "length (pad_zero 2 (nat h)) = 2" "length (pad_zero 2 (nat m)) = 2" "length (pad_zero 2 (nat s)) = 2"
    using assms by (simp_all add: pad_zero_digits nat_less_iff)
  then show ?thesis using assms by (simp add: parse_clock_def nth_append parse_range_pad)
qed

lemma clock_parts: "(r div 3600 * 60 + r mod 3600 div 60) * 60 + r mod 60 = (r::int)"
proof -
  have "r mod 3600 mod 60 = r mod 60" by (simp add: mod_mod_cancel)
  moreover have "a * 3600 + b = r \<Longrightarrow> c * 60 + e = b \<Longrightarrow> (a * 60 + c) * 60 + e = r" for a b c e :: int
    by simp
  ultimately show ?thesis using div_mult_mod_eq[of r 3600] div_mult_mod_eq[of "r mod 3600" 60] by metis
qed

lemma parse_clock_text:
  assumes "0 \<le> r" "r < 86400"
  shows "parse_clock (pad_zero 2 (nat r div 3600) @ '':'' @ pad_zero 2 (nat r mod 3600 div 60) @ '':'' @ pad_zero 2 (nat r mod 60)) = Some r"
proof -
  have n: "nat r div 3600 = nat (r div 3600)" "nat r mod 3600 div 60 = nat (r mod 3600 div 60)" "nat r mod 60 = nat (r mod 60)"
    using assms by (simp_all add: nat_div_distrib nat_mod_distrib)
  have "0 \<le> r div 3600" "r div 3600 \<le> 23" "0 \<le> r mod 3600 div 60" "r mod 3600 div 60 \<le> 59" "0 \<le> r mod 60" "r mod 60 \<le> 59"
    using assms by auto
  then show ?thesis unfolding n by (subst parse_clock_fields) (simp_all only: clock_parts)
qed

lemma trim_right_zeros: "\<exists>k. s = trim_right s ''0'' @ replicate k CHR ''0''"
proof -
  let ?t = "takeWhile (\<lambda>c. c \<in> set ''0'') (rev s)" and ?d = "dropWhile (\<lambda>c. c \<in> set ''0'') (rev s)"
  have "\<forall>c \<in> set ?t. c = CHR ''0''" by (auto dest: set_takeWhileD)
  then have "?t = replicate (length ?t) CHR ''0''" by (rule replicate_length_same[symmetric])
  moreover have "rev s = ?t @ ?d" by (rule takeWhile_dropWhile_id[symmetric])
  then have "s = rev ?d @ rev ?t" by (metis rev_append rev_rev_ident)
  ultimately have "s = rev ?d @ replicate (length ?t) CHR ''0''" by (metis rev_replicate)
  then show ?thesis unfolding trim_right_def by blast
qed

lemma parse_fraction_text:
  assumes "ns < 1000000000"
  shows "parse_fraction (fraction_text ns @ ''Z'') = (int ns, ''Z'')"
proof (cases "ns = 0")
  case True
  then show ?thesis by (simp add: parse_fraction_def fraction_text_def)
next
  case False
  let ?p = "pad_zero 9 ns"
  let ?t = "trim_right ?p ''0''"
  have "ns < 10 ^ 9" using assms by simp
  note p = pad_zero_digits[OF this, simplified]
  obtain k where k: "?p = ?t @ replicate k CHR ''0''" using trim_right_zeros by blast
  have "?t \<noteq> []"
  proof
    assume "?t = []"
    then have "digits_value 0 ?p = 0" using k digits_value_zeros[of k "[]"] by simp
    then show False using p(3) False by simp
  qed
  moreover have digits: "list_all is_digit ?t" using p(2) k by (metis list_all_append)
  moreover have z: "\<not> is_digit CHR ''Z''" by (simp add: is_digit_def)
  ultimately have tw: "takeWhile is_digit (?t @ ''Z'') = ?t" "dropWhile is_digit (?t @ ''Z'') = ''Z''"
    by (simp_all add: list_all_iff)
  have "length ?t + k = 9" using p(1) k by (metis length_append length_replicate)
  then have "take 9 (?t @ replicate 9 CHR ''0'') = ?t @ replicate k CHR ''0''" by (simp add: take_append)
  then have "digits_value 0 (take 9 (?t @ replicate 9 CHR ''0'')) = int ns" using k p(3) by metis
  then show ?thesis using tw \<open>?t \<noteq> []\<close> False by (simp add: parse_fraction_def fraction_text_def)
qed

lemma length_clock:
  assumes "n < 86400"
  shows "length (pad_zero 2 (n div 3600) @ '':'' @ pad_zero 2 (n mod 3600 div 60) @ '':'' @ pad_zero 2 (n mod 60)) = 8"
proof -
  have "n div 3600 < 100" "n mod 3600 div 60 < 100" "n mod 60 < 100" using assms by auto
  then show ?thesis by (simp add: pad_zero_digits)
qed

lemma written_parts:
  assumes "s = a @ ''T'' @ b @ rest" "length a = 10" "length b = 8"
  shows "take 10 s = a" "s ! 10 = CHR ''T''" "take 8 (drop 11 s) = b" "drop 19 s = rest" "\<not> length s < 19"
  using assms by (simp_all add: nth_append)

text \<open>A time of the years 0 to 9999.\<close>

definition four_digit_year :: "instant \<Rightarrow> bool" where
  "four_digit_year t \<longleftrightarrow> (let y = fst (civil_date (t div 1000000000 div 86400)) in 0 \<le> y \<and> y \<le> 9999)"

lemma parse_rfc3339_nano:
  assumes "four_digit_year t"
  shows "parse_rfc3339 (rfc3339_nano t) = Some t"
proof -
  let ?s = "t div 1000000000" and ?ns = "nat (t mod 1000000000)"
  let ?r = "?s mod 86400"
  obtain y m d where c: "civil_date (?s div 86400) = (y, m, d)" by (metis prod_cases3)
  then have y: "0 \<le> y" "y \<le> 9999" using assms by (simp_all add: four_digit_year_def)
  let ?date = "pad_zero 4 (nat y) @ ''-'' @ pad_zero 2 (nat m) @ ''-'' @ pad_zero 2 (nat d)"
    and ?clock = "pad_zero 2 (nat ?r div 3600) @ '':'' @ pad_zero 2 (nat ?r mod 3600 div 60) @ '':'' @ pad_zero 2 (nat ?r mod 60)"
  have r: "0 \<le> ?r" "?r < 86400" by simp_all
  have "d < 100" "m \<le> 12" using civil_date_fields[OF c] by (simp_all add: days_in_def split: if_splits)
  then have len_date: "length ?date = 10" using y by (simp add: pad_zero_digits nat_less_iff)
  have len_clock: "length ?clock = 8" using r by (intro length_clock) (simp add: nat_less_iff)
  have written: "rfc3339_nano t = ?date @ ''T'' @ ?clock @ fraction_text ?ns @ ''Z''"
    using c by (simp add: rfc3339_nano_def seconds_text_def Let_def)
  note cut = written_parts[OF written len_date len_clock]
  have ns: "?ns < 1000000000" "int ?ns = t mod 1000000000" by (simp_all add: nat_less_iff)
  note frac = parse_fraction_text[OF ns(1)]
  have "(?s div 86400 * 86400 + ?r - 0) * 1000000000 + t mod 1000000000 = t"
    by (simp only: diff_0_right div_mult_mod_eq)
  then have eq: "map_option (\<lambda>zone. (?s div 86400 * 86400 + ?r - zone) * 1000000000 + int ?ns) (parse_zone ''Z'') = Some t"
    unfolding ns(2) by (simp only: parse_zone_def if_True option.map simp_thms HOL.refl)
  show ?thesis
    unfolding parse_rfc3339_def cut(1-4) parse_date_text[OF c y] parse_clock_text[OF r] frac
      Let_def prod.case eq bind.bind_lunit using cut(5) by (simp only: if_False not_True_eq_False simp_thms HOL.refl)
qed

end
