(* ===== verification/Auth_Store.thy ===== *)
theory Auth_Store
  imports Password_Hash Go_Date
begin

text \<open>
  The user and session tables (\<open>internal/auth/user.go\<close>, \<open>session.go\<close>). A database is the two tables;
  their constraints (primary keys, the unique user name and token hash, the reference from a session to
  its user) are checked by the inserts. Faults of a statement, fresh identifiers, random draws and the
  clock are inputs of each call; the digest of a token is a parameter.
\<close>

section \<open>Data\<close>

record user =
  us_id :: string
  us_username :: string
  us_created :: instant
  us_updated :: instant

record session =
  ses_id :: string
  ses_user :: string
  ses_token :: string
  ses_ip :: string
  ses_agent :: string
  ses_expires :: instant
  ses_created :: instant

record user_row =
  ur_id :: string
  ur_username :: string
  ur_hash :: string
  ur_created :: string
  ur_updated :: string

record session_row =
  sr_id :: string
  sr_user :: string
  sr_token_hash :: string
  sr_ip :: string
  sr_agent :: string
  sr_expires :: string
  sr_created :: string

record auth_db =
  ad_users :: "user_row list"
  ad_sessions :: "session_row list"

datatype auth_error =
  User_Exists
| User_Already_Set_Up
| Invalid_Credentials
| Session_Not_Found
| Session_Expired
| Auth_Database string string
| Auth_Password string password_error
| No_Token string

record auth_world =
  aw_password :: password_world
  aw_digest :: "string \<Rightarrow> string"
  aw_ttl :: int

record auth_call =
  ac_fault :: "string \<Rightarrow> string option"
  ac_new_id :: string
  ac_draw :: nat
  ac_now :: instant

definition zero_time :: instant where
  "zero_time = -62135596800 * 1000000000"

definition read_time :: "string \<Rightarrow> instant" where
  "read_time s = (case parse_rfc3339 s of None \<Rightarrow> zero_time | Some t \<Rightarrow> t)"

definition is_unique_constraint_err :: "string \<Rightarrow> bool" where
  "is_unique_constraint_err e = str_contains e ''UNIQUE constraint failed''"

section \<open>Users\<close>

definition has_any_user :: "auth_call \<Rightarrow> auth_db \<Rightarrow> (auth_error, bool) result" where
  "has_any_user c db =
     (case ac_fault c ''count users'' of
        Some e \<Rightarrow> Inl (Auth_Database ''count users'' e)
      | None \<Rightarrow> Inr (length (ad_users db) > 0))"

text \<open>What SQLite answers to the insert: the text of the error, if any.\<close>

definition insert_user_row :: "auth_call \<Rightarrow> user_row \<Rightarrow> auth_db \<Rightarrow> (string, auth_db) result" where
  "insert_user_row c r db =
     (case ac_fault c ''insert user'' of
        Some e \<Rightarrow> Inl e
      | None \<Rightarrow>
          if ur_id r \<in> set (map ur_id (ad_users db)) then Inl ''UNIQUE constraint failed: users.id''
          else if ur_username r \<in> set (map ur_username (ad_users db)) then Inl ''UNIQUE constraint failed: users.username''
          else Inr (db\<lparr>ad_users := ad_users db @ [r]\<rparr>))"

text \<open>The part of \<open>CreateUser\<close> after its check that there is no user yet.\<close>

definition store_user :: "auth_world \<Rightarrow> auth_call \<Rightarrow> string \<Rightarrow> string \<Rightarrow> auth_db \<Rightarrow> (auth_error, user) result \<times> auth_db" where
  "store_user w c username password db =
     (case hash_password (aw_password w) (ac_draw c) password of
        Inl e \<Rightarrow> (Inl (Auth_Password ''hash password'' e), db)
      | Inr h \<Rightarrow>
          (let now = ac_now c;
               u = \<lparr>us_id = ac_new_id c, us_username = username, us_created = now, us_updated = now\<rparr>;
               r = \<lparr>ur_id = us_id u, ur_username = us_username u, ur_hash = h,
                    ur_created = rfc3339_nano now, ur_updated = rfc3339_nano now\<rparr>
           in case insert_user_row c r db of
                Inl e \<Rightarrow> (Inl (if is_unique_constraint_err e then User_Exists else Auth_Database ''insert user'' e), db)
              | Inr db' \<Rightarrow> (Inr u, db')))"

definition create_user :: "auth_world \<Rightarrow> auth_call \<Rightarrow> string \<Rightarrow> string \<Rightarrow> auth_db \<Rightarrow> (auth_error, user) result \<times> auth_db" where
  "create_user w c username password db =
     (case has_any_user c db of
        Inl e \<Rightarrow> (Inl e, db)
      | Inr True \<Rightarrow> (Inl User_Already_Set_Up, db)
      | Inr False \<Rightarrow> store_user w c username password db)"

definition user_of_row :: "user_row \<Rightarrow> user" where
  "user_of_row r = \<lparr>us_id = ur_id r, us_username = ur_username r, us_created = read_time (ur_created r),
     us_updated = read_time (ur_updated r)\<rparr>"

text \<open>The user, and the number of password verifications made: one on every path that reads the row.\<close>

definition authenticate :: "auth_world \<Rightarrow> auth_call \<Rightarrow> string \<Rightarrow> string \<Rightarrow> auth_db \<Rightarrow> (auth_error, user) result \<times> nat" where
  "authenticate w c username password db =
     (case ac_fault c ''query user'' of
        Some e \<Rightarrow> (Inl (Auth_Database ''query user'' e), 0)
      | None \<Rightarrow>
          (case find (\<lambda>r. ur_username r = username) (ad_users db) of
             None \<Rightarrow> (Inl Invalid_Credentials, 1)
           | Some r \<Rightarrow>
               (case verify_password (aw_password w) (ur_hash r) password of
                  Inl e \<Rightarrow> (Inl (Auth_Password ''verify password'' e), 1)
                | Inr False \<Rightarrow> (Inl Invalid_Credentials, 1)
                | Inr True \<Rightarrow> (Inr (user_of_row r), 1))))"

definition get_user_by_id :: "auth_call \<Rightarrow> string \<Rightarrow> auth_db \<Rightarrow> (auth_error, user) result" where
  "get_user_by_id c i db =
     (case ac_fault c ''get user'' of
        Some e \<Rightarrow> Inl (Auth_Database ''query user'' e)
      | None \<Rightarrow>
          (case find (\<lambda>r. ur_id r = i) (ad_users db) of
             None \<Rightarrow> Inl Invalid_Credentials
           | Some r \<Rightarrow> Inr (user_of_row r)))"

section \<open>Sessions\<close>

definition generate_token :: "auth_world \<Rightarrow> nat \<Rightarrow> (string, string) result" where
  "generate_token w draw =
     (case pw_random (aw_password w) draw 32 of Inl e \<Rightarrow> Inl e | Inr b \<Rightarrow> Inr (base64_encode url_alphabet b))"

definition insert_session_row :: "auth_call \<Rightarrow> session_row \<Rightarrow> auth_db \<Rightarrow> (string, auth_db) result" where
  "insert_session_row c r db =
     (case ac_fault c ''insert session'' of
        Some e \<Rightarrow> Inl e
      | None \<Rightarrow>
          if sr_id r \<in> set (map sr_id (ad_sessions db)) then Inl ''UNIQUE constraint failed: sessions.id''
          else if sr_token_hash r \<in> set (map sr_token_hash (ad_sessions db)) then Inl ''UNIQUE constraint failed: sessions.token_hash''
          else if sr_user r \<notin> set (map ur_id (ad_users db)) then Inl ''FOREIGN KEY constraint failed''
          else Inr (db\<lparr>ad_sessions := ad_sessions db @ [r]\<rparr>))"

definition create_session :: "auth_world \<Rightarrow> auth_call \<Rightarrow> string \<Rightarrow> string \<Rightarrow> string \<Rightarrow> auth_db
    \<Rightarrow> (auth_error, session) result \<times> auth_db" where
  "create_session w c user_id ip agent db =
     (case generate_token w (ac_draw c) of
        Inl e \<Rightarrow> (Inl (No_Token e), db)
      | Inr token \<Rightarrow>
          (let now = ac_now c;
               s = \<lparr>ses_id = ac_new_id c, ses_user = user_id, ses_token = token, ses_ip = ip, ses_agent = agent,
                    ses_expires = now + aw_ttl w, ses_created = now\<rparr>;
               r = \<lparr>sr_id = ses_id s, sr_user = ses_user s, sr_token_hash = aw_digest w token, sr_ip = ses_ip s,
                    sr_agent = ses_agent s, sr_expires = rfc3339_nano (ses_expires s), sr_created = rfc3339_nano (ses_created s)\<rparr>
           in case insert_session_row c r db of
                Inl e \<Rightarrow> (Inl (Auth_Database ''insert session'' e), db)
              | Inr db' \<Rightarrow> (Inr s, db')))"

definition session_of_row :: "session_row \<Rightarrow> session" where
  "session_of_row r = \<lparr>ses_id = sr_id r, ses_user = sr_user r, ses_token = [], ses_ip = sr_ip r, ses_agent = sr_agent r,
     ses_expires = read_time (sr_expires r), ses_created = read_time (sr_created r)\<rparr>"

definition without_session :: "(session_row \<Rightarrow> bool) \<Rightarrow> auth_db \<Rightarrow> auth_db" where
  "without_session P db = db\<lparr>ad_sessions := filter (\<lambda>r. \<not> P r) (ad_sessions db)\<rparr>"

definition validate_session :: "auth_world \<Rightarrow> auth_call \<Rightarrow> string \<Rightarrow> auth_db \<Rightarrow> (auth_error, session) result \<times> auth_db" where
  "validate_session w c token db =
     (if token = [] then (Inl Session_Not_Found, db)
      else case ac_fault c ''query session'' of
        Some e \<Rightarrow> (Inl (Auth_Database ''query session'' e), db)
      | None \<Rightarrow>
          (case find (\<lambda>r. sr_token_hash r = aw_digest w token) (ad_sessions db) of
             None \<Rightarrow> (Inl Session_Not_Found, db)
           | Some r \<Rightarrow>
               (let s = session_of_row r
                in if ac_now c > ses_expires s
                   then (Inl Session_Expired,
                         if ac_fault c ''delete session'' = None then without_session (\<lambda>q. sr_id q = ses_id s) db else db)
                   else (Inr s, db))))"

definition delete_session :: "auth_world \<Rightarrow> auth_call \<Rightarrow> string \<Rightarrow> auth_db \<Rightarrow> (auth_error, unit) result \<times> auth_db" where
  "delete_session w c token db =
     (case ac_fault c ''delete session'' of
        Some e \<Rightarrow> (Inl (Auth_Database ''delete session'' e), db)
      | None \<Rightarrow> (Inr (), without_session (\<lambda>r. sr_token_hash r = aw_digest w token) db))"

text \<open>The comparison is SQLite's, of the stored texts.\<close>

definition delete_expired :: "auth_call \<Rightarrow> auth_db \<Rightarrow> (auth_error, nat) result \<times> auth_db" where
  "delete_expired c db =
     (case ac_fault c ''delete expired sessions'' of
        Some e \<Rightarrow> (Inl (Auth_Database ''delete expired sessions'' e), db)
      | None \<Rightarrow>
          (let old = (\<lambda>r. str_less (sr_expires r) (rfc3339_nano (ac_now c)))
           in (Inr (length (filter old (ad_sessions db))), without_session old db)))"


section \<open>Sequences of calls\<close>

datatype auth_op =
  Op_Create_User auth_call string string
| Op_Store_User auth_call string string
| Op_Create_Session auth_call string string string
| Op_Validate auth_call string
| Op_Delete auth_call string
| Op_Delete_Expired auth_call

fun auth_step :: "auth_world \<Rightarrow> auth_op \<Rightarrow> auth_db \<Rightarrow> auth_db" where
  "auth_step w (Op_Create_User c name pass) db = snd (create_user w c name pass db)"
| "auth_step w (Op_Store_User c name pass) db = snd (store_user w c name pass db)"
| "auth_step w (Op_Create_Session c u ip agent) db = snd (create_session w c u ip agent db)"
| "auth_step w (Op_Validate c token) db = snd (validate_session w c token db)"
| "auth_step w (Op_Delete c token) db = snd (delete_session w c token db)"
| "auth_step w (Op_Delete_Expired c) db = snd (delete_expired c db)"

fun run_auth :: "auth_world \<Rightarrow> auth_op list \<Rightarrow> auth_db \<Rightarrow> auth_db" where
  "run_auth w [] db = db"
| "run_auth w (op # ops) db = run_auth w ops (auth_step w op db)"

definition empty_auth_db :: auth_db where
  "empty_auth_db = \<lparr>ad_users = [], ad_sessions = []\<rparr>"

section \<open>The tables keep their constraints\<close>

definition auth_wf :: "auth_db \<Rightarrow> bool" where
  "auth_wf db \<longleftrightarrow>
     distinct (map ur_id (ad_users db)) \<and> distinct (map ur_username (ad_users db)) \<and>
     distinct (map sr_id (ad_sessions db)) \<and> distinct (map sr_token_hash (ad_sessions db)) \<and>
     (\<forall>r \<in> set (ad_sessions db). sr_user r \<in> set (map ur_id (ad_users db)))"

lemma insert_user_row_cases:
  assumes "insert_user_row c r db = Inr db'"
  shows "db' = db\<lparr>ad_users := ad_users db @ [r]\<rparr>" "ur_id r \<notin> set (map ur_id (ad_users db))"
    "ur_username r \<notin> set (map ur_username (ad_users db))"
  using assms by (simp_all add: insert_user_row_def split: option.splits if_splits)

lemma insert_session_row_cases:
  assumes "insert_session_row c r db = Inr db'"
  shows "db' = db\<lparr>ad_sessions := ad_sessions db @ [r]\<rparr>" "sr_id r \<notin> set (map sr_id (ad_sessions db))"
    "sr_token_hash r \<notin> set (map sr_token_hash (ad_sessions db))" "sr_user r \<in> set (map ur_id (ad_users db))"
  using assms by (simp_all add: insert_session_row_def split: option.splits if_splits)

lemma store_user_db:
  "snd (store_user w c name pass db) = db \<or>
   (\<exists>r. insert_user_row c r db = Inr (snd (store_user w c name pass db)) \<and> ur_username r = name)"
  by (auto simp: store_user_def Let_def split: sum.splits)

lemma create_session_db:
  "snd (create_session w c u ip agent db) = db \<or>
   (\<exists>r. insert_session_row c r db = Inr (snd (create_session w c u ip agent db)))"
  by (auto simp: create_session_def Let_def split: sum.splits)

lemma create_session_ok:
  assumes "create_session w c u ip agent db = (Inr s, db')"
  obtains r where "insert_session_row c r db = Inr db'" "sr_token_hash r = aw_digest w (ses_token s)"
    "sr_id r = ses_id s" "sr_user r = u" "ses_user s = u" "sr_ip r = ses_ip s" "sr_agent r = ses_agent s"
    "sr_expires r = rfc3339_nano (ses_expires s)" "sr_created r = rfc3339_nano (ses_created s)"
    "ses_expires s = ac_now c + aw_ttl w" "ses_created s = ac_now c" "generate_token w (ac_draw c) = Inr (ses_token s)"
  using assms by (fastforce simp: create_session_def Let_def split: sum.splits)

lemma validate_session_db:
  "snd (validate_session w c token db) = db \<or> (\<exists>i. snd (validate_session w c token db) = without_session (\<lambda>q. sr_id q = i) db)"
  by (auto simp: validate_session_def Let_def split: option.splits)

lemma auth_wf_without [simp]: "auth_wf db \<Longrightarrow> auth_wf (without_session P db)"
  by (auto simp: auth_wf_def without_session_def distinct_map_filter)

lemma auth_wf_insert_user: "auth_wf db \<Longrightarrow> insert_user_row c r db = Inr db' \<Longrightarrow> auth_wf db'"
  by (auto simp: auth_wf_def insert_user_row_def split: option.splits if_splits)

lemma auth_wf_insert_session: "auth_wf db \<Longrightarrow> insert_session_row c r db = Inr db' \<Longrightarrow> auth_wf db'"
  by (auto simp: auth_wf_def insert_session_row_def split: option.splits if_splits)

lemma auth_wf_step:
  assumes "auth_wf db"
  shows "auth_wf (auth_step w op db)"
proof -
  have stored: "auth_wf (snd (store_user w c name pass db))" for c name pass
    using store_user_db[of w c name pass db] assms auth_wf_insert_user by metis
  show ?thesis
  proof (cases op)
    case (Op_Create_User c name pass)
    then show ?thesis using assms stored by (auto simp: create_user_def split: sum.split bool.split)
  next
    case (Op_Store_User c name pass)
    then show ?thesis using stored by simp
  next
    case (Op_Create_Session c u ip agent)
    then show ?thesis using create_session_db[of w c u ip agent db] assms auth_wf_insert_session by auto
  next
    case (Op_Validate c token)
    then show ?thesis using validate_session_db[of w c token db] assms by auto
  next
    case (Op_Delete c token)
    then show ?thesis using assms by (auto simp: delete_session_def split: option.split)
  next
    case (Op_Delete_Expired c)
    then show ?thesis using assms by (auto simp: delete_expired_def Let_def split: option.split)
  qed
qed

lemma auth_wf_run: "auth_wf db \<Longrightarrow> auth_wf (run_auth w ops db)"
  by (induction ops arbitrary: db) (simp_all add: auth_wf_step)


section \<open>One administrator\<close>

definition atomic_op :: "auth_op \<Rightarrow> bool" where
  "atomic_op op \<longleftrightarrow> (case op of Op_Store_User _ _ _ \<Rightarrow> False | _ \<Rightarrow> True)"

lemma users_step:
  "atomic_op op \<Longrightarrow> ad_users db \<noteq> [] \<Longrightarrow> ad_users (auth_step w op db) = ad_users db"
proof (cases op)
  case (Op_Create_Session c u ip agent)
  then show ?thesis using create_session_db[of w c u ip agent db] insert_session_row_cases(1) by fastforce
next
  case (Op_Validate c token)
  then show ?thesis using validate_session_db[of w c token db] by (auto simp: without_session_def)
qed (auto simp: atomic_op_def create_user_def has_any_user_def delete_session_def delete_expired_def without_session_def Let_def
      split: option.split)

lemma users_stay: "\<forall>op \<in> set ops. atomic_op op \<Longrightarrow> ad_users db \<noteq> [] \<Longrightarrow> ad_users (run_auth w ops db) = ad_users db"
  by (induction ops arbitrary: db) (simp_all add: users_step)

lemma create_user_adds_one: "ad_users db = [] \<Longrightarrow> length (ad_users (snd (create_user w c name pass db))) \<le> 1"
  using store_user_db[of w c name pass db]
  by (auto simp: create_user_def has_any_user_def dest!: insert_user_row_cases(1) split: option.splits)

lemma users_from_empty:
  "\<forall>op \<in> set ops. atomic_op op \<Longrightarrow> ad_users db = [] \<Longrightarrow> length (ad_users (run_auth w ops db)) \<le> 1"
proof (induction ops arbitrary: db)
  case (Cons op ops)
  show ?case
  proof (cases "ad_users (auth_step w op db) = []")
    case True
    then show ?thesis using Cons by simp
  next
    case False
    moreover have "length (ad_users (auth_step w op db)) \<le> 1"
    proof (cases op)
      case (Op_Create_User c name pass)
      then show ?thesis using create_user_adds_one Cons.prems(2) by simp
    next
      case (Op_Create_Session c u ip agent)
      then show ?thesis using create_session_db[of w c u ip agent db] insert_session_row_cases(1) Cons.prems(2) by fastforce
    next
      case (Op_Validate c token)
      then show ?thesis using validate_session_db[of w c token db] Cons.prems(2) by (auto simp: without_session_def)
    qed (use Cons.prems in \<open>auto simp: atomic_op_def delete_session_def delete_expired_def without_session_def Let_def
          split: option.split\<close>)
    ultimately show ?thesis using Cons.prems(1) users_stay by simp
  qed
qed simp

text \<open>As long as the check and the insert of a setup are not interleaved with those of another, at
  most one administrator is ever created, whatever else is called and however it fails.\<close>

theorem one_administrator:
  assumes "\<forall>op \<in> set ops. atomic_op op"
  shows "length (ad_users (run_auth w ops empty_auth_db)) \<le> 1"
  using users_from_empty[OF assms] by (simp add: empty_auth_db_def)

definition plain_auth_world :: auth_world where
  "plain_auth_world = \<lparr>aw_password = plain_password_world\<lparr>pw_random := (\<lambda>draw n. Inr (replicate n (char_of (draw mod 256))))\<rparr>,
     aw_digest = rev, aw_ttl = 24 * 3600 * 1000000000\<rparr>"

definition auth_call_at :: "string \<Rightarrow> nat \<Rightarrow> instant \<Rightarrow> auth_call" where
  "auth_call_at i draw now = \<lparr>ac_fault = (\<lambda>_. None), ac_new_id = i, ac_draw = draw, ac_now = now\<rparr>"

definition setup_log :: "auth_op list" where
  "setup_log = [Op_Create_User (auth_call_at ''u1'' 1 0) ''admin'' ''correct horse'',
     Op_Create_User (auth_call_at ''u2'' 2 5) ''other'' ''battery staple'',
     Op_Create_Session (auth_call_at ''s1'' 3 7) ''u1'' ''10.0.0.1'' ''browser'']"

theorem one_administrator_witness: "length (ad_users (run_auth plain_auth_world setup_log empty_auth_db)) \<le> 1"
  by (rule one_administrator) (simp add: setup_log_def atomic_op_def)

text \<open>
  The check and the insert are two statements, with a password hash between them: two setups that are
  both checked before either inserts make two administrators.
\<close>

definition interleaved_setups :: "auth_world \<Rightarrow> auth_call \<Rightarrow> string \<times> string \<Rightarrow> auth_call \<Rightarrow> string \<times> string \<Rightarrow> auth_db
    \<Rightarrow> auth_db option" where
  "interleaved_setups w c1 a1 c2 a2 db =
     (case (has_any_user c1 db, has_any_user c2 db) of
        (Inr False, Inr False) \<Rightarrow>
          Some (snd (store_user w c2 (fst a2) (snd a2) (snd (store_user w c1 (fst a1) (snd a1) db))))
      | _ \<Rightarrow> None)"

lemma concurrent_setup_makes_two:
  assumes "ad_users db = []" "ac_fault c1 = (\<lambda>_. None)" "ac_fault c2 = (\<lambda>_. None)" "ac_new_id c1 \<noteq> ac_new_id c2"
    "hash_password (aw_password w) (ac_draw c1) p1 = Inr h1" "hash_password (aw_password w) (ac_draw c2) p2 = Inr h2"
    "n1 \<noteq> n2"
  shows "map_option (\<lambda>db. map ur_username (ad_users db)) (interleaved_setups w c1 (n1, p1) c2 (n2, p2) db) = Some [n1, n2]"
  using assms by (simp add: interleaved_setups_def has_any_user_def store_user_def insert_user_row_def Let_def)

section \<open>The life of a session\<close>

definition complete_reads :: "password_world \<Rightarrow> bool" where
  "complete_reads pw \<longleftrightarrow> (\<forall>draw n b. pw_random pw draw n = Inr b \<longrightarrow> length b = n)"

lemma token_not_empty:
  assumes "complete_reads (aw_password w)" "generate_token w draw = Inr t"
  shows "t \<noteq> []"
proof -
  obtain b where b: "t = base64_encode url_alphabet b" "length b = 32"
    using assms by (auto simp: generate_token_def complete_reads_def split: sum.splits)
  then have "base64_decode url_alphabet t = Some b" by (simp add: base64_decode_encode)
  then show ?thesis using b(2) by (auto simp: base64_decode_def)
qed

definition held :: "auth_world \<Rightarrow> string \<Rightarrow> auth_db \<Rightarrow> session_row option" where
  "held w token db = find (\<lambda>r. sr_token_hash r = aw_digest w token) (ad_sessions db)"

text \<open>The calls that do not end a session before its time.\<close>

fun spares :: "auth_world \<Rightarrow> string \<Rightarrow> instant \<Rightarrow> auth_op \<Rightarrow> bool" where
  "spares w token expires (Op_Delete c t) = (aw_digest w t \<noteq> aw_digest w token)"
| "spares w token expires (Op_Validate c t) = (aw_digest w t = aw_digest w token \<longrightarrow> ac_now c \<le> expires)"
| "spares w token expires (Op_Delete_Expired c) = (\<not> str_less (rfc3339_nano expires) (rfc3339_nano (ac_now c)))"
| "spares w token expires _ = True"

lemma held_Some: "held w token db = Some r \<Longrightarrow> r \<in> set (ad_sessions db) \<and> sr_token_hash r = aw_digest w token"
  by (auto simp: held_def find_Some_iff)

lemma held_of:
  assumes "auth_wf db" "r \<in> set (ad_sessions db)" "sr_token_hash r = aw_digest w token"
  shows "held w token db = Some r"
proof -
  have inj: "inj_on sr_token_hash (set (ad_sessions db))" using assms(1) by (simp add: auth_wf_def distinct_map)
  have "find (\<lambda>r. sr_token_hash r = aw_digest w token) (ad_sessions db) \<noteq> None"
    using assms(2,3) by (auto simp: find_None_iff)
  then obtain q where q: "held w token db = Some q" by (auto simp: held_def)
  then have "q = r" using held_Some[OF q] inj assms(2,3) by (metis inj_onD)
  then show ?thesis using q by simp
qed

lemma held_kept:
  assumes "auth_wf db" "held w token db = Some r" "auth_wf db'" "r \<in> set (ad_sessions db')"
  shows "held w token db' = Some r"
  using assms held_Some[OF assms(2)] held_of by blast

lemma held_step:
  assumes wf: "auth_wf db" and held: "held w token db = Some r"
    and e: "sr_expires r = rfc3339_nano expires" "four_digit_year expires"
    and sp: "spares w token expires op"
  shows "held w token (auth_step w op db) = Some r"
proof (rule held_kept[OF wf held auth_wf_step[OF wf]])
  note r = held_Some[OF held]
  show "r \<in> set (ad_sessions (auth_step w op db))"
  proof (cases op)
    case (Op_Create_User c name pass)
    then show ?thesis using r store_user_db[of w c name pass db] insert_user_row_cases(1)
      by (fastforce simp: create_user_def split: sum.split bool.split)
  next
    case (Op_Store_User c name pass)
    then show ?thesis using r store_user_db[of w c name pass db] insert_user_row_cases(1) by fastforce
  next
    case (Op_Create_Session c u ip agent)
    then show ?thesis using r create_session_db[of w c u ip agent db] insert_session_row_cases(1) by fastforce
  next
    case (Op_Delete c t)
    then show ?thesis using r sp by (auto simp: delete_session_def without_session_def split: option.split)
  next
    case (Op_Delete_Expired c)
    then show ?thesis using r sp e by (auto simp: delete_expired_def without_session_def Let_def split: option.split)
  next
    case (Op_Validate c t)
    have other: "sr_id r \<noteq> sr_id q" if "find (\<lambda>r. sr_token_hash r = aw_digest w t) (ad_sessions db) = Some q"
      "ses_expires (session_of_row q) < ac_now c" for q
    proof
      assume eq: "sr_id r = sr_id q"
      have q: "q \<in> set (ad_sessions db)" "sr_token_hash q = aw_digest w t" using that(1) by (auto simp: find_Some_iff)
      have "inj_on sr_id (set (ad_sessions db))" using wf by (simp add: auth_wf_def distinct_map)
      then have "r = q" using eq q r by (auto dest: inj_onD)
      then have "ac_now c \<le> expires" using sp r q Op_Validate by simp
      moreover have "ses_expires (session_of_row r) = expires"
        using e by (simp add: session_of_row_def read_time_def parse_rfc3339_nano)
      ultimately show False using that(2) \<open>r = q\<close> by simp
    qed
    show ?thesis using r other unfolding Op_Validate
      by (auto simp: validate_session_def without_session_def Let_def session_of_row_def split: option.split)
  qed
qed

lemma held_run:
  assumes "auth_wf db" "held w token db = Some r" "sr_expires r = rfc3339_nano expires" "four_digit_year expires"
    "\<forall>op \<in> set ops. spares w token expires op"
  shows "held w token (run_auth w ops db) = Some r"
  using assms by (induction ops arbitrary: db) (simp_all add: held_step auth_wf_step)

text \<open>A session that was issued is valid until its lifetime is over, whatever other calls are made
  meanwhile, and not after: logging in elsewhere, logging other sessions out or validating does not
  shorten it and does not lengthen it.\<close>

theorem session_life:
  assumes "auth_wf db" "complete_reads (aw_password w)"
    and new: "create_session w c u ip agent db = (Inr s, db1)"
    and "four_digit_year (ses_expires s)" "four_digit_year (ses_created s)"
    and "\<forall>op \<in> set ops. spares w (ses_token s) (ses_expires s) op"
    and "ac_fault c' ''query session'' = None"
  shows "ses_expires s = ac_now c + aw_ttl w \<and>
         fst (validate_session w c' (ses_token s) (run_auth w ops db1)) =
         (if ac_now c' \<le> ses_expires s then Inr (s\<lparr>ses_token := []\<rparr>) else Inl Session_Expired)"
proof -
  obtain r where r: "insert_session_row c r db = Inr db1" "sr_token_hash r = aw_digest w (ses_token s)"
      "sr_id r = ses_id s" "sr_user r = u" "ses_user s = u" "sr_ip r = ses_ip s" "sr_agent r = ses_agent s"
      "sr_expires r = rfc3339_nano (ses_expires s)" "sr_created r = rfc3339_nano (ses_created s)"
      "ses_expires s = ac_now c + aw_ttl w" "ses_created s = ac_now c" "generate_token w (ac_draw c) = Inr (ses_token s)"
    using create_session_ok[OF new] by blast
  have wf: "auth_wf db1" using auth_wf_insert_session[OF assms(1) r(1)] .
  have "r \<in> set (ad_sessions db1)" using insert_session_row_cases(1)[OF r(1)] by simp
  then have "held w (ses_token s) (run_auth w ops db1) = Some r"
    using assms r by (intro held_run[OF wf held_of[OF wf]]) auto
  then have "find (\<lambda>r. sr_token_hash r = aw_digest w (ses_token s)) (ad_sessions (run_auth w ops db1)) = Some r"
    by (simp add: held_def)
  moreover have "ses_token s \<noteq> []" using token_not_empty assms(2) r(12) by blast
  moreover have "session_of_row r = s\<lparr>ses_token := []\<rparr>"
    using r assms(4,5) by (simp add: session_of_row_def read_time_def parse_rfc3339_nano)
  ultimately show ?thesis
    using assms(7) r(10) by (simp add: validate_session_def Let_def)
qed

definition one_user_db :: auth_db where
  "one_user_db = \<lparr>ad_users = [\<lparr>ur_id = ''u1'', ur_username = ''admin'', ur_hash = ''-'', ur_created = ''-'', ur_updated = ''-''\<rparr>],
     ad_sessions = []\<rparr>"

theorem session_life_witness:
  "\<exists>s db1. create_session plain_auth_world (auth_call_at ''s1'' 3 0) ''u1'' ''10.0.0.1'' ''browser'' one_user_db = (Inr s, db1) \<and>
     fst (validate_session plain_auth_world (auth_call_at [] 0 (24 * 3600 * 1000000000 + 1)) (ses_token s)
       (run_auth plain_auth_world [Op_Validate (auth_call_at [] 0 5) (ses_token s), Op_Delete (auth_call_at [] 0 9) ''x''] db1))
     = Inl Session_Expired"
proof -
  let ?new = "create_session plain_auth_world (auth_call_at ''s1'' 3 0) ''u1'' ''10.0.0.1'' ''browser'' one_user_db"
  let ?t = "base64_encode url_alphabet (replicate 32 (char_of (3::nat)))"
  have hash: "rev ''x'' \<noteq> rev ?t" by code_simp
  have "generate_token plain_auth_world 3 = Inr ?t"
    by (simp add: generate_token_def plain_auth_world_def plain_password_world_def)
  then obtain s db1 where new: "?new = (Inr s, db1)" "ses_token s = ?t"
    by (simp add: create_session_def auth_call_at_def insert_session_row_def one_user_db_def Let_def)
  then have e: "ses_expires s = 24 * 3600 * 1000000000" "ses_created s = 0"
    by (elim create_session_ok; simp add: auth_call_at_def plain_auth_world_def)+
  have wf: "auth_wf one_user_db" by (simp add: auth_wf_def one_user_db_def)
  have reads: "complete_reads (aw_password plain_auth_world)" by (simp add: complete_reads_def plain_auth_world_def)
  have years: "four_digit_year (ses_expires s)" "four_digit_year (ses_created s)" unfolding e by code_simp+
  show ?thesis
    using session_life[OF wf reads new(1) years,
        of "[Op_Validate (auth_call_at [] 0 5) (ses_token s), Op_Delete (auth_call_at [] 0 9) ''x'']"
           "auth_call_at [] 0 (24 * 3600 * 1000000000 + 1)"] new e hash
    by (auto simp: auth_call_at_def plain_auth_world_def)
qed

text \<open>
  \<open>DeleteExpired\<close> compares texts: a session that ends half a second from now is removed as expired.
\<close>

lemma delete_expired_too_early:
  assumes "ad_sessions db = [r]" "sr_expires r = rfc3339_nano (x * 1000000000 + 500000000)"
    "ac_fault c = (\<lambda>_. None)" "ac_now c = x * 1000000000"
  shows "delete_expired c db = (Inr 1, db\<lparr>ad_sessions := []\<rparr>)"
  using assms rfc3339_order_defect by (simp add: delete_expired_def without_session_def Let_def)

section \<open>Logging in\<close>

definition sound_kdf :: "password_world \<Rightarrow> bool" where
  "sound_kdf pw \<longleftrightarrow> 0 \<le> pw_version pw \<and> pw_version pw < 2 ^ 63 \<and>
     (\<forall>p salt t m par n h. pw_idkey pw p salt t m par n = Some h \<longrightarrow> length h = n)"

lemma hash_password_ok:
  assumes "hash_password pw draw password = Inr enc"
  obtains salt h where "pw_random pw draw 16 = Inr salt" "pw_idkey pw password salt 3 65536 2 32 = Some h"
    "enc = encode_hash (pw_version pw) default_argon2_params salt h"
  using assms by (auto simp: hash_password_def id_key_def default_argon2_params_def bind_result_def split: sum.splits option.splits)

lemma verify_encoded:
  assumes "sound_kdf pw" "length h = 32"
  shows "verify_password pw (encode_hash (pw_version pw) default_argon2_params salt h) guess =
         (case pw_idkey pw guess salt 3 65536 2 32 of None \<Rightarrow> Inl Argon2_Panic | Some h' \<Rightarrow> Inr (h = h'))"
proof -
  have "decode_hash pw (encode_hash (pw_version pw) default_argon2_params salt h) = Inr ((65536, 3, 2), salt, h)"
    using assms(1) decode_encode_hash[OF _ _ default_params_writable, of pw salt h]
    by (simp add: sound_kdf_def) (simp add: default_argon2_params_def)
  then show ?thesis using assms(2) by (simp add: verify_password_def id_key_def split: option.split)
qed

lemma create_user_ok:
  assumes "create_user w c name pass db = (Inr u, db1)"
  obtains h r where "ad_users db = []" "ad_users db1 = [r]" "hash_password (aw_password w) (ac_draw c) pass = Inr h"
    "ur_hash r = h" "ur_username r = name" "ur_id r = us_id u" "us_username u = name" "us_created u = ac_now c"
    "us_updated u = ac_now c" "ur_created r = rfc3339_nano (ac_now c)" "ur_updated r = rfc3339_nano (ac_now c)"
  using assms
  by (fastforce simp: create_user_def has_any_user_def store_user_def insert_user_row_def Let_def
      split: option.splits sum.splits if_splits bool.splits)

text \<open>C33. The account that setup created is opened, at any later time, by exactly the passwords that
  Argon2id does not tell from the one it was created with, under its own name only; an unknown name
  costs one verification like a known one.\<close>

theorem account_opens:
  assumes kdf: "sound_kdf (aw_password w)"
    and new: "create_user w c name pass db = (Inr u, db1)" and year: "four_digit_year (ac_now c)"
    and ops: "\<forall>op \<in> set ops. atomic_op op" and ok: "ac_fault c' ''query user'' = None"
  shows "\<exists>salt h. pw_idkey (aw_password w) pass salt 3 65536 2 32 = Some h \<and>
     (\<forall>guess. authenticate w c' name guess (run_auth w ops db1) =
        (case pw_idkey (aw_password w) guess salt 3 65536 2 32 of
           None \<Rightarrow> (Inl (Auth_Password ''verify password'' Argon2_Panic), 1)
         | Some h' \<Rightarrow> (if h = h' then Inr u else Inl Invalid_Credentials, 1))) \<and>
     (\<forall>other guess. other \<noteq> name \<longrightarrow> authenticate w c' other guess (run_auth w ops db1) = (Inl Invalid_Credentials, 1))"
proof -
  obtain enc r where r: "ad_users db1 = [r]" "hash_password (aw_password w) (ac_draw c) pass = Inr enc"
    "ur_hash r = enc" "ur_username r = name" "ur_id r = us_id u" "us_username u = name" "us_created u = ac_now c"
    "us_updated u = ac_now c" "ur_created r = rfc3339_nano (ac_now c)" "ur_updated r = rfc3339_nano (ac_now c)"
    using create_user_ok[OF new] by metis
  obtain salt h where h: "pw_idkey (aw_password w) pass salt 3 65536 2 32 = Some h"
    "enc = encode_hash (pw_version (aw_password w)) default_argon2_params salt h" using hash_password_ok[OF r(2)] by blast
  have len: "length h = 32" using kdf h(1) unfolding sound_kdf_def by blast
  have users: "ad_users (run_auth w ops db1) = [r]" using users_stay[OF ops, of db1] r(1) by simp
  have u: "user_of_row r = u" using r year by (simp add: user_of_row_def read_time_def parse_rfc3339_nano)
  have "authenticate w c' name guess (run_auth w ops db1) =
        (case pw_idkey (aw_password w) guess salt 3 65536 2 32 of
           None \<Rightarrow> (Inl (Auth_Password ''verify password'' Argon2_Panic), 1)
         | Some h' \<Rightarrow> (if h = h' then Inr u else Inl Invalid_Credentials, 1))" for guess
    using r u ok users verify_encoded[OF kdf len, of salt guess] h(2)
    by (simp add: authenticate_def split: option.split)
  moreover have "authenticate w c' other guess (run_auth w ops db1) = (Inl Invalid_Credentials, 1)" if "other \<noteq> name" for other guess
    using that r ok users by (simp add: authenticate_def)
  ultimately show ?thesis using h(1) by blast
qed

theorem account_opens_witness:
  "\<exists>u db1. create_user plain_auth_world (auth_call_at ''u1'' 1 0) ''admin'' ''correct horse'' empty_auth_db = (Inr u, db1) \<and>
     authenticate plain_auth_world (auth_call_at [] 0 9) ''admin'' ''correct horse''
       (run_auth plain_auth_world [Op_Delete_Expired (auth_call_at [] 0 5)] db1) = (Inr u, 1) \<and>
     authenticate plain_auth_world (auth_call_at [] 0 9) ''admin'' ''guess''
       (run_auth plain_auth_world [Op_Delete_Expired (auth_call_at [] 0 5)] db1) = (Inl Invalid_Credentials, 1)"
proof -
  let ?w = plain_auth_world and ?c = "auth_call_at ''u1'' 1 0" and ?c' = "auth_call_at [] 0 9"
  let ?ops = "[Op_Delete_Expired (auth_call_at [] 0 5)]"
  have kdf: "sound_kdf (aw_password ?w)"
    by (auto simp: sound_kdf_def plain_auth_world_def plain_password_world_def split: if_splits)
  have "\<exists>h. hash_password (aw_password ?w) (ac_draw ?c) ''correct horse'' = Inr h"
    by (simp add: hash_password_def id_key_def default_argon2_params_def plain_auth_world_def plain_password_world_def)
  then obtain u db1 where new: "create_user ?w ?c ''admin'' ''correct horse'' empty_auth_db = (Inr u, db1)"
    by (auto simp: create_user_def has_any_user_def store_user_def insert_user_row_def empty_auth_db_def auth_call_at_def Let_def)
  have year: "four_digit_year (ac_now ?c)" by code_simp
  have ops: "\<forall>op \<in> set ?ops. atomic_op op" by (simp add: atomic_op_def)
  have ok: "ac_fault ?c' ''query user'' = None" by (simp add: auth_call_at_def)
  have idk: "pw_idkey (aw_password ?w) p salt 3 65536 2 32 = Some (take 32 (p @ replicate 32 CHR ''0''))" for p salt
    by (simp add: plain_auth_world_def plain_password_world_def)
  let ?h = "\<lambda>p. take 32 (p @ replicate 32 CHR ''0'')"
  let ?db = "run_auth ?w ?ops db1"
  have diff: "?h ''correct horse'' \<noteq> ?h ''guess''" by simp
  obtain h where h: "Some (?h ''correct horse'') = Some h"
    "\<And>guess. authenticate ?w ?c' ''admin'' guess ?db =
      (case Some (?h guess) of None \<Rightarrow> (Inl (Auth_Password ''verify password'' Argon2_Panic), 1)
       | Some h' \<Rightarrow> (if h = h' then Inr u else Inl Invalid_Credentials, 1))"
    using account_opens[OF kdf new year ops ok] unfolding idk by blast
  have "authenticate ?w ?c' ''admin'' ''correct horse'' ?db = (Inr u, 1)"
    using h(1) unfolding h(2) by (simp only: option.case option.inject simp_thms if_True)
  moreover have "authenticate ?w ?c' ''admin'' ''guess'' ?db = (Inl Invalid_Credentials, 1)"
    using h(1) diff unfolding h(2) by (simp only: option.case option.inject simp_thms if_False)
  ultimately show ?thesis using new by blast
qed

end
