(* ===== verification/Server_Config.thy ===== *)
theory Server_Config
  imports Go_Numbers Go_Paths Prelude
begin

text \<open>
  The configuration of the server (\<open>internal/config/config.go\<close>): a function of the environment, of the
  working directory and of whether the data directory can be made. \<open>strconv.ParseBool\<close> and
  \<open>time.ParseDuration\<close> are written out; the value of a decimal fraction of a unit, which the library
  computes in floating point, is a parameter.
\<close>

section \<open>Reading values\<close>

definition parse_bool :: "string \<Rightarrow> bool option" where
  "parse_bool s =
     (if s \<in> {''1'', ''t'', ''T'', ''TRUE'', ''true'', ''True''} then Some True
      else if s \<in> {''0'', ''f'', ''F'', ''FALSE'', ''false'', ''False''} then Some False
      else None)"

definition unit_nanos :: "string \<Rightarrow> int option" where
  "unit_nanos u =
     (if u = ''ns'' then Some 1
      else if u = ''us'' \<or> u = [CHR 0xC2, CHR 0xB5, CHR ''s''] \<or> u = [CHR 0xCE, CHR 0xBC, CHR ''s''] then Some 1000
      else if u = ''ms'' then Some 1000000
      else if u = ''s'' then Some 1000000000
      else if u = ''m'' then Some (60 * 1000000000)
      else if u = ''h'' then Some (3600 * 1000000000)
      else None)"

definition digit_or_dot :: "char \<Rightarrow> bool" where
  "digit_or_dot c \<longleftrightarrow> c = CHR ''.'' \<or> is_digit c"

text \<open>One number with its unit, \<open>5m\<close> or \<open>1.5h\<close>: its nanoseconds and the rest. \<open>fraction\<close> gets the
  digits after the point and the unit.\<close>

definition parse_duration_item :: "(string \<Rightarrow> int \<Rightarrow> int) \<Rightarrow> string \<Rightarrow> (int \<times> string) option" where
  "parse_duration_item fraction s =
     (let whole = takeWhile is_digit s; s1 = dropWhile is_digit s;
          has_dot = (case s1 of c # _ \<Rightarrow> c = CHR ''.'' | [] \<Rightarrow> False);
          frac = (if has_dot then takeWhile is_digit (tl s1) else []);
          s2 = (if has_dot then dropWhile is_digit (tl s1) else s1);
          u = takeWhile (\<lambda>c. \<not> digit_or_dot c) s2; rest = dropWhile (\<lambda>c. \<not> digit_or_dot c) s2;
          v = digits_value 0 whole
      in if whole = [] \<and> frac = [] \<or> u = [] \<or> v > 2 ^ 63 then None
         else (case unit_nanos u of
            None \<Rightarrow> None
          | Some n \<Rightarrow>
              if v > 2 ^ 63 div n then None
              else let total = v * n + (if frac = [] then 0 else fraction frac n)
                   in if total > 2 ^ 63 then None else Some (total, rest)))"

lemma parse_duration_item_rest:
  assumes "parse_duration_item fraction s = Some (n, rest)"
  shows "length rest < length s"
proof -
  let ?s1 = "dropWhile is_digit s"
  let ?s2 = "if (case ?s1 of c # _ \<Rightarrow> c = CHR ''.'' | [] \<Rightarrow> False) then dropWhile is_digit (tl ?s1) else ?s1"
  have u: "takeWhile (\<lambda>c. \<not> digit_or_dot c) ?s2 \<noteq> []" and r: "rest = dropWhile (\<lambda>c. \<not> digit_or_dot c) ?s2"
    using assms by (auto simp: parse_duration_item_def Let_def split: if_splits option.splits)
  have "length ?s2 \<le> length s"
    using length_dropWhile_le[of is_digit s] length_dropWhile_le[of is_digit "tl ?s1"] by auto
  moreover have "length rest < length ?s2"
    using u unfolding r by (metis length_append less_add_same_cancel2 length_greater_0_conv takeWhile_dropWhile_id)
  ultimately show ?thesis by simp
qed

function parse_duration_items :: "(string \<Rightarrow> int \<Rightarrow> int) \<Rightarrow> int \<Rightarrow> string \<Rightarrow> int option" where
  "parse_duration_items fraction d s =
     (if s = [] then Some d
      else case parse_duration_item fraction s of
        None \<Rightarrow> None
      | Some (n, rest) \<Rightarrow> if d + n > 2 ^ 63 then None else parse_duration_items fraction (d + n) rest)"
  by auto
termination
  by (relation "measure (\<lambda>(_, _, s). length s)") (auto dest: parse_duration_item_rest)

declare parse_duration_items.simps [simp del]

definition parse_duration :: "(string \<Rightarrow> int \<Rightarrow> int) \<Rightarrow> string \<Rightarrow> int option" where
  "parse_duration fraction s =
     (let neg = has_prefix s ''-''; s1 = (if neg \<or> has_prefix s ''+'' then tl s else s)
      in if s1 = ''0'' then Some 0
         else if s1 = [] then None
         else (case parse_duration_items fraction 0 s1 of
                 None \<Rightarrow> None
               | Some d \<Rightarrow> if neg then Some (- d) else if d > 2 ^ 63 - 1 then None else Some d))"

section \<open>The configuration\<close>

record server_config =
  cg_http_addr :: string
  cg_data_dir :: string
  cg_backup_dir :: string
  cg_docker_host :: string
  cg_session_cookie :: string
  cg_session_ttl :: int
  cg_trust_proxy :: bool
  cg_master_key_file :: string

datatype config_error = Invalid_Duration string | No_Working_Dir string | No_Data_Dir string

type_synonym environment = "string \<Rightarrow> string option"

definition get_env :: "environment \<Rightarrow> string \<Rightarrow> string \<Rightarrow> string" where
  "get_env env key fallback = (case env key of Some v \<Rightarrow> if v \<noteq> [] then v else fallback | None \<Rightarrow> fallback)"

definition get_env_bool :: "environment \<Rightarrow> string \<Rightarrow> bool \<Rightarrow> bool" where
  "get_env_bool env key fallback =
     (case env key of
        None \<Rightarrow> fallback
      | Some v \<Rightarrow> if v = [] then fallback else (case parse_bool v of None \<Rightarrow> fallback | Some b \<Rightarrow> b))"

definition get_env_duration :: "(string \<Rightarrow> int \<Rightarrow> int) \<Rightarrow> environment \<Rightarrow> string \<Rightarrow> int \<Rightarrow> (config_error, int) result" where
  "get_env_duration fraction env key fallback =
     (case env key of
        None \<Rightarrow> Inr fallback
      | Some v \<Rightarrow>
          if v = [] then Inr fallback
          else (case parse_duration fraction v of None \<Rightarrow> Inl (Invalid_Duration key) | Some d \<Rightarrow> Inr d))"

text \<open>\<open>filepath.Abs\<close>: the working directory is read only for a relative path.\<close>

definition filepath_abs :: "(string, string) result \<Rightarrow> string \<Rightarrow> (string, string) result" where
  "filepath_abs cwd p = (if rooted p then Inr (path_clean p) else bind_result cwd (\<lambda>d. Inr (path_join [d, p])))"

definition env_config :: "environment \<Rightarrow> server_config" where
  "env_config env =
     \<lparr>cg_http_addr = get_env env ''BACKORBIT_HTTP_ADDR'' ''127.0.0.1:8080'',
      cg_data_dir = get_env env ''BACKORBIT_DATA_DIR'' ''./data'',
      cg_backup_dir = get_env env ''BACKORBIT_BACKUP_DIR'' ''/backups'',
      cg_docker_host = get_env env ''BACKORBIT_DOCKER_HOST'' ''unix:///var/run/docker.sock'',
      cg_session_cookie = get_env env ''BACKORBIT_SESSION_COOKIE'' ''backorbit_session'',
      cg_session_ttl = 0,
      cg_trust_proxy = get_env_bool env ''BACKORBIT_TRUST_PROXY_HEADERS'' False,
      cg_master_key_file = get_env env ''BACKORBIT_MASTER_KEY_FILE'' []\<rparr>"

definition load_config :: "(string \<Rightarrow> int \<Rightarrow> int) \<Rightarrow> environment \<Rightarrow> (string, string) result \<Rightarrow> (string \<Rightarrow> string option)
    \<Rightarrow> (config_error, server_config) result" where
  "load_config fraction env cwd mkdir =
     bind_result (get_env_duration fraction env ''BACKORBIT_SESSION_TTL'' (24 * 3600 * 1000000000)) (\<lambda>ttl.
     case filepath_abs cwd (cg_data_dir (env_config env)) of
       Inl e \<Rightarrow> Inl (No_Working_Dir e)
     | Inr dir \<Rightarrow>
         (case mkdir dir of
            Some e \<Rightarrow> Inl (No_Data_Dir e)
          | None \<Rightarrow> Inr ((env_config env)\<lparr>cg_session_ttl := ttl, cg_data_dir := dir\<rparr>)))"

definition database_path :: "server_config \<Rightarrow> string" where
  "database_path cfg = path_join [cg_data_dir cfg, ''back-orbit.db'']"

section \<open>Lemmas\<close>

lemma get_env_unset: "env key \<in> {None, Some []} \<Longrightarrow> get_env env key fallback = fallback"
  by (auto simp: get_env_def)

lemma load_config_ok:
  assumes "load_config fraction env cwd mkdir = Inr cfg"
  obtains ttl where "filepath_abs cwd (cg_data_dir (env_config env)) = Inr (cg_data_dir cfg)"
    "cfg = (env_config env)\<lparr>cg_session_ttl := ttl, cg_data_dir := cg_data_dir cfg\<rparr>" "mkdir (cg_data_dir cfg) = None"
    "get_env_duration fraction env ''BACKORBIT_SESSION_TTL'' (24 * 3600 * 1000000000) = Inr ttl"
proof -
  obtain ttl where ttl: "get_env_duration fraction env ''BACKORBIT_SESSION_TTL'' (24 * 3600 * 1000000000) = Inr ttl"
    using assms unfolding load_config_def bind_result_eq_Inr by blast
  obtain dir where dir: "filepath_abs cwd (cg_data_dir (env_config env)) = Inr dir"
    using assms unfolding load_config_def ttl bind_result_Inr by (cases "filepath_abs cwd (cg_data_dir (env_config env))") simp_all
  have "mkdir dir = None"
    using assms unfolding load_config_def ttl dir bind_result_Inr sum.case by (cases "mkdir dir") simp_all
  then show ?thesis using that[of ttl] assms ttl dir unfolding load_config_def ttl dir bind_result_Inr sum.case by auto
qed

lemma get_env_bool_off: "get_env_bool env key False \<longleftrightarrow> (\<exists>v. env key = Some v \<and> parse_bool v = Some True)"
proof -
  have "parse_bool [] = None" by (simp add: parse_bool_def)
  then show ?thesis by (auto simp: get_env_bool_def split: option.splits)
qed

text \<open>Only a value Go reads as true turns the trust in proxy headers on.\<close>

lemma trust_proxy_only_if_asked:
  assumes "load_config fraction env cwd mkdir = Inr cfg"
  shows "cg_trust_proxy cfg \<longleftrightarrow> (\<exists>v. env ''BACKORBIT_TRUST_PROXY_HEADERS'' = Some v \<and> parse_bool v = Some True)"
proof -
  obtain ttl where "cfg = (env_config env)\<lparr>cg_session_ttl := ttl, cg_data_dir := cg_data_dir cfg\<rparr>"
    using load_config_ok[OF assms] by metis
  then have "cg_trust_proxy cfg = cg_trust_proxy (env_config env)"
    by (metis (no_types) server_config.select_convs(7) server_config.surjective server_config.update_convs(2,6))
  then show ?thesis by (simp only: env_config_def server_config.select_convs get_env_bool_off)
qed

lemma filepath_abs_rooted:
  assumes "filepath_abs cwd p = Inr q" "\<And>d. cwd = Inr d \<Longrightarrow> rooted d"
  shows "rooted q"
proof (cases "rooted p")
  case True
  then show ?thesis using assms(1) by (auto simp: filepath_abs_def)
next
  case False
  then obtain d where "cwd = Inr d" "q = path_join [d, p]" using assms(1) by (auto simp: filepath_abs_def bind_result_eq_Inr)
  then show ?thesis using assms(2)[of d] by (cases d) (auto simp: path_join_def)
qed

lemma data_dir_absolute:
  "load_config fraction env cwd mkdir = Inr cfg \<Longrightarrow> (\<And>d. cwd = Inr d \<Longrightarrow> rooted d) \<Longrightarrow> rooted (cg_data_dir cfg)"
  using load_config_ok filepath_abs_rooted by metis

text \<open>A session lifetime of zero or less is taken as it is.\<close>

lemma negative_ttl_accepted:
  "parse_duration (\<lambda>_ _. 0) ''-5m'' = Some (- 300000000000)"
  by code_simp

lemma duration_examples:
  "parse_duration (\<lambda>_ _. 0) ''1h30m'' = Some (5400 * 1000000000)"
  "parse_duration (\<lambda>_ _. 0) ''24'' = None" "parse_duration (\<lambda>_ _. 0) ''1d'' = None" "parse_duration (\<lambda>_ _. 0) ''0'' = Some 0"
  by code_simp+

end
