(* ===== verification/Http_Model.thy ===== *)
theory Http_Model
  imports Auth_Store Server_Config
begin

text \<open>
  Requests and replies of the HTTP layer, and the functions of \<open>internal/api\<close> and \<open>internal/auth\<close>
  that read or build them: \<open>json.go\<close>, \<open>middleware.go\<close>, \<open>cookie.go\<close>. A request carries its headers,
  its cookies in the order the browser sent them, and its body as the first JSON value in it with the
  number of bytes up to its end. A handler writes one status line; a panic is its own outcome.
\<close>

section \<open>Requests\<close>

datatype json =
  J_Null
| J_Bool bool
| J_Number string
| J_String string
| J_Array "json list"
| J_Object "(string \<times> json) list"

record request_body =
  rb_value :: "json option"
  rb_length :: int

record http_request =
  hr_method :: string
  hr_path :: string
  hr_query :: "(string \<times> string) list"
  hr_headers :: "(string \<times> string) list"
  hr_cookies :: "(string \<times> string) list"
  hr_remote_addr :: string
  hr_tls :: bool
  hr_body :: request_body

definition header_get :: "http_request \<Rightarrow> string \<Rightarrow> string" where
  "header_get r name = (case find (\<lambda>(n, v). equal_fold n name) (hr_headers r) of None \<Rightarrow> [] | Some (_, v) \<Rightarrow> v)"

definition cookie_value :: "http_request \<Rightarrow> string \<Rightarrow> string option" where
  "cookie_value r name = map_of (hr_cookies r) name"

definition token_from_cookie :: "http_request \<Rightarrow> string \<Rightarrow> string" where
  "token_from_cookie r name = (case cookie_value r name of None \<Rightarrow> [] | Some v \<Rightarrow> v)"

definition query_get :: "http_request \<Rightarrow> string \<Rightarrow> string" where
  "query_get r name = (case map_of (hr_query r) name of None \<Rightarrow> [] | Some v \<Rightarrow> v)"

text \<open>\<open>net.SplitHostPort\<close>, as far as the host is used.\<close>

definition split_host :: "string \<Rightarrow> string option" where
  "split_host s =
     (case last_index_char CHR '':'' s of
        None \<Rightarrow> None
      | Some i \<Rightarrow>
          if has_prefix s ''[''
          then (case index_char CHR '']'' s of
                  None \<Rightarrow> None
                | Some e \<Rightarrow>
                    if Suc e \<noteq> i \<or> CHR ''['' \<in> set (tl s) \<or> CHR '']'' \<in> set (drop (Suc e) s) then None
                    else Some (take (e - 1) (tl s)))
          else if CHR '':'' \<in> set (take i s) \<or> CHR ''['' \<in> set s \<or> CHR '']'' \<in> set s then None
          else Some (take i s))"

definition remote_ip :: "http_request \<Rightarrow> string" where
  "remote_ip r = (case split_host (hr_remote_addr r) of None \<Rightarrow> hr_remote_addr r | Some h \<Rightarrow> h)"

definition request_is_secure :: "http_request \<Rightarrow> bool \<Rightarrow> bool" where
  "request_is_secure r trust_proxy \<longleftrightarrow> hr_tls r \<or> (trust_proxy \<and> header_get r ''X-Forwarded-Proto'' = ''https'')"

section \<open>Decoding a body\<close>

text \<open>
  \<open>decodeJSON\<close> for a structure of strings and booleans. Member names are matched without regard to case,
  as \<open>encoding/json\<close> does; \<open>null\<close> leaves a field as it is; an unknown member, a value of another type
  or a body past the limit is an error. What follows the first value is not read.
\<close>

datatype field_type = String_Field | Bool_Field

definition max_request_body_bytes :: int where
  "max_request_body_bytes = 2 ^ 20"

definition member_ok :: "(string \<times> field_type) list \<Rightarrow> string \<times> json \<Rightarrow> bool" where
  "member_ok spec m \<longleftrightarrow>
     (case find (\<lambda>(n, _). equal_fold n (fst m)) spec of
        None \<Rightarrow> False
      | Some (_, String_Field) \<Rightarrow> (case snd m of J_Null \<Rightarrow> True | J_String _ \<Rightarrow> True | _ \<Rightarrow> False)
      | Some (_, Bool_Field) \<Rightarrow> (case snd m of J_Null \<Rightarrow> True | J_Bool _ \<Rightarrow> True | _ \<Rightarrow> False))"

definition decode_json :: "(string \<times> field_type) list \<Rightarrow> http_request \<Rightarrow> (string \<times> json) list option" where
  "decode_json spec r =
     (if rb_length (hr_body r) > max_request_body_bytes then None
      else case rb_value (hr_body r) of
        None \<Rightarrow> None
      | Some J_Null \<Rightarrow> Some []
      | Some (J_Object ms) \<Rightarrow> if list_all (member_ok spec) ms then Some ms else None
      | Some _ \<Rightarrow> None)"

text \<open>The last member of a name that is not \<open>null\<close> decides.\<close>

definition string_field :: "(string \<times> json) list \<Rightarrow> string \<Rightarrow> string" where
  "string_field ms name =
     fold (\<lambda>(n, v) acc. if equal_fold n name then (case v of J_String s \<Rightarrow> s | _ \<Rightarrow> acc) else acc) ms []"

definition bool_field :: "(string \<times> json) list \<Rightarrow> string \<Rightarrow> bool" where
  "bool_field ms name =
     fold (\<lambda>(n, v) acc. if equal_fold n name then (case v of J_Bool b \<Rightarrow> b | _ \<Rightarrow> acc) else acc) ms False"

section \<open>Replies\<close>

datatype same_site = Same_Site_Lax

record set_cookie =
  sk_name :: string
  sk_value :: string
  sk_path :: string
  sk_expires :: "instant option"
  sk_delete :: bool
  sk_http_only :: bool
  sk_secure :: bool
  sk_same_site :: same_site

text \<open>What was written: \<open>'b\<close> is the type of the values the handlers encode.\<close>

datatype 'b body =
  No_Body
| Plain_Error string
| Error_Message string
| Value 'b

record 'b reply =
  rp_status :: int
  rp_headers :: "(string \<times> string) list"
  rp_cookies :: "set_cookie list"
  rp_body :: "'b body"

definition status_only :: "int \<Rightarrow> 'b reply" where
  "status_only status = \<lparr>rp_status = status, rp_headers = [], rp_cookies = [], rp_body = No_Body\<rparr>"

definition write_json :: "int \<Rightarrow> 'b \<Rightarrow> 'b reply" where
  "write_json status v = \<lparr>rp_status = status, rp_headers = [(''Content-Type'', ''application/json'')], rp_cookies = [],
     rp_body = Value v\<rparr>"

definition write_error :: "int \<Rightarrow> string \<Rightarrow> 'b reply" where
  "write_error status message = \<lparr>rp_status = status, rp_headers = [(''Content-Type'', ''application/json'')],
     rp_cookies = [], rp_body = Error_Message message\<rparr>"

definition http_error :: "int \<Rightarrow> string \<Rightarrow> 'b reply" where
  "http_error status message = \<lparr>rp_status = status, rp_headers = [(''Content-Type'', ''text/plain; charset=utf-8''),
     (''X-Content-Type-Options'', ''nosniff'')], rp_cookies = [], rp_body = Plain_Error message\<rparr>"

definition with_cookie :: "set_cookie \<Rightarrow> 'b reply \<Rightarrow> 'b reply" where
  "with_cookie k r = r\<lparr>rp_cookies := k # rp_cookies r\<rparr>"

definition with_headers :: "(string \<times> string) list \<Rightarrow> 'b reply \<Rightarrow> 'b reply" where
  "with_headers hs r = r\<lparr>rp_headers := filter (\<lambda>h. fst h \<notin> fst ` set (rp_headers r)) hs @ rp_headers r\<rparr>"

definition session_cookie :: "string \<Rightarrow> string \<Rightarrow> instant \<Rightarrow> bool \<Rightarrow> set_cookie" where
  "session_cookie name token expires secure =
     \<lparr>sk_name = name, sk_value = token, sk_path = ''/'', sk_expires = Some expires, sk_delete = False,
      sk_http_only = True, sk_secure = secure, sk_same_site = Same_Site_Lax\<rparr>"

definition cleared_session_cookie :: "string \<Rightarrow> bool \<Rightarrow> set_cookie" where
  "cleared_session_cookie name secure =
     \<lparr>sk_name = name, sk_value = [], sk_path = ''/'', sk_expires = None, sk_delete = True,
      sk_http_only = True, sk_secure = secure, sk_same_site = Same_Site_Lax\<rparr>"

text \<open>A panic leaves behind the headers and cookies that were set before it.\<close>

datatype 'b outcome = Answered "'b reply" | Panicked "(string \<times> string) list" "set_cookie list"

section \<open>Lemmas\<close>

lemma token_from_cookie_absent [simp]: "cookie_value r name = None \<Longrightarrow> token_from_cookie r name = []"
  by (simp add: token_from_cookie_def)

lemma secure_without_proxy [simp]: "request_is_secure r False = hr_tls r"
  by (simp add: request_is_secure_def)

lemma member_ok_known:
  assumes "member_ok spec m"
  shows "\<exists>f \<in> set spec. equal_fold (fst f) (fst m)"
proof (cases "find (\<lambda>(n, _). equal_fold n (fst m)) spec")
  case None
  then show ?thesis using assms by (simp add: member_ok_def)
next
  case (Some f)
  then have "f \<in> set spec" "equal_fold (fst f) (fst m)" by (auto simp: find_Some_iff) (metis nth_mem)
  then show ?thesis by blast
qed

lemma decode_json_members:
  assumes "decode_json spec r = Some ms" "m \<in> set ms"
  shows "\<exists>f \<in> set spec. equal_fold (fst f) (fst m)"
proof -
  have "list_all (member_ok spec) ms"
    using assms(1) by (auto simp: decode_json_def split: if_splits option.splits json.splits)
  then show ?thesis using assms(2) member_ok_known by (auto simp: list_all_iff)
qed

lemma remote_ip_examples:
  "split_host ''10.0.0.7:4711'' = Some ''10.0.0.7''" "split_host ''[::1]:80'' = Some ''::1''"
  "split_host ''::1'' = None" "split_host ''pipe'' = None"
  by code_simp+

text \<open>
  The key of the login throttle puts the address before the name with a colon between, and an IPv6
  address ends in a colon-separated group: two clients with different names can share a key.
\<close>

lemma rate_limit_key_collision:
  "''fe80::1'' @ '':'' @ ''2:admin'' = ''fe80::1:2'' @ '':'' @ ''admin''"
  by simp

end
