(* ===== verification/Server_State.thy ===== *)
theory Server_State
  imports Http_Model Login_Limiter Repositories Analyzer_Service Backup_Start Restore_Run
begin

text \<open>
  The state of the whole server as the HTTP handlers share it (\<open>Server\<close> in \<open>internal/api/server.go\<close>),
  with the views of it that the components' own models work on. One recorder is shared by all of them,
  as it is in the program. What a request reads from outside (the clock, identifiers, random draws, the
  daemon, the faults of statements and files) is its environment.
\<close>

section \<open>The shared state\<close>

record server_state =
  sv_auth :: auth_db
  sv_limiter :: limiter
  sv_recorder :: recorder
  sv_secrets :: secret_store
  sv_repositories :: "repository list"
  sv_engine :: restic_state
  sv_disk :: file_system
  sv_projects :: "project_rec list"
  sv_blueprints :: blueprint_table
  sv_backups :: backup_registry
  sv_runs :: run_table
  sv_snapshots :: snapshot_table
  sv_restores :: restore_registry
  sv_restore_runs :: "restore_run list"
  sv_restore_dirs :: "string list"
  sv_calls :: calls

record server_env =
  en_config :: server_config
  en_auth :: auth_world
  en_check :: auth_call
  en_call :: auth_call
  en_issue :: auth_call
  en_csrf_draw :: nat
  en_event_fault :: bool
  en_event_id :: string
  en_now :: instant
  en_ping :: bool
  en_docker :: "(docker_status \<times> (string \<Rightarrow> compose_project option)) option"
  en_discovered :: "compose_project list option option"
  en_project :: call_env
  en_scan :: "call_env list"
  en_read_dir :: "string \<Rightarrow> (string \<times> bool) list option"
  en_digest :: "analysis_payload \<Rightarrow> string"
  en_analysis :: analysis_world
  en_crypto :: crypto_world
  en_secret :: secret_call
  en_repository :: repo_call
  en_start :: start_world
  en_restore :: restore_world

text \<open>The session store gets its lifetime from the configuration.\<close>

definition session_world :: "server_env \<Rightarrow> auth_world" where
  "session_world e = (en_auth e)\<lparr>aw_ttl := cg_session_ttl (en_config e)\<rparr>"

text \<open>The directories local repositories may use, as \<open>NewServer\<close> builds them.\<close>

definition server_locations :: "server_env \<Rightarrow> locations option" where
  "server_locations e = Some (new_locations (pc_probe (en_repository e)) (cg_data_dir (en_config e)) (cg_backup_dir (en_config e)))"

definition restore_root :: "server_env \<Rightarrow> string" where
  "restore_root e = path_join [cg_data_dir (en_config e), ''restores'']"

definition record_audit :: "server_env \<Rightarrow> event \<Rightarrow> server_state \<Rightarrow> server_state" where
  "record_audit e ev s = s\<lparr>sv_recorder := emit (en_event_fault e) (en_event_id e) (en_now e) ev (sv_recorder s)\<rparr>"

section \<open>Views\<close>

definition projects_of :: "server_state \<Rightarrow> projects_state" where
  "projects_of s = \<lparr>prj_rows = sv_projects s, prj_recorder = sv_recorder s\<rparr>"

definition put_projects :: "projects_state \<Rightarrow> server_state \<Rightarrow> server_state" where
  "put_projects p s = s\<lparr>sv_projects := prj_rows p, sv_recorder := prj_recorder p\<rparr>"

definition repositories_of :: "server_state \<Rightarrow> repo_state" where
  "repositories_of s = \<lparr>rs_rows = sv_repositories s, rs_secrets = sv_secrets s, rs_engine = sv_engine s,
     rs_disk = sv_disk s, rs_recorder = sv_recorder s\<rparr>"

definition put_repositories :: "repo_state \<Rightarrow> server_state \<Rightarrow> server_state" where
  "put_repositories p s = s\<lparr>sv_repositories := rs_rows p, sv_secrets := rs_secrets p, sv_engine := rs_engine p,
     sv_disk := rs_disk p, sv_recorder := rs_recorder p\<rparr>"

definition backups_of :: "server_state \<Rightarrow> start_state" where
  "backups_of s = start_state.make (sv_backups s) (sv_runs s) (sv_recorder s)"

definition put_backups :: "start_state \<Rightarrow> server_state \<Rightarrow> server_state" where
  "put_backups p s = s\<lparr>sv_backups := start_state.ss_registry p, sv_runs := start_state.ss_rows p,
     sv_recorder := start_state.ss_recorder p\<rparr>"

definition restores_of :: "server_state \<Rightarrow> restore_state" where
  "restores_of s = \<lparr>vs_registry = sv_restores s, vs_rows = sv_restore_runs s, vs_recorder = sv_recorder s,
     vs_dirs = sv_restore_dirs s, vs_calls = sv_calls s\<rparr>"

definition put_restores :: "restore_state \<Rightarrow> server_state \<Rightarrow> server_state" where
  "put_restores p s = s\<lparr>sv_restores := vs_registry p, sv_restore_runs := vs_rows p, sv_recorder := vs_recorder p,
     sv_restore_dirs := vs_dirs p, sv_calls := vs_calls p\<rparr>"

text \<open>What is left of the state when the session rows are not looked at.\<close>

definition but_sessions :: "server_state \<Rightarrow> server_state" where
  "but_sessions s = s\<lparr>sv_auth := (sv_auth s)\<lparr>ad_sessions := []\<rparr>\<rparr>"

lemma views_put [simp]:
  "put_projects (projects_of s) s = s" "put_repositories (repositories_of s) s = s"
  "put_backups (backups_of s) s = s" "put_restores (restores_of s) s = s"
  by (simp_all add: put_projects_def projects_of_def put_repositories_def repositories_of_def put_backups_def backups_of_def
      put_restores_def restores_of_def start_state.make_def)

lemma views_of_put [simp]:
  "projects_of (put_projects p s) = p" "repositories_of (put_repositories q s) = q"
  "backups_of (put_backups b s) = b" "restores_of (put_restores v s) = v"
  by (simp_all add: put_projects_def projects_of_def put_repositories_def repositories_of_def put_backups_def backups_of_def
      put_restores_def restores_of_def start_state.make_def)

lemma sv_auth_put [simp]:
  "sv_auth (put_projects p s) = sv_auth s" "sv_auth (put_repositories q s) = sv_auth s"
  "sv_auth (put_backups b s) = sv_auth s" "sv_auth (put_restores v s) = sv_auth s" "sv_auth (record_audit e ev s) = sv_auth s"
  by (simp_all add: put_projects_def put_repositories_def put_backups_def put_restores_def record_audit_def)

end
