(* ===== verification/Http_Gate.thy ===== *)
theory Http_Gate
  imports Server_State
begin

text \<open>
  What stands before the handlers: the middleware of \<open>internal/auth\<close> (\<open>csrf.go\<close>, \<open>middleware.go\<close>,
  \<open>context.go\<close>) and \<open>internal/api\<close> (\<open>middleware.go\<close>, \<open>static.go\<close>), and the table of routes of \<open>Router\<close> in
  \<open>server.go\<close>. Finding the route of a request is chi's and a parameter; the code relies on a request
  being given a registered route of its own method, which is \<open>registered_only\<close>.
\<close>

section \<open>Middleware\<close>

type_synonym 'b handler = "http_request \<Rightarrow> server_state \<Rightarrow> 'b outcome \<times> server_state"

fun on_reply :: "(string \<times> string) list \<Rightarrow> set_cookie list \<Rightarrow> 'b outcome \<Rightarrow> 'b outcome" where
  "on_reply hs ks (Answered r) = Answered ((with_headers hs r)\<lparr>rp_cookies := ks @ rp_cookies r\<rparr>)"
| "on_reply hs ks (Panicked hs' ks') = Panicked (filter (\<lambda>h. fst h \<notin> fst ` set hs') hs @ hs') (ks @ ks')"

definition recoverer :: "'b handler \<Rightarrow> 'b handler" where
  "recoverer next r s =
     (case next r s of
        (Panicked hs ks, s') \<Rightarrow> (on_reply hs ks (Answered (write_error 500 ''internal server error'')), s')
      | res \<Rightarrow> res)"

definition quoted :: "string \<Rightarrow> string" where
  "quoted s = CHR 0x27 # s @ [CHR 0x27]"

definition security_header_list :: "bool \<Rightarrow> (string \<times> string) list" where
  "security_header_list hsts =
     [(''Content-Security-Policy'', ''default-src '' @ quoted ''self'' @ ''; frame-ancestors '' @ quoted ''none'' @
         ''; base-uri '' @ quoted ''self'' @ ''; object-src '' @ quoted ''none''),
      (''X-Content-Type-Options'', ''nosniff''),
      (''X-Frame-Options'', ''DENY''),
      (''Referrer-Policy'', ''same-origin''),
      (''Permissions-Policy'', ''camera=(), microphone=(), geolocation=()'')] @
     (if hsts then [(''Strict-Transport-Security'', ''max-age=63072000; includeSubDomains'')] else [])"

definition security_headers :: "bool \<Rightarrow> 'b handler \<Rightarrow> 'b handler" where
  "security_headers hsts next r s = map_prod (on_reply (security_header_list hsts) []) id (next r s)"

definition csrf_cookie_name :: string where "csrf_cookie_name = ''backorbit_csrf''"

definition csrf_header_name :: string where "csrf_header_name = ''X-CSRF-Token''"

definition csrf_cookie :: "string \<Rightarrow> bool \<Rightarrow> set_cookie" where
  "csrf_cookie token secure =
     \<lparr>sk_name = csrf_cookie_name, sk_value = token, sk_path = ''/'', sk_expires = None, sk_delete = False,
      sk_http_only = False, sk_secure = secure, sk_same_site = Same_Site_Lax\<rparr>"

definition ensure_csrf_cookie :: "server_env \<Rightarrow> 'b handler \<Rightarrow> 'b handler" where
  "ensure_csrf_cookie e next r s =
     (if cookie_value r csrf_cookie_name \<noteq> None then next r s
      else case generate_token (en_auth e) (en_csrf_draw e) of
        Inl _ \<Rightarrow> (Answered (http_error 500 ''internal error''), s)
      | Inr token \<Rightarrow>
          map_prod (on_reply [] [csrf_cookie token (request_is_secure r (cg_trust_proxy (en_config e)))]) id (next r s))"

definition csrf_safe_method :: "string \<Rightarrow> bool" where
  "csrf_safe_method m \<longleftrightarrow> m \<in> {''GET'', ''HEAD'', ''OPTIONS''}"

definition csrf_protect :: "'b handler \<Rightarrow> 'b handler" where
  "csrf_protect next r s =
     (if csrf_safe_method (hr_method r) then next r s
      else case cookie_value r csrf_cookie_name of
        None \<Rightarrow> (Answered (http_error 403 ''missing CSRF cookie''), s)
      | Some v \<Rightarrow>
          if v = [] then (Answered (http_error 403 ''missing CSRF cookie''), s)
          else if header_get r csrf_header_name = [] \<or> header_get r csrf_header_name \<noteq> v
          then (Answered (http_error 403 ''invalid CSRF token''), s)
          else next r s)"

text \<open>\<open>RequireSession\<close>: the context it attaches is what the handler is given.\<close>

definition require_session :: "server_env \<Rightarrow> (session \<times> user \<Rightarrow> 'b handler) \<Rightarrow> 'b handler" where
  "require_session e next r s =
     (let token = token_from_cookie r (cg_session_cookie (en_config e));
          (valid, db) = validate_session (session_world e) (en_check e) token (sv_auth s);
          s' = s\<lparr>sv_auth := db\<rparr>
      in case valid of
           Inl _ \<Rightarrow> (Answered (write_error 401 ''unauthenticated''), s')
         | Inr se \<Rightarrow>
             (case get_user_by_id (en_check e) (ses_user se) db of
                Inl _ \<Rightarrow> (Answered (write_error 401 ''unauthenticated''), s')
              | Inr u \<Rightarrow> next (se, u) r s'))"

section \<open>Routes\<close>

datatype api_endpoint =
  E_Healthz | E_Setup_Status | E_Setup_Admin | E_Login | E_Logout | E_Session | E_Docker_Status
| E_List_Projects | E_Register_Project | E_Scan_Projects | E_Get_Project | E_Delete_Project | E_Get_Blueprint
| E_Analyze_Project | E_Confirm_Blueprint | E_Start_Backup | E_List_Backups | E_Get_Backup | E_Cancel_Backup
| E_List_Restores | E_Preview_Restore | E_Start_Restore | E_Restore_Database | E_Get_Restore | E_Cancel_Restore
| E_Secrets_Status | E_Secrets_Initialize | E_Secrets_Unlock | E_Secrets_Lock | E_List_Secrets
| E_List_Repositories | E_Create_Repository | E_Locations | E_Get_Repository | E_Delete_Repository
| E_Check_Repository | E_Initialize_Repository | E_List_Audit | E_Activity

datatype access = Outside_Api | Public | With_Session

record route =
  ro_method :: string
  ro_pattern :: string
  ro_endpoint :: api_endpoint
  ro_access :: access

definition make_route :: "string \<Rightarrow> string \<Rightarrow> api_endpoint \<Rightarrow> access \<Rightarrow> route" where
  "make_route m p h a = \<lparr>ro_method = m, ro_pattern = p, ro_endpoint = h, ro_access = a\<rparr>"

definition public_routes :: "route list" where
  "public_routes =
     [make_route ''GET'' ''/healthz'' E_Healthz Outside_Api,
      make_route ''GET'' ''/api/v1/setup/status'' E_Setup_Status Public,
      make_route ''POST'' ''/api/v1/setup/admin'' E_Setup_Admin Public,
      make_route ''POST'' ''/api/v1/auth/login'' E_Login Public]"

definition in_session :: "(string \<times> string \<times> api_endpoint) list \<Rightarrow> route list" where
  "in_session = map (\<lambda>(m, p, h). make_route m (''/api/v1'' @ p) h With_Session)"

definition session_routes :: "route list" where
  "session_routes = in_session
     [(''POST'', ''/auth/logout'', E_Logout),
      (''GET'', ''/auth/session'', E_Session),
      (''GET'', ''/docker/status'', E_Docker_Status),
      (''GET'', ''/projects'', E_List_Projects),
      (''POST'', ''/projects'', E_Register_Project),
      (''POST'', ''/projects/scan'', E_Scan_Projects),
      (''GET'', ''/projects/{id}'', E_Get_Project),
      (''DELETE'', ''/projects/{id}'', E_Delete_Project),
      (''GET'', ''/projects/{id}/blueprint'', E_Get_Blueprint),
      (''POST'', ''/projects/{id}/analyze'', E_Analyze_Project),
      (''POST'', ''/projects/{id}/blueprint/confirm'', E_Confirm_Blueprint),
      (''POST'', ''/projects/{id}/backup'', E_Start_Backup),
      (''GET'', ''/backups/'', E_List_Backups),
      (''GET'', ''/backups/{id}'', E_Get_Backup),
      (''POST'', ''/backups/{id}/cancel'', E_Cancel_Backup),
      (''GET'', ''/restores/'', E_List_Restores),
      (''POST'', ''/restores/preview'', E_Preview_Restore),
      (''POST'', ''/restores/'', E_Start_Restore),
      (''POST'', ''/restores/database'', E_Restore_Database),
      (''GET'', ''/restores/{id}'', E_Get_Restore),
      (''POST'', ''/restores/{id}/cancel'', E_Cancel_Restore),
      (''GET'', ''/secrets/status'', E_Secrets_Status),
      (''POST'', ''/secrets/initialize'', E_Secrets_Initialize),
      (''POST'', ''/secrets/unlock'', E_Secrets_Unlock),
      (''POST'', ''/secrets/lock'', E_Secrets_Lock),
      (''GET'', ''/secrets/'', E_List_Secrets),
      (''GET'', ''/repositories/'', E_List_Repositories),
      (''POST'', ''/repositories/'', E_Create_Repository),
      (''GET'', ''/repositories/locations'', E_Locations),
      (''GET'', ''/repositories/{id}'', E_Get_Repository),
      (''DELETE'', ''/repositories/{id}'', E_Delete_Repository),
      (''POST'', ''/repositories/{id}/check'', E_Check_Repository),
      (''POST'', ''/repositories/{id}/initialize'', E_Initialize_Repository),
      (''GET'', ''/audit'', E_List_Audit),
      (''GET'', ''/activity/stream'', E_Activity)]"

definition api_routes :: "route list" where
  "api_routes = public_routes @ session_routes"

datatype routing =
  To_Route route "(string \<times> string) list"
| Not_Found bool
| Not_Allowed bool "(string \<times> string) list"

type_synonym router = "route list \<Rightarrow> string \<Rightarrow> string \<Rightarrow> routing"

definition registered_only :: "router \<Rightarrow> bool" where
  "registered_only rt \<longleftrightarrow> (\<forall>rs m p r ps. rt rs m p = To_Route r ps \<longrightarrow> r \<in> set rs \<and> ro_method r = m)"

section \<open>The embedded frontend\<close>

text \<open>The files there are, and what the file server answers for a path; \<open>None\<close> without a frontend.\<close>

type_synonym 'b frontend = "((string \<Rightarrow> bool) \<times> (string \<Rightarrow> 'b reply)) option"

definition static_path :: "string \<Rightarrow> string" where
  "static_path p = (let c = trim_prefix (path_clean p) ''/'' in if c = [] then ''index.html'' else c)"

definition falls_back :: "'b frontend \<Rightarrow> http_request \<Rightarrow> bool" where
  "falls_back fe r \<longleftrightarrow>
     (case fe of
        None \<Rightarrow> False
      | Some (exists, _) \<Rightarrow> \<not> has_prefix (hr_path r) ''/api/'' \<and> \<not> exists (static_path (hr_path r)))"

definition serve_static :: "'b frontend \<Rightarrow> 'b handler" where
  "serve_static fe r s =
     (case fe of
        None \<Rightarrow> (Answered (write_error 404 ''not found (no embedded frontend build in this binary; run the Vite dev server separately)''), s)
      | Some (exists, files) \<Rightarrow>
          if has_prefix (hr_path r) ''/api/'' then (Answered (write_error 404 ''not found''), s)
          else if falls_back fe r then (Answered (files ''/''), s)
          else (Answered (files (hr_path r)), s))"

section \<open>The chain\<close>

type_synonym 'b endpoints =
  "api_endpoint \<Rightarrow> (session \<times> user) option \<Rightarrow> (string \<times> string) list \<Rightarrow> 'b handler"

definition behind_csrf :: "bool \<Rightarrow> 'b handler \<Rightarrow> 'b handler" where
  "behind_csrf in_api h = (if in_api then csrf_protect h else h)"

definition dispatch :: "server_env \<Rightarrow> router \<Rightarrow> 'b frontend \<Rightarrow> 'b endpoints \<Rightarrow> 'b handler" where
  "dispatch e rt fe h r s =
     (case rt api_routes (hr_method r) (hr_path r) of
        To_Route ro ps \<Rightarrow>
          (case ro_access ro of
             Outside_Api \<Rightarrow> h (ro_endpoint ro) None ps r s
           | Public \<Rightarrow> csrf_protect (h (ro_endpoint ro) None ps) r s
           | With_Session \<Rightarrow> csrf_protect (require_session e (\<lambda>su. h (ro_endpoint ro) (Some su) ps)) r s)
      | Not_Found in_api \<Rightarrow> behind_csrf in_api (serve_static fe) r s
      | Not_Allowed in_api hs \<Rightarrow> behind_csrf in_api (\<lambda>r s. (Answered ((status_only 405)\<lparr>rp_headers := hs\<rparr>), s)) r s)"

definition serve :: "server_env \<Rightarrow> router \<Rightarrow> 'b frontend \<Rightarrow> 'b endpoints \<Rightarrow> 'b handler" where
  "serve e rt fe h =
     recoverer (security_headers (cg_trust_proxy (en_config e)) (ensure_csrf_cookie e (dispatch e rt fe h)))"

text \<open>
  The log line of a request, written after it was served. The fallback to the front page writes the path
  through the pointer it shares with the request, so the line shows the new path.
\<close>

record log_line =
  ll_method :: string
  ll_path :: string
  ll_status :: int
  ll_remote_ip :: string

definition request_log :: "router \<Rightarrow> 'b frontend \<Rightarrow> http_request \<Rightarrow> 'b outcome \<Rightarrow> log_line" where
  "request_log rt fe r out =
     \<lparr>ll_method = hr_method r,
      ll_path = (case rt api_routes (hr_method r) (hr_path r) of
                   Not_Found _ \<Rightarrow> if falls_back fe r then ''/'' else hr_path r
                 | _ \<Rightarrow> hr_path r),
      ll_status = (case out of Answered rep \<Rightarrow> rp_status rep | Panicked _ _ \<Rightarrow> 200),
      ll_remote_ip = remote_ip r\<rparr>"

section \<open>What gets past it\<close>

definition csrf_passed :: "http_request \<Rightarrow> bool" where
  "csrf_passed r \<longleftrightarrow> csrf_safe_method (hr_method r) \<or>
     (\<exists>v. cookie_value r csrf_cookie_name = Some v \<and> v \<noteq> [] \<and> header_get r csrf_header_name = v)"

text \<open>The session and user a request is let in as, with the session table after its check.\<close>

definition admitted :: "server_env \<Rightarrow> http_request \<Rightarrow> server_state \<Rightarrow> session \<Rightarrow> user \<Rightarrow> auth_db \<Rightarrow> bool" where
  "admitted e r s se u db \<longleftrightarrow>
     validate_session (session_world e) (en_check e) (token_from_cookie r (cg_session_cookie (en_config e))) (sv_auth s) = (Inr se, db) \<and>
     get_user_by_id (en_check e) (ses_user se) db = Inr u"

lemma csrf_protect_cases:
  "csrf_protect next r s = (if csrf_passed r then next r s else csrf_protect next r s)"
  "\<not> csrf_passed r \<Longrightarrow> \<exists>m. csrf_protect next r s = (Answered (http_error 403 m), s)"
proof -
  show "csrf_protect next r s = (if csrf_passed r then next r s else csrf_protect next r s)"
    by (auto simp: csrf_protect_def csrf_passed_def split: option.split)
  show "\<not> csrf_passed r \<Longrightarrow> \<exists>m. csrf_protect next r s = (Answered (http_error 403 m), s)"
    by (auto simp: csrf_protect_def csrf_passed_def split: option.split)
qed

lemma csrf_protect_passed: "csrf_passed r \<Longrightarrow> csrf_protect next r s = next r s"
  by (subst csrf_protect_cases(1)) simp

lemma behind_csrf_state:
  assumes "\<And>r s. snd (k r s) = s"
  shows "snd (behind_csrf b k r s) = s"
proof (cases "b \<and> \<not> csrf_passed r")
  case True
  then show ?thesis using csrf_protect_cases(2)[of r k s] by (auto simp: behind_csrf_def)
next
  case False
  then show ?thesis using assms by (auto simp: behind_csrf_def csrf_protect_passed)
qed

lemma serve_static_state [simp]: "snd (serve_static fe r s) = s"
  by (simp add: serve_static_def split: option.split prod.split)

lemma recoverer_state [simp]: "snd (recoverer next r s) = snd (next r s)"
  by (cases "next r s") (auto simp: recoverer_def split: outcome.split)

lemma ensure_csrf_cookie_state: "snd (ensure_csrf_cookie e next r s) \<in> {s, snd (next r s)}"
  by (auto simp: ensure_csrf_cookie_def split: sum.split)

lemma security_headers_state [simp]: "snd (security_headers b next r s) = snd (next r s)"
  by (simp add: security_headers_def)

lemma serve_state: "snd (serve e rt fe h r s) \<in> {s, snd (dispatch e rt fe h r s)}"
  using ensure_csrf_cookie_state[of e "dispatch e rt fe h" r s] by (simp add: serve_def)

lemma validate_session_users: "ad_users (snd (validate_session w c t db)) = ad_users db"
  using validate_session_db[of w c t db] by (auto simp: without_session_def)

lemma but_sessions_check:
  "but_sessions (s\<lparr>sv_auth := snd (validate_session w c t (sv_auth s))\<rparr>) = but_sessions s"
  by (simp add: but_sessions_def validate_session_users)

text \<open>A request without a session that is valid, or whose user is gone, is answered 401 and changes
  at most the session rows.\<close>

lemma require_session_refuses:
  assumes "\<nexists>se u db. admitted e r s se u db"
  shows "fst (require_session e next r s) = Answered (write_error 401 ''unauthenticated'')"
    "but_sessions (snd (require_session e next r s)) = but_sessions s"
proof -
  let ?v = "validate_session (session_world e) (en_check e) (token_from_cookie r (cg_session_cookie (en_config e))) (sv_auth s)"
  have "require_session e next r s = (Answered (write_error 401 ''unauthenticated''), s\<lparr>sv_auth := snd ?v\<rparr>)"
    using assms by (cases ?v) (fastforce simp: require_session_def admitted_def Let_def split: sum.split)
  then show "fst (require_session e next r s) = Answered (write_error 401 ''unauthenticated'')"
    "but_sessions (snd (require_session e next r s)) = but_sessions s"
    using but_sessions_check by simp_all
qed

lemma require_session_admits:
  "admitted e r s se u db \<Longrightarrow> require_session e next r s = next (se, u) r (s\<lparr>sv_auth := db\<rparr>)"
  by (simp add: require_session_def admitted_def Let_def)

lemma session_route_access: "ro \<in> set session_routes \<Longrightarrow> ro_access ro = With_Session"
  by (auto simp: session_routes_def in_session_def make_route_def)

lemma public_route_access:
  "ro \<in> set public_routes \<Longrightarrow> ro_access ro \<noteq> With_Session \<and> ro_endpoint ro \<in> {E_Healthz, E_Setup_Status, E_Setup_Admin, E_Login}
    \<and> (ro_access ro = Outside_Api \<longrightarrow> ro_endpoint ro = E_Healthz)"
  by (auto simp: public_routes_def make_route_def)

text \<open>C34. Whatever the handlers do, a request changes anything of the server's state other than the
  session rows only if it was routed to a registered route, it passed the CSRF check (outside the health
  check), and, outside setup and login, it carried a session that is valid and whose user exists; that
  user is who the handler acts for.\<close>

theorem requests_gated:
  assumes "registered_only rt" "but_sessions (snd (serve e rt fe h r s)) \<noteq> but_sessions s"
  shows "\<exists>ro ps. rt api_routes (hr_method r) (hr_path r) = To_Route ro ps \<and> ro \<in> set api_routes \<and>
     (ro_endpoint ro = E_Healthz \<or>
      csrf_passed r \<and>
      (ro_endpoint ro \<in> {E_Setup_Status, E_Setup_Admin, E_Login} \<and> snd (serve e rt fe h r s) = snd (h (ro_endpoint ro) None ps r s) \<or>
       (\<exists>se u db. admitted e r s se u db \<and>
          snd (serve e rt fe h r s) = snd (h (ro_endpoint ro) (Some (se, u)) ps r (s\<lparr>sv_auth := db\<rparr>)))))"
proof -
  let ?d = "dispatch e rt fe h r s"
  have ch: "snd (serve e rt fe h r s) = snd ?d" "but_sessions (snd ?d) \<noteq> but_sessions s"
    using serve_state[of e rt fe h r s] assms(2) by auto
  obtain ro ps where ro: "rt api_routes (hr_method r) (hr_path r) = To_Route ro ps"
  proof (cases "rt api_routes (hr_method r) (hr_path r)")
    case (Not_Found b)
    then have "snd ?d = s" using behind_csrf_state[of "serve_static fe" b r s] by (simp add: dispatch_def)
    then show ?thesis using ch(2) by simp
  next
    case (Not_Allowed b hs)
    then have "snd ?d = s" by (simp add: dispatch_def behind_csrf_state)
    then show ?thesis using ch(2) by simp
  qed
  have mem: "ro \<in> set api_routes" using assms(1) ro unfolding registered_only_def by blast
  show ?thesis
  proof (cases "ro_access ro")
    case Outside_Api
    then have "ro_endpoint ro = E_Healthz"
      using mem session_route_access public_route_access by (auto simp: api_routes_def)
    then show ?thesis using ro mem by blast
  next
    case Public
    then have d: "?d = csrf_protect (h (ro_endpoint ro) None ps) r s" using ro by (simp add: dispatch_def)
    have passed: "csrf_passed r" using csrf_protect_cases(2)[of r "h (ro_endpoint ro) None ps" s] ch(2) unfolding d by force
    moreover have "snd (serve e rt fe h r s) = snd (h (ro_endpoint ro) None ps r s)"
      unfolding ch(1) d csrf_protect_passed[OF passed] ..
    moreover have "ro_endpoint ro \<in> {E_Healthz, E_Setup_Status, E_Setup_Admin, E_Login}"
      using Public mem session_route_access public_route_access by (auto simp: api_routes_def)
    ultimately show ?thesis using ro mem by auto
  next
    case With_Session
    let ?k = "require_session e (\<lambda>su. h (ro_endpoint ro) (Some su) ps)"
    have d: "?d = csrf_protect ?k r s" using With_Session ro by (simp add: dispatch_def)
    have passed: "csrf_passed r" using csrf_protect_cases(2)[of r ?k s] ch(2) unfolding d by force
    then have d: "?d = ?k r s" using d csrf_protect_passed by metis
    then obtain se u db where adm: "admitted e r s se u db" using require_session_refuses(2) ch(2) by metis
    have "snd (serve e rt fe h r s) = snd (h (ro_endpoint ro) (Some (se, u)) ps r (s\<lparr>sv_auth := db\<rparr>))"
      unfolding ch(1) d require_session_admits[OF adm] ..
    then show ?thesis using ro mem passed adm by blast
  qed
qed

lemma with_headers_mem: "h \<in> set hs \<Longrightarrow> fst h \<in> fst ` set (rp_headers (with_headers hs r))"
  by (auto simp: with_headers_def)

definition hardening_headers :: "string list" where
  "hardening_headers = [''Content-Security-Policy'', ''X-Content-Type-Options'', ''X-Frame-Options'', ''Referrer-Policy'',
     ''Permissions-Policy'']"

lemma security_header_names:
  "map fst (security_header_list b) = hardening_headers @ (if b then [''Strict-Transport-Security''] else [])"
  by (simp add: security_header_list_def hardening_headers_def)

fun outcome_headers :: "'b outcome \<Rightarrow> (string \<times> string) list" where
  "outcome_headers (Answered r) = rp_headers r"
| "outcome_headers (Panicked hs ks) = hs"

lemma on_reply_headers: "fst ` set hs \<subseteq> fst ` set (outcome_headers (on_reply hs ks out))"
  by (cases out) (auto simp: with_headers_def)

lemma recoverer_headers:
  "fst ` set (outcome_headers (fst (next r s))) \<subseteq> fst ` set (outcome_headers (fst (recoverer next r s)))"
  "\<exists>rep. fst (recoverer next r s) = Answered rep"
proof -
  have "fst ` set (outcome_headers (fst (next r s))) \<subseteq> fst ` set (outcome_headers (fst (recoverer next r s)))
    \<and> (\<exists>rep. fst (recoverer next r s) = Answered rep)"
  proof (cases "next r s")
    case (Pair out s')
    then show ?thesis
      using on_reply_headers[of _ _ "Answered (write_error 500 ''internal server error'')"]
      by (cases out) (simp_all add: recoverer_def)
  qed
  then show "fst ` set (outcome_headers (fst (next r s))) \<subseteq> fst ` set (outcome_headers (fst (recoverer next r s)))"
    "\<exists>rep. fst (recoverer next r s) = Answered rep" by blast+
qed


end
