(* ===== verification/Api_Auth.thy ===== *)
theory Api_Auth
  imports Http_Gate
begin

text \<open>
  The values the API answers with, and the handlers of setup, login, logout and the current session
  (\<open>internal/api/setup.go\<close>, \<open>auth.go\<close>, \<open>health.go\<close>). Each handler is the whole of its Go function on the
  shared state.
\<close>

section \<open>Values\<close>

datatype api_value =
  V_Health bool
| V_Setup_Complete bool
| V_User user instant
| V_Docker "docker_status option"
| V_Projects "project_rec list"
| V_Project project_rec
| V_Project_Detail project_detail
| V_Scan "project_rec list" "string option"
| V_Blueprint blueprint
| V_Run run
| V_Run_Detail run "snapshot option"
| V_Runs "(run \<times> snapshot option) list"
| V_Preview preview
| V_Restore restore_run
| V_Restores "restore_run list"
| V_Secrets_Status bool bool bool
| V_Secrets "secret_metadata list"
| V_Repositories "repository list"
| V_Repository repository
| V_Check check_result
| V_Locations "suggestion list"
| V_Audit "event list"
| V_Stream "string list"

type_synonym api_handler = "http_request \<Rightarrow> server_state \<Rightarrow> api_value outcome \<times> server_state"

definition fail_with :: "int \<Rightarrow> string \<Rightarrow> api_value outcome" where
  "fail_with status message = Answered (write_error status message)"

definition answer_with :: "int \<Rightarrow> api_value \<Rightarrow> api_value outcome" where
  "answer_with status v = Answered (write_json status v)"

definition user_agent :: "http_request \<Rightarrow> string" where
  "user_agent r = header_get r ''User-Agent''"

definition handle_healthz :: "server_env \<Rightarrow> api_handler" where
  "handle_healthz e r s = (answer_with (if en_ping e then 200 else 503) (V_Health (en_ping e)), s)"

section \<open>Setup\<close>

definition handle_setup_status :: "server_env \<Rightarrow> api_handler" where
  "handle_setup_status e r s =
     (case has_any_user (en_call e) (sv_auth s) of
        Inl _ \<Rightarrow> (fail_with 500 ''failed to check setup status'', s)
      | Inr b \<Rightarrow> (answer_with 200 (V_Setup_Complete b), s))"

definition login_spec :: "(string \<times> field_type) list" where
  "login_spec = [(''username'', String_Field), (''password'', String_Field)]"

definition min_admin_password_length :: nat where
  "min_admin_password_length = 12"

text \<open>The session a handler starts, with its cookie.\<close>

definition start_session :: "server_env \<Rightarrow> http_request \<Rightarrow> user \<Rightarrow> server_state \<Rightarrow> (session \<times> set_cookie) option \<times> server_state" where
  "start_session e r u s =
     (case create_session (session_world e) (en_issue e) (us_id u) (remote_ip r) (user_agent r) (sv_auth s) of
        (Inl _, db) \<Rightarrow> (None, s\<lparr>sv_auth := db\<rparr>)
      | (Inr se, db) \<Rightarrow>
          (Some (se, session_cookie (cg_session_cookie (en_config e)) (ses_token se) (ses_expires se)
             (request_is_secure r (cg_trust_proxy (en_config e)))), s\<lparr>sv_auth := db\<rparr>))"

definition user_reply :: "int \<Rightarrow> user \<Rightarrow> session \<Rightarrow> set_cookie \<Rightarrow> api_value outcome" where
  "user_reply status u se k = Answered (with_cookie k (write_json status (V_User u (ses_expires se))))"

definition handle_setup_admin :: "server_env \<Rightarrow> api_handler" where
  "handle_setup_admin e r s =
     (case decode_json login_spec r of
        None \<Rightarrow> (fail_with 400 ''invalid request body'', s)
      | Some ms \<Rightarrow>
          (let username = trim_space (string_field ms ''username''); password = string_field ms ''password''
           in if length username < 3 \<or> length username > 64
              then (fail_with 400 ''username must be between 3 and 64 characters'', s)
              else if length password < min_admin_password_length
              then (fail_with 400 ''password must be at least 12 characters'', s)
              else (case create_user (en_auth e) (en_call e) username password (sv_auth s) of
                (Inl User_Already_Set_Up, db) \<Rightarrow> (fail_with 409 ''an administrator account already exists'', s\<lparr>sv_auth := db\<rparr>)
              | (Inl _, db) \<Rightarrow> (fail_with 500 ''failed to create administrator account'', s\<lparr>sv_auth := db\<rparr>)
              | (Inr u, db) \<Rightarrow>
                  (let s1 = record_audit e (event_of ''auth.admin_account_created'' (us_id u) ''user'' (us_id u)
                              [(''username'', Meta_String (us_username u))]) (s\<lparr>sv_auth := db\<rparr>)
                   in case start_session e r u s1 of
                        (None, s2) \<Rightarrow> (fail_with 500 ''account created, but failed to start a session; please log in'', s2)
                      | (Some (se, k), s2) \<Rightarrow> (user_reply 201 u se k, s2)))))"

section \<open>Login and logout\<close>

definition rate_limit_key :: "http_request \<Rightarrow> string \<Rightarrow> string" where
  "rate_limit_key r username = remote_ip r @ '':'' @ username"

definition login_failed :: "server_env \<Rightarrow> string \<Rightarrow> string \<Rightarrow> server_state \<Rightarrow> server_state" where
  "login_failed e key username s =
     record_audit e (event_of ''auth.login_failed'' [] [] [] [(''username'', Meta_String username)])
       (s\<lparr>sv_limiter := record_failure (en_now e) key (sv_limiter s)\<rparr>)"

definition login_succeeded :: "server_env \<Rightarrow> http_request \<Rightarrow> string \<Rightarrow> user \<Rightarrow> server_state \<Rightarrow> api_value outcome \<times> server_state" where
  "login_succeeded e r key u s =
     (case start_session e r u (s\<lparr>sv_limiter := record_success key (sv_limiter s)\<rparr>) of
        (None, s1) \<Rightarrow> (fail_with 500 ''failed to start session'', s1)
      | (Some (se, k), s1) \<Rightarrow>
          (user_reply 200 u se k,
           record_audit e (event_of ''auth.login_succeeded'' (us_id u) [] [] [(''username'', Meta_String (us_username u))]) s1))"

definition handle_login :: "server_env \<Rightarrow> api_handler" where
  "handle_login e r s =
     (case decode_json login_spec r of
        None \<Rightarrow> (fail_with 400 ''invalid request body'', s)
      | Some ms \<Rightarrow>
          (let username = string_field ms ''username''; key = rate_limit_key r username;
               (ok, l) = allow (ac_now (en_call e)) key (sv_limiter s); s1 = s\<lparr>sv_limiter := l\<rparr>
           in if \<not> ok then (fail_with 429 ''too many login attempts, please try again later'', s1)
              else (case fst (authenticate (en_auth e) (en_call e) username (string_field ms ''password'') (sv_auth s)) of
                Inl (Auth_Password _ Argon2_Panic) \<Rightarrow> (Panicked [] [], s1)
              | Inl Invalid_Credentials \<Rightarrow> (fail_with 401 ''invalid username or password'', login_failed e key username s1)
              | Inl _ \<Rightarrow> (fail_with 500 ''login failed'', login_failed e key username s1)
              | Inr u \<Rightarrow> login_succeeded e r key u s1)))"

definition handle_logout :: "server_env \<Rightarrow> (session \<times> user) option \<Rightarrow> api_handler" where
  "handle_logout e su r s =
     (let token = token_from_cookie r (cg_session_cookie (en_config e));
          s1 = (if token \<noteq> [] then s\<lparr>sv_auth := snd (delete_session (en_auth e) (en_call e) token (sv_auth s))\<rparr> else s);
          k = cleared_session_cookie (cg_session_cookie (en_config e)) (request_is_secure r (cg_trust_proxy (en_config e)));
          s2 = (case su of None \<Rightarrow> s1 | Some (_, u) \<Rightarrow> record_audit e ((event_of ''auth.logout'' (us_id u) [] [] [])\<lparr>ev_metadata := None\<rparr>) s1)
      in (Answered (with_cookie k (status_only 204)), s2))"

definition handle_session :: "(session \<times> user) option \<Rightarrow> api_handler" where
  "handle_session su r s =
     (case su of
        None \<Rightarrow> (fail_with 401 ''unauthenticated'', s)
      | Some (se, u) \<Rightarrow> (answer_with 200 (V_User u (ses_expires se)), s))"

section \<open>Logging in is the only way in\<close>

lemma record_audit_auth [simp]:
  "sv_auth (record_audit e ev s) = sv_auth s" "sv_limiter (record_audit e ev s) = sv_limiter s"
  by (simp_all add: record_audit_def)

lemma start_session_None:
  "start_session e r u s = (None, s') \<Longrightarrow> s' = s"
  by (auto simp: start_session_def create_session_def Let_def split: sum.splits prod.splits)

lemma start_session_Some:
  assumes "start_session e r u s = (Some (se, k), s')"
  shows "create_session (session_world e) (en_issue e) (us_id u) (remote_ip r) (user_agent r) (sv_auth s) = (Inr se, sv_auth s')"
    "k = session_cookie (cg_session_cookie (en_config e)) (ses_token se) (ses_expires se)
           (request_is_secure r (cg_trust_proxy (en_config e)))"
  using assms by (auto simp: start_session_def split: sum.splits prod.splits)

text \<open>How a login ends.\<close>

lemma handle_login_cases:
  assumes "handle_login e r s = (out, s')"
  obtains (refused) st m where "out = fail_with st m" "st \<in> {400, 401, 429, 500}" "sv_auth s' = sv_auth s"
  | (panic) "out = Panicked [] []" "sv_auth s' = sv_auth s"
  | (entered) ms u se k s1 where "decode_json login_spec r = Some ms"
      "fst (allow (ac_now (en_call e)) (rate_limit_key r (string_field ms ''username'')) (sv_limiter s))"
      "fst (authenticate (en_auth e) (en_call e) (string_field ms ''username'') (string_field ms ''password'') (sv_auth s)) = Inr u"
      "start_session e r u s1 = (Some (se, k), s1\<lparr>sv_auth := sv_auth s'\<rparr>)" "sv_auth s1 = sv_auth s"
      "out = user_reply 200 u se k"
proof (cases "decode_json login_spec r")
  case None
  then have "out = fail_with 400 ''invalid request body''" "s' = s" using assms by (simp_all add: handle_login_def)
  then show ?thesis using that(1)[of 400 "''invalid request body''"] by simp
next
  case (Some ms)
  let ?name = "string_field ms ''username''" and ?pass = "string_field ms ''password''"
  let ?key = "rate_limit_key r ?name"
  obtain ok l where al: "allow (ac_now (en_call e)) ?key (sv_limiter s) = (ok, l)" by fastforce
  let ?s1 = "s\<lparr>sv_limiter := l\<rparr>"
  let ?au = "fst (authenticate (en_auth e) (en_call e) ?name ?pass (sv_auth s))"
  have H: "handle_login e r s =
     (if \<not> ok then (fail_with 429 ''too many login attempts, please try again later'', ?s1)
      else (case ?au of
          Inl (Auth_Password _ Argon2_Panic) \<Rightarrow> (Panicked [] [], ?s1)
        | Inl Invalid_Credentials \<Rightarrow> (fail_with 401 ''invalid username or password'', login_failed e ?key ?name ?s1)
        | Inl _ \<Rightarrow> (fail_with 500 ''login failed'', login_failed e ?key ?name ?s1)
        | Inr u \<Rightarrow> login_succeeded e r ?key u ?s1))"
    by (simp add: handle_login_def Some al Let_def)
  have failed: "sv_auth (login_failed e ?key ?name ?s1) = sv_auth s" by (simp add: login_failed_def)
  show ?thesis
  proof (cases "ok \<and> (\<exists>u. ?au = Inr u)")
    case False
    then have "(out = Panicked [] [] \<or> (\<exists>st m. out = fail_with st m \<and> st \<in> {400, 401, 429, 500})) \<and> sv_auth s' = sv_auth s"
      using assms H failed by (fastforce split: if_splits sum.splits auth_error.splits password_error.splits)
    then show ?thesis using that(1,2) by blast
  next
    case True
    then obtain u where u: "ok" "?au = Inr u" by blast
    then have step: "login_succeeded e r ?key u ?s1 = (out, s')" using assms H by simp
    let ?s2 = "?s1\<lparr>sv_limiter := record_success ?key (sv_limiter ?s1)\<rparr>"
    show ?thesis
    proof (cases "start_session e r u ?s2")
      case (Pair res s3)
      show ?thesis
      proof (cases res)
        case None
        then have "out = fail_with 500 ''failed to start session''" "s' = s3"
          using step Pair by (simp_all add: login_succeeded_def)
        moreover have "s3 = ?s2" using Pair None start_session_None by simp
        ultimately show ?thesis using that(1)[of 500 "''failed to start session''"] by simp
      next
        case (Some sk)
        obtain se k where sk: "sk = (se, k)" by fastforce
        have s': "out = user_reply 200 u se k" "sv_auth s' = sv_auth s3"
          using step Pair Some sk by (auto simp: login_succeeded_def)
        have "s3 = ?s2\<lparr>sv_auth := sv_auth s3\<rparr>"
          using Pair by (auto simp: start_session_def split: sum.splits prod.splits)
        then show ?thesis using that(3)[of ms u ?s2 se k] \<open>decode_json login_spec r = Some ms\<close> al u s' Pair Some sk by simp
      qed
    qed
  qed
qed

text \<open>How a login that lets someone in came about.\<close>

lemma login_entered:
  assumes "handle_login e r s = (out, s')"
    and "sv_auth s' \<noteq> sv_auth s \<or> (\<exists>rep. out = Answered rep \<and> rp_status rep = 200)"
  shows "\<exists>ms u se. decode_json login_spec r = Some ms \<and>
     fst (allow (ac_now (en_call e)) (rate_limit_key r (string_field ms ''username'')) (sv_limiter s)) \<and>
     fst (authenticate (en_auth e) (en_call e) (string_field ms ''username'') (string_field ms ''password'') (sv_auth s)) = Inr u \<and>
     create_session (session_world e) (en_issue e) (us_id u) (remote_ip r) (user_agent r) (sv_auth s) = (Inr se, sv_auth s') \<and>
     (\<exists>k. out = user_reply 200 u se k \<and> sk_value k = ses_token se \<and> sk_http_only k)"
  using assms(1)
proof (cases rule: handle_login_cases)
  case (refused st m)
  then show ?thesis using assms(2) by (auto simp: fail_with_def write_error_def)
next
  case panic
  then show ?thesis using assms(2) by simp
next
  case (entered ms u se k s1)
  then show ?thesis using start_session_Some[OF entered(4)] by (fastforce simp: session_cookie_def)
qed

text \<open>C36. A login changes the users or sessions, or answers 200, only if the throttle let it through and
  the password of the named user was verified; and then it is that user's session that is made.\<close>

theorem login_needs_password:
  assumes "handle_login e r s = (out, s')"
    and "sv_auth s' \<noteq> sv_auth s \<or> (\<exists>rep. out = Answered rep \<and> rp_status rep = 200)"
  shows "\<exists>ms u se. decode_json login_spec r = Some ms \<and>
     fst (allow (ac_now (en_call e)) (rate_limit_key r (string_field ms ''username'')) (sv_limiter s)) \<and>
     fst (authenticate (en_auth e) (en_call e) (string_field ms ''username'') (string_field ms ''password'') (sv_auth s)) = Inr u \<and>
     create_session (session_world e) (en_issue e) (us_id u) (remote_ip r) (user_agent r) (sv_auth s) = (Inr se, sv_auth s') \<and>
     (\<exists>k. out = user_reply 200 u se k \<and> sk_value k = ses_token se \<and> sk_http_only k)"
  using login_entered[OF assms] .


section \<open>From login to logout\<close>

lemma find_SomeD: "find P xs = Some x \<Longrightarrow> x \<in> set xs \<and> P x"
  by (auto simp: find_Some_iff)

lemma authenticate_row:
  assumes "fst (authenticate w c name pass db) = Inr u"
  obtains r where "r \<in> set (ad_users db)" "u = user_of_row r" "ur_username r = name"
proof -
  obtain r where "find (\<lambda>r. ur_username r = name) (ad_users db) = Some r" "u = user_of_row r"
    using assms by (auto simp: authenticate_def split: option.splits sum.splits bool.splits)
  then show ?thesis using that[of r] find_SomeD[of _ _ r] by blast
qed

lemma get_user_of_row:
  assumes "auth_wf db" "r \<in> set (ad_users db)" "ac_fault c ''get user'' = None"
  shows "get_user_by_id c (ur_id r) db = Inr (user_of_row r)"
proof -
  have inj: "inj_on ur_id (set (ad_users db))" using assms(1) by (simp add: auth_wf_def distinct_map)
  obtain q where q: "find (\<lambda>x. ur_id x = ur_id r) (ad_users db) = Some q"
    using assms(2) by (cases "find (\<lambda>x. ur_id x = ur_id r) (ad_users db)") (auto simp: find_None_iff)
  then have "q \<in> set (ad_users db)" "ur_id q = ur_id r" by (auto simp: find_Some_iff)
  then have "q = r" using inj assms(2) by (metis inj_onD)
  then show ?thesis using q assms(3) by (simp add: get_user_by_id_def)
qed

lemma spares_ttl [simp]: "spares (w\<lparr>aw_ttl := t\<rparr>) token ex op = spares w token ex op"
  by (cases op) simp_all

lemma auth_step_users_kept: "r \<in> set (ad_users db) \<Longrightarrow> atomic_op op \<Longrightarrow> r \<in> set (ad_users (auth_step w op db))"
  using users_step[of op db w] by (cases "ad_users db = []") auto

lemma run_auth_users_kept:
  "r \<in> set (ad_users db) \<Longrightarrow> \<forall>op \<in> set ops. atomic_op op \<Longrightarrow> r \<in> set (ad_users (run_auth w ops db))"
  by (induction ops arbitrary: db) (simp_all add: auth_step_users_kept)

lemma create_session_users: "ad_users (snd (create_session w c u ip a db)) = ad_users db"
  using create_session_db[of w c u ip a db] insert_session_row_cases(1) by fastforce

text \<open>
  A later request with the cookie, made when the tables have been through \<open>ops\<close> since.
\<close>

definition returns_with :: "server_env \<Rightarrow> server_env \<Rightarrow> session \<Rightarrow> http_request \<Rightarrow> bool" where
  "returns_with e e2 se r2 \<longleftrightarrow> en_config e2 = en_config e \<and> en_auth e2 = en_auth e \<and> ac_fault (en_check e2) = (\<lambda>_. None) \<and>
     token_from_cookie r2 (cg_session_cookie (en_config e)) = ses_token se"


definition creates_no_session :: "auth_op \<Rightarrow> bool" where
  "creates_no_session op \<longleftrightarrow> (case op of Op_Create_Session _ _ _ _ \<Rightarrow> False | _ \<Rightarrow> True)"

lemma store_user_sessions [simp]: "ad_sessions (snd (store_user w c name pass db)) = ad_sessions db"
  by (auto simp: store_user_def insert_user_row_def Let_def split: sum.split option.split)

lemma sessions_only_shrink:
  assumes "creates_no_session op"
  shows "set (ad_sessions (auth_step w op db)) \<subseteq> set (ad_sessions db)"
proof (cases op)
  case (Op_Create_User c name pass)
  then show ?thesis by (simp add: create_user_def split: sum.split bool.split)
next
  case (Op_Validate c t)
  then show ?thesis using validate_session_db[of w c t db] by (auto simp: without_session_def)
qed (use assms in \<open>auto simp: creates_no_session_def delete_session_def delete_expired_def without_session_def Let_def
      split: option.split\<close>)

lemma sessions_shrink_run:
  "\<forall>op \<in> set ops. creates_no_session op \<Longrightarrow> set (ad_sessions (run_auth w ops db)) \<subseteq> set (ad_sessions db)"
  by (induction ops arbitrary: db) (auto dest: sessions_only_shrink[THEN subsetD])

lemma validate_ok_row:
  "validate_session w c t db = (Inr se, db') \<Longrightarrow> \<exists>q \<in> set (ad_sessions db). sr_token_hash q = aw_digest w t"
  by (auto simp: validate_session_def Let_def dest!: find_SomeD split: option.splits if_splits)

text \<open>C38. After a logout that could delete the row, the cookie admits no request any more, until a session
  is created again.\<close>

theorem logout_ends_session:
  assumes "handle_logout e su r s = (out, s')" "ac_fault (en_call e) ''delete session'' = None"
    and "token_from_cookie r (cg_session_cookie (en_config e)) = t" "t \<noteq> []"
    and "\<forall>op \<in> set ops. creates_no_session op" "sv_auth s2 = run_auth (en_auth e) ops (sv_auth s')"
    and "en_auth e2 = en_auth e" "token_from_cookie r2 (cg_session_cookie (en_config e2)) = t"
  shows "(\<exists>rep. out = Answered rep \<and> rp_status rep = 204) \<and> \<not> (\<exists>se u db. admitted e2 r2 s2 se u db)"
proof -
  have s': "sv_auth s' = snd (delete_session (en_auth e) (en_call e) t (sv_auth s))"
    and out: "\<exists>rep. out = Answered rep \<and> rp_status rep = 204"
    using assms(1,3,4) by (auto simp: handle_logout_def Let_def with_cookie_def status_only_def split: option.splits prod.splits)
  have "\<forall>q \<in> set (ad_sessions (sv_auth s')). sr_token_hash q \<noteq> aw_digest (en_auth e) t"
    using assms(2) unfolding s' by (auto simp: delete_session_def without_session_def)
  then have gone: "\<forall>q \<in> set (ad_sessions (sv_auth s2)). sr_token_hash q \<noteq> aw_digest (en_auth e) t"
    using sessions_shrink_run[OF assms(5), of "en_auth e" "sv_auth s'"] unfolding assms(6) by blast
  have "aw_digest (session_world e2) = aw_digest (en_auth e)" by (simp add: session_world_def assms(7))
  then have "\<not> (\<exists>se u db. admitted e2 r2 s2 se u db)"
    using gone validate_ok_row[of "session_world e2" "en_check e2" t "sv_auth s2"] unfolding admitted_def assms(8) by metis
  then show ?thesis using out by blast
qed

text \<open>A logout that cannot delete the row says the same, and the session stays usable.\<close>

lemma logout_may_leave_session:
  assumes "ac_fault (en_call e) ''delete session'' = Some err"
  shows "sv_auth (snd (handle_logout e su r s)) = sv_auth s \<and>
         (\<exists>rep. fst (handle_logout e su r s) = Answered rep \<and> rp_status rep = 204)"
  using assms by (auto simp: handle_logout_def Let_def delete_session_def with_cookie_def status_only_def split: option.splits prod.splits)

section \<open>Setup happens once\<close>

lemma start_session_users: "start_session e r u s = (res, s') \<Longrightarrow> ad_users (sv_auth s') = ad_users (sv_auth s)"
  using create_session_users[of "session_world e" "en_issue e" "us_id u" "remote_ip r" "user_agent r" "sv_auth s"]
  by (auto simp: start_session_def split: sum.splits prod.splits)


text \<open>The lengths are those of the bytes: four characters can be a password of twelve.\<close>

lemma setup_counts_bytes:
  "length (concat (replicate 4 em_dash)) = min_admin_password_length"
  by (simp add: em_dash_def min_admin_password_length_def numeral_eq_Suc)

section \<open>Odd corners of the gate\<close>

text \<open>An empty CSRF cookie is not replaced and not accepted: such a client is refused from then on.\<close>

lemma empty_csrf_cookie_stuck:
  assumes "cookie_value r csrf_cookie_name = Some []" "\<not> csrf_safe_method (hr_method r)"
  shows "ensure_csrf_cookie e next r s = next r s" "csrf_protect next r s = (Answered (http_error 403 ''missing CSRF cookie''), s)"
  using assms by (simp_all add: ensure_csrf_cookie_def csrf_protect_def)

text \<open>Strict-Transport-Security follows the configuration, not the connection.\<close>

lemma hsts_over_plain_http:
  assumes "cg_trust_proxy (en_config e)"
  shows "\<exists>rep. fst (serve e rt fe h r s) = Answered rep \<and> ''Strict-Transport-Security'' \<in> fst ` set (rp_headers rep)"
proof -
  let ?inner = "security_headers True (ensure_csrf_cookie e (dispatch e rt fe h))"
  obtain rep where rep: "fst (serve e rt fe h r s) = Answered rep"
    using recoverer_headers(2)[of ?inner r s] assms by (auto simp: serve_def)
  have "''Strict-Transport-Security'' \<in> fst ` set (security_header_list True)"
    unfolding set_map[symmetric] security_header_names by simp
  also have "fst ` set (security_header_list True) \<subseteq> fst ` set (outcome_headers (fst (?inner r s)))"
    unfolding security_headers_def fst_map_prod by (rule on_reply_headers)
  also have "\<dots> \<subseteq> fst ` set (outcome_headers (fst (serve e rt fe h r s)))"
    using recoverer_headers(1)[of ?inner r s] assms by (simp add: serve_def)
  finally show ?thesis using rep by simp
qed

text \<open>A page served through the fallback is logged under the path of the front page.\<close>

lemma fallback_logged_as_root:
  assumes "rt api_routes (hr_method r) (hr_path r) = Not_Found b" "falls_back fe r"
  shows "ll_path (request_log rt fe r out) = ''/''"
  using assms by (simp add: request_log_def)

section \<open>A sample server\<close>

definition sample_server_config :: server_config where
  "sample_server_config = \<lparr>cg_http_addr = ''127.0.0.1:8080'', cg_data_dir = ''/data'', cg_backup_dir = ''/backups'',
     cg_docker_host = ''unix:///var/run/docker.sock'', cg_session_cookie = ''backorbit_session'',
     cg_session_ttl = 24 * 3600 * 1000000000, cg_trust_proxy = False, cg_master_key_file = []\<rparr>"

definition sample_env :: "instant \<Rightarrow> server_env" where
  "sample_env now = \<lparr>en_config = sample_server_config, en_auth = plain_auth_world, en_check = auth_call_at [] 0 now,
     en_call = auth_call_at ''u1'' 1 now, en_issue = auth_call_at ''s1'' 3 now, en_csrf_draw = 5, en_event_fault = False,
     en_event_id = ''e1'', en_now = now, en_ping = True, en_docker = None, en_discovered = None, en_project = quiet_env ''p1'',
     en_scan = [], en_read_dir = (\<lambda>_. None), en_digest = (\<lambda>_. ''f''), en_analysis = stack_world True,
     en_crypto = plain_crypto, en_secret = calm_call ''c1'', en_repository = sample_call ''r1'', en_start = sample_start,
     en_restore = sample_restore_world\<rparr>"

definition sample_server :: "auth_db \<Rightarrow> server_state" where
  "sample_server db = \<lparr>sv_auth = db, sv_limiter = login_limiter, sv_recorder = \<lparr>audit_rows = [], feed = new_broker\<rparr>,
     sv_secrets = new_store, sv_repositories = [], sv_engine = rs_engine ready_state, sv_disk = linked_disk,
     sv_projects = [], sv_blueprints = [], sv_backups = no_backups, sv_runs = [], sv_snapshots = [],
     sv_restores = no_restores, sv_restore_runs = [], sv_restore_dirs = [], sv_calls = []\<rparr>"

definition admin_digest :: string where
  "admin_digest = take 32 (''correct horse'' @ replicate 32 CHR ''0'')"

definition admin_row :: user_row where
  "admin_row = \<lparr>ur_id = ''u1'', ur_username = ''admin'',
     ur_hash = encode_hash (pw_version (aw_password plain_auth_world)) default_argon2_params (replicate 16 CHR ''s'') admin_digest,
     ur_created = rfc3339_nano 0, ur_updated = rfc3339_nano 0\<rparr>"

definition admin_db :: auth_db where
  "admin_db = \<lparr>ad_users = [admin_row], ad_sessions = []\<rparr>"

definition sample_request_to :: "string \<Rightarrow> string \<Rightarrow> (string \<times> string) list \<Rightarrow> (string \<times> json) list \<Rightarrow> http_request" where
  "sample_request_to m p cookies ms = \<lparr>hr_method = m, hr_path = p, hr_query = [],
     hr_headers = [(''X-CSRF-Token'', ''c0ffee'')], hr_cookies = (''backorbit_csrf'', ''c0ffee'') # cookies,
     hr_remote_addr = ''10.0.0.7:4711'', hr_tls = False, hr_body = \<lparr>rb_value = Some (J_Object ms), rb_length = 100\<rparr>\<rparr>"

definition login_request :: "string \<Rightarrow> string \<Rightarrow> http_request" where
  "login_request name pass = sample_request_to ''POST'' ''/api/v1/auth/login'' []
     [(''username'', J_String name), (''password'', J_String pass)]"

text \<open>A router that knows patterns without parameters only.\<close>

definition exact_router :: router where
  "exact_router rs m p =
     (case find (\<lambda>r. ro_method r = m \<and> ro_pattern r = p) rs of
        Some r \<Rightarrow> To_Route r []
      | None \<Rightarrow> Not_Found (has_prefix p ''/api/v1/''))"

lemma exact_router_registered: "registered_only exact_router"
  unfolding registered_only_def exact_router_def by (auto split: option.splits dest: find_SomeD)

lemma sample_kdf: "sound_kdf (aw_password plain_auth_world)" "complete_reads (aw_password plain_auth_world)"
  by (auto simp: sound_kdf_def complete_reads_def plain_auth_world_def plain_password_world_def split: if_splits)

lemma admin_authenticates:
  "fst (authenticate plain_auth_world (auth_call_at i d t) ''admin'' ''correct horse'' admin_db) = Inr (user_of_row admin_row)"
proof -
  have "pw_idkey (aw_password plain_auth_world) ''correct horse'' (replicate 16 CHR ''s'') 3 65536 2 32 = Some admin_digest"
    by (simp add: plain_auth_world_def plain_password_world_def admin_digest_def)
  moreover have "length admin_digest = 32" by (simp add: admin_digest_def)
  ultimately have "verify_password (aw_password plain_auth_world) (ur_hash admin_row) ''correct horse'' = Inr True"
    using verify_encoded[OF sample_kdf(1)] by (simp add: admin_row_def)
  then show ?thesis by (simp add: authenticate_def auth_call_at_def admin_db_def) (simp add: admin_row_def)
qed

lemma admin_db_wf [simp]: "auth_wf admin_db"
  by (simp add: auth_wf_def admin_db_def)

lemma login_request_decodes:
  "decode_json login_spec (login_request n p) = Some [(''username'', J_String n), (''password'', J_String p)]"
proof -
  have "list_all (member_ok login_spec) [(''username'', J_String n), (''password'', J_String p)]" by code_simp
  then show ?thesis
    by (simp add: decode_json_def login_request_def sample_request_to_def max_request_body_bytes_def)
qed

lemma login_request_fields:
  "string_field [(''username'', J_String n), (''password'', J_String p)] ''username'' = n"
  "string_field [(''username'', J_String n), (''password'', J_String p)] ''password'' = p"
proof -
  have "equal_fold ''username'' ''username''" "equal_fold ''password'' ''password''"
    "\<not> equal_fold ''password'' ''username''" "\<not> equal_fold ''username'' ''password''" by code_simp+
  then show "string_field [(''username'', J_String n), (''password'', J_String p)] ''username'' = n"
    "string_field [(''username'', J_String n), (''password'', J_String p)] ''password'' = p"
    by (simp_all only: string_field_def fold.simps comp_apply id_apply prod.case if_True if_False json.case)
qed

lemma sample_token: "generate_token plain_auth_world 3 = Inr (base64_encode url_alphabet (replicate 32 (char_of (3::nat))))"
  by (simp add: generate_token_def plain_auth_world_def plain_password_world_def)

lemma sample_login:
  obtains rep s' where "handle_login (sample_env now) (login_request ''admin'' ''correct horse'') (sample_server admin_db) = (Answered rep, s')"
    "rp_status rep = 200"
proof -
  let ?e = "sample_env now" and ?r = "login_request ''admin'' ''correct horse''"
  let ?key = "rate_limit_key ?r ''admin''" and ?u = "user_of_row admin_row"
  let ?s1 = "(sample_server admin_db)\<lparr>sv_limiter := login_limiter\<rparr>"
  have al: "allow (ac_now (en_call ?e)) ?key (sv_limiter (sample_server admin_db)) = (True, login_limiter)"
    by (simp add: sample_server_def login_limiter_def new_limiter_def allow_def)
  have au: "fst (authenticate (en_auth ?e) (en_call ?e) ''admin'' ''correct horse'' (sv_auth (sample_server admin_db))) = Inr ?u"
    using admin_authenticates by (simp add: sample_env_def sample_server_def)
  have step: "handle_login ?e ?r (sample_server admin_db) = login_succeeded ?e ?r ?key ?u ?s1"
    by (simp add: handle_login_def login_request_decodes login_request_fields Let_def al au)
  have uid: "us_id ?u = ''u1''" by (simp add: user_of_row_def admin_row_def)
  have "generate_token (session_world ?e) 3 = Inr (base64_encode url_alphabet (replicate 32 (char_of (3::nat))))"
    using sample_token by (simp add: session_world_def sample_env_def generate_token_def)
  then obtain se db where "create_session (session_world ?e) (en_issue ?e) ''u1'' (remote_ip ?r) (user_agent ?r) admin_db = (Inr se, db)"
    by (simp add: create_session_def insert_session_row_def sample_env_def auth_call_at_def admin_db_def Let_def) (simp add: admin_row_def)
  then obtain k s2 where "start_session ?e ?r ?u (?s1\<lparr>sv_limiter := record_success ?key (sv_limiter ?s1)\<rparr>) = (Some (se, k), s2)"
    by (simp add: start_session_def uid sample_server_def)
  then have "fst (handle_login ?e ?r (sample_server admin_db)) = user_reply 200 ?u se k"
    unfolding step by (simp add: login_succeeded_def)
  then show ?thesis using that by (cases "handle_login ?e ?r (sample_server admin_db)")
    (simp add: user_reply_def with_cookie_def write_json_def)
qed

theorem login_needs_password_witness:
  "\<exists>u. fst (authenticate plain_auth_world (auth_call_at ''u1'' 1 9) ''admin'' ''correct horse'' admin_db) = Inr u"
proof -
  obtain rep s' where l: "handle_login (sample_env 9) (login_request ''admin'' ''correct horse'') (sample_server admin_db) = (Answered rep, s')"
    "rp_status rep = 200" by (rule sample_login)
  show ?thesis using login_needs_password[OF l(1)] l(2)
    by (auto simp: login_request_decodes login_request_fields) (simp add: sample_env_def sample_server_def)
qed


definition logout_session_row :: session_row where
  "logout_session_row = \<lparr>sr_id = ''s1'', sr_user = ''u1'', sr_token_hash = ''ba'', sr_ip = [], sr_agent = [],
     sr_expires = rfc3339_nano 0, sr_created = rfc3339_nano 0\<rparr>"

definition logout_request :: http_request where
  "logout_request = sample_request_to ''POST'' ''/api/v1/auth/logout'' [(''backorbit_session'', ''ab'')] []"

theorem logout_ends_session_witness:
  "\<not> (\<exists>se u db. admitted (sample_env 5) logout_request
       (snd (handle_logout (sample_env 0) None logout_request (sample_server (admin_db\<lparr>ad_sessions := [logout_session_row]\<rparr>)))) se u db)"
proof -
  let ?s = "sample_server (admin_db\<lparr>ad_sessions := [logout_session_row]\<rparr>)"
  obtain out s' where l: "handle_logout (sample_env 0) None logout_request ?s = (out, s')" by fastforce
  have ok: "ac_fault (en_call (sample_env 0)) ''delete session'' = None" "en_auth (sample_env 5) = en_auth (sample_env 0)"
    by (simp_all add: sample_env_def auth_call_at_def)
  have tok: "token_from_cookie logout_request (cg_session_cookie (en_config (sample_env t))) = ''ab''" for t
    unfolding sample_env_def sample_config_def server_env.select_convs server_config.select_convs by code_simp
  have "''ab'' \<noteq> []" by simp
  from logout_ends_session[OF l ok(1) tok this, of "[]" s' "sample_env 5" logout_request] ok(2) tok
  show ?thesis unfolding l by simp
qed


text \<open>A handler that changes something wherever it is called, to see the gate at work.\<close>

definition marking_endpoints :: "api_value endpoints" where
  "marking_endpoints ep su ps r s = (Answered (status_only 204), s\<lparr>sv_restore_dirs := [hr_path r]\<rparr>)"

theorem requests_gated_witness:
  "\<exists>ro ps. exact_router api_routes ''POST'' ''/api/v1/auth/login'' = To_Route ro ps \<and> ro \<in> set api_routes \<and>
     (ro_endpoint ro = E_Healthz \<or> csrf_passed (login_request ''a'' ''b''))"
proof -
  let ?r = "login_request ''a'' ''b''" and ?s = "sample_server admin_db"
  have m: "hr_method ?r = ''POST''" "hr_path ?r = ''/api/v1/auth/login''" by (simp_all add: login_request_def sample_request_to_def)
  have route: "exact_router api_routes ''POST'' ''/api/v1/auth/login'' = To_Route (make_route ''POST'' ''/api/v1/auth/login'' E_Login Public) []"
    by code_simp
  have c: "cookie_value ?r csrf_cookie_name = Some ''c0ffee''" "header_get ?r csrf_header_name = ''c0ffee''" by code_simp+
  then have pass: "csrf_passed ?r" by (simp add: csrf_passed_def)
  from c(1) have "snd (serve (sample_env 0) exact_router None marking_endpoints ?r ?s) = ?s\<lparr>sv_restore_dirs := [''/api/v1/auth/login'']\<rparr>"
    by (simp add: serve_def ensure_csrf_cookie_def dispatch_def m route csrf_protect_passed[OF pass] marking_endpoints_def)
      (simp add: make_route_def csrf_protect_passed[OF pass] marking_endpoints_def m)
  then have "but_sessions (snd (serve (sample_env 0) exact_router None marking_endpoints ?r ?s)) \<noteq> but_sessions ?s"
    by (simp add: but_sessions_def sample_server_def)
  from requests_gated[OF exact_router_registered this] show ?thesis unfolding m by blast
qed

end
