(* ===== verification/Spec2Isabelle.thy ===== *)
theory Spec2Isabelle
  imports Restore_Run Blueprint_Match Events Project_Registry Analyzer_Service Backup_Start Go_Time Docker_Listing Repositories Login_Limiter Auth_Store Api_Auth
begin

text \<open>
  A verification library for the Back-Orbit server.
\<close>

end
